(* ===== verification/Prelude.thy ===== *)
theory Prelude
  imports Main "HOL-Library.List_Lexorder" "HOL-Library.Char_ord"
begin

text \<open>
  What every component shares: the result type of code that raises, the early-exit loop, and the
  part of Python's \<open>str\<close>, \<open>list\<close> and \<open>dict\<close> that the harness uses.

  A Python \<open>str\<close> is a \<^typ>\<open>string\<close>: a list of code points 0..255. Splitting, stripping,
  slicing and comparing are exact on that range. \<open>casefold\<close> and \<open>upper\<close> are exact on it too but
  for the two letters whose image lies outside it (code points 181 and 255), which they keep.
  Code that depends on full Unicode normalisation takes the normaliser as a parameter instead.
\<close>

section \<open>Results of code that raises\<close>

text \<open>\<open>Inl e\<close> is the exception \<open>e\<close>, \<open>Inr x\<close> the returned value.\<close>

type_synonym ('e, 'a) res = "'e + 'a"

named_theorems res_simps \<open>inversion of successful results\<close>

definition and_then :: "('e, 'a) res \<Rightarrow> ('a \<Rightarrow> ('e, 'b) res) \<Rightarrow> ('e, 'b) res" where
  "and_then r f = (case r of Inl e \<Rightarrow> Inl e | Inr x \<Rightarrow> f x)"

definition check :: "bool \<Rightarrow> 'e \<Rightarrow> ('e, unit) res" where
  "check b e = (if b then Inr () else Inl e)"

lemma and_then_simps [simp]:
  "and_then (Inl e) f = Inl e"
  "and_then (Inr x) f = f x"
  by (simp_all add: and_then_def)

lemma and_then_Inr [res_simps]: "and_then r f = Inr y \<longleftrightarrow> (\<exists>x. r = Inr x \<and> f x = Inr y)"
  by (cases r) auto

lemma and_then_Inl: "and_then r f = Inl e \<longleftrightarrow> r = Inl e \<or> (\<exists>x. r = Inr x \<and> f x = Inl e)"
  by (cases r) auto

lemma check_Inr [res_simps]: "check b e = Inr x \<longleftrightarrow> b"
  by (simp add: check_def)

lemma check_Inl: "check b e = Inl e' \<longleftrightarrow> \<not> b \<and> e' = e"
  by (auto simp: check_def)

lemma check_simps [simp]: "check True e = Inr ()" "check False e = Inl e"
  by (simp_all add: check_def)

lemma if_Inl_Inr [res_simps]: "(if b then Inl e else r) = Inr x \<longleftrightarrow> \<not> b \<and> r = Inr x"
  by simp

lemma first_error_None [simp]:
  "(case x of None \<Rightarrow> y | Some e \<Rightarrow> Some e) = None \<longleftrightarrow> x = None \<and> y = None"
  by (cases x) simp_all

text \<open>A \<open>for\<close> loop over a list whose body may raise.\<close>

fun fold_res :: "('a \<Rightarrow> 's \<Rightarrow> ('e, 's) res) \<Rightarrow> 'a list \<Rightarrow> 's \<Rightarrow> ('e, 's) res" where
  "fold_res f [] s = Inr s"
| "fold_res f (x # xs) s = and_then (f x s) (fold_res f xs)"

lemma fold_res_append: "fold_res f (xs @ ys) s = and_then (fold_res f xs s) (fold_res f ys)"
proof (induction xs arbitrary: s)
  case (Cons x xs)
  then show ?case by (cases "f x s") simp_all
qed simp

lemma fold_res_invariant:
  assumes "fold_res f xs s = Inr t" "P s"
    and "\<And>x s s'. x \<in> set xs \<Longrightarrow> P s \<Longrightarrow> f x s = Inr s' \<Longrightarrow> P s'"
  shows "P t"
  using assms
proof (induction xs arbitrary: s)
  case (Cons x xs)
  then show ?case by (auto simp: res_simps)
qed simp

text \<open>A loop whose body keeps no state, only raises.\<close>

definition check_all :: "('a \<Rightarrow> ('e, unit) res) \<Rightarrow> 'a list \<Rightarrow> ('e, unit) res" where
  "check_all f xs = fold_res (\<lambda>x _. f x) xs ()"

lemma check_all_simps [simp]:
  "check_all f [] = Inr ()"
  "check_all f (x # xs) = and_then (f x) (\<lambda>_. check_all f xs)"
  by (simp_all add: check_all_def)

lemma check_all_Inr [res_simps]: "check_all f xs = Inr u \<longleftrightarrow> (\<forall>x \<in> set xs. f x = Inr ())"
  by (induction xs) (auto simp: res_simps)

section \<open>Values of unknown type\<close>

text \<open>An argument annotated \<open>object\<close>: a string, or something else the code tests for.\<close>

datatype pyobj = PyStr string | PyOther

section \<open>Strings\<close>

fun split_on :: "char \<Rightarrow> string \<Rightarrow> string list" where
  "split_on c [] = [[]]"
| "split_on c (x # xs) =
     (if x = c then [] # split_on c xs
      else (case split_on c xs of [] \<Rightarrow> [[x]] | y # ys \<Rightarrow> (x # y) # ys))"

fun join_with :: "string \<Rightarrow> string list \<Rightarrow> string" where
  "join_with sep [] = []"
| "join_with sep [x] = x"
| "join_with sep (x # y # ys) = x @ sep @ join_with sep (y # ys)"

lemma split_on_nonempty [simp]: "split_on c s \<noteq> []"
  by (induction s) (auto split: list.split)

lemma join_with_Cons: "ys \<noteq> [] \<Longrightarrow> join_with sep (x # ys) = x @ sep @ join_with sep ys"
  by (cases ys) auto

lemma join_with_head: "join_with sep ((x # y) # ys) = x # join_with sep (y # ys)"
  by (cases ys) auto

lemma join_split_on [simp]: "join_with [c] (split_on c s) = s"
proof (induction s)
  case (Cons x xs)
  then show ?case
    by (auto simp: join_with_Cons join_with_head split: list.split)
qed simp

lemma split_on_no_sep: "p \<in> set (split_on c s) \<Longrightarrow> c \<notin> set p"
proof (induction s arbitrary: p)
  case (Cons x xs)
  then show ?case
    by (cases "split_on c xs") (auto split: if_splits)
qed simp

lemma split_on_chars: "p \<in> set (split_on c s) \<Longrightarrow> set p \<subseteq> set s"
proof (induction s arbitrary: p)
  case (Cons x xs)
  then show ?case
    by (cases "split_on c xs") (fastforce split: if_splits)+
qed simp

lemma set_split_on: "set s - {c} \<subseteq> (\<Union>p \<in> set (split_on c s). set p)"
proof (induction s)
  case (Cons x xs)
  then show ?case
    by (cases "split_on c xs") auto
qed simp

lemma split_on_single: "c \<notin> set s \<Longrightarrow> split_on c s = [s]"
  by (induction s) auto

lemma split_on_append: "c \<notin> set s \<Longrightarrow> split_on c (s @ c # t) = s # split_on c t"
  by (induction s) auto

lemma split_on_snoc: "split_on c (t @ [c]) = split_on c t @ [[]]"
proof (induction t)
  case (Cons x xs)
  then show ?case by (cases "split_on c xs") auto
qed simp

lemma split_on_join:
  "ps \<noteq> [] \<Longrightarrow> (\<And>p. p \<in> set ps \<Longrightarrow> c \<notin> set p) \<Longrightarrow> split_on c (join_with [c] ps) = ps"
proof (induction ps rule: induct_list012)
  case (2 x)
  then show ?case by (simp add: split_on_single)
next
  case (3 x y zs)
  then show ?case by (simp add: split_on_append)
qed simp

definition starts_with :: "string \<Rightarrow> string \<Rightarrow> bool" where
  "starts_with s p \<longleftrightarrow> take (length p) s = p"

definition ends_with :: "string \<Rightarrow> string \<Rightarrow> bool" where
  "ends_with s p \<longleftrightarrow> length p \<le> length s \<and> drop (length s - length p) s = p"

lemma starts_with_iff: "starts_with s p \<longleftrightarrow> (\<exists>t. s = p @ t)"
  by (metis append_eq_conv_conj append_take_drop_id starts_with_def)

lemma starts_with_append [simp]: "starts_with (p @ t) p"
  by (simp add: starts_with_def)

lemma starts_with_Nil [simp]: "starts_with s []"
  by (simp add: starts_with_def)

lemma starts_with_Cons [simp]:
  "starts_with [] (p # ps) = False"
  "starts_with (x # xs) (p # ps) \<longleftrightarrow> x = p \<and> starts_with xs ps"
  by (auto simp: starts_with_def)

lemma ends_with_iff: "ends_with s p \<longleftrightarrow> (\<exists>t. s = t @ p)"
  by (metis add_diff_cancel_right' append_eq_conv_conj append_take_drop_id ends_with_def
      length_append le_add2)

text \<open>\<open>str.isspace\<close> on code points 0..255, and \<open>strip\<close>.\<close>

definition is_space :: "char \<Rightarrow> bool" where
  "is_space c = (let n = (of_char c :: nat) in
     (9 \<le> n \<and> n \<le> 13) \<or> (28 \<le> n \<and> n \<le> 32) \<or> n = 133 \<or> n = 160)"

definition py_lstrip :: "string \<Rightarrow> string" where
  "py_lstrip s = dropWhile is_space s"

definition py_strip :: "string \<Rightarrow> string" where
  "py_strip s = rev (dropWhile is_space (rev (dropWhile is_space s)))"

lemma py_strip_subset: "set (py_strip s) \<subseteq> set s"
  by (auto simp: py_strip_def dest!: set_dropWhileD)

lemma py_strip_empty_iff: "py_strip s = [] \<longleftrightarrow> (\<forall>c \<in> set s. is_space c)"
proof (cases "dropWhile is_space s")
  case Nil
  then have "\<forall>c \<in> set s. is_space c" by (simp add: dropWhile_eq_Nil_conv)
  with Nil show ?thesis by (simp add: py_strip_def del: dropWhile_eq_Nil_conv)
next
  case (Cons c t)
  then have c: "\<not> is_space c" using hd_dropWhile [of is_space s] by simp
  moreover have "c \<in> set s" using Cons by (metis list.set_intros(1) set_dropWhileD)
  moreover have "dropWhile is_space (rev t @ [c]) \<noteq> []"
    using c by (simp add: dropWhile_append)
  ultimately show ?thesis using Cons by (auto simp: py_strip_def)
qed

text \<open>\<open>str.split()\<close>: the maximal runs of non-space characters.\<close>

fun split_ws_aux :: "string \<Rightarrow> string \<Rightarrow> string list" where
  "split_ws_aux acc [] = (if acc = [] then [] else [rev acc])"
| "split_ws_aux acc (c # s) =
     (if is_space c then (if acc = [] then split_ws_aux [] s else rev acc # split_ws_aux [] s)
      else split_ws_aux (c # acc) s)"

definition split_ws :: "string \<Rightarrow> string list" where
  "split_ws s = split_ws_aux [] s"

text \<open>\<open>strip(c)\<close> for one character.\<close>

definition strip_char :: "char \<Rightarrow> string \<Rightarrow> string" where
  "strip_char c s = rev (dropWhile (\<lambda>x. x = c) (rev (dropWhile (\<lambda>x. x = c) s)))"

text \<open>\<open>str.splitlines\<close>: the line boundaries below 256, with carriage return and line feed together as one.\<close>

definition is_linebreak :: "char \<Rightarrow> bool" where
  "is_linebreak c = (let n = (of_char c :: nat) in
     (10 \<le> n \<and> n \<le> 13) \<or> (28 \<le> n \<and> n \<le> 30) \<or> n = 133)"

fun splitlines_aux :: "string \<Rightarrow> string \<Rightarrow> string list" where
  "splitlines_aux acc [] = (if acc = [] then [] else [rev acc])"
| "splitlines_aux acc (c # d # s) =
     (if c = CHR 0x0D \<and> d = CHR 0x0A then rev acc # splitlines_aux [] s
      else if is_linebreak c then rev acc # splitlines_aux [] (d # s)
      else splitlines_aux (c # acc) (d # s))"
| "splitlines_aux acc [c] =
     (if is_linebreak c then [rev acc] else [rev (c # acc)])"

definition splitlines :: "string \<Rightarrow> string list" where
  "splitlines s = splitlines_aux [] s"

text \<open>Upper and lower case.\<close>

definition fold_char :: "char \<Rightarrow> string" where
  "fold_char c = (let n = (of_char c :: nat) in
     if (65 \<le> n \<and> n \<le> 90) \<or> (192 \<le> n \<and> n \<le> 222 \<and> n \<noteq> 215) then [char_of (n + 32)]
     else if n = 223 then ''ss'' else [c])"

definition casefold :: "string \<Rightarrow> string" where
  "casefold s = concat (map fold_char s)"

definition upper_char :: "char \<Rightarrow> string" where
  "upper_char c = (let n = (of_char c :: nat) in
     if (97 \<le> n \<and> n \<le> 122) \<or> (224 \<le> n \<and> n \<le> 254 \<and> n \<noteq> 247) then [char_of (n - 32)]
     else if n = 223 then ''SS'' else [c])"

definition py_upper :: "string \<Rightarrow> string" where
  "py_upper s = concat (map upper_char s)"

lemma casefold_Nil [simp]: "casefold [] = []"
  by (simp add: casefold_def)

lemma casefold_Cons [simp]: "casefold (c # s) = fold_char c @ casefold s"
  by (simp add: casefold_def)

lemma casefold_append: "casefold (s @ t) = casefold s @ casefold t"
  by (simp add: casefold_def)

text \<open>\<open>str(n)\<close> for a natural number, and substring search.\<close>

fun nat_str :: "nat \<Rightarrow> string" where
  "nat_str n = (if n < 10 then [char_of (48 + n)] else nat_str (n div 10) @ [char_of (48 + n mod 10)])"

declare nat_str.simps [simp del]

fun contains_sub :: "string \<Rightarrow> string \<Rightarrow> bool" where
  "contains_sub p [] \<longleftrightarrow> p = []"
| "contains_sub p (x # xs) \<longleftrightarrow> starts_with (x # xs) p \<or> contains_sub p xs"

lemma contains_sub_iff: "contains_sub p s \<longleftrightarrow> (\<exists>a b. s = a @ p @ b)"
proof (induction s)
  case IH: (Cons x xs)
  show ?case
  proof
    assume "contains_sub p (x # xs)"
    then consider "starts_with (x # xs) p" | "contains_sub p xs" by auto
    then show "\<exists>a b. x # xs = a @ p @ b"
    proof cases
      case 1
      then obtain t where "x # xs = [] @ p @ t" by (auto simp only: starts_with_iff append_Nil)
      then show ?thesis by blast
    next
      case 2
      then obtain a b where "x # xs = (x # a) @ p @ b" using IH.IH by auto
      then show ?thesis by blast
    qed
  next
    assume "\<exists>a b. x # xs = a @ p @ b"
    then obtain a b where "x # xs = a @ p @ b" by blast
    then show "contains_sub p (x # xs)"
    proof (cases a)
      case Nil
      with \<open>x # xs = a @ p @ b\<close> have "starts_with (x # xs) p" by simp
      then show ?thesis by simp
    next
      case (Cons c a')
      with \<open>x # xs = a @ p @ b\<close> show ?thesis using IH.IH by auto
    qed
  qed
qed simp

text \<open>\<open>str.replace(old, new)\<close> for a nonempty \<open>old\<close>.\<close>

function replace_sub :: "string \<Rightarrow> string \<Rightarrow> string \<Rightarrow> string" where
  "replace_sub old new s =
     (if old = [] \<or> s = [] then s
      else if starts_with s old then new @ replace_sub old new (drop (length old) s)
      else hd s # replace_sub old new (tl s))"
  by pat_completeness auto
termination
  by (relation "measure (\<lambda>(_, _, s). length s)") auto

declare replace_sub.simps [simp del]

text \<open>\<open>str.isalpha\<close> of one character.\<close>

definition is_alpha :: "char \<Rightarrow> bool" where
  "is_alpha c = (let n = (of_char c :: nat) in
     (65 \<le> n \<and> n \<le> 90) \<or> (97 \<le> n \<and> n \<le> 122) \<or> n \<in> set [170, 181, 186]
     \<or> (192 \<le> n \<and> n \<noteq> 215 \<and> n \<noteq> 247))"

text \<open>\<open>PurePosixPath(s)\<close>: absolute, and its parts without empty and dot components.\<close>

definition posix_absolute :: "string \<Rightarrow> bool" where
  "posix_absolute s = starts_with s ''/''"

definition posix_parts :: "string \<Rightarrow> string list" where
  "posix_parts s = filter (\<lambda>p. p \<noteq> [] \<and> p \<noteq> ''.'') (split_on CHR ''/'' s)"

section \<open>Lists, sets and dictionaries\<close>

text \<open>\<open>dict.fromkeys(xs)\<close> in iteration order: the first occurrence of each element.\<close>

fun dedup :: "'a list \<Rightarrow> 'a list" where
  "dedup [] = []"
| "dedup (x # xs) = x # filter (\<lambda>y. y \<noteq> x) (dedup xs)"

lemma set_dedup [simp]: "set (dedup xs) = set xs"
  by (induction xs) auto

lemma distinct_dedup [simp]: "distinct (dedup xs)"
  by (induction xs) auto

lemma dedup_distinct: "distinct xs \<Longrightarrow> dedup xs = xs"
  by (induction xs) (auto intro: filter_True)

text \<open>\<open>sorted(set(xs))\<close>.\<close>

definition sorted_set :: "'a::linorder list \<Rightarrow> 'a list" where
  "sorted_set xs = sort (remdups xs)"

lemma sorted_set_props [simp]:
  "set (sorted_set xs) = set xs" "sorted (sorted_set xs)" "distinct (sorted_set xs)"
  by (simp_all add: sorted_set_def)

lemma sorted_set_unique: "set xs = set ys \<Longrightarrow> sorted_set xs = sorted_set ys"
  by (intro sorted_distinct_set_unique) simp_all

lemma sorted_set_Nil_iff [simp]: "sorted_set xs = [] \<longleftrightarrow> xs = []"
  by (metis set_empty sorted_set_props(1))

text \<open>A \<open>dict\<close> whose iteration order the code relies on is an association list in insertion
  order: storing to a known key keeps its place, a new key goes last.\<close>

fun alist_put :: "'k \<Rightarrow> 'v \<Rightarrow> ('k \<times> 'v) list \<Rightarrow> ('k \<times> 'v) list" where
  "alist_put k v [] = [(k, v)]"
| "alist_put k v ((k', v') # d) = (if k' = k then (k, v) # d else (k', v') # alist_put k v d)"

lemma map_of_alist_put [simp]: "map_of (alist_put k v d) = (map_of d)(k \<mapsto> v)"
  by (induction k v d rule: alist_put.induct) auto

lemma alist_put_fresh: "k \<notin> fst ` set d \<Longrightarrow> alist_put k v d = d @ [(k, v)]"
  by (induction k v d rule: alist_put.induct) auto

lemma keys_alist_put: "set (map fst (alist_put k v d)) = insert k (set (map fst d))"
  by (induction k v d rule: alist_put.induct) auto

lemma distinct_alist_put: "distinct (map fst d) \<Longrightarrow> distinct (map fst (alist_put k v d))"
proof (induction k v d rule: alist_put.induct)
  case (2 k v k' v' d)
  then show ?case
    using keys_alist_put [of k v d] by auto
qed simp

text \<open>\<open>enumerate(xs)\<close> pairs each element with its index.\<close>

definition enum_list :: "'a list \<Rightarrow> (nat \<times> 'a) list" where
  "enum_list xs = zip [0..<length xs] xs"

lemma set_enum_list: "(i, x) \<in> set (enum_list xs) \<longleftrightarrow> i < length xs \<and> xs ! i = x"
  by (force simp: enum_list_def set_zip)

lemma map_fst_enum_list [simp]: "map fst (enum_list xs) = [0..<length xs]"
  by (simp add: enum_list_def)

lemma map_snd_enum_list [simp]: "map snd (enum_list xs) = xs"
  by (simp add: enum_list_def)

text \<open>Sorting a dictionary by its keys is stable, so it keeps the entry that a lookup finds.\<close>

lemma map_of_filter: "map_of xs k = (case filter (\<lambda>p. fst p = k) xs of [] \<Rightarrow> None | p # ps \<Rightarrow> Some (snd p))"
  by (induction xs) auto

lemma map_of_sort_key: "map_of (sort_key fst xs) = map_of xs"
proof
  fix k
  have "filter (\<lambda>p. fst p = k) (sort_key fst xs) = filter (\<lambda>p. fst p = k) xs"
    by (simp add: sort_key_stable)
  then show "map_of (sort_key fst xs) k = map_of xs k" by (simp only: map_of_filter)
qed

end
