(* ===== verification/Job_Queue.thy ===== *)
theory Job_Queue
  imports Prelude
begin

text \<open>
  \<open>arena/server/jobs.py\<close>: the in-process queue of benchmark runs. Submitting takes the lock, counts,
  evicts and stores the job, and only after releasing it hands the job to the executor; the single
  worker thread takes jobs in the order they were handed over. The threads interleave, so the queue
  is a step relation whose steps are the locked sections, the hand-over and the worker's progress.
\<close>

section \<open>Jobs\<close>

datatype job_status = Queued | Running | Completed | Failed

record job =
  jb_status :: job_status
  jb_submitted_at :: int
  jb_started_at :: "int option"
  jb_completed_at :: "int option"
  jb_run_id :: "string option"
  jb_error :: "string option"

type_synonym job_table = "(string \<times> job) list"

definition active :: "job \<Rightarrow> bool" where
  "active j \<longleftrightarrow> jb_status j = Queued \<or> jb_status j = Running"

definition finished :: "job \<Rightarrow> bool" where
  "finished j \<longleftrightarrow> jb_status j = Completed \<or> jb_status j = Failed"

text \<open>\<open>_evict_finished_locked\<close>; the sort is stable.\<close>

definition finish_time :: "string \<times> job \<Rightarrow> int" where
  "finish_time = (\<lambda>(i, j). case jb_completed_at j of Some t \<Rightarrow> t | None \<Rightarrow> jb_submitted_at j)"

definition to_evict :: "nat \<Rightarrow> job_table \<Rightarrow> string list" where
  "to_evict max_finished jobs =
     (let done = filter (\<lambda>e. finished (snd e)) jobs in
      if length done \<le> max_finished then []
      else map fst (take (length done - max_finished) (sort_key finish_time done)))"

definition evict_finished :: "nat \<Rightarrow> job_table \<Rightarrow> job_table" where
  "evict_finished max_finished jobs =
     (let gone = to_evict max_finished jobs in filter (\<lambda>e. fst e \<notin> set gone) jobs)"

definition pending_count :: "job_table \<Rightarrow> nat" where
  "pending_count jobs = length (filter (\<lambda>e. active (snd e)) jobs)"

definition new_job :: "int \<Rightarrow> job" where
  "new_job now =
     \<lparr>jb_status = Queued, jb_submitted_at = now, jb_started_at = None, jb_completed_at = None,
      jb_run_id = None, jb_error = None\<rparr>"

text \<open>The locked part of \<open>submit\<close>: \<open>None\<close> when the queue is full.\<close>

definition admit :: "nat \<Rightarrow> nat \<Rightarrow> int \<Rightarrow> string \<Rightarrow> job_table \<Rightarrow> job_table option" where
  "admit max_pending max_finished now i jobs =
     (if pending_count jobs \<ge> max_pending then None
      else Some (alist_put i (new_job now) (evict_finished max_finished jobs)))"

definition update_job :: "string \<Rightarrow> (job \<Rightarrow> job) \<Rightarrow> job_table \<Rightarrow> job_table" where
  "update_job i f = map (\<lambda>(k, j). (k, if k = i then f j else j))"

definition mark_running :: "int \<Rightarrow> job \<Rightarrow> job" where
  "mark_running now j = j\<lparr>jb_status := Running, jb_started_at := Some now\<rparr>"

definition mark_failed :: "int \<Rightarrow> string \<Rightarrow> job \<Rightarrow> job" where
  "mark_failed now message j =
     j\<lparr>jb_status := Failed, jb_error := Some message, jb_completed_at := Some now\<rparr>"

definition mark_completed :: "int \<Rightarrow> string \<Rightarrow> job \<Rightarrow> job" where
  "mark_completed now run_id j =
     j\<lparr>jb_status := Completed, jb_run_id := Some run_id, jb_completed_at := Some now\<rparr>"

definition get_job :: "string \<Rightarrow> job_table \<Rightarrow> job option" where
  "get_job i jobs = map_of jobs i"

section \<open>The threads\<close>

text \<open>
  \<open>qs_handoff\<close> are the jobs stored but not yet given to the executor, \<open>qs_pool\<close> the executor's own
  queue and \<open>qs_worker\<close> the job its thread is running.
\<close>

record queue_state =
  qs_jobs :: job_table
  qs_handoff :: "string list"
  qs_pool :: "string list"
  qs_worker :: "string option"

datatype queue_label =
  Submit string | Refuse | HandOver string | Start string | Finish string "string + string"

definition empty_queue :: queue_state where
  "empty_queue = \<lparr>qs_jobs = [], qs_handoff = [], qs_pool = [], qs_worker = None\<rparr>"

text \<open>The identifier of a new job is a fresh \<open>uuid4\<close>.\<close>

inductive queue_step :: "nat \<Rightarrow> nat \<Rightarrow> queue_state \<Rightarrow> queue_label \<Rightarrow> queue_state \<Rightarrow> bool"
  for max_pending max_finished where
  submit: "i \<notin> fst ` set (qs_jobs s) \<Longrightarrow> admit max_pending max_finished now i (qs_jobs s) = Some jobs \<Longrightarrow>
     queue_step max_pending max_finished s (Submit i) (s\<lparr>qs_jobs := jobs, qs_handoff := qs_handoff s @ [i]\<rparr>)"
| refuse: "admit max_pending max_finished now i (qs_jobs s) = None \<Longrightarrow>
     queue_step max_pending max_finished s Refuse s"
| hand_over: "i \<in> set (qs_handoff s) \<Longrightarrow>
     queue_step max_pending max_finished s (HandOver i)
       (s\<lparr>qs_handoff := removeAll i (qs_handoff s), qs_pool := qs_pool s @ [i]\<rparr>)"
| start: "qs_worker s = None \<Longrightarrow> qs_pool s = i # rest \<Longrightarrow>
     queue_step max_pending max_finished s (Start i)
       (s\<lparr>qs_pool := rest, qs_worker := Some i, qs_jobs := update_job i (mark_running now) (qs_jobs s)\<rparr>)"
| complete: "qs_worker s = Some i \<Longrightarrow>
     queue_step max_pending max_finished s (Finish i (Inr run_id))
       (s\<lparr>qs_worker := None, qs_jobs := update_job i (mark_completed now run_id) (qs_jobs s)\<rparr>)"
| fail: "qs_worker s = Some i \<Longrightarrow>
     queue_step max_pending max_finished s (Finish i (Inl message))
       (s\<lparr>qs_worker := None, qs_jobs := update_job i (mark_failed now message) (qs_jobs s)\<rparr>)"

inductive_cases queue_submitE: "queue_step p f s (Submit i) t"
inductive_cases queue_handoverE: "queue_step p f s (HandOver i) t"
inductive_cases queue_startE: "queue_step p f s (Start i) t"
inductive_cases queue_finishE: "queue_step p f s (Finish i r) t"
inductive_simps queue_refuse_iff: "queue_step p f s Refuse t"

inductive reachable :: "nat \<Rightarrow> nat \<Rightarrow> queue_state \<Rightarrow> bool" for max_pending max_finished where
  initial: "reachable max_pending max_finished empty_queue"
| further: "reachable max_pending max_finished s \<Longrightarrow> queue_step max_pending max_finished s l t \<Longrightarrow>
     reachable max_pending max_finished t"

section \<open>Eviction\<close>

lemma active_finished: "active j \<longleftrightarrow> \<not> finished j"
  by (cases "jb_status j") (auto simp: active_def finished_def)

lemma count_active_finished:
  "pending_count jobs + length (filter (\<lambda>e. finished (snd e)) jobs) = length jobs"
  unfolding pending_count_def active_finished
  using sum_length_filter_compl [of "\<lambda>e. finished (snd e)" jobs] by simp

lemma map_fst_filter_distinct: "distinct (map fst xs) \<Longrightarrow> distinct (map fst (filter P xs))"
  by (induction xs) auto

lemma to_evict_props:
  assumes "distinct (map fst jobs)"
  shows "distinct (to_evict f jobs)"
    and "set (to_evict f jobs) \<subseteq> fst ` set (filter (\<lambda>e. finished (snd e)) jobs)"
    and "length (filter (\<lambda>e. finished (snd e)) jobs) \<le> f + length (to_evict f jobs)"
proof -
  let ?done = "filter (\<lambda>e. finished (snd e)) jobs"
  have "distinct (map fst (sort_key finish_time ?done))"
    using map_fst_filter_distinct [OF assms, of "\<lambda>e. finished (snd e)"] by (simp add: distinct_map)
  then show "distinct (to_evict f jobs)"
    by (simp add: to_evict_def Let_def distinct_take flip: take_map)
  show "set (to_evict f jobs) \<subseteq> fst ` set ?done"
    by (auto simp: to_evict_def Let_def dest!: in_set_takeD)
  show "length ?done \<le> f + length (to_evict f jobs)"
    by (simp add: to_evict_def Let_def)
qed

lemma length_remove_keys:
  assumes "distinct (map fst jobs)" "distinct gone" "set gone \<subseteq> fst ` set jobs"
  shows "length (filter (\<lambda>e. fst e \<notin> set gone) jobs) + length gone = length jobs"
proof -
  let ?in = "filter (\<lambda>e. fst e \<in> set gone) jobs"
  have "set (map fst ?in) = set gone" using assms(3) by auto
  moreover have "distinct (map fst ?in)" by (rule map_fst_filter_distinct [OF assms(1)])
  ultimately have "length ?in = length gone"
    using assms(2) by (metis distinct_card length_map)
  then show ?thesis
    using sum_length_filter_compl [of "\<lambda>e. fst e \<in> set gone" jobs] by simp
qed

lemma length_evict:
  assumes "distinct (map fst jobs)"
  shows "length (evict_finished f jobs) \<le> pending_count jobs + f"
proof -
  have "set (to_evict f jobs) \<subseteq> fst ` set jobs" using to_evict_props(2) [OF assms, of f] by auto
  from length_remove_keys [OF assms to_evict_props(1) [OF assms] this]
  show ?thesis
    using to_evict_props(3) [OF assms, of f] count_active_finished [of jobs]
    by (simp add: evict_finished_def Let_def)
qed

lemma map_of_evict:
  "map_of (evict_finished f jobs) k = (if k \<in> set (to_evict f jobs) then None else map_of jobs k)"
proof -
  have "map_of (filter (\<lambda>e. fst e \<notin> set g) jobs) k = (if k \<in> set g then None else map_of jobs k)" for g
    by (induction jobs) auto
  then show ?thesis by (simp add: evict_finished_def Let_def)
qed

section \<open>The invariant\<close>

definition status_of :: "job_table \<Rightarrow> string \<Rightarrow> job_status option" where
  "status_of jobs i = map_option jb_status (map_of jobs i)"

definition live :: "queue_state \<Rightarrow> string list" where
  "live s = qs_handoff s @ qs_pool s @ (case qs_worker s of None \<Rightarrow> [] | Some i \<Rightarrow> [i])"

definition queue_ok :: "nat \<Rightarrow> nat \<Rightarrow> queue_state \<Rightarrow> bool" where
  "queue_ok p f s \<longleftrightarrow>
     distinct (map fst (qs_jobs s)) \<and> distinct (qs_handoff s @ qs_pool s)
     \<and> (\<forall>i. status_of (qs_jobs s) i = Some Queued \<longleftrightarrow> i \<in> set (qs_handoff s @ qs_pool s))
     \<and> (\<forall>i. status_of (qs_jobs s) i = Some Running \<longleftrightarrow> qs_worker s = Some i)
     \<and> length (live s) \<le> p \<and> length (qs_jobs s) \<le> p + f"

lemma live_iff:
  assumes "queue_ok p f s"
  shows "i \<in> set (live s) \<longleftrightarrow>
    status_of (qs_jobs s) i = Some Queued \<or> status_of (qs_jobs s) i = Some Running"
  using assms unfolding queue_ok_def live_def by (cases "qs_worker s") auto

lemma worker_not_queued:
  assumes "queue_ok p f s" "qs_worker s = Some w"
  shows "w \<notin> set (qs_handoff s @ qs_pool s)"
proof -
  have "status_of (qs_jobs s) w = Some Running"
    "status_of (qs_jobs s) w = Some Queued \<longleftrightarrow> w \<in> set (qs_handoff s @ qs_pool s)"
    using assms by (simp_all add: queue_ok_def)
  then show ?thesis by simp
qed

lemma distinct_live:
  assumes "queue_ok p f s"
  shows "distinct (live s)"
proof (cases "qs_worker s")
  case (Some w)
  then show ?thesis using worker_not_queued [OF assms Some] assms by (simp add: live_def queue_ok_def)
qed (use assms in \<open>simp add: live_def queue_ok_def\<close>)

lemma map_of_update_job:
  "map_of (update_job i g jobs) k = (if k = i then map_option g (map_of jobs k) else map_of jobs k)"
  by (induction jobs) (auto simp: update_job_def)

lemma update_job_keys [simp]:
  "map fst (update_job i g jobs) = map fst jobs" "length (update_job i g jobs) = length jobs"
  by (induction jobs) (auto simp: update_job_def)

lemma active_live:
  assumes "queue_ok p f s"
  shows "pending_count (qs_jobs s) = length (live s)"
proof -
  let ?act = "filter (\<lambda>e. active (snd e)) (qs_jobs s)"
  have d: "distinct (map fst (qs_jobs s))" using assms by (simp add: queue_ok_def)
  have l: "distinct (live s)" by (rule distinct_live [OF assms])
  have "i \<in> fst ` set ?act \<longleftrightarrow> i \<in> set (live s)" for i
  proof -
    have "i \<in> fst ` set ?act \<longleftrightarrow> (\<exists>j. (i, j) \<in> set (qs_jobs s) \<and> active j)" by force
    also have "\<dots> \<longleftrightarrow> (\<exists>j. map_of (qs_jobs s) i = Some j \<and> active j)"
      by (simp add: map_of_eq_Some_iff [OF d])
    also have "\<dots> \<longleftrightarrow> i \<in> set (live s)"
      unfolding live_iff [OF assms] by (auto simp: status_of_def active_def)
    finally show ?thesis .
  qed
  then have "set (map fst ?act) = set (live s)" by auto
  then have "length (map fst ?act) = length (live s)"
    using l map_fst_filter_distinct [OF d] by (metis distinct_card)
  then show ?thesis by (simp add: pending_count_def)
qed

lemma live_known: "queue_ok p f s \<Longrightarrow> i \<in> set (live s) \<Longrightarrow> \<exists>j. map_of (qs_jobs s) i = Some j"
  unfolding live_iff status_of_def by auto

lemma submit_keeps:
  assumes "queue_ok p f s" "i \<notin> fst ` set (qs_jobs s)" "admit p f now i (qs_jobs s) = Some jobs"
  shows "queue_ok p f (s\<lparr>qs_jobs := jobs, qs_handoff := qs_handoff s @ [i]\<rparr>)"
proof -
  let ?t = "s\<lparr>qs_jobs := jobs, qs_handoff := qs_handoff s @ [i]\<rparr>"
  let ?e = "evict_finished f (qs_jobs s)"
  have fresh: "i \<notin> fst ` set ?e" using assms(2) by (auto simp: evict_finished_def Let_def)
  have room: "pending_count (qs_jobs s) < p" and jobs: "jobs = ?e @ [(i, new_job now)]"
    using assms(3) alist_put_fresh [OF fresh] by (auto simp: admit_def split: if_splits)
  have d: "distinct (map fst (qs_jobs s))" using assms(1) by (simp add: queue_ok_def)
  have keys: "distinct (map fst jobs)"
    unfolding jobs using fresh d by (simp add: evict_finished_def Let_def map_fst_filter_distinct)
  have gone: "status_of (qs_jobs s) k \<noteq> Some Queued" "status_of (qs_jobs s) k \<noteq> Some Running"
    if "k \<in> set (to_evict f (qs_jobs s))" for k
  proof -
    have "k \<in> fst ` set (filter (\<lambda>e. finished (snd e)) (qs_jobs s))"
      using that to_evict_props(2) [OF d, of f] by blast
    then obtain j where "(k, j) \<in> set (qs_jobs s)" "finished j" by auto
    then have "map_of (qs_jobs s) k = Some j" using d by simp
    then show "status_of (qs_jobs s) k \<noteq> Some Queued" "status_of (qs_jobs s) k \<noteq> Some Running"
      using \<open>finished j\<close> by (auto simp: status_of_def finished_def)
  qed
  have none: "status_of (qs_jobs s) i = None"
    using assms(2) by (simp add: status_of_def map_of_eq_None_iff)
  have st: "status_of jobs k = (if k = i then Some Queued
      else if k \<in> set (to_evict f (qs_jobs s)) then None else status_of (qs_jobs s) k)" for k
    using none
    by (auto simp: jobs status_of_def map_add_def map_of_evict new_job_def split: option.split)
  have queued: "status_of (qs_jobs s) k = Some Queued \<longleftrightarrow> k \<in> set (qs_handoff s @ qs_pool s)"
    and running: "status_of (qs_jobs s) k = Some Running \<longleftrightarrow> qs_worker s = Some k" for k
    using assms(1) by (simp_all add: queue_ok_def)
  have notlive: "i \<notin> set (qs_handoff s @ qs_pool s)" "qs_worker s \<noteq> Some i"
    using none queued [of i] running [of i] by simp_all
  have "status_of jobs k = Some Queued \<longleftrightarrow> k \<in> set ((qs_handoff s @ [i]) @ qs_pool s)" for k
    using queued [of k] gone(1) by (auto simp: st)
  moreover have "status_of jobs k = Some Running \<longleftrightarrow> qs_worker s = Some k" for k
    using running [of k] gone(2) notlive(2) by (auto simp: st)
  moreover have "distinct ((qs_handoff s @ [i]) @ qs_pool s)"
    using assms(1) notlive(1) by (auto simp: queue_ok_def)
  moreover have "length (live ?t) \<le> p"
    using room active_live [OF assms(1)] by (simp add: live_def)
  moreover have "length jobs \<le> p + f"
    using length_evict [OF d, of f] room by (simp add: jobs)
  ultimately show ?thesis using keys by (simp add: queue_ok_def)
qed

lemma status_of_update:
  "status_of (update_job i g jobs) k =
     (if k = i then map_option (jb_status \<circ> g) (map_of jobs i) else status_of jobs k)"
  by (simp add: status_of_def map_of_update_job option.map_comp)

lemma marks [simp]:
  "jb_status \<circ> mark_running now = (\<lambda>_. Running)"
  "jb_status \<circ> mark_completed now run_id = (\<lambda>_. Completed)"
  "jb_status \<circ> mark_failed now message = (\<lambda>_. Failed)"
  by (simp_all add: fun_eq_iff mark_running_def mark_completed_def mark_failed_def)

lemma update_keeps:
  assumes ok: "queue_ok p f s" and g: "jb_status \<circ> g = (\<lambda>_. st)" and known: "status_of (qs_jobs s) i \<noteq> None"
    and t: "qs_jobs t = update_job i g (qs_jobs s)" "length (live t) \<le> p"
      "distinct (qs_handoff t @ qs_pool t)"
    and queued: "\<And>k. k \<in> set (qs_handoff t @ qs_pool t) \<longleftrightarrow>
      (if k = i then st = Queued else k \<in> set (qs_handoff s @ qs_pool s))"
    and running: "\<And>k. qs_worker t = Some k \<longleftrightarrow> (if k = i then st = Running else qs_worker s = Some k)"
  shows "queue_ok p f t"
proof -
  have "map_of (qs_jobs s) i \<noteq> None" using known by (simp add: status_of_def)
  then have "status_of (qs_jobs t) k = (if k = i then Some st else status_of (qs_jobs s) k)" for k
    by (auto simp: t(1) status_of_update g)
  then show ?thesis
    using ok t queued running unfolding queue_ok_def by simp
qed

lemma step_keeps:
  assumes "queue_step p f s l t" "queue_ok p f s"
  shows "queue_ok p f t"
  using assms(1)
proof (cases rule: queue_step.cases)
  case (submit i now jobs)
  then show ?thesis using submit_keeps [OF assms(2)] by simp
next
  case refuse
  then show ?thesis using assms(2) by simp
next
  case (hand_over i)
  have d: "distinct (qs_handoff s @ qs_pool s)" using assms(2) by (simp add: queue_ok_def)
  then have "length (removeAll i (qs_handoff s)) < length (qs_handoff s)"
    using hand_over(3) by (intro length_removeAll_less) simp
  then have "length (live t) \<le> p"
    using assms(2) unfolding hand_over(2) by (simp add: queue_ok_def live_def)
  then show ?thesis using assms(2) d hand_over(3) unfolding hand_over(2) queue_ok_def
    by (auto simp: distinct_removeAll)
next
  case (start i rest now)
  have d: "distinct (qs_handoff s @ i # rest)" "length (live s) \<le> p"
    "status_of (qs_jobs s) i = Some Queued"
    using assms(2) start(4) by (simp_all add: queue_ok_def)
  show ?thesis
    using d start(3,4) unfolding start(2)
    by (intro update_keeps [OF assms(2), where i = i and st = Running]) (auto simp: live_def)
next
  case (complete i now run_id)
  have d: "distinct (qs_handoff s @ qs_pool s)" "length (live s) \<le> p"
    "status_of (qs_jobs s) i = Some Running"
    using assms(2) complete(3) by (simp_all add: queue_ok_def)
  show ?thesis
    using d worker_not_queued [OF assms(2) complete(3)] complete(3) unfolding complete(2)
    by (intro update_keeps [OF assms(2), where i = i and st = Completed]) (auto simp: live_def)
next
  case (fail i now message)
  have d: "distinct (qs_handoff s @ qs_pool s)" "length (live s) \<le> p"
    "status_of (qs_jobs s) i = Some Running"
    using assms(2) fail(3) by (simp_all add: queue_ok_def)
  show ?thesis
    using d worker_not_queued [OF assms(2) fail(3)] fail(3) unfolding fail(2)
    by (intro update_keeps [OF assms(2), where i = i and st = Failed]) (auto simp: live_def)
qed

lemma reachable_ok: "reachable p f s \<Longrightarrow> queue_ok p f s"
proof (induction rule: reachable.induct)
  case initial
  then show ?case by (simp add: queue_ok_def empty_queue_def live_def status_of_def)
next
  case (further s l t)
  then show ?case using step_keeps by blast
qed

text \<open>
  C23: at every moment of every interleaving, at most \<open>max_pending\<close> jobs are queued or running, at most
  one is running, and it is the one the worker has; no job that is still queued or running was
  evicted; and the table holds at most \<open>max_pending + max_finished\<close> jobs.
\<close>

theorem queue_invariant:
  assumes "reachable max_pending max_finished s"
  shows "pending_count (qs_jobs s) \<le> max_pending
    \<and> length (qs_jobs s) \<le> max_pending + max_finished
    \<and> (\<forall>i. status_of (qs_jobs s) i = Some Running \<longleftrightarrow> qs_worker s = Some i)
    \<and> (\<forall>i. status_of (qs_jobs s) i = Some Queued \<longleftrightarrow> i \<in> set (qs_handoff s @ qs_pool s))"
  using reachable_ok [OF assms] active_live [OF reachable_ok [OF assms]] unfolding queue_ok_def by simp

definition one_running :: queue_state where
  "one_running =
     \<lparr>qs_jobs = [(''a'', mark_running 2 (new_job 1))], qs_handoff = [], qs_pool = [], qs_worker = Some ''a''\<rparr>"

lemma one_running_reachable: "reachable 4 100 one_running"
proof -
  let ?s1 = "empty_queue\<lparr>qs_jobs := [(''a'', new_job 1)], qs_handoff := [''a'']\<rparr>"
  let ?s2 = "?s1\<lparr>qs_handoff := [], qs_pool := [''a'']\<rparr>"
  have "queue_step 4 100 empty_queue (Submit ''a'') ?s1"
    using queue_step.submit [of "''a''" empty_queue 4 100 1 "[(''a'', new_job 1)]"]
    by (simp add: empty_queue_def admit_def pending_count_def evict_finished_def to_evict_def)
  moreover have "queue_step 4 100 ?s1 (HandOver ''a'') ?s2"
    using queue_step.hand_over [of "''a''" ?s1 4 100] by (simp add: empty_queue_def)
  moreover have "queue_step 4 100 ?s2 (Start ''a'') one_running"
    using queue_step.start [of ?s2 "''a''" "[]" 4 100 2]
    by (simp add: empty_queue_def one_running_def update_job_def)
  ultimately show ?thesis by (blast intro: reachable.intros)
qed

theorem queue_invariant_witness:
  "reachable 4 100 one_running \<and> pending_count (qs_jobs one_running) \<le> 4
   \<and> status_of (qs_jobs one_running) ''a'' = Some Running"
  using queue_invariant [OF one_running_reachable] one_running_reachable
  by (simp add: one_running_def)

section \<open>Every job ends\<close>

text \<open>The steps that are not requests, each with the work it removes.\<close>

fun worker_label :: "queue_label \<Rightarrow> bool" where
  "worker_label (Submit _) = False"
| "worker_label Refuse = False"
| "worker_label _ = True"

definition work :: "queue_state \<Rightarrow> nat" where
  "work s = 3 * length (qs_handoff s) + 2 * length (qs_pool s) + (case qs_worker s of None \<Rightarrow> 0 | Some _ \<Rightarrow> 1)"

inductive drains :: "nat \<Rightarrow> nat \<Rightarrow> nat \<Rightarrow> queue_state \<Rightarrow> queue_state \<Rightarrow> bool" for p f where
  idle: "drains p f 0 s s"
| step: "queue_step p f s l t \<Longrightarrow> worker_label l \<Longrightarrow> drains p f n t u \<Longrightarrow> drains p f (Suc n) s u"

lemma worker_step_work:
  assumes "queue_step p f s l t" "worker_label l" "queue_ok p f s"
  shows "work s = Suc (work t) \<and> map fst (qs_jobs t) = map fst (qs_jobs s)"
  using assms(1)
proof (cases rule: queue_step.cases)
  case (hand_over i)
  have "distinct (qs_handoff s)" using assms(3) by (simp add: queue_ok_def)
  then have "Suc (length (removeAll i (qs_handoff s))) = length (qs_handoff s)"
    using hand_over(3) length_pos_if_in_set [OF hand_over(3)]
    by (simp add: distinct_remove1_removeAll [symmetric] length_remove1)
  then show ?thesis unfolding hand_over(2) by (simp add: work_def)
qed (use assms(2) in \<open>auto simp: work_def\<close>)

lemma worker_progress:
  assumes "work s \<noteq> 0"
  shows "\<exists>l t. queue_step p f s l t \<and> worker_label l"
proof (cases "qs_worker s")
  case (Some i)
  then show ?thesis using queue_step.complete worker_label.simps(5) by blast
next
  case None
  show ?thesis
  proof (cases "qs_pool s")
    case Nil
    with None assms obtain i where "i \<in> set (qs_handoff s)"
      by (cases "qs_handoff s") (auto simp: work_def)
    then show ?thesis using queue_step.hand_over worker_label.simps(3) by blast
  next
    case (Cons i rest)
    then show ?thesis using None queue_step.start worker_label.simps(4) by blast
  qed
qed

lemma work_0_finished:
  assumes "queue_ok p f s" "work s = 0" "(i, j) \<in> set (qs_jobs s)"
  shows "finished j"
proof -
  have "live s = []" using assms(2) by (auto simp: work_def live_def split: option.splits)
  then have "status_of (qs_jobs s) i \<noteq> Some Queued" "status_of (qs_jobs s) i \<noteq> Some Running"
    using live_iff [OF assms(1), of i] by simp_all
  moreover have "map_of (qs_jobs s) i = Some j" using assms(1,3) by (simp add: queue_ok_def)
  ultimately show ?thesis using active_finished [of j] by (auto simp: status_of_def active_def)
qed

lemma drain_exists:
  "queue_ok p f s \<Longrightarrow> \<exists>t. drains p f (work s) s t \<and> work t = 0 \<and> queue_ok p f t
     \<and> map fst (qs_jobs t) = map fst (qs_jobs s)"
proof (induction "work s" arbitrary: s)
  case 0
  then show ?case using drains.idle by (metis)
next
  case (Suc n)
  then obtain l t where l: "queue_step p f s l t" "worker_label l"
    using worker_progress [of s p f] by auto
  have w: "work s = Suc (work t)" "map fst (qs_jobs t) = map fst (qs_jobs s)"
    using worker_step_work [OF l Suc.prems] by simp_all
  then obtain u where "drains p f (work t) t u" "work u = 0" "queue_ok p f u"
    "map fst (qs_jobs u) = map fst (qs_jobs t)"
    using Suc.hyps step_keeps [OF l(1) Suc.prems] by (metis Suc_inject)
  then show ?case using drains.step [OF l] w by metis
qed

lemma drains_work: "drains p f n s t \<Longrightarrow> queue_ok p f s \<Longrightarrow> work s = n + work t"
proof (induction rule: drains.induct)
  case (step s l t n u)
  then show ?case using worker_step_work [OF step.hyps(1,2) step.prems] step_keeps [OF step.hyps(1) step.prems] by simp
qed simp

text \<open>
  C24: no job is stuck. From every reachable state the worker's own steps lead, after a number of steps
  that the state determines, to a state where every job of the table has completed or failed; and no
  run of such steps is longer.
\<close>

theorem queue_drains:
  assumes "reachable max_pending max_finished s"
  shows "(\<exists>t. drains max_pending max_finished (work s) s t
      \<and> map fst (qs_jobs t) = map fst (qs_jobs s) \<and> list_all (\<lambda>(_, j). finished j) (qs_jobs t))
    \<and> (\<forall>n t. drains max_pending max_finished n s t \<longrightarrow> n \<le> work s)"
proof -
  note ok = reachable_ok [OF assms]
  obtain t where "drains max_pending max_finished (work s) s t" "work t = 0"
    "queue_ok max_pending max_finished t" "map fst (qs_jobs t) = map fst (qs_jobs s)"
    using drain_exists [OF ok] by blast
  moreover from this have "list_all (\<lambda>(_, j). finished j) (qs_jobs t)"
    using work_0_finished by (fastforce simp: list_all_iff)
  moreover have "n \<le> work s" if "drains max_pending max_finished n s u" for n u
    using drains_work [OF that ok] by simp
  ultimately show ?thesis by blast
qed

theorem queue_drains_witness:
  "\<exists>t. drains 4 100 1 one_running t \<and> map fst (qs_jobs t) = [''a''] \<and> list_all (\<lambda>(_, j). finished j) (qs_jobs t)"
proof -
  have "work one_running = 1" "map fst (qs_jobs one_running) = [''a'']"
    by (simp_all add: one_running_def work_def)
  then show ?thesis using queue_drains [OF one_running_reachable] by simp
qed

end
