(* ===== verification/Size_Limits.thy ===== *)
theory Size_Limits
  imports Main
begin

text \<open>
  The size and count limits of \<open>arena/core/limits.py\<close>, under their own names. They are plain
  integers of the source; they count bytes, characters, entries or seconds, so \<^typ>\<open>nat\<close> is
  their type.
\<close>

definition MANIFEST_BYTES :: nat where "MANIFEST_BYTES = 256 * 1024"
definition CASE_YAML_BYTES :: nat where "CASE_YAML_BYTES = 512 * 1024"
definition DIFF_BYTES :: nat where "DIFF_BYTES = 4 * 1024 * 1024"
definition PATCH_BYTES :: nat where "PATCH_BYTES = 4 * 1024 * 1024"
definition PACK_FILE_BYTES :: nat where "PACK_FILE_BYTES = 8 * 1024 * 1024"
definition CHECKSUM_FILE_BYTES :: nat where "CHECKSUM_FILE_BYTES = 256"
definition SNAPSHOT_MAX_FILES :: nat where "SNAPSHOT_MAX_FILES = 4096"
definition SNAPSHOT_MAX_DIRS :: nat where "SNAPSHOT_MAX_DIRS = 4096"
definition SNAPSHOT_MAX_TOTAL_BYTES :: nat where "SNAPSHOT_MAX_TOTAL_BYTES = 256 * 1024 * 1024"
definition SNAPSHOT_MAX_DEPTH :: nat where "SNAPSHOT_MAX_DEPTH = 32"
definition SNAPSHOT_MANIFEST_ENTRIES :: nat where "SNAPSHOT_MANIFEST_ENTRIES = SNAPSHOT_MAX_FILES"
definition SNAPSHOT_MAX_ENTRIES :: nat where "SNAPSHOT_MAX_ENTRIES = SNAPSHOT_MAX_FILES + SNAPSHOT_MAX_DIRS"
definition YAML_MAX_DEPTH :: nat where "YAML_MAX_DEPTH = 64"
definition YAML_MAX_NODES :: nat where "YAML_MAX_NODES = 100000"
definition JSON_MAX_DEPTH :: nat where "JSON_MAX_DEPTH = 64"
definition JSON_MAX_NODES :: nat where "JSON_MAX_NODES = 200000"
definition PARSE_ACTIONS_MAX :: nat where "PARSE_ACTIONS_MAX = 16"
definition PARSE_ACTION_LEN :: nat where "PARSE_ACTION_LEN = 64"
definition PARSE_ERROR_SUMMARY_LEN :: nat where "PARSE_ERROR_SUMMARY_LEN = 512"
definition CASES_PER_MANIFEST :: nat where "CASES_PER_MANIFEST = 1024"
definition BUGS_PER_CASE :: nat where "BUGS_PER_CASE = 50"
definition FILES_PER_BUG :: nat where "FILES_PER_BUG = 128"
definition LINE_RANGES_PER_FILE :: nat where "LINE_RANGES_PER_FILE = 256"
definition ACCEPTABLE_FINDINGS_PER_CASE :: nat where "ACCEPTABLE_FINDINGS_PER_CASE = 128"
definition STACK_ENTRIES :: nat where "STACK_ENTRIES = 32"
definition CONCEPTS_PER_BUG :: nat where "CONCEPTS_PER_BUG = 128"
definition MUST_MENTION_PER_BUG :: nat where "MUST_MENTION_PER_BUG = 128"
definition FIX_KEYWORDS_PER_BUG :: nat where "FIX_KEYWORDS_PER_BUG = 128"
definition PROTECTED_PATHS_PER_CASE :: nat where "PROTECTED_PATHS_PER_CASE = 512"
definition STRUCTURAL_VALIDATORS_PER_CASE :: nat where "STRUCTURAL_VALIDATORS_PER_CASE = 64"
definition ARGV_COMMANDS :: nat where "ARGV_COMMANDS = 32"
definition ARGV_TOKENS :: nat where "ARGV_TOKENS = 256"
definition TITLE_LEN :: nat where "TITLE_LEN = 1024"
definition DESCRIPTION_LEN :: nat where "DESCRIPTION_LEN = 16 * 1024"
definition CATEGORY_LEN :: nat where "CATEGORY_LEN = 128"
definition IDENTIFIER_LEN :: nat where "IDENTIFIER_LEN = 128"
definition SUMMARY_LEN :: nat where "SUMMARY_LEN = 4 * 1024"
definition CONCEPT_LEN :: nat where "CONCEPT_LEN = 256"
definition PHRASE_LEN :: nat where "PHRASE_LEN = 256"
definition TOKEN_LEN :: nat where "TOKEN_LEN = 4096"
definition COMMAND_STRING_LEN :: nat where "COMMAND_STRING_LEN = 16 * 1024"
definition DOCKER_IMAGE_REF_LEN :: nat where "DOCKER_IMAGE_REF_LEN = 512"
definition LINE_NUMBER_MAX :: nat where "LINE_NUMBER_MAX = 10000000"
definition TEST_TIMEOUT_SECONDS_MAX :: nat where "TEST_TIMEOUT_SECONDS_MAX = 86400"
definition REVIEWER_TIMEOUT_SECONDS_MAX :: nat where "REVIEWER_TIMEOUT_SECONDS_MAX = 86400"
definition API_WALL_SECONDS_MAX :: nat where "API_WALL_SECONDS_MAX = 86400"
definition API_COST_MAX :: nat where "API_COST_MAX = 1000000"
definition SCORE_WEIGHT_MAX :: nat where "SCORE_WEIGHT_MAX = 100"
definition PENALTY_MAX :: nat where "PENALTY_MAX = 100"
definition BETA_MAX :: nat where "BETA_MAX = 100"
definition RELEVANT_FILE_COUNT :: nat where "RELEVANT_FILE_COUNT = 40"
definition RELEVANT_FILE_BYTES :: nat where "RELEVANT_FILE_BYTES = 64 * 1024"
definition RELEVANT_FILES_TOTAL_BYTES :: nat where "RELEVANT_FILES_TOTAL_BYTES = 256 * 1024"
definition OMITTED_FILE_COUNT :: nat where "OMITTED_FILE_COUNT = 4096"
definition TEST_OUTPUT_BYTES :: nat where "TEST_OUTPUT_BYTES = 512 * 1024"
definition STATIC_ANALYSIS_OUTPUT_BYTES :: nat where "STATIC_ANALYSIS_OUTPUT_BYTES = 512 * 1024"
definition IMPORT_MAX_FILES :: nat where "IMPORT_MAX_FILES = SNAPSHOT_MAX_FILES"
definition IMPORT_MAX_TOTAL_BYTES :: nat where "IMPORT_MAX_TOTAL_BYTES = SNAPSHOT_MAX_TOTAL_BYTES"
definition IMPORT_MAX_FILE_BYTES :: nat where "IMPORT_MAX_FILE_BYTES = PACK_FILE_BYTES"
definition IMPORT_SOURCE_PATHS :: nat where "IMPORT_SOURCE_PATHS = 256"
definition IMPORT_SOURCE_LABEL_LEN :: nat where "IMPORT_SOURCE_LABEL_LEN = 256"
definition GIT_TIMEOUT_SECONDS :: nat where "GIT_TIMEOUT_SECONDS = 60"
definition GIT_TIMEOUT_SECONDS_MIN :: nat where "GIT_TIMEOUT_SECONDS_MIN = 1"
definition GIT_TIMEOUT_SECONDS_MAX :: nat where "GIT_TIMEOUT_SECONDS_MAX = 3600"
definition GIT_OUTPUT_BYTES :: nat where "GIT_OUTPUT_BYTES = 4 * 1024 * 1024"
definition GIT_MAX_CHANGED_FILES :: nat where "GIT_MAX_CHANGED_FILES = SNAPSHOT_MAX_FILES"
definition RAW_RESPONSE_BYTES :: nat where "RAW_RESPONSE_BYTES = 2 * 1024 * 1024"
definition FINDINGS_PER_RESPONSE :: nat where "FINDINGS_PER_RESPONSE = 200"
definition FINDING_TITLE_LEN :: nat where "FINDING_TITLE_LEN = 1024"
definition FINDING_SUMMARY_LEN :: nat where "FINDING_SUMMARY_LEN = 8 * 1024"
definition EVIDENCE_LEN :: nat where "EVIDENCE_LEN = 16 * 1024"
definition SUGGESTED_FIX_LEN :: nat where "SUGGESTED_FIX_LEN = 64 * 1024"
definition PATCH_LEN :: nat where "PATCH_LEN = 4 * 1024 * 1024"
definition REPLACEMENT_CODE_LEN :: nat where "REPLACEMENT_CODE_LEN = 256 * 1024"
definition REVIEW_SUMMARY_LEN :: nat where "REVIEW_SUMMARY_LEN = 16 * 1024"
definition TOOL_USAGE_ENTRIES :: nat where "TOOL_USAGE_ENTRIES = 256"
definition TOOL_USAGE_ENTRY_LEN :: nat where "TOOL_USAGE_ENTRY_LEN = 1024"
definition API_REQUEST_BODY_BYTES :: nat where "API_REQUEST_BODY_BYTES = 256 * 1024"
definition BENCHMARK_SET_NAME_LEN :: nat where "BENCHMARK_SET_NAME_LEN = 256"
definition REVIEWER_ID_LEN :: nat where "REVIEWER_ID_LEN = 256"
definition COMMAND_LEN :: nat where "COMMAND_LEN = 16 * 1024"
definition MODEL_ID_LEN :: nat where "MODEL_ID_LEN = 256"

lemmas limit_defs =
  MANIFEST_BYTES_def CASE_YAML_BYTES_def DIFF_BYTES_def PATCH_BYTES_def PACK_FILE_BYTES_def
  CHECKSUM_FILE_BYTES_def SNAPSHOT_MAX_FILES_def SNAPSHOT_MAX_DIRS_def
  SNAPSHOT_MAX_TOTAL_BYTES_def SNAPSHOT_MAX_DEPTH_def SNAPSHOT_MANIFEST_ENTRIES_def
  SNAPSHOT_MAX_ENTRIES_def YAML_MAX_DEPTH_def YAML_MAX_NODES_def JSON_MAX_DEPTH_def
  JSON_MAX_NODES_def PARSE_ACTIONS_MAX_def PARSE_ACTION_LEN_def PARSE_ERROR_SUMMARY_LEN_def
  CASES_PER_MANIFEST_def BUGS_PER_CASE_def FILES_PER_BUG_def LINE_RANGES_PER_FILE_def
  ACCEPTABLE_FINDINGS_PER_CASE_def STACK_ENTRIES_def CONCEPTS_PER_BUG_def
  MUST_MENTION_PER_BUG_def FIX_KEYWORDS_PER_BUG_def PROTECTED_PATHS_PER_CASE_def
  STRUCTURAL_VALIDATORS_PER_CASE_def ARGV_COMMANDS_def ARGV_TOKENS_def TITLE_LEN_def
  DESCRIPTION_LEN_def CATEGORY_LEN_def IDENTIFIER_LEN_def SUMMARY_LEN_def CONCEPT_LEN_def
  PHRASE_LEN_def TOKEN_LEN_def COMMAND_STRING_LEN_def DOCKER_IMAGE_REF_LEN_def
  LINE_NUMBER_MAX_def TEST_TIMEOUT_SECONDS_MAX_def REVIEWER_TIMEOUT_SECONDS_MAX_def
  API_WALL_SECONDS_MAX_def API_COST_MAX_def SCORE_WEIGHT_MAX_def PENALTY_MAX_def BETA_MAX_def
  RELEVANT_FILE_COUNT_def RELEVANT_FILE_BYTES_def RELEVANT_FILES_TOTAL_BYTES_def
  OMITTED_FILE_COUNT_def TEST_OUTPUT_BYTES_def STATIC_ANALYSIS_OUTPUT_BYTES_def
  IMPORT_MAX_FILES_def IMPORT_MAX_TOTAL_BYTES_def IMPORT_MAX_FILE_BYTES_def
  IMPORT_SOURCE_PATHS_def IMPORT_SOURCE_LABEL_LEN_def GIT_TIMEOUT_SECONDS_def
  GIT_TIMEOUT_SECONDS_MIN_def GIT_TIMEOUT_SECONDS_MAX_def GIT_OUTPUT_BYTES_def
  GIT_MAX_CHANGED_FILES_def RAW_RESPONSE_BYTES_def FINDINGS_PER_RESPONSE_def
  FINDING_TITLE_LEN_def FINDING_SUMMARY_LEN_def EVIDENCE_LEN_def SUGGESTED_FIX_LEN_def
  PATCH_LEN_def REPLACEMENT_CODE_LEN_def REVIEW_SUMMARY_LEN_def TOOL_USAGE_ENTRIES_def
  TOOL_USAGE_ENTRY_LEN_def API_REQUEST_BODY_BYTES_def BENCHMARK_SET_NAME_LEN_def
  REVIEWER_ID_LEN_def COMMAND_LEN_def MODEL_ID_LEN_def

end
