(* ===== verification/Safe_Paths.thy ===== *)
theory Safe_Paths
  imports Prelude Size_Limits
begin

text \<open>
  \<open>arena/security/paths.py\<close>: the portable path policy for pack-controlled paths and case ids,
  and the admission of reviewer-supplied finding paths. Every check returns why the value is
  unsafe, or \<open>None\<close>; the reasons are the constructors of \<open>path_error\<close>, one per message of
  the source, in the source's order of tests.
\<close>

section \<open>Component profiles\<close>

datatype path_error =
    EmptyComponent
  | ComponentTooLong
  | DotComponent
  | ReservedControlName string
  | TrailingDotOrSpace
  | ReservedDeviceName string
  | DotPrefixNotFinal
  | DotPrefixNoName
  | PathCharset
  | CaseIdLeadingDot
  | CaseIdCharset
  | EmptyPath
  | PathTooLong
  | LeadingOrTrailingSlash
  | DirDotPrefix

definition MAX_PATH_LENGTH :: nat where "MAX_PATH_LENGTH = 1024"
definition MAX_COMPONENT_LENGTH :: nat where "MAX_COMPONENT_LENGTH = 255"
definition MAX_CASE_ID_LENGTH :: nat where "MAX_CASE_ID_LENGTH = 128"

definition is_ascii_alnum :: "char \<Rightarrow> bool" where
  "is_ascii_alnum c = (let n = (of_char c :: nat) in
     (48 \<le> n \<and> n \<le> 57) \<or> (65 \<le> n \<and> n \<le> 90) \<or> (97 \<le> n \<and> n \<le> 122))"

definition allowed_path_char :: "char \<Rightarrow> bool" where
  "allowed_path_char c \<longleftrightarrow> is_ascii_alnum c \<or> c \<in> set ''_.+-''"

definition allowed_case_id_char :: "char \<Rightarrow> bool" where
  "allowed_case_id_char c \<longleftrightarrow> is_ascii_alnum c \<or> c \<in> set ''_.-''"

text \<open>The two anchored regular expressions \<open>[...]+\<close>.\<close>

definition path_chars_match :: "string \<Rightarrow> bool" where
  "path_chars_match s \<longleftrightarrow> s \<noteq> [] \<and> list_all allowed_path_char s"

definition case_id_chars_match :: "string \<Rightarrow> bool" where
  "case_id_chars_match s \<longleftrightarrow> s \<noteq> [] \<and> list_all allowed_case_id_char s"

definition WINDOWS_RESERVED :: "string list" where
  "WINDOWS_RESERVED =
     [''CON'', ''PRN'', ''AUX'', ''NUL'']
     @ map (\<lambda>i. ''COM'' @ nat_str i) [1..<10] @ map (\<lambda>i. ''LPT'' @ nat_str i) [1..<10]"

definition RESERVED_CONTROL_NAMES :: "string list" where
  "RESERVED_CONTROL_NAMES = map casefold
     [''.git'', ''.hg'', ''.svn'', ''.gitignore'', ''.gitattributes'', ''.gitmodules'']"

definition component_common_error :: "string \<Rightarrow> path_error option" where
  "component_common_error component =
     (if component = [] then Some EmptyComponent
      else if length component > MAX_COMPONENT_LENGTH then Some ComponentTooLong
      else if component \<in> {''.'', ''..''} then Some DotComponent
      else if casefold component \<in> set RESERVED_CONTROL_NAMES
        then Some (ReservedControlName component)
      else if ends_with component ''.'' \<or> ends_with component '' '' then Some TrailingDotOrSpace
      else if py_upper (hd (split_on CHR ''.'' component)) \<in> set WINDOWS_RESERVED
        then Some (ReservedDeviceName component)
      else None)"

definition path_component_error :: "string \<Rightarrow> bool \<Rightarrow> path_error option" where
  "path_component_error component is_final =
     (case component_common_error component of
        Some e \<Rightarrow> Some e
      | None \<Rightarrow>
          if starts_with component ''.'' \<and> \<not> is_final then Some DotPrefixNotFinal
          else if starts_with component ''.'' \<and> length component < 2 then Some DotPrefixNoName
          else if \<not> path_chars_match component then Some PathCharset
          else None)"

definition case_id_component_error :: "string \<Rightarrow> path_error option" where
  "case_id_component_error component =
     (case component_common_error component of
        Some e \<Rightarrow> Some e
      | None \<Rightarrow>
          if starts_with component ''.'' then Some CaseIdLeadingDot
          else if \<not> case_id_chars_match component then Some CaseIdCharset
          else None)"

section \<open>Relative file paths and directory paths\<close>

text \<open>The loop over the components of a file path: only the last one may carry a leading dot.\<close>

fun file_components_error :: "string list \<Rightarrow> path_error option" where
  "file_components_error [] = None"
| "file_components_error (c # cs) =
     (case path_component_error c (cs = []) of Some e \<Rightarrow> Some e | None \<Rightarrow> file_components_error cs)"

fun relative_path_error :: "pyobj \<Rightarrow> path_error option" where
  "relative_path_error PyOther = Some EmptyPath"
| "relative_path_error (PyStr value) =
     (if value = [] then Some EmptyPath
      else if length value > MAX_PATH_LENGTH then Some PathTooLong
      else if starts_with value ''/'' \<or> ends_with value ''/'' then Some LeadingOrTrailingSlash
      else file_components_error (split_on CHR ''/'' value))"

fun dir_components_error :: "string list \<Rightarrow> path_error option" where
  "dir_components_error [] = None"
| "dir_components_error (c # cs) =
     (case component_common_error c of
        Some e \<Rightarrow> Some e
      | None \<Rightarrow>
          if starts_with c ''.'' then Some DirDotPrefix
          else if \<not> path_chars_match c then Some PathCharset
          else dir_components_error cs)"

fun dir_path_error :: "pyobj \<Rightarrow> path_error option" where
  "dir_path_error PyOther = Some EmptyPath"
| "dir_path_error (PyStr value) =
     (if value = [] then Some EmptyPath
      else if length value > MAX_PATH_LENGTH then Some PathTooLong
      else if starts_with value ''/'' \<or> ends_with value ''/'' then Some LeadingOrTrailingSlash
      else dir_components_error (split_on CHR ''/'' value))"

section \<open>Validators that raise\<close>

text \<open>
  The \<open>ValueError\<close>s of the Pydantic-facing validators, and Arena's \<open>ValidationError\<close> that
  wraps them for I/O-boundary callers.
\<close>

datatype value_error =
    UnsafeFilePath string path_error
  | UnsafeDirPath string path_error
  | UnsafeCaseId string path_error
  | CaseIdTooLong string
  | CaseIdBadStart string
  | FindingPathNotString
  | FindingDevNull string
  | UnsafeFindingPath string path_error
  | AmbiguousFindingPath string
  | DotFileNeedsKnownPaths string
  | DotFileNotKnown string

datatype arena_error = ValidationError value_error | PathEscapesRoot string | RefuseDeleteRoot
  | RefuseDeleteOutside

definition check_file_path :: "string \<Rightarrow> (value_error, string) res" where
  "check_file_path value =
     (case relative_path_error (PyStr value) of
        Some e \<Rightarrow> Inl (UnsafeFilePath value e) | None \<Rightarrow> Inr value)"

definition check_dir_path :: "string \<Rightarrow> (value_error, string) res" where
  "check_dir_path value =
     (case dir_path_error (PyStr value) of
        Some e \<Rightarrow> Inl (UnsafeDirPath value e) | None \<Rightarrow> Inr value)"

definition check_case_id :: "string \<Rightarrow> (value_error, string) res" where
  "check_case_id value =
     (case case_id_component_error value of
        Some e \<Rightarrow> Inl (UnsafeCaseId value e)
      | None \<Rightarrow>
          if length value > MAX_CASE_ID_LENGTH then Inl (CaseIdTooLong value)
          else if \<not> is_ascii_alnum (hd value) then Inl (CaseIdBadStart value)
          else Inr value)"

definition wrap_value_error :: "(value_error, 'a) res \<Rightarrow> (arena_error, 'a) res" where
  "wrap_value_error r = (case r of Inl e \<Rightarrow> Inl (ValidationError e) | Inr x \<Rightarrow> Inr x)"

definition validate_relative_path :: "string \<Rightarrow> (arena_error, string) res" where
  "validate_relative_path value = wrap_value_error (check_file_path value)"

definition validate_dir_path :: "string \<Rightarrow> (arena_error, string) res" where
  "validate_dir_path value = wrap_value_error (check_dir_path value)"

definition validate_case_id :: "string \<Rightarrow> (arena_error, string) res" where
  "validate_case_id value = wrap_value_error (check_case_id value)"

text \<open>
  \<open>admit_reviewer_path\<close>. The last component of the result is what \<open>rsplit\<close> leaves after
  the last slash.
\<close>

definition last_component :: "string \<Rightarrow> string" where
  "last_component s = last (split_on CHR ''/'' s)"

fun admit_reviewer_path :: "pyobj \<Rightarrow> string set option \<Rightarrow> (value_error, string) res" where
  "admit_reviewer_path PyOther known_paths = Inl FindingPathNotString"
| "admit_reviewer_path (PyStr value) known_paths =
     (let candidate = (if starts_with value ''./'' then drop 2 value else value) in
      if candidate = ''dev/null'' then Inl (FindingDevNull value)
      else case relative_path_error (PyStr candidate) of
        Some e \<Rightarrow> Inl (UnsafeFindingPath value e)
      | None \<Rightarrow>
          and_then
            (case known_paths of
               None \<Rightarrow> Inr candidate
             | Some known \<Rightarrow>
                 if starts_with candidate ''a/'' \<or> starts_with candidate ''b/'' then
                   (let stripped = drop 2 candidate;
                        complete_known = candidate \<in> known;
                        stripped_known = (stripped \<noteq> [] \<and>
                          relative_path_error (PyStr stripped) = None \<and> stripped \<in> known)
                    in if complete_known \<and> stripped_known then Inl (AmbiguousFindingPath value)
                       else if stripped_known \<and> \<not> complete_known then Inr stripped
                       else Inr candidate)
                 else Inr candidate)
            (\<lambda>result.
               if starts_with (last_component result) ''.'' then
                 (case known_paths of
                    None \<Rightarrow> Inl (DotFileNeedsKnownPaths value)
                  | Some known \<Rightarrow>
                      if result \<notin> known then Inl (DotFileNotKnown value) else Inr result)
               else Inr result))"

declare relative_path_error.simps(2) [simp del] dir_path_error.simps(2) [simp del]
  admit_reviewer_path.simps(2) [simp del]

section \<open>Containment under a root\<close>

text \<open>
  A resolved absolute path is the list of its components; \<open>resolve_path\<close> stands for
  \<open>Path.resolve\<close> of the root joined with a relative path: it follows the symlinks of a file
  system the model does not have, so it is a parameter. \<open>q in p.parents\<close> is \<open>strict_parent\<close>.
\<close>

type_synonym abs_path = "string list"

definition strict_parent :: "abs_path \<Rightarrow> abs_path \<Rightarrow> bool" where
  "strict_parent root target \<longleftrightarrow> length root < length target \<and> take (length root) target = root"

definition resolve_under ::
    "(abs_path \<Rightarrow> string list \<Rightarrow> abs_path) \<Rightarrow> abs_path \<Rightarrow> string \<Rightarrow> (arena_error, abs_path) res" where
  "resolve_under resolve_path root relative =
     and_then (validate_relative_path relative) (\<lambda>_.
       let root_resolved = resolve_path root [];
           target = resolve_path root_resolved (split_on CHR ''/'' relative)
       in if target \<noteq> root_resolved \<and> \<not> strict_parent root_resolved target
          then Inl (PathEscapesRoot relative) else Inr target)"

definition assert_safe_delete_target ::
    "(abs_path \<Rightarrow> string list \<Rightarrow> abs_path) \<Rightarrow> abs_path \<Rightarrow> abs_path \<Rightarrow> (arena_error, unit) res" where
  "assert_safe_delete_target resolve_path root target =
     (let root_resolved = resolve_path root []; target_resolved = resolve_path target [] in
      if target_resolved = root_resolved then Inl RefuseDeleteRoot
      else if \<not> strict_parent root_resolved target_resolved then Inl RefuseDeleteOutside
      else Inr ())"

section \<open>What an accepted path is\<close>

text \<open>
  The policy of the module docstring, without the order of the tests: a component of the portable
  ASCII profile, and a path of such components whose only dot-prefixed one is the last.
\<close>

definition portable_component :: "string \<Rightarrow> bool" where
  "portable_component c \<longleftrightarrow>
     c \<noteq> [] \<and> length c \<le> MAX_COMPONENT_LENGTH \<and> (\<forall>x \<in> set c. allowed_path_char x)
     \<and> c \<noteq> ''.'' \<and> c \<noteq> ''..'' \<and> last c \<noteq> CHR ''.''
     \<and> casefold c \<notin> set RESERVED_CONTROL_NAMES
     \<and> py_upper (hd (split_on CHR ''.'' c)) \<notin> set WINDOWS_RESERVED"

definition hidden :: "string \<Rightarrow> bool" where
  "hidden c \<longleftrightarrow> starts_with c ''.''"

lemma ends_with_char: "c \<noteq> [] \<Longrightarrow> ends_with c [x] \<longleftrightarrow> last c = x"
  by (cases c rule: rev_cases) (auto simp: ends_with_iff)

lemma hidden_iff: "hidden c \<longleftrightarrow> c \<noteq> [] \<and> hd c = CHR ''.''"
  by (cases c) (auto simp: hidden_def)

lemma not_space_allowed: "allowed_path_char x \<Longrightarrow> x \<noteq> CHR '' ''"
  by (auto simp: allowed_path_char_def is_ascii_alnum_def)

lemma path_component_error_None:
  "path_component_error c fin = None \<longleftrightarrow> portable_component c \<and> (hidden c \<longrightarrow> fin)"
proof (cases "c = []")
  case False
  then have "last c \<in> set c" by simp
  then have sp: "\<forall>x \<in> set c. allowed_path_char x \<Longrightarrow> last c \<noteq> CHR '' ''"
    using not_space_allowed by blast
  have short: "hidden c \<Longrightarrow> last c \<noteq> CHR ''.'' \<Longrightarrow> \<not> length c < 2"
    using False by (cases c; cases "tl c") (auto simp: hidden_iff)
  show ?thesis
    using False sp short
    by (auto simp: path_component_error_def component_common_error_def portable_component_def
        ends_with_char path_chars_match_def list_all_iff hidden_def)
qed (simp add: path_component_error_def component_common_error_def portable_component_def)

lemma file_components_error_None:
  "file_components_error cs = None \<longleftrightarrow>
     (\<forall>c \<in> set cs. portable_component c) \<and> (\<forall>c \<in> set (butlast cs). \<not> hidden c)"
  by (induction cs) (auto simp: path_component_error_None)

lemma dir_components_error_None:
  "dir_components_error cs = None \<longleftrightarrow> (\<forall>c \<in> set cs. portable_component c \<and> \<not> hidden c)"
proof (induction cs)
  case (Cons c cs)
  have "component_common_error c = None \<and> \<not> starts_with c ''.'' \<and> path_chars_match c
        \<longleftrightarrow> path_component_error c False = None"
    by (auto simp: path_component_error_def)
  then show ?case
    using Cons by (auto simp: path_component_error_None)
qed simp

lemma slash_ends_split:
  assumes "v \<noteq> []"
  shows "starts_with v ''/'' \<Longrightarrow> [] \<in> set (split_on CHR ''/'' v)"
    and "ends_with v ''/'' \<Longrightarrow> [] \<in> set (split_on CHR ''/'' v)"
proof -
  show "starts_with v ''/'' \<Longrightarrow> [] \<in> set (split_on CHR ''/'' v)"
    by (auto simp: starts_with_iff)
  show "ends_with v ''/'' \<Longrightarrow> [] \<in> set (split_on CHR ''/'' v)"
    by (auto simp: ends_with_iff split_on_snoc)
qed

lemma portable_nonempty: "portable_component c \<Longrightarrow> c \<noteq> []"
  by (simp add: portable_component_def)

lemma relative_path_error_None:
  "relative_path_error (PyStr v) = None \<longleftrightarrow>
     v \<noteq> [] \<and> length v \<le> MAX_PATH_LENGTH
     \<and> (\<forall>c \<in> set (split_on CHR ''/'' v). portable_component c)
     \<and> (\<forall>c \<in> set (butlast (split_on CHR ''/'' v)). \<not> hidden c)"
  using slash_ends_split [of v] portable_nonempty
  by (auto simp: file_components_error_None relative_path_error.simps)

lemma dir_path_error_None:
  "dir_path_error (PyStr v) = None \<longleftrightarrow>
     v \<noteq> [] \<and> length v \<le> MAX_PATH_LENGTH
     \<and> (\<forall>c \<in> set (split_on CHR ''/'' v). portable_component c \<and> \<not> hidden c)"
  using slash_ends_split [of v] portable_nonempty
  by (auto simp: dir_components_error_None dir_path_error.simps)

text \<open>
  A file path is accepted exactly when it is non-empty, at most 1024 characters long, every
  component obeys the portable profile (ASCII letters, digits and \<open>_.+-\<close>, no dot or dot-dot, no
  trailing dot, no repository-control or device name) and no component but the last starts with a
  dot. The separate test for a leading or trailing slash adds nothing.
\<close>

theorem relative_path_policy:
  "relative_path_error (PyStr v) = None \<longleftrightarrow>
     v \<noteq> [] \<and> length v \<le> MAX_PATH_LENGTH
     \<and> (\<forall>c \<in> set (split_on CHR ''/'' v). portable_component c)
     \<and> (\<forall>c \<in> set (butlast (split_on CHR ''/'' v)). \<not> hidden c)"
  by (rule relative_path_error_None)

theorem relative_path_policy_witness:
  "relative_path_error (PyStr ''tests/.coveragerc'') = None
   \<and> relative_path_error (PyStr ''.hidden/x.py'') = Some DotPrefixNotFinal
   \<and> list_all portable_component (split_on CHR ''/'' ''tests/.coveragerc'')"
proof -
  have "relative_path_error (PyStr ''tests/.coveragerc'') = None" by code_simp
  moreover have "relative_path_error (PyStr ''.hidden/x.py'') = Some DotPrefixNotFinal" by code_simp
  ultimately show ?thesis using relative_path_policy [of "''tests/.coveragerc''"] unfolding list_all_iff by blast
qed

section \<open>Containment\<close>

text \<open>
  Joining a path to a root lexically, as an operating system does on a tree without symlinks:
  \<open>..\<close> climbs, \<open>.\<close> and empty components stay.
\<close>

fun lexical_join :: "abs_path \<Rightarrow> string list \<Rightarrow> abs_path" where
  "lexical_join base [] = base"
| "lexical_join base (c # cs) =
     (if c = ''..'' then lexical_join (butlast base) cs
      else if c = ''.'' \<or> c = [] then lexical_join base cs
      else lexical_join (base @ [c]) cs)"

lemma lexical_join_portable:
  "(\<forall>c \<in> set cs. portable_component c) \<Longrightarrow> lexical_join base cs = base @ cs"
  by (induction cs arbitrary: base) (auto simp: portable_component_def)

lemma strict_parent_append [simp]: "strict_parent root (root @ cs) \<longleftrightarrow> cs \<noteq> []"
  by (auto simp: strict_parent_def)

lemma resolve_under_contained:
  "resolve_under res root rel = Inr t \<Longrightarrow> t = res root [] \<or> strict_parent (res root []) t"
  by (auto simp: resolve_under_def res_simps Let_def split: if_splits)

text \<open>
  Joining an accepted relative path to any root never climbs: \<open>resolve_under\<close> does not raise,
  and the result is the root followed by exactly the path's components, so it lies strictly below
  the root and is a legal target of a guarded delete.
\<close>

theorem safe_path_stays_under_root:
  assumes "relative_path_error (PyStr v) = None"
  shows "resolve_under lexical_join root v = Inr (root @ split_on CHR ''/'' v)
    \<and> strict_parent root (root @ split_on CHR ''/'' v)
    \<and> assert_safe_delete_target lexical_join root (root @ split_on CHR ''/'' v) = Inr ()"
proof -
  have "lexical_join root (split_on CHR ''/'' v) = root @ split_on CHR ''/'' v"
    using assms by (simp add: relative_path_error_None lexical_join_portable)
  moreover have "validate_relative_path v = Inr v"
    using assms by (simp add: validate_relative_path_def check_file_path_def wrap_value_error_def)
  ultimately show ?thesis
    by (simp add: resolve_under_def assert_safe_delete_target_def)
qed

theorem safe_path_stays_under_root_witness:
  "resolve_under lexical_join [''pack''] ''app/x.py'' = Inr [''pack'', ''app'', ''x.py'']
   \<and> resolve_under lexical_join [''pack''] ''../x.py''
       = Inl (ValidationError (UnsafeFilePath ''../x.py'' DotComponent))"
proof -
  have "relative_path_error (PyStr ''app/x.py'') = None" by code_simp
  moreover have "split_on CHR ''/'' ''app/x.py'' = [''app'', ''x.py'']" by code_simp
  moreover have "resolve_under lexical_join [''pack''] ''../x.py''
       = Inl (ValidationError (UnsafeFilePath ''../x.py'' DotComponent))" by code_simp
  ultimately show ?thesis using safe_path_stays_under_root [of "''app/x.py''" "[''pack'']"] by simp
qed

section \<open>Case ids and directory paths\<close>

lemma case_id_char_path_char: "allowed_case_id_char c \<Longrightarrow> allowed_path_char c"
  by (auto simp: allowed_case_id_char_def allowed_path_char_def)

lemma slash_not_case_id_char: "\<not> allowed_case_id_char CHR ''/''"
  by code_simp

lemma check_case_id_component:
  assumes "check_case_id v = Inr w"
  shows "w = v" "portable_component v" "\<not> hidden v" "split_on CHR ''/'' v = [v]"
    "length v \<le> MAX_CASE_ID_LENGTH" "is_ascii_alnum (hd v)"
proof -
  have e: "case_id_component_error v = None" and ids: "w = v" "length v \<le> MAX_CASE_ID_LENGTH"
    "is_ascii_alnum (hd v)"
    using assms by (auto simp: check_case_id_def split: option.splits if_splits)
  have m: "case_id_chars_match v" and h: "\<not> hidden v" and c: "component_common_error v = None"
    using e by (auto simp: case_id_component_error_def hidden_def split: if_splits)
  have "path_chars_match v"
    using m case_id_char_path_char by (auto simp: case_id_chars_match_def path_chars_match_def list_all_iff)
  then have "path_component_error v False = None"
    using c h by (simp add: path_component_error_def hidden_def)
  then show "portable_component v" "\<not> hidden v"
    by (auto simp: path_component_error_None)
  show "split_on CHR ''/'' v = [v]"
    using m slash_not_case_id_char by (auto simp: case_id_chars_match_def list_all_iff intro!: split_on_single)
qed (use assms in \<open>auto simp: check_case_id_def split: option.splits if_splits\<close>)

text \<open>
  An accepted case id is one physical directory name: it has no separator, starts with an
  ASCII letter or digit, is at most 128 characters long and is itself an accepted directory path,
  so a workspace named after it lies directly below its root.
\<close>

theorem case_id_is_one_directory:
  assumes "check_case_id v = Inr w"
  shows "w = v \<and> split_on CHR ''/'' v = [v] \<and> length v \<le> MAX_CASE_ID_LENGTH
    \<and> is_ascii_alnum (hd v) \<and> dir_path_error (PyStr v) = None
    \<and> lexical_join root (split_on CHR ''/'' v) = root @ [v]"
  using check_case_id_component [OF assms] lexical_join_portable [of "[v]" root]
  by (simp add: dir_path_error_None portable_nonempty MAX_PATH_LENGTH_def MAX_CASE_ID_LENGTH_def
      del: lexical_join.simps)

theorem case_id_is_one_directory_witness:
  "check_case_id ''async_race-001'' = Inr ''async_race-001''
   \<and> dir_path_error (PyStr ''async_race-001'') = None
   \<and> check_case_id ''nul.case'' = Inl (UnsafeCaseId ''nul.case'' (ReservedDeviceName ''nul.case''))"
proof -
  have "check_case_id ''async_race-001'' = Inr ''async_race-001''" by code_simp
  moreover have "check_case_id ''nul.case''
      = Inl (UnsafeCaseId ''nul.case'' (ReservedDeviceName ''nul.case''))" by code_simp
  ultimately show ?thesis using case_id_is_one_directory [of "''async_race-001''" _ "[]"] by blast
qed

text \<open>Directory semantics are stricter than file semantics.\<close>

lemma dir_path_is_file_path:
  "dir_path_error (PyStr v) = None \<Longrightarrow> relative_path_error (PyStr v) = None"
  unfolding dir_path_error_None relative_path_error_None
  by (meson in_set_butlastD)

section \<open>Admission of reviewer paths\<close>

lemma prefix_split:
  assumes "starts_with c [x, CHR ''/'']" "x \<noteq> CHR ''/''"
  shows "split_on CHR ''/'' c = [x] # split_on CHR ''/'' (drop 2 c)"
proof -
  obtain t where "c = x # CHR ''/'' # t" using assms(1) by (auto simp: starts_with_iff)
  then show ?thesis using assms(2) split_on_append [of "CHR ''/''" "[x]" t] by simp
qed

lemma git_prefix_split:
  assumes "starts_with c ''a/'' \<or> starts_with c ''b/''"
  obtains x where "split_on CHR ''/'' c = [x] # split_on CHR ''/'' (drop 2 c)"
  using assms prefix_split [of c "CHR ''a''"] prefix_split [of c "CHR ''b''"] by auto

lemma git_prefix_stripped_safe:
  assumes "relative_path_error (PyStr c) = None" and p: "starts_with c ''a/'' \<or> starts_with c ''b/''"
  shows "relative_path_error (PyStr (drop 2 c)) = None" "drop 2 c \<noteq> []"
    "last_component (drop 2 c) = last_component c"
proof -
  obtain x where split: "split_on CHR ''/'' c = [x] # split_on CHR ''/'' (drop 2 c)"
    using git_prefix_split [OF p] .
  have acc: "length c \<le> MAX_PATH_LENGTH" "\<forall>d \<in> set (split_on CHR ''/'' c). portable_component d"
    "\<forall>d \<in> set (butlast (split_on CHR ''/'' c)). \<not> hidden d"
    using assms(1) unfolding relative_path_error_None by blast+
  show ne: "drop 2 c \<noteq> []"
  proof
    assume "drop 2 c = []"
    then have "[] \<in> set (split_on CHR ''/'' c)" unfolding split by simp
    then show False using acc(2) portable_nonempty by blast
  qed
  show "relative_path_error (PyStr (drop 2 c)) = None"
    using acc ne unfolding relative_path_error_None split by auto
  show "last_component (drop 2 c) = last_component c"
    using split by (simp add: last_component_def)
qed

definition admission_candidate :: "string \<Rightarrow> string" where
  "admission_candidate value = (if starts_with value ''./'' then drop 2 value else value)"

definition has_git_prefix :: "string \<Rightarrow> bool" where
  "has_git_prefix c \<longleftrightarrow> starts_with c ''a/'' \<or> starts_with c ''b/''"

lemma admit_reviewer_path_unfold:
  "admit_reviewer_path (PyStr value) known_paths =
     (let candidate = admission_candidate value in
      if candidate = ''dev/null'' then Inl (FindingDevNull value)
      else case relative_path_error (PyStr candidate) of
        Some e \<Rightarrow> Inl (UnsafeFindingPath value e)
      | None \<Rightarrow>
          and_then
            (case known_paths of None \<Rightarrow> Inr candidate
             | Some known \<Rightarrow>
                 if has_git_prefix candidate \<and> drop 2 candidate \<in> known
                 then (if candidate \<in> known then Inl (AmbiguousFindingPath value)
                       else Inr (drop 2 candidate))
                 else Inr candidate)
            (\<lambda>result.
               if hidden (last_component result) then
                 (case known_paths of None \<Rightarrow> Inl (DotFileNeedsKnownPaths value)
                  | Some known \<Rightarrow>
                      if result \<notin> known then Inl (DotFileNotKnown value) else Inr result)
               else Inr result))"
proof (cases "relative_path_error (PyStr (admission_candidate value))")
  case None
  have stripped: "drop 2 (admission_candidate value) \<noteq> []
      \<and> relative_path_error (PyStr (drop 2 (admission_candidate value))) = None"
    if "has_git_prefix (admission_candidate value)"
    using git_prefix_stripped_safe [OF None] that by (simp add: has_git_prefix_def)
  show ?thesis
  proof (cases known_paths)
    case None': None
    show ?thesis
      unfolding admit_reviewer_path.simps Let_def admission_candidate_def [symmetric] None None'
      by (simp add: hidden_def)
  next
    case (Some known)
    show ?thesis
      unfolding admit_reviewer_path.simps Let_def admission_candidate_def [symmetric] None Some
      using stripped by (auto simp: hidden_def has_git_prefix_def)
  qed
next
  case (Some e)
  then show ?thesis
    unfolding admit_reviewer_path.simps Let_def admission_candidate_def [symmetric] by simp
qed

lemma admit_reviewer_path_Inr:
  assumes "admit_reviewer_path (PyStr value) known_paths = Inr r"
  defines "c \<equiv> admission_candidate value"
  shows "relative_path_error (PyStr c) = None" "c \<noteq> ''dev/null''"
    "r = c \<or> (\<exists>known. known_paths = Some known \<and> has_git_prefix c \<and> r = drop 2 c \<and> r \<in> known)"
    "hidden (last_component r) \<Longrightarrow> \<exists>known. known_paths = Some known \<and> r \<in> known"
  using assms unfolding admit_reviewer_path_unfold
  by (auto simp: Let_def res_simps split: option.splits if_splits)

lemma admitted_path_ok:
  assumes "admit_reviewer_path (PyStr value) known_paths = Inr r"
  shows "relative_path_error (PyStr r) = None"
  using admit_reviewer_path_Inr(1,3) [OF assms] git_prefix_stripped_safe(1) by (auto simp: has_git_prefix_def)

text \<open>
  Whatever a reviewer supplies, an admitted finding path obeys the same portable policy as
  pack paths; it is the supplied path less a leading \<open>./\<close> or, with known paths only, less a
  Git prefix; a dot-prefixed leaf or \<open>dev/null\<close> is admitted only if that exact path was shown to
  the reviewer.
\<close>

theorem admit_reviewer_path_safe:
  assumes "admit_reviewer_path (PyStr value) known_paths = Inr r"
  shows "relative_path_error (PyStr r) = None
    \<and> (r = admission_candidate value \<or> r = drop 2 (admission_candidate value))
    \<and> (hidden (last_component r) \<or> r = ''dev/null'' \<longrightarrow> (\<exists>known. known_paths = Some known \<and> r \<in> known))
    \<and> (known_paths = None \<longrightarrow> r = admission_candidate value)"
proof -
  note facts = admit_reviewer_path_Inr [OF assms]
  have "relative_path_error (PyStr r) = None"
    using facts(1,3) git_prefix_stripped_safe(1) by (auto simp: has_git_prefix_def)
  moreover have "r = ''dev/null'' \<longrightarrow> (\<exists>known. known_paths = Some known \<and> r \<in> known)"
    using facts(2,3) by auto
  moreover have "r = admission_candidate value \<or> r = drop 2 (admission_candidate value)"
    "known_paths = None \<longrightarrow> r = admission_candidate value"
    using facts(3) by auto
  ultimately show ?thesis using facts(4) by blast
qed

theorem admit_reviewer_path_safe_witness:
  "admit_reviewer_path (PyStr ''b/app/x.py'') (Some {''app/x.py''}) = Inr ''app/x.py''
   \<and> relative_path_error (PyStr ''app/x.py'') = None"
proof -
  have "admit_reviewer_path (PyStr ''b/app/x.py'') (Some {''app/x.py''}) = Inr ''app/x.py''"
    by code_simp
  then show ?thesis using admit_reviewer_path_safe by blast
qed

text \<open>
  The four-row table of \<open>admit_reviewer_path\<close>. For a policy-conforming path with a Git prefix
  and a visible leaf: both forms known is an error, only the stripped form known strips, and in the
  two remaining rows the complete path is kept.
\<close>

theorem admit_git_prefix_table:
  assumes "relative_path_error (PyStr c) = None" "has_git_prefix c"
    and "\<not> hidden (last_component c)"
  shows "admit_reviewer_path (PyStr c) (Some known) =
    (if c \<in> known \<and> drop 2 c \<in> known then Inl (AmbiguousFindingPath c)
     else if drop 2 c \<in> known then Inr (drop 2 c)
     else Inr c)"
proof -
  have "admission_candidate c = c" "c \<noteq> ''dev/null''"
    using assms(2) by (auto simp: admission_candidate_def has_git_prefix_def starts_with_iff)
  then show ?thesis
    using assms git_prefix_stripped_safe(3) [of c]
    by (simp add: admit_reviewer_path_unfold)
qed

theorem admit_git_prefix_table_witness:
  "admit_reviewer_path (PyStr ''a/x.py'') (Some {''a/x.py'', ''x.py''}) = Inl (AmbiguousFindingPath ''a/x.py'')
   \<and> admit_reviewer_path (PyStr ''a/x.py'') (Some {''x.py''}) = Inr ''x.py''
   \<and> admit_reviewer_path (PyStr ''a/x.py'') (Some {''a/x.py''}) = Inr ''a/x.py''
   \<and> admit_reviewer_path (PyStr ''a/x.py'') (Some {}) = Inr ''a/x.py''"
proof -
  have "relative_path_error (PyStr ''a/x.py'') = None" "has_git_prefix ''a/x.py''"
    "\<not> hidden (last_component ''a/x.py'')" by code_simp+
  note t = admit_git_prefix_table [OF this]
  show ?thesis unfolding t by simp
qed

end
