(* ===== verification/Numbers.thy ===== *)
theory Numbers
  imports Complex_Main Prelude
begin

text \<open>
  Python \<open>float\<close>s. The harness computes scores and rates with a handful of operations on
  small magnitudes; the model keeps their exact values as rationals (\<^typ>\<open>rat\<close>, evaluated by the
  simplifier), or as reals where a square root is taken. \<open>round(x, n)\<close> rounds the exact value to
  the nearest multiple of \<open>10^-n\<close>, ties to even, as Python documents it.
\<close>

definition round_half_even :: "'a::floor_ceiling \<Rightarrow> int" where
  "round_half_even x =
     (let f = \<lfloor>x\<rfloor>; r = 2 * (x - of_int f) in
      if r < 1 then f else if r > 1 then f + 1 else if even f then f else f + 1)"

definition py_round :: "'a::floor_ceiling \<Rightarrow> nat \<Rightarrow> 'a" where
  "py_round x n = of_int (round_half_even (x * 10 ^ n)) / 10 ^ n"

lemma round_half_even_int [simp]: "round_half_even (of_int k) = k"
  by (simp add: round_half_even_def)

lemma round_half_even_bounds:
  "\<lfloor>x\<rfloor> \<le> round_half_even x" "round_half_even x \<le> \<lfloor>x\<rfloor> + 1"
  by (simp_all add: round_half_even_def Let_def)

lemma round_half_even_mono: "x \<le> y \<Longrightarrow> round_half_even x \<le> round_half_even y"
proof -
  assume le: "x \<le> y"
  then have fl: "\<lfloor>x\<rfloor> \<le> \<lfloor>y\<rfloor>" by (rule floor_mono)
  show ?thesis
  proof (cases "\<lfloor>x\<rfloor> = \<lfloor>y\<rfloor>")
    case True
    then show ?thesis using le by (auto simp: round_half_even_def Let_def)
  next
    case False
    then have "\<lfloor>x\<rfloor> + 1 \<le> \<lfloor>y\<rfloor>" using fl by simp
    then show ?thesis
      using round_half_even_bounds(2) [of x] round_half_even_bounds(1) [of y] by simp
  qed
qed

lemma py_round_mono: "x \<le> y \<Longrightarrow> py_round x n \<le> py_round y n"
  unfolding py_round_def
  by (intro divide_right_mono) (simp_all add: round_half_even_mono mult_right_mono)

lemma py_round_int [simp]: "py_round (of_int k) n = of_int k"
proof -
  have "of_int k * 10 ^ n = (of_int (k * 10 ^ n) :: 'a)" by simp
  then have "round_half_even (of_int k * 10 ^ n :: 'a) = k * 10 ^ n"
    by (metis round_half_even_int)
  then show ?thesis by (simp add: py_round_def)
qed

lemma py_round_idem [simp]: "py_round (py_round x n) n = py_round x n"
  by (simp add: py_round_def)

lemma py_round_0 [simp]: "py_round 0 n = 0"
  using py_round_int [of 0 n] by simp

lemma py_round_1 [simp]: "py_round 1 n = 1"
  using py_round_int [of 1 n] by simp

lemma py_round_ge_int: "of_int k \<le> x \<Longrightarrow> of_int k \<le> py_round x n"
  using py_round_mono [of "of_int k" x n] by simp

lemma py_round_le_int: "x \<le> of_int k \<Longrightarrow> py_round x n \<le> of_int k"
  using py_round_mono [of x "of_int k" n] by simp

lemma py_round_nonneg: "0 \<le> x \<Longrightarrow> 0 \<le> py_round x n"
  using py_round_ge_int [of 0 x n] by simp

lemma py_round_le_1: "x \<le> 1 \<Longrightarrow> py_round x n \<le> 1"
  using py_round_le_int [of x 1 n] by simp

text \<open>The exact value is never more than half a unit of the last kept place away.\<close>

lemma round_half_even_close: "\<bar>of_int (round_half_even x) - x\<bar> \<le> 1 / 2"
proof -
  have "of_int \<lfloor>x\<rfloor> \<le> x" "x < of_int \<lfloor>x\<rfloor> + 1" by linarith+
  then show ?thesis by (auto simp: round_half_even_def Let_def abs_le_iff field_simps)
qed

lemma py_round_close: "\<bar>py_round x n - x\<bar> \<le> 1 / (2 * 10 ^ n)"
proof -
  have "py_round x n - x = (of_int (round_half_even (x * 10 ^ n)) - x * 10 ^ n) / 10 ^ n"
    by (simp add: py_round_def field_simps)
  also have "\<bar>\<dots>\<bar> \<le> (1 / 2) / 10 ^ n"
    unfolding abs_divide using round_half_even_close [of "x * 10 ^ n"]
    by (intro frac_le) (simp_all add: abs_mult)
  finally show ?thesis by (simp add: field_simps)
qed

end
