(* ===== verification/Models.thy ===== *)
theory Models
  imports Safe_Paths Size_Limits Numbers
begin

text \<open>
  \<open>arena/core/models.py\<close>: the data of a benchmark pack, of a review and of a run, each class as a
  record, with its field constraints and validators. Record fields carry a short prefix naming
  their class. A declarative field constraint and a validator that only accepts or rejects is a
  predicate \<open>valid_...\<close>; a validator that changes the value or raises distinct errors returns a
  result.

  A Python \<open>str\<close> typed with \<open>SafeFilePath\<close>, \<open>SafeDirPath\<close> or \<open>SafeCaseId\<close> must pass the path
  policy of theory Safe_Paths.
\<close>

section \<open>Enumerations\<close>

datatype severity = Critical | High | Medium | Low

datatype risk = RiskCritical | RiskHigh | RiskMedium | RiskLow | RiskNone

datatype run_status = RunComplete | RunPartial | RunInvalid | RunFailed | RunCancelled | RunLegacy

datatype execution_backend = Docker | TrustedLocal | NoBackend

datatype parse_status = Exact | Tolerant | Repaired | Invalid

definition PARSE_ACTIONS :: "string list" where
  "PARSE_ACTIONS =
     [''strip_markdown_fence'', ''extract_json_object'', ''remove_trailing_commas'',
      ''wrap_findings_list'', ''default_overall_risk'', ''default_review_summary'',
      ''drop_invalid_findings'']"

definition RUN_SCHEMA_VERSION :: int where "RUN_SCHEMA_VERSION = 2"
definition MAX_BUGS_PER_CASE :: nat where "MAX_BUGS_PER_CASE = BUGS_PER_CASE"
definition MAX_FINDINGS_PER_RESPONSE :: nat where
  "MAX_FINDINGS_PER_RESPONSE = FINDINGS_PER_RESPONSE"

section \<open>Field constraints\<close>

definition len_ok :: "nat \<Rightarrow> nat \<Rightarrow> 'a list \<Rightarrow> bool" where
  "len_ok lo hi xs \<longleftrightarrow> lo \<le> length xs \<and> length xs \<le> hi"

definition num_ok :: "'a::linorder \<Rightarrow> 'a \<Rightarrow> 'a \<Rightarrow> bool" where
  "num_ok lo hi x \<longleftrightarrow> lo \<le> x \<and> x \<le> hi"

definition option_ok :: "('a \<Rightarrow> bool) \<Rightarrow> 'a option \<Rightarrow> bool" where
  "option_ok P x = (case x of None \<Rightarrow> True | Some y \<Rightarrow> P y)"

definition safe_file_path :: "string \<Rightarrow> bool" where
  "safe_file_path s \<longleftrightarrow> check_file_path s = Inr s"

definition safe_dir_path :: "string \<Rightarrow> bool" where
  "safe_dir_path s \<longleftrightarrow> check_dir_path s = Inr s"

definition safe_case_id :: "string \<Rightarrow> bool" where
  "safe_case_id s \<longleftrightarrow> check_case_id s = Inr s"

section \<open>Ground truth\<close>

record line_range =
  lr_start :: int
  lr_end :: int

definition valid_line_range :: "line_range \<Rightarrow> bool" where
  "valid_line_range r \<longleftrightarrow>
     num_ok 1 (int LINE_NUMBER_MAX) (lr_start r) \<and> num_ok 1 (int LINE_NUMBER_MAX) (lr_end r)
     \<and> \<not> lr_end r < lr_start r"

record gt_file =
  gf_path :: string
  gf_line_ranges :: "line_range list"

definition valid_gt_file :: "gt_file \<Rightarrow> bool" where
  "valid_gt_file f \<longleftrightarrow>
     safe_file_path (gf_path f) \<and> len_ok 1 LINE_RANGES_PER_FILE (gf_line_ranges f)
     \<and> list_all valid_line_range (gf_line_ranges f)
     \<and> distinct (map (\<lambda>r. (lr_start r, lr_end r)) (gf_line_ranges f))"

record gt_bug =
  bug_id :: string
  bug_summary :: string
  bug_files :: "gt_file list"
  bug_concepts :: "string list"
  bug_must_mention :: "string list"
  bug_fix_keywords :: "string list"

definition valid_gt_bug :: "gt_bug \<Rightarrow> bool" where
  "valid_gt_bug b \<longleftrightarrow>
     len_ok 0 IDENTIFIER_LEN (bug_id b)
     \<and> len_ok 1 SUMMARY_LEN (bug_summary b)
     \<and> len_ok 1 FILES_PER_BUG (bug_files b) \<and> list_all valid_gt_file (bug_files b)
     \<and> len_ok 1 CONCEPTS_PER_BUG (bug_concepts b) \<and> list_all (len_ok 1 CONCEPT_LEN) (bug_concepts b)
     \<and> len_ok 0 MUST_MENTION_PER_BUG (bug_must_mention b)
     \<and> list_all (len_ok 1 PHRASE_LEN) (bug_must_mention b)
     \<and> len_ok 0 FIX_KEYWORDS_PER_BUG (bug_fix_keywords b)
     \<and> list_all (len_ok 1 PHRASE_LEN) (bug_fix_keywords b)
     \<and> distinct (bug_concepts b) \<and> distinct (bug_must_mention b) \<and> distinct (bug_fix_keywords b)"

record acceptable_finding =
  acc_path :: "string option"
  acc_concepts :: "string list"

definition valid_acceptable_finding :: "acceptable_finding \<Rightarrow> bool" where
  "valid_acceptable_finding a \<longleftrightarrow>
     option_ok safe_file_path (acc_path a)
     \<and> len_ok 1 CONCEPTS_PER_BUG (acc_concepts a)
     \<and> list_all (len_ok 1 CONCEPT_LEN) (acc_concepts a)"

record ground_truth =
  gt_bugs :: "gt_bug list"
  gt_acceptable_findings :: "acceptable_finding list"

text \<open>\<open>accept_legacy_primary_bug\<close>, on the two keys of the raw document it looks at.\<close>

datatype model_error =
    FieldConstraint
  | PrimaryBugDisagrees
  | DuplicateBugId string string
  | DuplicateAcceptableFindings
  | DuplicateCaseId string

definition accept_legacy_primary_bug ::
  "'a option \<Rightarrow> 'a list option \<Rightarrow> (model_error, 'a list option) res" where
  "accept_legacy_primary_bug primary_bug bugs =
     (case primary_bug of
        None \<Rightarrow> Inr bugs
      | Some legacy \<Rightarrow>
          (case bugs of
             None \<Rightarrow> Inr (Some [legacy])
           | Some [] \<Rightarrow> Inr (Some [legacy])
           | Some (b # bs) \<Rightarrow> if b \<noteq> legacy then Inl PrimaryBugDisagrees else Inr (Some (b # bs))))"

definition auto_bug_id :: "nat \<Rightarrow> string" where
  "auto_bug_id index = ''bug-'' @ nat_str (index + 1)"

definition assign_bug_id :: "nat \<times> gt_bug \<Rightarrow> gt_bug" where
  "assign_bug_id = (\<lambda>(index, bug). if bug_id bug = [] then bug\<lparr>bug_id := auto_bug_id index\<rparr> else bug)"

text \<open>The second loop of \<open>_assign_and_validate_bug_ids\<close>: \<open>seen\<close> maps folded ids to ids.\<close>

definition see_bug_id ::
  "gt_bug \<Rightarrow> (string \<times> string) list \<Rightarrow> (model_error, (string \<times> string) list) res" where
  "see_bug_id bug seen =
     (let folded = casefold (bug_id bug) in
      case map_of seen folded of
        Some other \<Rightarrow> Inl (DuplicateBugId other (bug_id bug))
      | None \<Rightarrow> Inr ((folded, bug_id bug) # seen))"

definition assign_and_validate_bug_ids :: "ground_truth \<Rightarrow> (model_error, ground_truth) res" where
  "assign_and_validate_bug_ids g =
     (let bugs = map assign_bug_id (enum_list (gt_bugs g)) in
      and_then (fold_res see_bug_id bugs []) (\<lambda>_. Inr (g\<lparr>gt_bugs := bugs\<rparr>)))"

definition reject_duplicate_acceptable_findings ::
  "ground_truth \<Rightarrow> (model_error, ground_truth) res" where
  "reject_duplicate_acceptable_findings g =
     (if distinct (map (\<lambda>a. (acc_path a, acc_concepts a)) (gt_acceptable_findings g))
      then Inr g else Inl DuplicateAcceptableFindings)"

definition validate_ground_truth :: "ground_truth \<Rightarrow> (model_error, ground_truth) res" where
  "validate_ground_truth g =
     (if \<not> (len_ok 1 MAX_BUGS_PER_CASE (gt_bugs g) \<and> list_all valid_gt_bug (gt_bugs g)
          \<and> len_ok 0 ACCEPTABLE_FINDINGS_PER_CASE (gt_acceptable_findings g)
          \<and> list_all valid_acceptable_finding (gt_acceptable_findings g))
      then Inl FieldConstraint
      else and_then (assign_and_validate_bug_ids g) reject_duplicate_acceptable_findings)"

definition primary_bug :: "ground_truth \<Rightarrow> gt_bug" where
  "primary_bug g = hd (gt_bugs g)"

section \<open>Cases and manifests\<close>

record case_input =
  in_diff :: string
  in_before_dir :: string
  in_after_dir :: string
  in_tests_dir :: "string option"

definition valid_case_input :: "case_input \<Rightarrow> bool" where
  "valid_case_input i \<longleftrightarrow>
     safe_file_path (in_diff i) \<and> safe_dir_path (in_before_dir i) \<and> safe_dir_path (in_after_dir i)
     \<and> option_ok safe_dir_path (in_tests_dir i)"

record score_weights =
  w_concept_match :: rat
  w_file_match :: rat
  w_line_overlap :: rat
  w_severity_match :: rat
  w_fix_quality :: rat
  w_no_false_positives :: rat

definition valid_score_weights :: "score_weights \<Rightarrow> bool" where
  "valid_score_weights w \<longleftrightarrow>
     list_all (num_ok 0 (of_nat SCORE_WEIGHT_MAX))
       [w_concept_match w, w_file_match w, w_line_overlap w, w_severity_match w,
        w_fix_quality w, w_no_false_positives w]"

definition weights_total :: "score_weights \<Rightarrow> rat" where
  "weights_total w = w_concept_match w + w_file_match w + w_line_overlap w + w_severity_match w
     + w_fix_quality w + w_no_false_positives w"

record scoring_config =
  sc_weights :: score_weights
  sc_false_positive_penalty :: rat
  sc_false_positive_penalty_cap :: rat
  sc_invalid_json_penalty :: rat

definition valid_scoring_config :: "scoring_config \<Rightarrow> bool" where
  "valid_scoring_config s \<longleftrightarrow>
     valid_score_weights (sc_weights s)
     \<and> list_all (num_ok 0 (of_nat PENALTY_MAX))
         [sc_false_positive_penalty s, sc_false_positive_penalty_cap s, sc_invalid_json_penalty s]"

datatype test_command =
    CommandString string
  | ArgvCommand "string list"
  | ArgvSequence "string list list"

record execution_config =
  ex_run_tests :: bool
  ex_test_command :: "test_command option"
  ex_timeout_seconds :: int
  ex_docker_image :: "string option"
  ex_run_static_analysis :: bool
  ex_static_analysis_command :: "string option"

definition valid_argv :: "string list \<Rightarrow> bool" where
  "valid_argv argv \<longleftrightarrow> len_ok 1 ARGV_TOKENS argv \<and> list_all (len_ok 1 TOKEN_LEN) argv"

fun valid_test_command :: "test_command \<Rightarrow> bool" where
  "valid_test_command (CommandString s) = len_ok 0 COMMAND_STRING_LEN s"
| "valid_test_command (ArgvCommand argv) = valid_argv argv"
| "valid_test_command (ArgvSequence cs) = (len_ok 1 ARGV_COMMANDS cs \<and> list_all valid_argv cs)"

definition valid_execution_config :: "execution_config \<Rightarrow> bool" where
  "valid_execution_config e \<longleftrightarrow>
     option_ok valid_test_command (ex_test_command e)
     \<and> num_ok 1 (int TEST_TIMEOUT_SECONDS_MAX) (ex_timeout_seconds e)
     \<and> option_ok (len_ok 0 DOCKER_IMAGE_REF_LEN) (ex_docker_image e)
     \<and> option_ok (len_ok 0 COMMAND_STRING_LEN) (ex_static_analysis_command e)"

datatype detection_requirement = AllBugs | AtLeastOne

record validation_config =
  va_patch_required :: bool
  va_tests_required :: bool
  va_structural_validators :: "string list"
  va_max_false_positives :: int
  va_protected_paths :: "string list"
  va_detection_requirement :: detection_requirement

definition valid_validation_config :: "validation_config \<Rightarrow> bool" where
  "valid_validation_config v \<longleftrightarrow>
     len_ok 0 STRUCTURAL_VALIDATORS_PER_CASE (va_structural_validators v)
     \<and> list_all (len_ok 1 IDENTIFIER_LEN) (va_structural_validators v)
     \<and> num_ok 0 (int FINDINGS_PER_RESPONSE) (va_max_false_positives v)
     \<and> len_ok 0 PROTECTED_PATHS_PER_CASE (va_protected_paths v)
     \<and> list_all safe_file_path (va_protected_paths v)
     \<and> distinct (va_structural_validators v) \<and> distinct (va_protected_paths v)"

record benchmark_case =
  case_id :: string
  case_title :: string
  case_category :: string
  case_severity :: severity
  case_stack :: "string list"
  case_description :: string
  case_input_of :: case_input
  case_ground_truth :: ground_truth
  case_scoring :: scoring_config
  case_execution :: execution_config
  case_validation :: validation_config
  case_beta :: rat

definition valid_beta :: "rat \<Rightarrow> bool" where
  "valid_beta beta \<longleftrightarrow> 0 < beta \<and> beta \<le> of_nat BETA_MAX"

definition validate_benchmark_case :: "benchmark_case \<Rightarrow> (model_error, benchmark_case) res" where
  "validate_benchmark_case c =
     (if \<not> (safe_case_id (case_id c) \<and> len_ok 1 TITLE_LEN (case_title c)
          \<and> len_ok 1 CATEGORY_LEN (case_category c)
          \<and> len_ok 1 STACK_ENTRIES (case_stack c) \<and> list_all (len_ok 1 IDENTIFIER_LEN) (case_stack c)
          \<and> len_ok 0 DESCRIPTION_LEN (case_description c)
          \<and> valid_case_input (case_input_of c) \<and> valid_scoring_config (case_scoring c)
          \<and> valid_execution_config (case_execution c)
          \<and> valid_validation_config (case_validation c) \<and> valid_beta (case_beta c)
          \<and> distinct (case_stack c))
      then Inl FieldConstraint
      else and_then (validate_ground_truth (case_ground_truth c))
             (\<lambda>g. Inr (c\<lparr>case_ground_truth := g\<rparr>)))"

record case_manifest =
  man_version :: string
  man_name :: string
  man_cases :: "string list"
  man_default_docker_image :: "string option"

definition see_case_id :: "string \<Rightarrow> string list \<Rightarrow> (model_error, string list) res" where
  "see_case_id i seen = (if i \<in> set seen then Inl (DuplicateCaseId i) else Inr (i # seen))"

definition validate_case_manifest :: "case_manifest \<Rightarrow> (model_error, case_manifest) res" where
  "validate_case_manifest m =
     (if \<not> (len_ok 1 IDENTIFIER_LEN (man_version m) \<and> len_ok 1 TITLE_LEN (man_name m)
          \<and> len_ok 1 CASES_PER_MANIFEST (man_cases m) \<and> list_all safe_case_id (man_cases m)
          \<and> option_ok (len_ok 0 DOCKER_IMAGE_REF_LEN) (man_default_docker_image m))
      then Inl FieldConstraint
      else and_then (fold_res see_case_id (man_cases m) []) (\<lambda>_. Inr m))"

section \<open>Identifiers of the bugs of a case\<close>

lemma length_nat_str: "n < 1000 \<Longrightarrow> length (nat_str n) \<le> 3"
proof -
  assume "n < 1000"
  then have "n div 10 div 10 < 10" by (simp add: div_mult2_eq [symmetric] less_mult_imp_div_less)
  then show ?thesis
    by (simp add: nat_str.simps [of n] nat_str.simps [of "n div 10"]
        nat_str.simps [of "n div 10 div 10"])
qed

lemma assign_bug_id_simps [simp]:
  "bug_id (assign_bug_id (i, b)) = (if bug_id b = [] then auto_bug_id i else bug_id b)"
  "bug_id (assign_bug_id (i, b)) \<noteq> []"
  "assign_bug_id (i, assign_bug_id (j, b)) = assign_bug_id (j, b)"
  by (auto simp: assign_bug_id_def auto_bug_id_def)

lemma fold_see_bug_id:
  "fold_res see_bug_id bugs seen = Inr seen' \<longleftrightarrow>
     distinct (map (casefold \<circ> bug_id) bugs)
     \<and> (\<forall>b \<in> set bugs. map_of seen (casefold (bug_id b)) = None)
     \<and> seen' = rev (map (\<lambda>b. (casefold (bug_id b), bug_id b)) bugs) @ seen"
proof (induction bugs arbitrary: seen)
  case (Cons b bugs)
  then show ?case
    by (cases "map_of seen (casefold (bug_id b))")
      (auto simp: see_bug_id_def Let_def, metis image_eqI)
qed auto

lemma fold_see_bug_id_ok:
  "(\<exists>seen. fold_res see_bug_id bugs [] = Inr seen) \<longleftrightarrow> distinct (map (casefold \<circ> bug_id) bugs)"
  by (simp add: fold_see_bug_id)

lemma assign_and_validate_bug_ids_Inr [res_simps]:
  "assign_and_validate_bug_ids g = Inr g' \<longleftrightarrow>
     g' = g\<lparr>gt_bugs := map assign_bug_id (enum_list (gt_bugs g))\<rparr>
     \<and> distinct (map (casefold \<circ> bug_id) (gt_bugs g'))"
  by (auto simp: assign_and_validate_bug_ids_def Let_def res_simps fold_see_bug_id)

lemma valid_assigned_bug:
  "valid_gt_bug b \<Longrightarrow> i < 999 \<Longrightarrow> valid_gt_bug (assign_bug_id (i, b))"
  using length_nat_str [of "i + 1"]
  by (auto simp: valid_gt_bug_def assign_bug_id_def auto_bug_id_def len_ok_def IDENTIFIER_LEN_def)

lemma reject_duplicates_Inr [res_simps]:
  "reject_duplicate_acceptable_findings g = Inr g' \<longleftrightarrow>
     g' = g \<and> distinct (map (\<lambda>a. (acc_path a, acc_concepts a)) (gt_acceptable_findings g))"
  by (auto simp: reject_duplicate_acceptable_findings_def)

definition assigned_bugs :: "gt_bug list \<Rightarrow> gt_bug list" where
  "assigned_bugs bugs = map assign_bug_id (enum_list bugs)"

lemma length_enum_list [simp]: "length (enum_list xs) = length xs"
  by (simp add: enum_list_def)

lemma nth_enum_list [simp]: "i < length xs \<Longrightarrow> enum_list xs ! i = (i, xs ! i)"
  by (simp add: enum_list_def)

lemma length_assigned_bugs [simp]: "length (assigned_bugs bugs) = length bugs"
  by (simp add: assigned_bugs_def)

lemma nth_assigned_bugs [simp]:
  "i < length bugs \<Longrightarrow> assigned_bugs bugs ! i = assign_bug_id (i, bugs ! i)"
  by (simp add: assigned_bugs_def)

lemma assigned_bugs_idem [simp]: "assigned_bugs (assigned_bugs bugs) = assigned_bugs bugs"
  by (rule nth_equalityI) simp_all

lemma valid_assigned_bugs:
  "list_all valid_gt_bug bugs \<Longrightarrow> length bugs < 999 \<Longrightarrow> list_all valid_gt_bug (assigned_bugs bugs)"
  by (simp add: list_all_length valid_assigned_bug)

lemma validate_ground_truth_Inr:
  "validate_ground_truth g = Inr g' \<longleftrightarrow>
     len_ok 1 MAX_BUGS_PER_CASE (gt_bugs g) \<and> list_all valid_gt_bug (gt_bugs g)
     \<and> len_ok 0 ACCEPTABLE_FINDINGS_PER_CASE (gt_acceptable_findings g)
     \<and> list_all valid_acceptable_finding (gt_acceptable_findings g)
     \<and> distinct (map (casefold \<circ> bug_id) (assigned_bugs (gt_bugs g)))
     \<and> distinct (map (\<lambda>a. (acc_path a, acc_concepts a)) (gt_acceptable_findings g))
     \<and> g' = g\<lparr>gt_bugs := assigned_bugs (gt_bugs g)\<rparr>"
  by (auto simp: validate_ground_truth_def res_simps assigned_bugs_def)

lemma validate_ground_truth_again:
  "validate_ground_truth g = Inr g' \<Longrightarrow> validate_ground_truth g' = Inr g'"
  unfolding validate_ground_truth_Inr
  by (auto simp: len_ok_def MAX_BUGS_PER_CASE_def BUGS_PER_CASE_def intro!: valid_assigned_bugs)

text \<open>
  An accepted ground truth has a nonempty identifier for each bug, and no two are the same
  up to case; a declared identifier is kept and a missing one becomes \<open>bug-\<close> and the bug's
  position, with nothing else of the document changed; and validating the accepted document again,
  as loading a stored case does, changes nothing.
\<close>

theorem accepted_ground_truth:
  assumes "validate_ground_truth g = Inr g'"
  shows "distinct (map (\<lambda>b. casefold (bug_id b)) (gt_bugs g'))
    \<and> list_all (\<lambda>b. bug_id b \<noteq> []) (gt_bugs g')
    \<and> gt_bugs g' = map (\<lambda>(i, b). if bug_id b = [] then b\<lparr>bug_id := ''bug-'' @ nat_str (i + 1)\<rparr> else b)
         (enum_list (gt_bugs g))
    \<and> gt_acceptable_findings g' = gt_acceptable_findings g
    \<and> validate_ground_truth g' = Inr g'"
proof (intro conjI)
  note g' = assms [unfolded validate_ground_truth_Inr]
  show "distinct (map (\<lambda>b. casefold (bug_id b)) (gt_bugs g'))"
    using g' by (simp add: comp_def)
  show "list_all (\<lambda>b. bug_id b \<noteq> []) (gt_bugs g')"
    using g' by (auto simp: list_all_length auto_bug_id_def)
  show "gt_bugs g' = map (\<lambda>(i, b). if bug_id b = [] then b\<lparr>bug_id := ''bug-'' @ nat_str (i + 1)\<rparr> else b)
      (enum_list (gt_bugs g))"
    using g' by (auto simp: assigned_bugs_def assign_bug_id_def auto_bug_id_def)
  show "gt_acceptable_findings g' = gt_acceptable_findings g"
    using g' by simp
  show "validate_ground_truth g' = Inr g'"
    using assms by (rule validate_ground_truth_again)
qed

definition example_bug :: "string \<Rightarrow> gt_bug" where
  "example_bug i =
     \<lparr>bug_id = i, bug_summary = ''s'',
      bug_files = [\<lparr>gf_path = ''app.py'', gf_line_ranges = [\<lparr>lr_start = 3, lr_end = 5\<rparr>]\<rparr>],
      bug_concepts = [''race''], bug_must_mention = [], bug_fix_keywords = []\<rparr>"

lemma accepted_ground_truth_witness:
  "let g = \<lparr>gt_bugs = [example_bug ''Race'', example_bug []], gt_acceptable_findings = []\<rparr>;
       g' = \<lparr>gt_bugs = [example_bug ''Race'', example_bug ''bug-2''], gt_acceptable_findings = []\<rparr>
   in validate_ground_truth g = Inr g' \<and> validate_ground_truth g' = Inr g'"
proof -
  have "safe_file_path ''app.py''" by code_simp
  then have "valid_gt_file \<lparr>gf_path = ''app.py'', gf_line_ranges = [\<lparr>lr_start = 3, lr_end = 5\<rparr>]\<rparr>"
    by (simp add: valid_gt_file_def valid_line_range_def num_ok_def len_ok_def limit_defs)
  then have valid: "valid_gt_bug (example_bug ''Race'')" "valid_gt_bug (example_bug [])"
    by (simp_all add: valid_gt_bug_def example_bug_def len_ok_def limit_defs)
  have ids: "assigned_bugs [example_bug ''Race'', example_bug []]
      = [example_bug ''Race'', example_bug ''bug-2'']"
    by code_simp
  have folded: "casefold ''Race'' = ''race''" "casefold ''bug-2'' = ''bug-2''" by code_simp+
  have "validate_ground_truth \<lparr>gt_bugs = [example_bug ''Race'', example_bug []], gt_acceptable_findings = []\<rparr>
    = Inr \<lparr>gt_bugs = [example_bug ''Race'', example_bug ''bug-2''], gt_acceptable_findings = []\<rparr>"
    using valid ids folded
    by (simp add: validate_ground_truth_Inr len_ok_def limit_defs MAX_BUGS_PER_CASE_def)
      (simp add: example_bug_def)
  from this accepted_ground_truth [OF this] show ?thesis unfolding Let_def by blast
qed

end
