(* ===== verification/Results.thy ===== *)
theory Results
  imports Models
begin

text \<open>
  \<open>arena/core/models.py\<close>, the second half: what a reviewer returns and what a run records, with the
  validators that tie a stored response to its parse evidence and a stored run to its cases.
  Also the result types of the patch, test and validator stages (\<open>arena/patching/patch_models.py\<close>,
  \<open>arena/execution/test_executor.py\<close>, \<open>arena/validators/base.py\<close>).
\<close>

section \<open>Reviews\<close>

record finding =
  f_title :: string
  f_summary :: string
  f_category :: string
  f_severity :: severity
  f_file :: string
  f_line_start :: int
  f_line_end :: int
  f_evidence :: string
  f_suggested_fix :: "string option"
  f_suggested_patch :: "string option"
  f_replacement_code :: "string option"
  f_patch_confidence :: "rat option"
  f_confidence :: rat

definition valid_finding :: "finding \<Rightarrow> bool" where
  "valid_finding f \<longleftrightarrow>
     len_ok 0 FINDING_TITLE_LEN (f_title f) \<and> len_ok 0 FINDING_SUMMARY_LEN (f_summary f)
     \<and> len_ok 0 CATEGORY_LEN (f_category f) \<and> len_ok 0 (IDENTIFIER_LEN * 8) (f_file f)
     \<and> num_ok 1 (int LINE_NUMBER_MAX) (f_line_start f)
     \<and> num_ok 1 (int LINE_NUMBER_MAX) (f_line_end f)
     \<and> len_ok 0 EVIDENCE_LEN (f_evidence f)
     \<and> option_ok (len_ok 0 SUGGESTED_FIX_LEN) (f_suggested_fix f)
     \<and> option_ok (len_ok 0 PATCH_LEN) (f_suggested_patch f)
     \<and> option_ok (len_ok 0 REPLACEMENT_CODE_LEN) (f_replacement_code f)
     \<and> option_ok (num_ok 0 1) (f_patch_confidence f) \<and> num_ok 0 1 (f_confidence f)
     \<and> \<not> f_line_end f < f_line_start f"

record review_result =
  rv_findings :: "finding list"
  rv_proposed_patch :: "string option"
  rv_overall_risk :: risk
  rv_review_summary :: string

definition valid_review_result :: "review_result \<Rightarrow> bool" where
  "valid_review_result r \<longleftrightarrow>
     len_ok 0 MAX_FINDINGS_PER_RESPONSE (rv_findings r) \<and> list_all valid_finding (rv_findings r)
     \<and> option_ok (len_ok 0 PATCH_LEN) (rv_proposed_patch r)
     \<and> len_ok 0 REVIEW_SUMMARY_LEN (rv_review_summary r)"

record reviewer_response =
  rr_raw_response :: string
  rr_parsed_response :: "review_result option"
  rr_invalid_output :: bool
  rr_parse_attempts :: int
  rr_parse_status :: parse_status
  rr_parse_actions :: "string list"
  rr_input_finding_count :: "int option"
  rr_retained_finding_count :: "int option"
  rr_dropped_finding_count :: int
  rr_parse_error_summary :: "string option"
  rr_latency_ms :: int
  rr_input_tokens :: int
  rr_output_tokens :: int
  rr_estimated_cost :: rat
  rr_tool_usage :: "string list"
  rr_derived_from_legacy :: bool

definition valid_response_fields :: "reviewer_response \<Rightarrow> bool" where
  "valid_response_fields r \<longleftrightarrow>
     len_ok 0 PARSE_ACTIONS_MAX (rr_parse_actions r)
     \<and> list_all (len_ok 0 PARSE_ACTION_LEN) (rr_parse_actions r)
     \<and> option_ok (num_ok 0 (int JSON_MAX_NODES)) (rr_input_finding_count r)
     \<and> option_ok (num_ok 0 (int JSON_MAX_NODES)) (rr_retained_finding_count r)
     \<and> num_ok 0 (int JSON_MAX_NODES) (rr_dropped_finding_count r)
     \<and> option_ok (len_ok 0 PARSE_ERROR_SUMMARY_LEN) (rr_parse_error_summary r)"

text \<open>
  \<open>_derive_parse_status\<close> on the keys it reads: the stored status if there is one (then the flag is
  kept as given), else one derived from the legacy fields.
\<close>

definition derive_parse_status ::
  "parse_status option \<Rightarrow> bool \<Rightarrow> bool \<Rightarrow> int option \<Rightarrow> parse_status \<times> bool" where
  "derive_parse_status stored derived_from_legacy invalid_output parse_attempts =
     (case stored of
        Some status \<Rightarrow> (status, derived_from_legacy)
      | None \<Rightarrow>
          (if invalid_output then Invalid
           else let attempts = (case parse_attempts of None \<Rightarrow> 1 | Some n \<Rightarrow> n) in
             if attempts \<le> 1 then Exact else if attempts = 2 then Tolerant else Repaired,
           True))"

datatype evidence_error =
    UnknownParseAction | InvalidNotFlagged | InvalidWithParsed | InvalidRetainsFindings
  | NotValidWithParsed parse_status | ExactWithSalvage | TolerantWithoutActions
  | RepairedWithoutActions | RetainedCountMismatch | InputCountMismatch

definition check_evidence_invariants :: "reviewer_response \<Rightarrow> evidence_error option" where
  "check_evidence_invariants r =
     (if rr_derived_from_legacy r then None
      else if \<not> set (rr_parse_actions r) \<subseteq> set PARSE_ACTIONS then Some UnknownParseAction
      else if rr_parse_status r = Invalid then
        (if \<not> rr_invalid_output r then Some InvalidNotFlagged
         else if rr_parsed_response r \<noteq> None then Some InvalidWithParsed
         else if rr_retained_finding_count r \<noteq> None \<and> rr_retained_finding_count r \<noteq> Some 0
         then Some InvalidRetainsFindings
         else None)
      else (case rr_parsed_response r of
        None \<Rightarrow> Some (NotValidWithParsed (rr_parse_status r))
      | Some parsed \<Rightarrow>
          if rr_invalid_output r then Some (NotValidWithParsed (rr_parse_status r))
          else let parsed_count = int (length (rv_findings parsed)) in
          if rr_parse_status r = Exact
             \<and> (rr_parse_attempts r \<noteq> 1 \<or> rr_parse_actions r \<noteq> [] \<or> rr_dropped_finding_count r \<noteq> 0)
          then Some ExactWithSalvage
          else if rr_parse_status r = Tolerant
             \<and> (rr_parse_actions r = [] \<or> rr_dropped_finding_count r \<noteq> 0)
          then Some TolerantWithoutActions
          else if rr_parse_status r = Repaired \<and> rr_parse_actions r = []
          then Some RepairedWithoutActions
          else case rr_retained_finding_count r of
            None \<Rightarrow> None
          | Some retained \<Rightarrow>
              if retained \<noteq> parsed_count then Some RetainedCountMismatch
              else (case rr_input_finding_count r of
                None \<Rightarrow> None
              | Some input \<Rightarrow>
                  if input \<noteq> retained + rr_dropped_finding_count r then Some InputCountMismatch
                  else None)))"

section \<open>Stages of a case\<close>

record validator_result =
  vr_name :: string
  vr_passed :: bool
  vr_confidence :: rat
  vr_message :: string
  vr_evidence :: "string list"
  vr_error :: "string option"

record patch_apply_result =
  pa_case_id :: string
  pa_finding_id :: "string option"
  pa_applied :: bool
  pa_error :: "string option"
  pa_touched_files :: "string list"
  pa_touched_protected :: "string list"
  pa_unsafe_paths :: "string list"
  pa_workspace_path :: string
  pa_patch_text :: string
  pa_duration_ms :: int
  pa_reason :: "string option"
  pa_git_diagnostic :: "string option"
  pa_patch_sha256 :: "string option"
  pa_git_version :: "string option"
  pa_object_format :: "string option"
  pa_baseline_tree :: "string option"
  pa_result_tree :: "string option"
  pa_added :: "string list"
  pa_modified :: "string list"
  pa_deleted :: "string list"
  pa_mode_changes :: "string list"

datatype execution_mode = ModeDocker | ModeLocal | ModeSkipped

record test_execution_result =
  te_case_id :: string
  te_ran :: bool
  te_passed :: bool
  te_exit_code :: "int option"
  te_stdout :: string
  te_stderr :: string
  te_duration_ms :: int
  te_timed_out :: bool
  te_execution_mode :: execution_mode
  te_error :: "string option"
  te_image_digest :: "string option"

section \<open>Scores and case results\<close>

datatype line_match_quality = Full | Partial | SameFile | WrongFile

record score_breakdown =
  bd_concept_match :: rat
  bd_file_match :: rat
  bd_line_overlap :: rat
  bd_severity_match :: rat
  bd_fix_quality :: rat
  bd_no_false_positives :: rat
  bd_false_positive_penalty :: rat
  bd_invalid_json_penalty :: rat
  bd_total :: rat

datatype finding_evidence =
  RepairValidated | FindingUnrepaired | Unsupported | Neutral | Detected

datatype repair_confidence = Unvalidated | Basic | Strong

datatype case_status =
    CompleteRepair | PartialRepair | DetectedButUnrepaired | NoDetection | Tampering
  | Inconclusive | ReviewOnly

record scored_finding =
  sf_finding :: finding
  sf_is_true_positive :: bool
  sf_matched_bug_index :: "nat option"
  sf_is_neutral :: bool
  sf_false_positive_reason :: "string option"
  sf_evidence_status :: "finding_evidence option"

record bug_repair =
  br_bug_id :: string
  br_detected :: bool
  br_repaired :: bool

record deterministic_case_score =
  ds_case_id :: string
  ds_detected_bug :: bool
  ds_localized_correctly :: bool
  ds_patch_provided :: bool
  ds_patch_applied :: bool
  ds_tests_ran :: bool
  ds_tests_passed :: "bool option"
  ds_structural_validation_ran :: bool
  ds_structural_validation_passed :: "bool option"
  ds_true_positive_count :: int
  ds_false_positive_count :: int
  ds_false_negative_count :: int
  ds_precision :: rat
  ds_recall :: rat
  ds_f1 :: rat
  ds_f_beta :: rat
  ds_patch_apply_score :: rat
  ds_execution_score :: rat
  ds_structural_score :: rat
  ds_deterministic_pass :: bool
  ds_validation_eligible :: bool
  ds_failure_reasons :: "string list"

text \<open>
  A case result: what scoring the review alone gives, then what the execution stages add (all
  defaulted in the source).
\<close>

record review_score =
  cr_case_id :: string
  cr_title :: string
  cr_category :: string
  cr_severity :: severity
  cr_ground_truth_summary :: string
  cr_response :: reviewer_response
  cr_scored_findings :: "scored_finding list"
  cr_breakdown :: score_breakdown
  cr_score :: rat
  cr_review_quality_score :: "rat option"
  cr_bug_found :: bool
  cr_correct_file :: bool
  cr_correct_line :: bool
  cr_line_match :: line_match_quality
  cr_bugs_total :: int
  cr_bugs_matched :: int
  cr_false_positive_count :: int
  cr_context_truncated :: bool
  cr_test_output :: string

record case_evidence =
  ce_deterministic_case_score :: "deterministic_case_score option"
  ce_patch_provided :: bool
  ce_patch_applied :: bool
  ce_patch_error :: "string option"
  ce_touched_files :: "string list"
  ce_patch_sha256 :: "string option"
  ce_patch_object_format :: "string option"
  ce_patch_baseline_tree :: "string option"
  ce_patch_result_tree :: "string option"
  ce_git_diagnostic :: "string option"
  ce_patch_added :: "string list"
  ce_patch_deleted :: "string list"
  ce_patch_mode_changes :: "string list"
  ce_tests_ran :: bool
  ce_tests_passed :: "bool option"
  ce_test_stdout_tail :: string
  ce_test_stderr_tail :: string
  ce_validators_run :: "string list"
  ce_validators_passed :: "bool option"
  ce_validator_results :: "validator_result list"
  ce_deterministic_pass :: "bool option"
  ce_failure_reasons :: "string list"
  ce_raw_suggested_patch :: "string option"
  ce_case_status :: "case_status option"
  ce_bug_repairs :: "bug_repair list"
  ce_repair_confidence :: "repair_confidence option"
  ce_execution_backend :: execution_backend
  ce_execution_unavailable :: bool

definition no_evidence :: case_evidence where
  "no_evidence =
     \<lparr>ce_deterministic_case_score = None, ce_patch_provided = False, ce_patch_applied = False,
      ce_patch_error = None, ce_touched_files = [], ce_patch_sha256 = None,
      ce_patch_object_format = None, ce_patch_baseline_tree = None, ce_patch_result_tree = None,
      ce_git_diagnostic = None, ce_patch_added = [], ce_patch_deleted = [],
      ce_patch_mode_changes = [], ce_tests_ran = False, ce_tests_passed = None,
      ce_test_stdout_tail = [], ce_test_stderr_tail = [], ce_validators_run = [],
      ce_validators_passed = None, ce_validator_results = [], ce_deterministic_pass = None,
      ce_failure_reasons = [], ce_raw_suggested_patch = None, ce_case_status = None,
      ce_bug_repairs = [], ce_repair_confidence = None, ce_execution_backend = NoBackend,
      ce_execution_unavailable = False\<rparr>"

record case_result =
  res_review :: review_score
  res_evidence :: case_evidence

section \<open>Runs\<close>

record deterministic_metrics =
  dm_detection_precision :: rat
  dm_detection_recall :: rat
  dm_detection_f1 :: rat
  dm_detection_f_beta :: rat
  dm_validated_precision :: rat
  dm_validated_recall :: rat
  dm_validated_f1 :: rat
  dm_validated_f_beta :: rat
  dm_beta :: rat
  dm_deterministic_pass_rate :: rat
  dm_validated_case_rate :: rat
  dm_validated_case_rate_ci :: "(real \<times> real) option"
  dm_complete_repair_rate :: rat
  dm_bug_completeness_rate :: rat
  dm_supported_claim_rate :: "rat option"
  dm_localization_rate :: "rat option"
  dm_patch_apply_rate :: "rat option"
  dm_test_pass_rate :: "rat option"
  dm_structural_pass_rate :: "rat option"
  dm_false_positives_per_case :: rat
  dm_cost_per_validated_fix :: "rat option"
  dm_latency_per_case_ms :: rat

text \<open>\<open>load_legacy_metric_names\<close> on a decoded document, an association list of its values.\<close>

definition setdefault :: "string \<Rightarrow> 'v \<Rightarrow> (string \<times> 'v) list \<Rightarrow> (string \<times> 'v) list" where
  "setdefault k v d = (if map_of d k = None then d @ [(k, v)] else d)"

definition get_or :: "string \<Rightarrow> 'v \<Rightarrow> (string \<times> 'v) list \<Rightarrow> 'v" where
  "get_or k v d = (case map_of d k of None \<Rightarrow> v | Some x \<Rightarrow> x)"

definition load_legacy_metric_names :: "'v \<Rightarrow> 'v \<Rightarrow> (string \<times> 'v) list \<Rightarrow> (string \<times> 'v) list" where
  "load_legacy_metric_names zero none value =
     fold (\<lambda>(new, old, default) d. setdefault new (get_or old default d) d)
       [(''detection_precision'', ''precision'', zero),
        (''detection_recall'', ''recall'', zero),
        (''detection_f1'', ''f1'', zero),
        (''detection_f_beta'', ''f_beta'', zero),
        (''validated_precision'', ''precision'', zero),
        (''validated_recall'', ''recall'', zero),
        (''validated_f1'', ''f1'', zero),
        (''validated_f_beta'', ''f_beta'', zero),
        (''validated_case_rate'', ''deterministic_pass_rate'', zero),
        (''latency_per_case_ms'', ''latency_per_case'', zero),
        (''cost_per_validated_fix'', ''cost_per_true_positive'', none)] value"

record run_metadata =
  md_prompt_version :: string
  md_benchmark_version :: string
  md_temperature :: rat
  md_git_commit :: "string option"
  md_git_dirty :: "bool option"
  md_test_assisted :: bool
  md_pack_checksum :: "string option"
  md_pack_checksum_verified :: "bool option"
  md_pack_digest_externally_verified :: bool
  md_snapshot_file_count :: "int option"
  md_snapshot_total_bytes :: "int option"
  md_snapshot_manifest_version :: "int option"
  md_snapshot_integrity_verified :: "bool option"
  md_snapshot_manifest_digest :: "string option"
  md_reviewer_parse_status_counts :: "(string \<times> int) list"
  md_non_exact_output_used :: "bool option"

datatype run_mode = ReviewMode | PatchMode | FullMode

record run_result =
  rn_run_id :: string
  rn_benchmark_set :: string
  rn_reviewer :: string
  rn_model :: "string option"
  rn_started_at :: int
  rn_completed_at :: int
  rn_metadata :: run_metadata
  rn_case_results :: "case_result list"
  rn_total_score :: rat
  rn_budget_stopped_reason :: "string option"
  rn_skipped_case_ids :: "string list"
  rn_schema_version :: int
  rn_run_status :: run_status
  rn_execution_backend :: execution_backend
  rn_eligible_case_count :: int
  rn_completed_case_count :: int
  rn_failed_case_count :: int
  rn_skipped_case_count :: int
  rn_coverage_rate :: rat
  rn_mode :: run_mode
  rn_beta :: rat
  rn_deterministic_metrics :: "deterministic_metrics option"
  rn_bugs_found :: int
  rn_correct_files :: int
  rn_correct_lines :: int
  rn_false_positives :: int
  rn_total_cost :: rat
  rn_total_latency_ms :: int

fun status_name :: "parse_status \<Rightarrow> string" where
  "status_name Exact = ''exact''"
| "status_name Tolerant = ''tolerant''"
| "status_name Repaired = ''repaired''"
| "status_name Invalid = ''invalid''"

text \<open>The loop that counts statuses, \<open>actual[status] = actual.get(status, 0) + 1\<close>.\<close>

definition count_status :: "parse_status \<Rightarrow> (string \<times> int) list \<Rightarrow> (string \<times> int) list" where
  "count_status status d = alist_put (status_name status) (get_or (status_name status) 0 d + 1) d"

definition status_counts :: "parse_status list \<Rightarrow> (string \<times> int) list" where
  "status_counts statuses = fold count_status statuses []"

datatype consistency_error =
    UnknownStatusKey | NegativeCount | CountsDisagree | TotalMismatch | NonExactMismatch

definition check_parse_evidence_consistency ::
  "bool option \<Rightarrow> (string \<times> int) list \<Rightarrow> parse_status list \<Rightarrow> consistency_error option" where
  "check_parse_evidence_consistency non_exact_output_used recorded statuses =
     (case non_exact_output_used of
        None \<Rightarrow> None
      | Some used \<Rightarrow>
          let actual = status_counts statuses in
          if \<not> set (map fst recorded) \<subseteq> {''exact'', ''tolerant'', ''repaired'', ''invalid''}
          then Some UnknownStatusKey
          else if list_ex (\<lambda>(k, n). n < 0) recorded then Some NegativeCount
          else if set (filter (\<lambda>(k, n). n \<noteq> 0) recorded) \<noteq> set (filter (\<lambda>(k, n). n \<noteq> 0) actual)
          then Some CountsDisagree
          else if sum_list (map snd recorded) \<noteq> int (length statuses) then Some TotalMismatch
          else if used \<noteq> list_ex (\<lambda>(k, n). k = ''tolerant'' \<or> k = ''repaired'') actual
          then Some NonExactMismatch
          else None)"

definition validate_run_result :: "run_result \<Rightarrow> consistency_error option" where
  "validate_run_result r =
     check_parse_evidence_consistency (md_non_exact_output_used (rn_metadata r))
       (md_reviewer_parse_status_counts (rn_metadata r))
       (map (\<lambda>c. rr_parse_status (cr_response (res_review c))) (rn_case_results r))"

section \<open>Status counts\<close>

lemma status_name_inj [simp]: "status_name a = status_name b \<longleftrightarrow> a = b"
  by (cases a; cases b) simp_all

lemma status_name_cases:
  "s \<in> {''exact'', ''tolerant'', ''repaired'', ''invalid''} \<longleftrightarrow> (\<exists>st. s = status_name st)"
proof
  assume "s \<in> {''exact'', ''tolerant'', ''repaired'', ''invalid''}"
  then consider "s = status_name Exact" | "s = status_name Tolerant" | "s = status_name Repaired"
    | "s = status_name Invalid" by auto
  then show "\<exists>st. s = status_name st" by cases blast+
next
  assume "\<exists>st. s = status_name st"
  then obtain st where "s = status_name st" ..
  then show "s \<in> {''exact'', ''tolerant'', ''repaired'', ''invalid''}" by (cases st) auto
qed

lemma get_or_count_status:
  "map_of (count_status st d) (status_name st') =
     (if st = st' then Some (get_or (status_name st) 0 d + 1) else map_of d (status_name st'))"
  by (auto simp: count_status_def)

lemma status_counts_fold:
  "map_of (fold count_status statuses d) (status_name st) =
     (if st \<in> set statuses
      then Some (get_or (status_name st) 0 d + int (count_list statuses st))
      else map_of d (status_name st))"
proof (induction statuses arbitrary: d)
  case (Cons a statuses)
  show ?case
    by (auto simp: Cons.IH get_or_count_status get_or_def)
qed simp

lemma status_counts_get:
  "map_of (status_counts statuses) (status_name st) =
     (if st \<in> set statuses then Some (int (count_list statuses st)) else None)"
  by (simp add: status_counts_def status_counts_fold get_or_def)

lemma status_counts_keys:
  "set (map fst (fold count_status statuses d)) = set (map fst d) \<union> status_name ` set statuses"
  by (induction statuses arbitrary: d) (auto simp: count_status_def keys_alist_put simp del: set_map)

lemma status_counts_distinct:
  "distinct (map fst d) \<Longrightarrow> distinct (map fst (fold count_status statuses d))"
  by (induction statuses arbitrary: d) (simp_all add: count_status_def distinct_alist_put)

lemma get_or_Some: "distinct (map fst d) \<Longrightarrow> (k, v) \<in> set d \<Longrightarrow> get_or k z d = v"
  by (simp add: get_or_def)

lemma get_or_in: "get_or k z d \<noteq> z \<Longrightarrow> (k, get_or k z d) \<in> set d"
  by (auto simp: get_or_def split: option.splits dest: map_of_SomeD)

lemma get_or_status_counts [simp]:
  "get_or (status_name st) 0 (status_counts statuses) = int (count_list statuses st)"
  by (simp add: get_or_def status_counts_get count_list_0_iff)

lemma status_counts_known:
  "(k, n) \<in> set (status_counts statuses) \<Longrightarrow> \<exists>st \<in> set statuses. k = status_name st"
  using status_counts_keys [of statuses "[]"] by (force simp: status_counts_def)

lemma distinct_status_counts: "distinct (map fst (status_counts statuses))"
  by (simp add: status_counts_def status_counts_distinct)

lemma nonzero_counts_agree:
  assumes "distinct (map fst d)" "\<forall>(k, n) \<in> set d. \<exists>st. k = status_name st"
  shows "set (filter (\<lambda>(k, n). n \<noteq> 0) d) = set (filter (\<lambda>(k, n). n \<noteq> 0) (status_counts sts))
    \<longleftrightarrow> (\<forall>st. get_or (status_name st) 0 d = int (count_list sts st))" (is "?L \<longleftrightarrow> ?R")
proof -
  let ?a = "status_counts sts"
  have mem: "(k, n) \<in> set e \<and> n \<noteq> 0 \<longleftrightarrow> get_or k 0 e = n \<and> n \<noteq> 0"
    if "distinct (map fst e)" for k and n :: int and e
    using that get_or_Some get_or_in by fastforce
  note d = mem [OF assms(1)] and a = mem [OF distinct_status_counts [of sts]]
  have "?L \<longleftrightarrow> (\<forall>k n. n \<noteq> 0 \<longrightarrow> get_or k 0 d = n \<longleftrightarrow> get_or k 0 ?a = n)"
    using d a by (auto simp: set_eq_iff)
  also have "\<dots> \<longleftrightarrow> (\<forall>k. get_or k 0 d = get_or k 0 ?a)" by metis
  also have "\<dots> \<longleftrightarrow> ?R"
  proof
    assume "\<forall>k. get_or k 0 d = get_or k 0 ?a"
    then show ?R by simp
  next
    assume R: ?R
    show "\<forall>k. get_or k 0 d = get_or k 0 ?a"
    proof
      fix k
      show "get_or k 0 d = get_or k 0 ?a"
      proof (cases "\<exists>st. k = status_name st")
        case True
        then show ?thesis using R by auto
      next
        case False
        then have "map_of d k = None" "map_of ?a k = None"
          using assms(2) status_counts_known [of k _ sts]
          by (fastforce simp: map_of_eq_None_iff)+
        then show ?thesis by (simp add: get_or_def)
      qed
    qed
  qed
  finally show ?thesis .
qed

lemma sum_nonzero:
  "distinct (map fst d) \<Longrightarrow>
   sum_list (map snd d) = (\<Sum>x \<in> set (filter (\<lambda>(k, n). n \<noteq> 0) d). snd x)" for d :: "('k \<times> int) list"
proof (induction d)
  case (Cons x d)
  have "x \<notin> set d" using Cons.prems by (cases x) force
  then show ?case using Cons by (cases x) auto
qed simp

lemma sum_count_status:
  "sum_list (map snd (count_status st d)) = sum_list (map snd d) + 1"
proof -
  have "sum_list (map snd (alist_put k (get_or k 0 d + c) d)) = sum_list (map snd d) + c"
    for k and c :: int
  proof (induction d)
    case (Cons x d)
    then show ?case by (cases x) (auto simp: get_or_def)
  qed (simp add: get_or_def)
  then show ?thesis by (simp add: count_status_def)
qed

lemma sum_status_counts: "sum_list (map snd (status_counts sts)) = int (length sts)"
proof -
  have "sum_list (map snd (fold count_status sts d)) = sum_list (map snd d) + int (length sts)" for d
    by (induction sts arbitrary: d) (simp_all add: sum_count_status)
  then show ?thesis by (simp add: status_counts_def)
qed

lemma salvaged_flag:
  "list_ex (\<lambda>(k, n). k = ''tolerant'' \<or> k = ''repaired'') (status_counts sts)
    \<longleftrightarrow> Tolerant \<in> set sts \<or> Repaired \<in> set sts" (is "?F \<longleftrightarrow> ?S")
proof
  assume ?F
  then obtain k n where kn: "(k, n) \<in> set (status_counts sts)"
    and k: "k = status_name Tolerant \<or> k = status_name Repaired" by (auto simp: list_ex_iff)
  then show ?S using status_counts_known [OF kn] by (metis status_name_inj)
next
  assume ?S
  then obtain st where st: "st \<in> set sts" "st = Tolerant \<or> st = Repaired" by auto
  then have "map_of (status_counts sts) (status_name st) \<noteq> None"
    by (simp add: status_counts_get)
  then obtain n where "(status_name st, n) \<in> set (status_counts sts)"
    by (metis map_of_SomeD option.exhaust)
  then show ?F using st(2) by (force simp: list_ex_iff)
qed

lemma status_counts_positive:
  assumes "(k, n) \<in> set (status_counts sts)" shows "0 \<le> n"
proof -
  obtain st where "k = status_name st" using status_counts_known [OF assms] by blast
  then show ?thesis using get_or_Some [OF distinct_status_counts assms, of 0] by auto
qed

text \<open>The counts the run records of its own cases always pass the check.\<close>

lemma status_counts_accepted:
  "check_parse_evidence_consistency (Some (list_ex (\<lambda>s. s = Tolerant \<or> s = Repaired) sts)) (status_counts sts) sts
   = None"
proof -
  have known: "set (map fst (status_counts sts)) \<subseteq> {''exact'', ''tolerant'', ''repaired'', ''invalid''}"
    unfolding subset_iff status_name_cases using status_counts_known by fastforce
  have "\<not> list_ex (\<lambda>(k, n). n < 0) (status_counts sts)"
    using status_counts_positive by (fastforce simp: list_ex_iff)
  moreover have "list_ex (\<lambda>s. s = Tolerant \<or> s = Repaired) sts \<longleftrightarrow> Tolerant \<in> set sts \<or> Repaired \<in> set sts"
    by (auto simp: list_ex_iff)
  ultimately show ?thesis
    unfolding check_parse_evidence_consistency_def option.case Let_def salvaged_flag
    using known by (simp add: sum_status_counts)
qed

text \<open>
  A new run is accepted exactly when its recorded parse-status counts, key by key, are the
  numbers of cases with that status, no other key is recorded, and the non-exact flag says whether
  any case was salvaged. (The separate check of the total never fires on its own.)
\<close>

theorem run_evidence_consistency:
  assumes "distinct (map fst recorded)"
  shows "check_parse_evidence_consistency (Some used) recorded statuses = None \<longleftrightarrow>
    (\<forall>k \<in> set (map fst recorded). \<exists>st. k = status_name st)
    \<and> (\<forall>st. get_or (status_name st) 0 recorded = int (count_list statuses st))
    \<and> (used \<longleftrightarrow> Tolerant \<in> set statuses \<or> Repaired \<in> set statuses)"
proof -
  let ?known = "\<forall>k \<in> set (map fst recorded). \<exists>st. k = status_name st"
  let ?agree = "\<forall>st. get_or (status_name st) 0 recorded = int (count_list statuses st)"
  have known: "set (map fst recorded) \<subseteq> {''exact'', ''tolerant'', ''repaired'', ''invalid''}
      \<longleftrightarrow> ?known"
    unfolding subset_iff status_name_cases by auto
  note flag = salvaged_flag [of statuses]
  show ?thesis
  proof (cases ?known)
    case True
    then have st: "\<forall>(k, n) \<in> set recorded. \<exists>st. k = status_name st" by fastforce
    note agree = nonzero_counts_agree [OF assms st, of statuses]
    have "\<not> list_ex (\<lambda>(k, n). n < 0) recorded" if ?agree
    proof
      assume "list_ex (\<lambda>(k, n). n < 0) recorded"
      then obtain k n where kn: "(k, n) \<in> set recorded" "n < 0" by (auto simp: list_ex_iff)
      then obtain s where "k = status_name s" using st by blast
      then have "n = int (count_list statuses s)"
        using that get_or_Some [OF assms kn(1), of 0] by metis
      then show False using kn(2) by simp
    qed
    moreover have "sum_list (map snd recorded) = int (length statuses)" if ?agree
      using that agree sum_nonzero [OF assms] sum_nonzero [OF distinct_status_counts [of statuses]]
      by (simp add: sum_status_counts)
    ultimately show ?thesis
      unfolding check_parse_evidence_consistency_def option.case Let_def known flag agree
      using True by auto
  next
    case False
    then show ?thesis
      unfolding check_parse_evidence_consistency_def option.case Let_def known by auto
  qed
qed

theorem run_evidence_consistency_witness:
  "check_parse_evidence_consistency (Some True) [(''exact'', 1), (''tolerant'', 1), (''invalid'', 0)]
     [Exact, Tolerant] = None
   \<and> check_parse_evidence_consistency (Some False) [(''exact'', 2)] [Exact, Tolerant]
     = Some CountsDisagree
   \<and> get_or (status_name Tolerant) 0 [(''exact'', 1), (''tolerant'', 1), (''invalid'', 0)] = (1::int)"
proof -
  let ?d = "[(''exact'', 1), (''tolerant'', 1), (''invalid'', 0)] :: (string \<times> int) list"
  have c: "check_parse_evidence_consistency (Some True) ?d [Exact, Tolerant] = None"
    "check_parse_evidence_consistency (Some False) [(''exact'', 2)] [Exact, Tolerant]
     = Some CountsDisagree"
    by code_simp+
  have "distinct (map fst ?d)" by simp
  with c(1) have "get_or (status_name Tolerant) 0 ?d = int (count_list [Exact, Tolerant] Tolerant)"
    using run_evidence_consistency [of ?d True "[Exact, Tolerant]"] by blast
  then show ?thesis using c by simp
qed

end
