(* ===== verification/Text_Match.thy ===== *)
theory Text_Match
  imports Results
begin

text \<open>
  The textual signals of the review score: \<open>concept_matcher.py\<close>, \<open>line_matcher.py\<close>,
  \<open>severity_matcher.py\<close>, \<open>fix_quality.py\<close> and \<open>false_positive.py\<close> under \<open>arena/scoring/\<close>.
\<close>

section \<open>Line matching\<close>

fun line_match_ratio :: "line_match_quality \<Rightarrow> rat" where
  "line_match_ratio Full = 1"
| "line_match_ratio Partial = 8 / 15"
| "line_match_ratio SameFile = 3 / 15"
| "line_match_ratio WrongFile = 0"

definition LOCALIZED_QUALITIES :: "line_match_quality list" where
  "LOCALIZED_QUALITIES = [Full, Partial]"

text \<open>\<open>PurePosixPath(s).as_posix()\<close>: the root, then the components that are neither empty nor a dot.\<close>

definition posix_path :: "string \<Rightarrow> string" where
  "posix_path s =
     (let root = (if starts_with s ''//'' \<and> \<not> starts_with s ''///'' then ''//''
                  else if starts_with s ''/'' then ''/'' else []);
          path = root @ join_with ''/'' (posix_parts s)
      in if path = [] then ''.'' else path)"

definition normalize_path :: "string \<Rightarrow> string" where
  "normalize_path path =
     (let normalized = map (\<lambda>c. if c = CHR 0x5C then CHR ''/'' else c) path;
          normalized = (if starts_with normalized ''./'' then drop 2 normalized else normalized);
          normalized = (if starts_with normalized ''a/'' \<or> starts_with normalized ''b/''
                        then drop 2 normalized else normalized)
      in posix_path normalized)"

definition path_matches :: "string \<Rightarrow> string \<Rightarrow> bool" where
  "path_matches candidate expected \<longleftrightarrow> normalize_path candidate = normalize_path expected"

fun range_quality :: "int \<Rightarrow> int \<Rightarrow> line_range list \<Rightarrow> line_match_quality \<Rightarrow> line_match_quality" where
  "range_quality line_start line_end [] quality = quality"
| "range_quality line_start line_end (expected # rest) quality =
     (if max line_start (lr_start expected) \<le> min line_end (lr_end expected)
      then if line_start \<le> lr_start expected \<and> lr_end expected \<le> line_end then Full
           else range_quality line_start line_end rest Partial
      else range_quality line_start line_end rest quality)"

definition line_match_quality :: "finding \<Rightarrow> gt_file \<Rightarrow> line_match_quality" where
  "line_match_quality finding target =
     (if \<not> path_matches (f_file finding) (gf_path target) then WrongFile
      else range_quality (f_line_start finding) (f_line_end finding) (gf_line_ranges target) SameFile)"

section \<open>Concepts\<close>

definition CATEGORY_SHARE :: rat where "CATEGORY_SHARE = 10"
definition MUST_MENTION_SHARE :: rat where "MUST_MENTION_SHARE = 15"
definition CONCEPTS_SHARE :: rat where "CONCEPTS_SHARE = 10"
definition TOTAL_SHARE :: rat where
  "TOTAL_SHARE = CATEGORY_SHARE + MUST_MENTION_SHARE + CONCEPTS_SHARE"

text \<open>
  The pattern of \<open>mentions\<close>: a word boundary, the tokens separated by white space, a word boundary.
  A token starts with a non-space character, so the white space before it is matched whole.
\<close>

definition is_word :: "char \<Rightarrow> bool" where
  "is_word c = (let n = (of_char c :: nat) in
     is_ascii_alnum c \<or> n = 95 \<or> n \<in> set [170, 178, 179, 181, 185, 186, 188, 189, 190]
     \<or> (192 \<le> n \<and> n \<noteq> 215 \<and> n \<noteq> 247))"

definition at_boundary :: "char option \<Rightarrow> string \<Rightarrow> bool" where
  "at_boundary prev s \<longleftrightarrow>
     (case prev of None \<Rightarrow> False | Some c \<Rightarrow> is_word c) \<noteq> (s \<noteq> [] \<and> is_word (hd s))"

fun match_tokens :: "string list \<Rightarrow> string \<Rightarrow> bool" where
  "match_tokens [] s = False"
| "match_tokens [t] s =
     (starts_with s t \<and> at_boundary (Some (last t)) (drop (length t) s))"
| "match_tokens (t # t' # ts) s =
     (starts_with s t
      \<and> (let rest = drop (length t) s in
         rest \<noteq> [] \<and> is_space (hd rest) \<and> match_tokens (t' # ts) (dropWhile is_space rest)))"

fun search_tokens :: "string list \<Rightarrow> char option \<Rightarrow> string \<Rightarrow> bool" where
  "search_tokens ts prev [] = (at_boundary prev [] \<and> match_tokens ts [])"
| "search_tokens ts prev (c # s) =
     (at_boundary prev (c # s) \<and> match_tokens ts (c # s) \<or> search_tokens ts (Some c) s)"

definition mentions :: "string \<Rightarrow> string \<Rightarrow> bool" where
  "mentions text phrase =
     (let tokens = split_ws (casefold phrase) in
      tokens \<noteq> [] \<and> search_tokens tokens None (casefold text))"

definition finding_text :: "finding \<Rightarrow> string" where
  "finding_text f =
     join_with '' ''
       [f_title f, f_summary f, f_evidence f, case f_suggested_fix f of None \<Rightarrow> [] | Some s \<Rightarrow> s]"

definition mention_share :: "string \<Rightarrow> string list \<Rightarrow> rat" where
  "mention_share text phrases =
     (if phrases = [] then 1
      else of_nat (length (filter (mentions text) phrases)) / of_nat (length phrases))"

definition concept_ratio :: "finding \<Rightarrow> gt_bug \<Rightarrow> string \<Rightarrow> rat" where
  "concept_ratio finding bug own_category =
     (let text = finding_text finding;
          category = (if f_category finding = own_category then CATEGORY_SHARE else 0);
          must_ratio = mention_share text (bug_must_mention bug);
          concepts = mention_share text (bug_concepts bug);
          earned = category + MUST_MENTION_SHARE * must_ratio + CONCEPTS_SHARE * concepts
      in py_round (earned / TOTAL_SHARE) 6)"

section \<open>Severity, fix keywords, false positives\<close>

definition ORDER :: "severity list" where
  "ORDER = [Low, Medium, High, Critical]"

fun list_index :: "'a list \<Rightarrow> 'a \<Rightarrow> nat" where
  "list_index [] y = 0"
| "list_index (x # xs) y = (if x = y then 0 else Suc (list_index xs y))"

text \<open>Severities are compared by their place in \<open>ORDER\<close>.\<close>

instantiation severity :: linorder
begin

definition less_eq_severity :: "severity \<Rightarrow> severity \<Rightarrow> bool" where
  "less_eq_severity a b \<longleftrightarrow> list_index ORDER a \<le> list_index ORDER b"

definition less_severity :: "severity \<Rightarrow> severity \<Rightarrow> bool" where
  "less_severity a b \<longleftrightarrow> list_index ORDER a < list_index ORDER b"

instance
proof
  fix a b :: severity
  show "a \<le> b \<Longrightarrow> b \<le> a \<Longrightarrow> a = b"
    by (cases a; cases b) (simp_all add: less_eq_severity_def ORDER_def)
qed (auto simp: less_eq_severity_def less_severity_def)

end

definition severity_ratio :: "severity \<Rightarrow> severity \<Rightarrow> rat" where
  "severity_ratio actual expected =
     (let distance = \<bar>int (list_index ORDER actual) - int (list_index ORDER expected)\<bar>
      in if distance = 0 then 1 else if distance = 1 then 1 / 2 else 0)"

definition WEAK_FIX_CAP :: rat where "WEAK_FIX_CAP = 8 / 15"

definition fix_quality_ratio :: "finding \<Rightarrow> gt_bug \<Rightarrow> rat" where
  "fix_quality_ratio finding bug =
     (let fix_text = py_strip (casefold
            (case f_suggested_fix finding of None \<Rightarrow> [] | Some s \<Rightarrow> s))
      in if fix_text = [] then 0
         else let matches = length (filter (\<lambda>keyword. contains_sub (casefold keyword) fix_text)
                                     (bug_fix_keywords bug))
              in if matches \<ge> 2 then 1 else if matches = 1 then 8 / 15 else 3 / 15)"

definition classify_false_positive :: "finding \<Rightarrow> string list \<Rightarrow> string" where
  "classify_false_positive finding expected_files =
     (let summary = casefold (f_title finding @ '' '' @ f_summary finding) in
      if contains_sub ''style'' summary \<or> contains_sub ''rename'' summary
         \<or> contains_sub ''format'' summary then ''style-only''
      else if f_file finding \<notin> set expected_files then ''wrong-file''
      else if contains_sub ''may'' summary \<or> contains_sub ''could'' summary
      then ''unsupported-speculation''
      else ''non-bug'')"

section \<open>Ratios lie between 0 and 1\<close>

lemma line_match_ratio_bounds: "0 \<le> line_match_ratio q \<and> line_match_ratio q \<le> 1"
  by (cases q) simp_all

lemma line_match_ratio_less:
  "line_match_ratio a < line_match_ratio b \<longleftrightarrow>
     (a, b) \<in> {(WrongFile, SameFile), (WrongFile, Partial), (WrongFile, Full), (SameFile, Partial),
                (SameFile, Full), (Partial, Full)}"
  by (cases a; cases b) simp_all

lemma mention_share_bounds: "0 \<le> mention_share text ps \<and> mention_share text ps \<le> 1"
  by (simp add: mention_share_def divide_le_eq)

lemma concept_ratio_bounds: "0 \<le> concept_ratio f b c \<and> concept_ratio f b c \<le> 1"
proof -
  have "0 \<le> mention_share t ps" "mention_share t ps \<le> 1" for t ps
    using mention_share_bounds by auto
  note m = this [of "finding_text f" "bug_must_mention b"] this [of "finding_text f" "bug_concepts b"]
  show ?thesis
    unfolding concept_ratio_def Let_def
    using m by (auto simp: CATEGORY_SHARE_def MUST_MENTION_SHARE_def CONCEPTS_SHARE_def
        TOTAL_SHARE_def intro!: py_round_nonneg py_round_le_1)
qed

lemma severity_ratio_bounds: "0 \<le> severity_ratio a b \<and> severity_ratio a b \<le> 1"
  by (simp add: severity_ratio_def Let_def)

lemma fix_quality_ratio_bounds: "0 \<le> fix_quality_ratio f b \<and> fix_quality_ratio f b \<le> 1"
  by (simp add: fix_quality_ratio_def Let_def)

lemmas ratio_bounds = line_match_ratio_bounds concept_ratio_bounds severity_ratio_bounds
  fix_quality_ratio_bounds

lemma severity_ratio_1_iff: "severity_ratio a b = 1 \<longleftrightarrow> a = b"
  by (cases a; cases b) (simp_all add: severity_ratio_def ORDER_def)

section \<open>Line localisation\<close>

definition covers :: "int \<Rightarrow> int \<Rightarrow> line_range \<Rightarrow> bool" where
  "covers a b r \<longleftrightarrow> a \<le> lr_start r \<and> lr_end r \<le> b"

definition overlaps :: "int \<Rightarrow> int \<Rightarrow> line_range \<Rightarrow> bool" where
  "overlaps a b r \<longleftrightarrow> (\<exists>line. a \<le> line \<and> line \<le> b \<and> lr_start r \<le> line \<and> line \<le> lr_end r)"

lemma overlaps_iff: "overlaps a b r \<longleftrightarrow> max a (lr_start r) \<le> min b (lr_end r)"
  unfolding overlaps_def by (auto intro: exI [of _ "max a (lr_start r)"])

lemma range_quality_Cons:
  "range_quality a b (r # rs) q =
     (if overlaps a b r then if covers a b r then Full else range_quality a b rs Partial
      else range_quality a b rs q)"
  by (simp add: overlaps_iff covers_def)

lemma covers_overlaps: "covers a b r \<Longrightarrow> lr_start r \<le> lr_end r \<Longrightarrow> overlaps a b r"
  by (auto simp: covers_def overlaps_def)

lemma range_quality_cases:
  assumes "\<forall>r \<in> set rs. lr_start r \<le> lr_end r" "q \<noteq> Full"
  shows "range_quality a b rs q =
    (if \<exists>r \<in> set rs. covers a b r then Full
     else if \<exists>r \<in> set rs. overlaps a b r then Partial else q)"
  using assms
proof (induction rs arbitrary: q)
  case (Cons r rs)
  have "covers a b r \<Longrightarrow> overlaps a b r" using Cons.prems(1) covers_overlaps by simp
  then show ?case
    using Cons by (auto simp: range_quality_Cons simp del: range_quality.simps)
qed simp

text \<open>
  A finding on the file localises a bug fully exactly when it covers one of the bug's line
  ranges, partially exactly when it covers none and shares a line with one, and otherwise only the
  file counts; on another file nothing does.
\<close>

theorem line_match_quality_spec:
  assumes "list_all valid_line_range (gf_line_ranges target)"
  shows "line_match_quality f target =
    (let a = f_line_start f; b = f_line_end f in
     if \<not> path_matches (f_file f) (gf_path target) then WrongFile
     else if \<exists>r \<in> set (gf_line_ranges target). covers a b r then Full
     else if \<exists>r \<in> set (gf_line_ranges target). overlaps a b r then Partial
     else SameFile)"
proof -
  have "\<forall>r \<in> set (gf_line_ranges target). lr_start r \<le> lr_end r"
    using assms by (auto simp: valid_line_range_def list_all_iff)
  then show ?thesis by (simp add: line_match_quality_def Let_def range_quality_cases)
qed

theorem line_match_quality_spec_witness:
  "line_match_quality
     \<lparr>f_title = [], f_summary = [], f_category = [], f_severity = Low, f_file = ''./app/x.py'',
      f_line_start = 4, f_line_end = 9, f_evidence = [], f_suggested_fix = None,
      f_suggested_patch = None, f_replacement_code = None, f_patch_confidence = None,
      f_confidence = 1\<rparr>
     \<lparr>gf_path = ''app/x.py'',
      gf_line_ranges = [\<lparr>lr_start = 1, lr_end = 5\<rparr>, \<lparr>lr_start = 6, lr_end = 7\<rparr>]\<rparr> = Full
   \<and> overlaps 4 9 \<lparr>lr_start = 1, lr_end = 5\<rparr> \<and> \<not> covers 4 9 \<lparr>lr_start = 1, lr_end = 5\<rparr>"
proof -
  let ?f = "\<lparr>f_title = [], f_summary = [], f_category = [], f_severity = Low,
      f_file = ''./app/x.py'', f_line_start = 4, f_line_end = 9, f_evidence = [],
      f_suggested_fix = None, f_suggested_patch = None, f_replacement_code = None,
      f_patch_confidence = None, f_confidence = 1\<rparr>"
  let ?t = "\<lparr>gf_path = ''app/x.py'',
      gf_line_ranges = [\<lparr>lr_start = 1, lr_end = 5\<rparr>, \<lparr>lr_start = 6, lr_end = 7\<rparr>]\<rparr>"
  have v: "list_all valid_line_range (gf_line_ranges ?t)"
    by (simp add: valid_line_range_def num_ok_def LINE_NUMBER_MAX_def)
  have m: "path_matches (f_file ?f) (gf_path ?t)" by code_simp
  show ?thesis
    unfolding line_match_quality_spec [OF v]
    using m by (simp add: Let_def covers_def overlaps_iff)
qed

section \<open>Word-bounded mentions\<close>

text \<open>The words of a text: its maximal runs of word characters.\<close>

fun words_aux :: "string \<Rightarrow> string \<Rightarrow> string list" where
  "words_aux acc [] = (if acc = [] then [] else [rev acc])"
| "words_aux acc (c # s) =
     (if is_word c then words_aux (c # acc) s
      else if acc = [] then words_aux [] s else rev acc # words_aux [] s)"

definition words :: "string \<Rightarrow> string list" where
  "words s = words_aux [] s"

lemma starts_with_drop: "starts_with s t \<Longrightarrow> s = t @ drop (length t) s"
  by (metis append_take_drop_id starts_with_def)

lemma words_aux_run:
  "acc \<noteq> [] \<Longrightarrow>
   words_aux acc s = (rev acc @ takeWhile is_word s) # words_aux [] (dropWhile is_word s)"
  by (induction s arbitrary: acc) auto

lemma words_simps:
  "words [] = []"
  "\<not> is_word c \<Longrightarrow> words (c # s) = words s"
  "is_word c \<Longrightarrow> words (c # s) = (c # takeWhile is_word s) # words (dropWhile is_word s)"
  by (simp_all add: words_def words_aux_run)

lemma match_word:
  assumes "list_all is_word t" "t \<noteq> []"
  shows "match_tokens [t] s \<longleftrightarrow> takeWhile is_word s = t"
proof
  assume m: "match_tokens [t] s"
  then have s: "s = t @ drop (length t) s" and b: "at_boundary (Some (last t)) (drop (length t) s)"
    using starts_with_drop by auto
  have "is_word (last t)" using assms by (simp add: list_all_iff)
  then have "takeWhile is_word (drop (length t) s) = []"
    using b by (cases "drop (length t) s") (auto simp: at_boundary_def)
  moreover have "takeWhile is_word (t @ drop (length t) s) = t @ takeWhile is_word (drop (length t) s)"
    using assms(1) by (simp add: list_all_iff takeWhile_append)
  ultimately show "takeWhile is_word s = t" using s by simp
next
  assume t: "takeWhile is_word s = t"
  have s: "s = t @ dropWhile is_word s" using t by (metis takeWhile_dropWhile_id)
  then have d: "drop (length t) s = dropWhile is_word s" by (metis append_eq_conv_conj)
  have "starts_with s t" using s by (metis starts_with_append)
  moreover have "is_word (last t)" using assms by (simp add: list_all_iff)
  moreover have "dropWhile is_word s = [] \<or> \<not> is_word (hd (dropWhile is_word s))"
    using hd_dropWhile by blast
  ultimately show "match_tokens [t] s" by (auto simp: d at_boundary_def)
qed

lemma search_word:
  assumes t: "list_all is_word t" "t \<noteq> []"
  shows "search_tokens [t] prev s \<longleftrightarrow>
    t \<in> set (words (if prev \<noteq> None \<and> is_word (the prev) then dropWhile is_word s else s))"
proof (induction s arbitrary: prev)
  case Nil
  then show ?case using match_word [OF t, of "[]"] t(2) by (auto simp: words_simps)
next
  case (Cons c s)
  have b: "at_boundary prev (c # s) \<longleftrightarrow> (prev \<noteq> None \<and> is_word (the prev)) \<noteq> is_word c"
    by (auto simp: at_boundary_def split: option.splits)
  have m: "match_tokens [t] (c # s) \<longleftrightarrow> is_word c \<and> c # takeWhile is_word s = t"
    unfolding match_word [OF t] using t(2) by auto
  show ?case
    by (cases "is_word c")
      (auto simp: words_simps Cons.IH b m simp del: match_tokens.simps)
qed

text \<open>
  A one-word phrase is mentioned exactly when it is, case folded, one of the words of the text:
  never as a part of a longer word.
\<close>

theorem mentions_whole_word:
  assumes "list_all is_word (casefold phrase)" "split_ws (casefold phrase) = [casefold phrase]"
  shows "mentions text phrase \<longleftrightarrow> casefold phrase \<in> set (words (casefold text))"
proof -
  have "casefold phrase \<noteq> []" using assms(2) by (auto simp: split_ws_def)
  then show ?thesis
    using assms search_word [of "casefold phrase" None "casefold text"]
    by (simp add: mentions_def Let_def)
qed

theorem mentions_whole_word_witness:
  "mentions ''The Lock is held.'' ''lock'' \<and> \<not> mentions ''the call is blocked'' ''lock''
   \<and> ''lock'' \<in> set (words ''the lock is held.'')"
proof -
  have h: "list_all is_word (casefold ''lock'')" "split_ws (casefold ''lock'') = [casefold ''lock'']"
    and f: "casefold ''lock'' = ''lock''" "casefold ''The Lock is held.'' = ''the lock is held.''"
    by code_simp+
  have "mentions ''The Lock is held.'' ''lock''" "\<not> mentions ''the call is blocked'' ''lock''"
    by code_simp+
  then show ?thesis
    using mentions_whole_word [OF h, of "''The Lock is held.''"] f by simp
qed

end
