(* ===== verification/Pattern.thy ===== *)
theory Pattern
  imports Text_Match
begin

text \<open>
  The part of Python's \<open>re\<close> the structural validators use: \<open>re.search\<close> of a pattern built from
  character classes, word boundaries, a lookbehind for a literal, sequences, alternatives, bounded and
  unbounded repetition. Whether there is a match does not depend on greediness, so a pattern denotes a
  relation between places of a text. The search is written to evaluate; theorem
  \<open>search_pattern_correct\<close> says it finds a match exactly when there is one.
\<close>

section \<open>Patterns\<close>

text \<open>A place in a text: what lies before it, last character first, and what lies after it.\<close>

type_synonym place = "string \<times> string"

datatype pattern =
    Class "char \<Rightarrow> bool"
  | WordBoundary
  | NotBehind string
  | Empty
  | Then pattern pattern
  | Or pattern pattern
  | UpTo nat pattern
  | Many pattern

section \<open>Matching\<close>

fun after_char :: "(char \<Rightarrow> bool) \<Rightarrow> place \<Rightarrow> place list" where
  "after_char P (b, []) = []"
| "after_char P (b, c # a) = (if P c then [(c # b, a)] else [])"

definition boundary_at :: "place \<Rightarrow> bool" where
  "boundary_at p =
     at_boundary (case fst p of [] \<Rightarrow> None | c # _ \<Rightarrow> Some c) (snd p)"

text \<open>The places reachable from those of \<open>F\<close> in at most \<open>n\<close> rounds of \<open>f\<close>.\<close>

fun rounds_of :: "(place \<Rightarrow> place list) \<Rightarrow> nat \<Rightarrow> place list \<Rightarrow> place list" where
  "rounds_of f 0 F = F"
| "rounds_of f (Suc n) F =
     (if F = [] then [] else remdups (F @ rounds_of f n (remdups (concat (map f F)))))"

fun places_after :: "pattern \<Rightarrow> place \<Rightarrow> place list" where
  "places_after (Class P) p = after_char P p"
| "places_after WordBoundary p = (if boundary_at p then [p] else [])"
| "places_after (NotBehind w) p = (if starts_with (fst p) (rev w) then [] else [p])"
| "places_after Empty p = [p]"
| "places_after (Then r s) p = remdups (concat (map (places_after s) (places_after r p)))"
| "places_after (Or r s) p = remdups (places_after r p @ places_after s p)"
| "places_after (UpTo n r) p = rounds_of (places_after r) n [p]"
| "places_after (Many r) p = rounds_of (places_after r) (length (snd p)) [p]"

fun search_from :: "pattern \<Rightarrow> string \<Rightarrow> string \<Rightarrow> bool" where
  "search_from r b [] \<longleftrightarrow> places_after r (b, []) \<noteq> []"
| "search_from r b (c # a) \<longleftrightarrow> places_after r (b, c # a) \<noteq> [] \<or> search_from r (c # b) a"

definition search_pattern :: "pattern \<Rightarrow> string \<Rightarrow> bool" where
  "search_pattern r s = search_from r [] s"

text \<open>Patterns as they are written.\<close>

fun literal :: "string \<Rightarrow> pattern" where
  "literal [] = Empty"
| "literal [c] = Class (\<lambda>x. x = c)"
| "literal (c # d # s) = Then (Class (\<lambda>x. x = c)) (literal (d # s))"

fun any_of :: "pattern list \<Rightarrow> pattern" where
  "any_of [] = Class (\<lambda>_. False)"
| "any_of [r] = r"
| "any_of (r # s # rs) = Or r (any_of (s # rs))"

fun sequence :: "pattern list \<Rightarrow> pattern" where
  "sequence [] = Empty"
| "sequence [r] = r"
| "sequence (r # s # rs) = Then r (sequence (s # rs))"

definition literals :: "string list \<Rightarrow> pattern" where
  "literals ws = any_of (map literal ws)"

definition anything :: pattern where "anything = Class (\<lambda>_. True)"
definition blanks :: pattern where "blanks = Many (Class is_space)"
definition some_blanks :: pattern where "some_blanks = Then (Class is_space) blanks"
definition perhaps :: "pattern \<Rightarrow> pattern" where "perhaps r = UpTo 1 r"

section \<open>The search is correct\<close>

primrec matches :: "pattern \<Rightarrow> place \<Rightarrow> place \<Rightarrow> bool" where
  "matches (Class P) = (\<lambda>p q. \<exists>c. P c \<and> snd p = c # snd q \<and> fst q = c # fst p)"
| "matches WordBoundary = (\<lambda>p q. q = p \<and> boundary_at p)"
| "matches (NotBehind w) = (\<lambda>p q. q = p \<and> \<not> (\<exists>b. rev (fst p) = b @ w))"
| "matches Empty = (\<lambda>p q. q = p)"
| "matches (Then r s) = (matches r OO matches s)"
| "matches (Or r s) = (\<lambda>p q. matches r p q \<or> matches s p q)"
| "matches (UpTo n r) = (\<lambda>p q. \<exists>k \<le> n. (matches r ^^ k) p q)"
| "matches (Many r) = (matches r)\<^sup>*\<^sup>*"

text \<open>A match moves forward: it takes a piece off what lies after the place.\<close>

definition forward :: "(place \<Rightarrow> place \<Rightarrow> bool) \<Rightarrow> bool" where
  "forward R \<longleftrightarrow> (\<forall>p q. R p q \<longrightarrow> (\<exists>w. snd p = w @ snd q \<and> fst q = rev w @ fst p))"

lemma forwardD: "forward R \<Longrightarrow> R p q \<Longrightarrow> \<exists>w. snd p = w @ snd q \<and> fst q = rev w @ fst p"
  by (simp add: forward_def)

lemma forward_refl: "forward (\<lambda>p q. q = p \<and> P p)"
  by (simp add: forward_def)

lemma forward_comp: "forward R \<Longrightarrow> forward S \<Longrightarrow> forward (R OO S)"
  unfolding forward_def relcompp_apply by (metis append.assoc rev_append)

lemma forward_power: "forward R \<Longrightarrow> forward (R ^^ k)"
  by (induction k) (simp_all add: forward_comp, simp add: forward_def)

lemma forward_rtrancl: "forward R \<Longrightarrow> forward R\<^sup>*\<^sup>*"
  using forwardD [OF forward_power] by (fastforce simp: forward_def [of "R\<^sup>*\<^sup>*"] dest: rtranclp_imp_relpowp)

lemma forward_matches: "forward (matches r)"
proof (induction r)
  case (Class P)
  then show ?case by (auto simp: forward_def)
next
  case (Or r s)
  then show ?case by (auto simp: forward_def)
next
  case (UpTo n r)
  then show ?case using forwardD [OF forward_power] by (auto simp: forward_def)
qed (simp_all add: forward_comp forward_rtrancl, simp_all add: forward_def)

lemma forward_eq: "forward R \<Longrightarrow> R p q \<Longrightarrow> length (snd q) \<ge> length (snd p) \<Longrightarrow> q = p"
  using forwardD [of R p q] by (cases p; cases q) auto

text \<open>Repetition without a bound needs no more rounds than there are characters left.\<close>

lemma forward_star_bounded:
  assumes "forward R" "R\<^sup>*\<^sup>* p q"
  shows "\<exists>k \<le> length (snd p) - length (snd q). (R ^^ k) p q"
  using assms(2)
proof (induction rule: converse_rtranclp_induct)
  case base
  then show ?case by (intro exI [of _ 0]) simp
next
  case (step p p')
  obtain k where k: "k \<le> length (snd p') - length (snd q)" "(R ^^ k) p' q" using step.IH by blast
  show ?case
  proof (cases "p' = p")
    case True
    then show ?thesis using k by blast
  next
    case False
    then have less: "length (snd p') < length (snd p)"
      using forward_eq [OF assms(1) step.hyps(1)] by linarith
    have "(R ^^ Suc k) p q"
      using step.hyps(1) k(2) by (simp add: relpowp_Suc_I2 del: relpowp.simps)
    moreover have "length (snd q) \<le> length (snd p')"
      using forwardD [OF forward_rtrancl [OF assms(1)] step.hyps(2)] by auto
    ultimately show ?thesis using k(1) less by (intro exI [of _ "Suc k"]) simp
  qed
qed

lemma set_rounds_of:
  "set (rounds_of f n F) = {q. \<exists>p \<in> set F. \<exists>k \<le> n. ((\<lambda>p q. q \<in> set (f p)) ^^ k) p q}"
proof (induction n arbitrary: F)
  case 0
  then show ?case by auto
next
  case (Suc n)
  let ?R = "\<lambda>p q. q \<in> set (f p)"
  have "(\<exists>k \<le> Suc n. (?R ^^ k) p q) \<longleftrightarrow> q = p \<or> (\<exists>p'. ?R p p' \<and> (\<exists>k \<le> n. (?R ^^ k) p' q))" for p q
  proof
    assume "\<exists>k \<le> Suc n. (?R ^^ k) p q"
    then obtain k where k: "k \<le> Suc n" "(?R ^^ k) p q" by blast
    then show "q = p \<or> (\<exists>p'. ?R p p' \<and> (\<exists>k \<le> n. (?R ^^ k) p' q))"
      by (cases k) (simp, metis Suc_le_mono relpowp_Suc_D2)
  next
    assume "q = p \<or> (\<exists>p'. ?R p p' \<and> (\<exists>k \<le> n. (?R ^^ k) p' q))"
    then show "\<exists>k \<le> Suc n. (?R ^^ k) p q"
    proof
      assume "q = p"
      then show ?thesis by (intro exI [of _ 0]) simp
    next
      assume "\<exists>p'. ?R p p' \<and> (\<exists>k \<le> n. (?R ^^ k) p' q)"
      then obtain p' k where "?R p p'" "k \<le> n" "(?R ^^ k) p' q" by blast
      then show ?thesis by (intro exI [of _ "Suc k"]) (simp add: relpowp_Suc_I2 del: relpowp.simps)
    qed
  qed
  then show ?case by (auto simp: Suc.IH)
qed

lemma set_after_char: "q \<in> set (after_char P p) \<longleftrightarrow> matches (Class P) p q"
  by (cases q; cases "(P, p)" rule: after_char.cases) auto

lemma starts_with_rev: "starts_with (fst p) (rev w) \<longleftrightarrow> (\<exists>b. rev (fst p) = b @ w)"
  unfolding starts_with_iff by (metis rev_append rev_rev_ident)

lemma places_after_matches: "q \<in> set (places_after r p) \<longleftrightarrow> matches r p q"
proof (induction r arbitrary: p q)
  case (UpTo n r)
  have "(\<lambda>p q. q \<in> set (places_after r p)) = matches r" using UpTo by blast
  then show ?case by (simp add: set_rounds_of)
next
  case (Many r)
  have R: "(\<lambda>p q. q \<in> set (places_after r p)) = matches r" using Many by blast
  have "(\<exists>k \<le> length (snd p). (matches r ^^ k) p q) \<longleftrightarrow> (matches r)\<^sup>*\<^sup>* p q"
  proof
    assume "(matches r)\<^sup>*\<^sup>* p q"
    then show "\<exists>k \<le> length (snd p). (matches r ^^ k) p q"
      using forward_star_bounded [OF forward_matches] by (meson diff_le_self order_trans)
  qed (meson relpowp_imp_rtranclp)
  then show ?case by (simp add: set_rounds_of R)
next
  case (Then r s)
  have "q \<in> set (places_after (Then r s) p) \<longleftrightarrow> (\<exists>x. x \<in> set (places_after r p) \<and> q \<in> set (places_after s x))"
    by auto
  then show ?case by (simp only: Then matches.simps relcompp_apply)
qed (auto simp: set_after_char starts_with_rev simp del: matches.simps(1))

lemma places_after_Nil: "places_after r p \<noteq> [] \<longleftrightarrow> (\<exists>q. matches r p q)"
proof -
  have "xs \<noteq> [] \<longleftrightarrow> (\<exists>q. q \<in> set xs)" for xs :: "place list" by (cases xs) auto
  then show ?thesis by (simp only: places_after_matches)
qed

lemma search_from_iff:
  "search_from r b a \<longleftrightarrow> (\<exists>u v q. a = u @ v \<and> matches r (rev u @ b, v) q)"
proof (induction r b a rule: search_from.induct)
  case (1 r b)
  then show ?case by (simp add: places_after_Nil)
next
  case (2 r b c a)
  have "(\<exists>u v q. c # a = u @ v \<and> matches r (rev u @ b, v) q)
      \<longleftrightarrow> (\<exists>q. matches r (b, c # a) q) \<or> (\<exists>u v q. a = u @ v \<and> matches r (rev u @ c # b, v) q)"
    (is "?L \<longleftrightarrow> ?R")
  proof
    assume ?L
    then obtain u v q where u: "c # a = u @ v" "matches r (rev u @ b, v) q" by blast
    show ?R
    proof (cases u)
      case Nil
      then show ?thesis using u by (intro disjI1 exI [of _ q]) simp
    next
      case (Cons d u')
      then have "a = u' @ v" "matches r (rev u' @ c # b, v) q" using u by simp_all
      then show ?thesis by blast
    qed
  next
    assume ?R
    then show ?L
    proof
      assume "\<exists>u v q. a = u @ v \<and> matches r (rev u @ c # b, v) q"
      then obtain u v q where "a = u @ v" "matches r (rev u @ c # b, v) q" by blast
      then show ?L by (intro exI [of _ "c # u"] exI [of _ v] exI [of _ q]) simp
    qed (rule exI [of _ "[]"], simp)
  qed
  then show ?case by (simp add: places_after_Nil 2)
qed

text \<open>
  Searching for a pattern succeeds exactly when the text has a piece that the pattern denotes, in
  the place where it stands; repetitions without a bound included, for which the search tries no more
  rounds than characters are left.
\<close>

theorem search_pattern_correct:
  "search_pattern r s \<longleftrightarrow> (\<exists>u w v. s = u @ w @ v \<and> matches r (rev u, w @ v) (rev (u @ w), v))"
proof
  assume "search_pattern r s"
  then obtain u v q where s: "s = u @ v" and m: "matches r (rev u, v) q"
    by (auto simp: search_pattern_def search_from_iff)
  then obtain w where "v = w @ snd q" "q = (rev (u @ w), snd q)"
    using forwardD [OF forward_matches m] by (cases q) auto
  then show "\<exists>u w v. s = u @ w @ v \<and> matches r (rev u, w @ v) (rev (u @ w), v)"
    using s m by metis
next
  assume "\<exists>u w v. s = u @ w @ v \<and> matches r (rev u, w @ v) (rev (u @ w), v)"
  then show "search_pattern r s" by (auto simp: search_pattern_def search_from_iff)
qed

end
