(* ===== verification/Strict_JSON.thy ===== *)
theory Strict_JSON
  imports Size_Limits Prelude Complex_Main "HOL-Library.Code_Target_Nat"
begin

text \<open>
  \<open>arena/reviewers/strict_json.py\<close>: \<open>json.loads\<close> with the two hooks of the module, then the bounds on
  the decoded value. The scanner follows the standard library's: the grammar of JSON plus the
  constants \<open>NaN\<close>, \<open>Infinity\<close> and \<open>-Infinity\<close>, an object passed to the hook as soon as it closes,
  integers of at most 4300 digits, and a bounded nesting of scanner calls (\<open>frames\<close>, the
  interpreter's).

  Our strings hold code points 0..255; \<open>uni\<close> says how a larger one, which only a \<open>\u\<close> escape can give
  here, is represented. A float is its exact value, or \<open>None\<close> when it is not finite.
\<close>

section \<open>Values\<close>

datatype json =
    JNull | JBool bool | JInt int | JFloat "rat option" | JString string
  | JArray "json list" | JObject "(string \<times> json) list"

lemma json_size_pair [termination_simp]:
  "kv \<in> set kvs \<Longrightarrow> size (snd kv) < Suc (size_list (size_prod (\<lambda>_. 0) size) kvs)"
  by (induction kvs) (auto simp: less_Suc_eq_le le_Suc_eq)

fun json_children :: "json \<Rightarrow> json list" where
  "json_children (JArray vs) = vs"
| "json_children (JObject kvs) = map snd kvs"
| "json_children _ = []"

section \<open>The scanner\<close>

datatype scan_error = Syntax | TooManyDigits | TooDeep | Hook string

definition skip_ws :: "string \<Rightarrow> string" where
  "skip_ws s = dropWhile (\<lambda>c. c \<in> {CHR '' '', CHR 0x09, CHR 0x0A, CHR 0x0D}) s"

lemma skip_ws_length: "length (skip_ws s) \<le> length s"
  by (simp add: skip_ws_def length_dropWhile_le)

definition hex_value :: "char \<Rightarrow> nat option" where
  "hex_value c = (let n = (of_char c :: nat) in
     if 48 \<le> n \<and> n \<le> 57 then Some (n - 48)
     else if 97 \<le> n \<and> n \<le> 102 then Some (n - 87)
     else if 65 \<le> n \<and> n \<le> 70 then Some (n - 55) else None)"

fun hex4 :: "string \<Rightarrow> nat option" where
  "hex4 [a, b, c, d] =
     (case (hex_value a, hex_value b, hex_value c, hex_value d) of
        (Some a, Some b, Some c, Some d) \<Rightarrow> Some (((a * 16 + b) * 16 + c) * 16 + d)
      | _ \<Rightarrow> None)"
| "hex4 _ = None"

text \<open>What follows \<open>\u\<close>: the code point and the rest; a high surrogate takes the low one after it.\<close>

definition unicode_escape :: "string \<Rightarrow> (nat \<times> string) option" where
  "unicode_escape s =
     (case hex4 (take 4 s) of
        None \<Rightarrow> None
      | Some n \<Rightarrow>
          let rest = drop 4 s in
          if 0xD800 \<le> n \<and> n \<le> 0xDBFF \<and> starts_with rest [CHR 0x5C, CHR ''u'']
          then (case hex4 (take 4 (drop 2 rest)) of
                  None \<Rightarrow> None
                | Some m \<Rightarrow> if 0xDC00 \<le> m \<and> m \<le> 0xDFFF
                    then Some (0x10000 + (n - 0xD800) * 0x400 + (m - 0xDC00), drop 6 rest)
                    else Some (n, rest))
          else Some (n, rest))"

definition simple_escape :: "char \<Rightarrow> char option" where
  "simple_escape c =
     map_of [(CHR 0x22, CHR 0x22), (CHR 0x5C, CHR 0x5C), (CHR ''/'', CHR ''/''),
             (CHR ''b'', CHR 0x08), (CHR ''f'', CHR 0x0C), (CHR ''n'', CHR 0x0A),
             (CHR ''r'', CHR 0x0D), (CHR ''t'', CHR 0x09)] c"

lemma unicode_escape_shorter: "unicode_escape s = Some (n, rest) \<Longrightarrow> length rest \<le> length s"
  by (auto simp: unicode_escape_def Let_def split: option.splits if_splits)

text \<open>The body of a string after its opening quote: the code points and what follows.\<close>

function scan_string :: "string \<Rightarrow> (nat list \<times> string) option" where
  "scan_string s =
     (case s of
        [] \<Rightarrow> None
      | c # r \<Rightarrow>
          if c = CHR 0x22 then Some ([], r)
          else if (of_char c :: nat) < 32 then None
          else if c \<noteq> CHR 0x5C
          then map_option (\<lambda>(cs, rest). (of_char c # cs, rest)) (scan_string r)
          else (case r of
                  [] \<Rightarrow> None
                | e # r' \<Rightarrow>
                    if e = CHR ''u''
                    then (case unicode_escape r' of
                            None \<Rightarrow> None
                          | Some (n, r'') \<Rightarrow>
                              map_option (\<lambda>(cs, rest). (n # cs, rest)) (scan_string r''))
                    else (case simple_escape e of
                            None \<Rightarrow> None
                          | Some x \<Rightarrow>
                              map_option (\<lambda>(cs, rest). (of_char x # cs, rest)) (scan_string r'))))"
  by pat_completeness auto
termination
  by (relation "measure length") (auto dest!: unicode_escape_shorter)

declare scan_string.simps [simp del]

definition chars_of :: "(nat \<Rightarrow> string) \<Rightarrow> nat \<Rightarrow> string" where
  "chars_of uni n = (if n < 256 then [char_of n] else uni n)"

definition is_digit :: "char \<Rightarrow> bool" where
  "is_digit c \<longleftrightarrow> 48 \<le> (of_char c :: nat) \<and> (of_char c :: nat) \<le> 57"

definition digits_value :: "string \<Rightarrow> int" where
  "digits_value ds = fold (\<lambda>d v. v * 10 + (int (of_char d) - 48)) ds 0"

definition FLOAT_OVERFLOW :: rat where
  "FLOAT_OVERFLOW = 2 ^ 1024 - 2 ^ 970"

definition make_float :: "rat \<Rightarrow> rat option" where
  "make_float x = (if FLOAT_OVERFLOW \<le> \<bar>x\<bar> then None else Some x)"

definition power10 :: "int \<Rightarrow> rat" where
  "power10 e = (if 0 \<le> e then 10 ^ nat e else 1 / 10 ^ nat (- e))"

text \<open>An optional fraction and exponent; each is taken only if it has a digit.\<close>

definition scan_fraction :: "string \<Rightarrow> string \<times> string" where
  "scan_fraction s =
     (case s of
        c # r \<Rightarrow> if c = CHR ''.'' \<and> takeWhile is_digit r \<noteq> []
                 then (takeWhile is_digit r, dropWhile is_digit r) else ([], s)
      | [] \<Rightarrow> ([], s))"

definition scan_exponent :: "string \<Rightarrow> int option \<times> string" where
  "scan_exponent s =
     (case s of
        c # r \<Rightarrow>
          if c = CHR ''e'' \<or> c = CHR ''E''
          then let signed = (starts_with r ''+'' \<or> starts_with r ''-'');
                   r' = (if signed then tl r else r);
                   ds = takeWhile is_digit r'
               in if ds = [] then (None, s)
                  else (Some (if starts_with r ''-'' then - digits_value ds else digits_value ds),
                        dropWhile is_digit r')
          else (None, s)
      | [] \<Rightarrow> (None, s))"

definition MAX_INT_DIGITS :: nat where "MAX_INT_DIGITS = 4300"

definition scan_number :: "string \<Rightarrow> (scan_error, json \<times> string) res" where
  "scan_number s =
     (let negative = starts_with s ''-'';
          s1 = (if negative then tl s else s);
          whole = (if starts_with s1 ''0'' then ''0'' else takeWhile is_digit s1);
          s2 = drop (length whole) s1;
          (fraction, s3) = scan_fraction s2;
          (exponent, s4) = scan_exponent s3;
          sign = (if negative then - 1 else 1)
      in if whole = [] then Inl Syntax
         else if fraction = [] \<and> exponent = None
         then if MAX_INT_DIGITS < length whole then Inl TooManyDigits
              else Inr (JInt (sign * digits_value whole), s4)
         else let mantissa = of_int (sign * digits_value (whole @ fraction)) / 10 ^ length fraction;
                  e = (case exponent of None \<Rightarrow> 0 | Some e \<Rightarrow> e)
              in Inr (JFloat (make_float (mantissa * power10 e)), s4))"

text \<open>
  The items of an array or object up to the closing bracket. An item consumes input, so the test of
  the length, which the source does not need, never fails.
\<close>

function scan_items ::
  "(string \<Rightarrow> (scan_error, 'a \<times> string) res) \<Rightarrow> char \<Rightarrow> string
   \<Rightarrow> (scan_error, 'a list \<times> string) res" where
  "scan_items item closing s =
     (case item s of
        Inl e \<Rightarrow> Inl e
      | Inr (x, r) \<Rightarrow>
          (case skip_ws r of
             [] \<Rightarrow> Inl Syntax
           | c # r' \<Rightarrow>
               if c = closing then Inr ([x], r')
               else if c \<noteq> CHR '','' then Inl Syntax
               else if length (skip_ws r') < length s
               then and_then (scan_items item closing (skip_ws r')) (\<lambda>(xs, rest). Inr (x # xs, rest))
               else Inl Syntax))"
  by pat_completeness auto
termination
  by (relation "measure (\<lambda>(_, _, s). length s)") auto

declare scan_items.simps [simp del]

definition no_duplicate_keys :: "(string \<times> json) list \<Rightarrow> (scan_error, json) res" where
  "no_duplicate_keys pairs =
     (if distinct (map fst pairs) then Inr (JObject pairs)
      else Inl (Hook ''duplicate key in a JSON object''))"

definition reject_constant :: "string \<Rightarrow> (scan_error, 'a) res" where
  "reject_constant name = Inl (Hook (''non-standard JSON constant: '' @ name))"

definition scan_key_value ::
  "(nat \<Rightarrow> string) \<Rightarrow> (string \<Rightarrow> (scan_error, json \<times> string) res) \<Rightarrow> string
   \<Rightarrow> (scan_error, (string \<times> json) \<times> string) res" where
  "scan_key_value uni scan_value s =
     (if \<not> starts_with s [CHR 0x22] then Inl Syntax
      else case scan_string (tl s) of
        None \<Rightarrow> Inl Syntax
      | Some (cs, r) \<Rightarrow>
          if \<not> starts_with (skip_ws r) '':'' then Inl Syntax
          else and_then (scan_value (skip_ws (tl (skip_ws r))))
                 (\<lambda>(v, rest). Inr ((concat (map (chars_of uni) cs), v), rest)))"

fun scan_value :: "(nat \<Rightarrow> string) \<Rightarrow> nat \<Rightarrow> string \<Rightarrow> (scan_error, json \<times> string) res" where
  "scan_value uni 0 s = Inl TooDeep"
| "scan_value uni (Suc frames) s =
     (if starts_with s [CHR 0x22]
      then (case scan_string (tl s) of
              None \<Rightarrow> Inl Syntax
            | Some (cs, r) \<Rightarrow> Inr (JString (concat (map (chars_of uni) cs)), r))
      else if starts_with s ''{''
      then let r = skip_ws (tl s) in
        if starts_with r ''}'' then Inr (JObject [], tl r)
        else and_then (scan_items (scan_key_value uni (\<lambda>t. scan_value uni frames t)) CHR ''}'' r)
               (\<lambda>(pairs, rest). and_then (no_duplicate_keys pairs) (\<lambda>v. Inr (v, rest)))
      else if starts_with s ''[''
      then let r = skip_ws (tl s) in
        if starts_with r '']'' then Inr (JArray [], tl r)
        else and_then (scan_items (\<lambda>t. scan_value uni frames t) CHR '']'' r)
               (\<lambda>(vs, rest). Inr (JArray vs, rest))
      else if starts_with s ''null'' then Inr (JNull, drop 4 s)
      else if starts_with s ''true'' then Inr (JBool True, drop 4 s)
      else if starts_with s ''false'' then Inr (JBool False, drop 5 s)
      else if starts_with s ''NaN'' then reject_constant ''NaN''
      else if starts_with s ''Infinity'' then reject_constant ''Infinity''
      else if starts_with s ''-Infinity'' then reject_constant ''-Infinity''
      else scan_number s)"

section \<open>Bounds on the value\<close>

fun json_nodes :: "json \<Rightarrow> nat" where
  "json_nodes (JArray vs) = Suc (sum_list (map json_nodes vs))"
| "json_nodes (JObject kvs) = Suc (sum_list (map (\<lambda>kv. json_nodes (snd kv)) kvs))"
| "json_nodes _ = 1"

lemma json_nodes_children: "json_nodes v = Suc (sum_list (map json_nodes (json_children v)))"
  by (cases v) (simp_all add: comp_def)

text \<open>
  \<open>_validate_structure\<close>: the top of the stack is the head of the list; the children of a container
  are pushed in order, so the last is on top.
\<close>

function validate_nodes :: "(json \<times> nat) list \<Rightarrow> nat \<Rightarrow> (string, unit) res" where
  "validate_nodes [] nodes = Inr ()"
| "validate_nodes ((node, depth) # stack) nodes =
     (if JSON_MAX_DEPTH < depth then Inl ''JSON nested too deeply''
      else if JSON_MAX_NODES < nodes + 1 then Inl ''JSON has too many nodes''
      else if node = JFloat None then Inl ''non-finite JSON number''
      else validate_nodes (rev (map (\<lambda>v. (v, depth + 1)) (json_children node)) @ stack) (nodes + 1))"
  by pat_completeness auto
termination
proof (relation "measure (\<lambda>(stack, _). sum_list (map (\<lambda>(v, _). json_nodes v) stack))")
  fix node :: json and depth nodes :: nat and stack :: "(json \<times> nat) list"
  show "((rev (map (\<lambda>v. (v, depth + 1)) (json_children node)) @ stack, nodes + 1), (node, depth) # stack, nodes)
      \<in> measure (\<lambda>(stack, _). sum_list (map (\<lambda>(v, _). json_nodes v) stack))"
    using json_nodes_children [of node] by (simp add: comp_def rev_map [symmetric])
qed simp

definition validate_structure :: "json \<Rightarrow> (string, unit) res" where
  "validate_structure v = validate_nodes [(v, 1)] 0"

fun scan_error_text :: "scan_error \<Rightarrow> string" where
  "scan_error_text Syntax = ''invalid JSON (JSONDecodeError)''"
| "scan_error_text TooManyDigits = ''invalid JSON (ValueError)''"
| "scan_error_text TooDeep = ''invalid JSON (RecursionError)''"
| "scan_error_text (Hook reason) = reason"

definition json_loads :: "(nat \<Rightarrow> string) \<Rightarrow> nat \<Rightarrow> string \<Rightarrow> (scan_error, json) res" where
  "json_loads uni frames text =
     and_then (scan_value uni frames (skip_ws text)) (\<lambda>(v, rest).
       if skip_ws rest \<noteq> [] then Inl Syntax else Inr v)"

definition strict_loads :: "(nat \<Rightarrow> string) \<Rightarrow> nat \<Rightarrow> string \<Rightarrow> (string, json) res" where
  "strict_loads uni frames text =
     (case json_loads uni frames text of
        Inl e \<Rightarrow> Inl (scan_error_text e)
      | Inr v \<Rightarrow> and_then (validate_structure v) (\<lambda>_. Inr v))"

section \<open>What is accepted\<close>

fun json_depth :: "json \<Rightarrow> nat" where
  "json_depth (JArray vs) = Suc (fold max (map json_depth vs) 0)"
| "json_depth (JObject kvs) = Suc (fold max (map (\<lambda>kv. json_depth (snd kv)) kvs) 0)"
| "json_depth _ = 1"

fun json_finite :: "json \<Rightarrow> bool" where
  "json_finite (JArray vs) \<longleftrightarrow> list_all json_finite vs"
| "json_finite (JObject kvs) \<longleftrightarrow> list_all (\<lambda>kv. json_finite (snd kv)) kvs"
| "json_finite (JFloat x) \<longleftrightarrow> x \<noteq> None"
| "json_finite _ \<longleftrightarrow> True"

fun json_distinct :: "json \<Rightarrow> bool" where
  "json_distinct (JArray vs) \<longleftrightarrow> list_all json_distinct vs"
| "json_distinct (JObject kvs) \<longleftrightarrow> distinct (map fst kvs) \<and> list_all (\<lambda>kv. json_distinct (snd kv)) kvs"
| "json_distinct _ \<longleftrightarrow> True"

lemma json_depth_le: "json_depth v \<le> n \<longleftrightarrow> 1 \<le> n \<and> (\<forall>c \<in> set (json_children v). json_depth c + 1 \<le> n)"
proof -
  have "fold max xs m \<le> k \<longleftrightarrow> m \<le> k \<and> (\<forall>x \<in> set xs. x \<le> k)" for xs and m k :: nat
    by (induction xs arbitrary: m) auto
  then show ?thesis by (cases v; cases n) auto
qed

lemma json_finite_children: "json_finite v \<longleftrightarrow> v \<noteq> JFloat None \<and> (\<forall>c \<in> set (json_children v). json_finite c)"
  by (cases v) (auto simp: list_all_iff)

definition node_ok :: "json \<Rightarrow> nat \<Rightarrow> bool" where
  "node_ok v d \<longleftrightarrow> json_depth v + d \<le> JSON_MAX_DEPTH + 1 \<and> json_finite v"

lemma node_ok_children:
  "node_ok v d \<longleftrightarrow> d \<le> JSON_MAX_DEPTH \<and> v \<noteq> JFloat None \<and> (\<forall>c \<in> set (json_children v). node_ok c (d + 1))"
proof (cases "d \<le> JSON_MAX_DEPTH")
  case True
  then have "json_depth v + d \<le> JSON_MAX_DEPTH + 1 \<longleftrightarrow>
      (\<forall>c \<in> set (json_children v). json_depth c + (d + 1) \<le> JSON_MAX_DEPTH + 1)"
    using json_depth_le [of v "JSON_MAX_DEPTH + 1 - d"] by (auto simp: le_diff_conv2)
  then show ?thesis using True json_finite_children [of v] unfolding node_ok_def by metis
next
  case False
  then show ?thesis using json_depth_le [of v "json_depth v"] by (simp add: node_ok_def)
qed

abbreviation stack_nodes :: "(json \<times> nat) list \<Rightarrow> nat" where
  "stack_nodes stack \<equiv> sum_list (map (\<lambda>(v, _). json_nodes v) stack)"

lemma validate_nodes_Inr:
  "nodes \<le> JSON_MAX_NODES \<Longrightarrow> validate_nodes stack nodes = Inr () \<longleftrightarrow>
     (\<forall>(v, d) \<in> set stack. node_ok v d) \<and> nodes + stack_nodes stack \<le> JSON_MAX_NODES"
proof (induction stack nodes rule: validate_nodes.induct)
  case (2 v d stack nodes)
  let ?push = "rev (map (\<lambda>c. (c, d + 1)) (json_children v)) @ stack"
  have total: "stack_nodes ((v, d) # stack) = 1 + stack_nodes ?push"
    using json_nodes_children [of v] by (simp add: comp_def rev_map [symmetric])
  show ?case
  proof (cases "d \<le> JSON_MAX_DEPTH \<and> nodes + 1 \<le> JSON_MAX_NODES \<and> v \<noteq> JFloat None")
    case True
    then have "validate_nodes ((v, d) # stack) nodes = Inr () \<longleftrightarrow>
        (\<forall>(v, d) \<in> set ?push. node_ok v d) \<and> nodes + 1 + stack_nodes ?push \<le> JSON_MAX_NODES"
      using 2(1) by simp
    also have "(\<forall>(v, d) \<in> set ?push. node_ok v d) \<longleftrightarrow> (\<forall>(v, d) \<in> set ((v, d) # stack). node_ok v d)"
      using True node_ok_children [of v d] by auto
    finally show ?thesis unfolding total by (simp only: add.assoc)
  next
    case False
    then have "validate_nodes ((v, d) # stack) nodes \<noteq> Inr ()" by auto
    moreover have "\<not> (node_ok v d \<and> nodes + stack_nodes ((v, d) # stack) \<le> JSON_MAX_NODES)"
      using False node_ok_children [of v d] unfolding total by linarith
    ultimately show ?thesis by auto
  qed
qed simp

lemma validate_structure_Inr:
  "validate_structure v = Inr u \<longleftrightarrow>
     json_depth v \<le> JSON_MAX_DEPTH \<and> json_nodes v \<le> JSON_MAX_NODES \<and> json_finite v"
  using validate_nodes_Inr [of 0 "[(v, 1)]"] by (auto simp: validate_structure_def node_ok_def)

lemma scan_items_all:
  assumes "\<And>s x r. item s = Inr (x, r) \<Longrightarrow> P x"
  shows "scan_items item closing s = Inr (xs, rest) \<Longrightarrow> list_all P xs"
  using assms
proof (induction item closing s arbitrary: xs rest rule: scan_items.induct)
  case (1 item closing s)
  obtain x r where x: "item s = Inr (x, r)"
    using 1(2) by (subst (asm) scan_items.simps) (auto split: sum.splits)
  obtain c r' where c: "skip_ws r = c # r'"
    using 1(2) x by (subst (asm) scan_items.simps) (auto split: list.splits)
  have "P x" using x 1(3) by blast
  moreover have "xs = [x] \<or> (\<exists>ys rest'. scan_items item closing (skip_ws r') = Inr (ys, rest') \<and> xs = x # ys
      \<and> c \<noteq> closing \<and> c = CHR '','' \<and> length (skip_ws r') < length s)"
    using 1(2) x c by (subst (asm) scan_items.simps) (auto simp: res_simps split: if_splits)
  ultimately show ?case using 1(1) [OF x] c 1(3) by auto
qed

lemma scan_value_distinct: "scan_value uni frames s = Inr (v, rest) \<Longrightarrow> json_distinct v"
proof (induction frames arbitrary: s v rest)
  case (Suc frames)
  have IH: "json_distinct x" if "scan_value uni frames t = Inr (x, r)" for t x r
    using Suc.IH that .
  have items: "list_all json_distinct vs" if "scan_items (\<lambda>t. scan_value uni frames t) CHR '']'' t = Inr (vs, r)" for t vs r
    using scan_items_all [of "\<lambda>t. scan_value uni frames t" json_distinct] IH that by blast
  have pair: "json_distinct (snd kv)" if "scan_key_value uni (\<lambda>t. scan_value uni frames t) t = Inr (kv, r)" for t kv r
    using that IH by (auto simp: scan_key_value_def res_simps split: if_splits option.splits)
  have pairs: "list_all (\<lambda>kv. json_distinct (snd kv)) kvs"
    if "scan_items (scan_key_value uni (\<lambda>t. scan_value uni frames t)) CHR ''}'' t = Inr (kvs, r)" for t kvs r
    using scan_items_all [of "scan_key_value uni (\<lambda>t. scan_value uni frames t)" "\<lambda>kv. json_distinct (snd kv)"]
      pair that by blast
  have number: "json_distinct x" if "scan_number t = Inr (x, r)" for t x r
    using that by (auto simp: scan_number_def Let_def split: prod.splits if_splits)
  show ?case
    using Suc.prems items pairs number
    by (auto simp: Let_def res_simps reject_constant_def no_duplicate_keys_def
        split: if_splits option.splits)
qed simp

lemma strict_loads_Inr:
  assumes "strict_loads uni frames text = Inr v"
  shows "json_distinct v \<and> json_depth v \<le> JSON_MAX_DEPTH \<and> json_nodes v \<le> JSON_MAX_NODES \<and> json_finite v"
proof -
  obtain rest where "scan_value uni frames (skip_ws text) = Inr (v, rest)" "validate_structure v = Inr ()"
    using assms by (auto simp: strict_loads_def json_loads_def res_simps split: sum.splits if_splits)
  then show ?thesis using scan_value_distinct validate_structure_Inr by blast
qed

text \<open>
  The structure check accepts a decoded value exactly when it is at most 64 containers deep, has at
  most 200000 nodes and no non-finite number at any depth; and whatever the strict decoder returns
  passes it and has no duplicate key in any object at any depth.
\<close>

theorem strict_json_bounds:
  "(validate_structure v = Inr () \<longleftrightarrow>
      json_depth v \<le> 64 \<and> json_nodes v \<le> 200000 \<and> json_finite v)
   \<and> (case strict_loads uni frames text of
        Inl reason \<Rightarrow> True
      | Inr w \<Rightarrow> json_distinct w \<and> json_depth w \<le> 64 \<and> json_nodes w \<le> 200000 \<and> json_finite w)"
  using validate_structure_Inr [of v "()"] strict_loads_Inr [of uni frames "text"]
  by (auto simp: JSON_MAX_DEPTH_def JSON_MAX_NODES_def split: sum.split)

end
