(* ===== verification/Patch_Parser.thy ===== *)
theory Patch_Parser
  imports Safe_Paths
begin

text \<open>
  \<open>arena/patching/patch_parser.py\<close>: the paths and modes a unified diff names. Only diagnostic since
  the Git pipeline, but the reviewer-visible paths of the response parser are built from it.
\<close>

section \<open>Definitions\<close>

definition PATH_PREFIXES :: "string list" where
  "PATH_PREFIXES =
     [''--- '', ''+++ '', ''rename from '', ''rename to '', ''copy from '', ''copy to '']"

definition normalize_patch_path :: "string \<Rightarrow> string" where
  "normalize_patch_path path =
     (let clean = takeWhile (\<lambda>c. c \<noteq> CHR '' '')
                    (takeWhile (\<lambda>c. c \<noteq> CHR 0x09) (py_strip path))
      in if clean = ''/dev/null'' \<or> clean = ''dev/null'' then []
         else if starts_with clean ''a/'' \<or> starts_with clean ''b/'' then drop 2 clean
         else clean)"

definition add_path :: "string \<Rightarrow> string list \<Rightarrow> string list" where
  "add_path path paths = (if path \<noteq> [] \<and> path \<notin> set paths then paths @ [path] else paths)"

definition touched_files :: "string \<Rightarrow> string list" where
  "touched_files patch_text =
     fold (\<lambda>line paths.
       if \<not> starts_with line ''+++ '' then paths
       else add_path (normalize_patch_path (drop 4 line)) paths) (splitlines patch_text) []"

definition referenced_paths :: "string \<Rightarrow> string list" where
  "referenced_paths patch_text =
     fold (\<lambda>line paths.
       case find (starts_with line) PATH_PREFIXES of
         None \<Rightarrow> paths
       | Some prefix \<Rightarrow> add_path (normalize_patch_path (drop (length prefix) line)) paths)
       (splitlines patch_text) []"

definition windows_drive :: "string \<Rightarrow> bool" where
  "windows_drive path = (length path \<ge> 2 \<and> is_alpha (path ! 0) \<and> path ! 1 = CHR '':'')"

definition unsafe_patch_paths :: "string \<Rightarrow> string list" where
  "unsafe_patch_paths patch_text =
     filter (\<lambda>path. posix_absolute path \<or> windows_drive path \<or> ''..'' \<in> set (posix_parts path))
       (referenced_paths patch_text)"

definition UNSAFE_MODES :: "string list" where "UNSAFE_MODES = [''120000'', ''160000'']"

definition unsafe_patch_modes :: "string \<Rightarrow> string list" where
  "unsafe_patch_modes patch_text =
     filter (\<lambda>stripped.
       list_ex (starts_with stripped)
         [''new file mode '', ''new mode '', ''old mode '', ''deleted file mode '']
       \<and> last (split_on CHR '' '' stripped) \<in> set UNSAFE_MODES)
       (map py_strip (splitlines patch_text))"

section \<open>Lemmas\<close>

lemma set_add_path: "set (add_path p ps) = set ps \<union> ({p} - {[]})"
  by (auto simp: add_path_def)

lemma distinct_add_path: "distinct ps \<Longrightarrow> distinct (add_path p ps)"
  by (simp add: add_path_def)

lemma fold_add_path_set:
  "set (fold (\<lambda>x ps. case f x of None \<Rightarrow> ps | Some p \<Rightarrow> add_path p ps) xs ps)
     = set ps \<union> {p. p \<noteq> [] \<and> (\<exists>x \<in> set xs. f x = Some p)}"
  by (induction xs arbitrary: ps) (auto simp: set_add_path split: option.splits)

lemma fold_add_path_distinct:
  "distinct ps \<Longrightarrow> distinct (fold (\<lambda>x ps. case f x of None \<Rightarrow> ps | Some p \<Rightarrow> add_path p ps) xs ps)"
  by (induction xs arbitrary: ps) (auto simp: distinct_add_path split: option.splits)

definition named_path :: "string \<Rightarrow> string option" where
  "named_path line =
     map_option (\<lambda>prefix. normalize_patch_path (drop (length prefix) line))
       (find (starts_with line) PATH_PREFIXES)"

lemma referenced_paths_fold:
  "referenced_paths t =
     fold (\<lambda>x ps. case named_path x of None \<Rightarrow> ps | Some p \<Rightarrow> add_path p ps) (splitlines t) []"
  unfolding referenced_paths_def named_path_def
  by (intro fold_cong) (auto split: option.splits)

lemma touched_files_fold:
  "touched_files t =
     fold (\<lambda>x ps. case (if starts_with x ''+++ '' then Some (normalize_patch_path (drop 4 x)) else None)
           of None \<Rightarrow> ps | Some p \<Rightarrow> add_path p ps) (splitlines t) []"
  unfolding touched_files_def by (intro fold_cong) auto

lemma set_referenced_paths:
  "set (referenced_paths t) = {p. p \<noteq> [] \<and> (\<exists>line \<in> set (splitlines t). named_path line = Some p)}"
  unfolding referenced_paths_fold fold_add_path_set by simp

lemma set_touched_files:
  "set (touched_files t) = {p. p \<noteq> [] \<and> (\<exists>line \<in> set (splitlines t).
     starts_with line ''+++ '' \<and> normalize_patch_path (drop 4 line) = p)}"
  unfolding touched_files_fold fold_add_path_set by auto

lemma named_path_plus:
  assumes "starts_with line ''+++ ''"
  shows "named_path line = Some (normalize_patch_path (drop 4 line))"
proof -
  obtain t where "line = ''+++ '' @ t" using assms by (auto simp only: starts_with_iff)
  then show ?thesis by (simp add: named_path_def PATH_PREFIXES_def)
qed

text \<open>A component list without dot-dot components never climbs above its base.\<close>

lemma lexical_join_no_dotdot:
  "''..'' \<notin> set cs \<Longrightarrow> \<exists>rest. lexical_join base cs = base @ rest"
proof (induction cs arbitrary: base)
  case (Cons c cs)
  have IH: "\<exists>rest. lexical_join b cs = b @ rest" for b using Cons by simp
  show ?case using IH [of base] IH [of "base @ [c]"] Cons.prems by auto
qed simp

text \<open>
  The files a diff touches are among the paths it references, which are listed once each; and
  if no path is reported unsafe, every referenced path read from a root stays at or below it.
\<close>

theorem referenced_paths_contained:
  "set (touched_files t) \<subseteq> set (referenced_paths t) \<and> distinct (referenced_paths t)
   \<and> (unsafe_patch_paths t = [] \<longrightarrow> list_all (\<lambda>p. \<not> posix_absolute p
        \<and> (\<exists>rest. lexical_join root (posix_parts p) = root @ rest)) (referenced_paths t))"
proof -
  have "set (touched_files t) \<subseteq> set (referenced_paths t)"
    unfolding set_touched_files set_referenced_paths using named_path_plus by auto
  moreover have "distinct (referenced_paths t)"
    unfolding referenced_paths_fold by (rule fold_add_path_distinct) simp
  ultimately show ?thesis
    using lexical_join_no_dotdot by (auto simp: unsafe_patch_paths_def filter_empty_conv list_all_iff)
qed

theorem referenced_paths_contained_witness:
  "unsafe_patch_paths ''--- a/x.py'' = []
   \<and> unsafe_patch_paths ''rename to ../x'' = [''../x'']
   \<and> list_all (\<lambda>p. \<not> posix_absolute p
        \<and> (\<exists>rest. lexical_join [''w''] (posix_parts p) = [''w''] @ rest))
       (referenced_paths ''--- a/x.py'')"
proof -
  have "unsafe_patch_paths ''--- a/x.py'' = []" "unsafe_patch_paths ''rename to ../x'' = [''../x'']"
    by code_simp+
  then show ?thesis
    using referenced_paths_contained [of "''--- a/x.py''" "[''w'']"] by simp
qed

end
