(* ===== verification/Response_Parser.thy ===== *)
theory Response_Parser
  imports Strict_JSON Results Patch_Parser "HOL-Library.Monad_Syntax"
begin

text \<open>
  \<open>arena/reviewers/response_parser.py\<close>: exact parsing of a reviewer's output, the salvage steps behind
  \<open>enable_repair\<close>, and the response record built from the outcome.

  The validation of \<open>Finding\<close> and \<open>ReviewResult\<close> from a decoded document is written out (strict types,
  no unknown field, the constraints of theory Results). The wording of the library's error reports
  is a parameter: \<open>schema_reason\<close> for a document that does not validate, \<open>path_reason\<close> for a rejected
  path.
\<close>

section \<open>From JSON to the models\<close>

fun as_string :: "json \<Rightarrow> string option" where
  "as_string (JString s) = Some s"
| "as_string _ = None"

fun as_int :: "json \<Rightarrow> int option" where
  "as_int (JInt n) = Some n"
| "as_int _ = None"

fun as_float :: "json \<Rightarrow> rat option" where
  "as_float (JFloat x) = x"
| "as_float (JInt n) = Some (of_int n)"
| "as_float _ = None"

fun as_list :: "json \<Rightarrow> json list option" where
  "as_list (JArray vs) = Some vs"
| "as_list _ = None"

definition as_severity :: "json \<Rightarrow> severity option" where
  "as_severity v =
     as_string v \<bind> map_of [(''critical'', Critical), (''high'', High), (''medium'', Medium), (''low'', Low)]"

definition as_risk :: "json \<Rightarrow> risk option" where
  "as_risk v =
     as_string v \<bind> map_of [(''critical'', RiskCritical), (''high'', RiskHigh), (''medium'', RiskMedium),
                             (''low'', RiskLow), (''none'', RiskNone)]"

type_synonym document = "(string \<times> json) list"

definition required :: "(json \<Rightarrow> 'a option) \<Rightarrow> document \<Rightarrow> string \<Rightarrow> 'a option" where
  "required conv kvs key = map_of kvs key \<bind> conv"

definition optional :: "(json \<Rightarrow> 'a option) \<Rightarrow> document \<Rightarrow> string \<Rightarrow> 'a option option" where
  "optional conv kvs key =
     (case map_of kvs key of
        None \<Rightarrow> Some None
      | Some v \<Rightarrow> if v = JNull then Some None else map_option Some (conv v))"

definition FINDING_FIELDS :: "string list" where
  "FINDING_FIELDS =
     [''title'', ''summary'', ''category'', ''severity'', ''file'', ''line_start'', ''line_end'', ''evidence'',
      ''suggested_fix'', ''suggested_patch'', ''replacement_code'', ''patch_confidence'', ''confidence'']"

fun finding_of_json :: "json \<Rightarrow> finding option" where
  "finding_of_json (JObject kvs) =
     (if \<not> set (map fst kvs) \<subseteq> set FINDING_FIELDS then None
      else do {
        title \<leftarrow> required as_string kvs ''title'';
        summary \<leftarrow> required as_string kvs ''summary'';
        category \<leftarrow> required as_string kvs ''category'';
        severity \<leftarrow> required as_severity kvs ''severity'';
        file_path \<leftarrow> required as_string kvs ''file'';
        line_start \<leftarrow> required as_int kvs ''line_start'';
        line_end \<leftarrow> required as_int kvs ''line_end'';
        evidence \<leftarrow> required as_string kvs ''evidence'';
        suggested_fix \<leftarrow> optional as_string kvs ''suggested_fix'';
        suggested_patch \<leftarrow> optional as_string kvs ''suggested_patch'';
        replacement_code \<leftarrow> optional as_string kvs ''replacement_code'';
        patch_confidence \<leftarrow> optional as_float kvs ''patch_confidence'';
        confidence \<leftarrow> required as_float kvs ''confidence'';
        let f = \<lparr>f_title = title, f_summary = summary, f_category = category, f_severity = severity,
                 f_file = file_path, f_line_start = line_start, f_line_end = line_end,
                 f_evidence = evidence, f_suggested_fix = suggested_fix,
                 f_suggested_patch = suggested_patch, f_replacement_code = replacement_code,
                 f_patch_confidence = patch_confidence, f_confidence = confidence\<rparr>;
        if valid_finding f then Some f else None
      })"
| "finding_of_json _ = None"

definition REVIEW_FIELDS :: "string list" where
  "REVIEW_FIELDS = [''findings'', ''proposed_patch'', ''overall_risk'', ''review_summary'']"

definition review_of_document :: "document \<Rightarrow> review_result option" where
  "review_of_document kvs =
     (if \<not> set (map fst kvs) \<subseteq> set REVIEW_FIELDS then None
      else do {
        items \<leftarrow> required as_list kvs ''findings'';
        findings \<leftarrow> those (map finding_of_json items);
        proposed_patch \<leftarrow> optional as_string kvs ''proposed_patch'';
        overall_risk \<leftarrow> required as_risk kvs ''overall_risk'';
        review_summary \<leftarrow> required as_string kvs ''review_summary'';
        let r = \<lparr>rv_findings = findings, rv_proposed_patch = proposed_patch,
                 rv_overall_risk = overall_risk, rv_review_summary = review_summary\<rparr>;
        if valid_review_result r then Some r else None
      })"

section \<open>Outcomes\<close>

record parse_outcome =
  po_result :: "review_result option"
  po_status :: parse_status
  po_attempt_count :: int
  po_actions :: "string list"
  po_input_finding_count :: "int option"
  po_retained_finding_count :: "int option"
  po_dropped_finding_count :: int
  po_failure_reason :: "string option"

record parser_context =
  px_uni :: "nat \<Rightarrow> string"
  px_frames :: nat
  px_schema_reason :: "json \<Rightarrow> string"
  px_path_reason :: "value_error \<Rightarrow> string"
  px_known_paths :: "string set option"

definition REASON_LEN :: nat where "REASON_LEN = PARSE_ERROR_SUMMARY_LEN"

definition invalid_outcome :: "int \<Rightarrow> string \<Rightarrow> parse_outcome" where
  "invalid_outcome attempt reason =
     \<lparr>po_result = None, po_status = Invalid, po_attempt_count = attempt, po_actions = [],
      po_input_finding_count = None, po_retained_finding_count = None,
      po_dropped_finding_count = 0, po_failure_reason = Some (take REASON_LEN reason)\<rparr>"

section \<open>Tolerant transforms\<close>

text \<open>The scanner of \<open>_strip_trailing_commas\<close>, with its string and escape state.\<close>

fun strip_commas :: "bool \<Rightarrow> bool \<Rightarrow> string \<Rightarrow> string" where
  "strip_commas in_string escaped [] = []"
| "strip_commas in_string escaped (c # s) =
     (if in_string
      then c # (if escaped then strip_commas True False s
                else if c = CHR 0x5C then strip_commas True True s
                else strip_commas (c \<noteq> CHR 0x22) False s)
      else if c = CHR 0x22 then c # strip_commas True escaped s
      else if c = CHR '','' \<and> (case skip_ws s of [] \<Rightarrow> False | d # _ \<Rightarrow> d = CHR ''}'' \<or> d = CHR '']'')
      then strip_commas False escaped s
      else c # strip_commas False escaped s)"

definition strip_trailing_commas :: "string \<Rightarrow> string" where
  "strip_trailing_commas s = strip_commas False False s"

definition BACKTICKS :: string where "BACKTICKS = replicate 3 (CHR 0x60)"

text \<open>The two substitutions that remove a Markdown fence.\<close>

definition strip_fence :: "string \<Rightarrow> string" where
  "strip_fence s =
     (let s1 = (if starts_with s BACKTICKS
                then let r = drop 3 s in
                  dropWhile is_space (if starts_with r ''json'' then drop 4 r else r)
                else s)
      in if ends_with s1 BACKTICKS
         then rev (dropWhile is_space (drop 3 (rev s1))) else s1)"

text \<open>The span from the first opening brace to the last closing one.\<close>

definition extract_braces :: "string \<Rightarrow> string option" where
  "extract_braces s =
     (let before_first = takeWhile (\<lambda>c. c \<noteq> CHR ''{'') s;
          after_last = takeWhile (\<lambda>c. c \<noteq> CHR ''}'') (rev s);
          first = length before_first;
          last_pos = length s - 1 - length after_last
      in if CHR ''{'' \<in> set s \<and> CHR ''}'' \<in> set s \<and> first < last_pos
            \<and> (0 < first \<or> last_pos < length s - 1)
         then Some (take (last_pos + 1 - first) (drop first s)) else None)"

definition tolerant_transform :: "string \<Rightarrow> string \<times> string list" where
  "tolerant_transform raw =
     (let t0 = py_strip raw;
          (t1, a1) = (if starts_with t0 BACKTICKS \<and> strip_fence t0 \<noteq> t0
                      then (strip_fence t0, [''strip_markdown_fence'']) else (t0, []));
          (t2, a2) = (case extract_braces t1 of
                        Some t \<Rightarrow> (t, [''extract_json_object'']) | None \<Rightarrow> (t1, []));
          (t3, a3) = (if strip_trailing_commas t2 \<noteq> t2
                      then (strip_trailing_commas t2, [''remove_trailing_commas'']) else (t2, []))
      in (t3, a1 @ a2 @ a3))"

section \<open>Admission of paths\<close>

fun pyobj_of_json :: "json \<Rightarrow> pyobj" where
  "pyobj_of_json (JString s) = PyStr s"
| "pyobj_of_json _ = PyOther"

definition set_key :: "string \<Rightarrow> json \<Rightarrow> document \<Rightarrow> document" where
  "set_key key v kvs = map (\<lambda>(k, w). if k = key then (k, v) else (k, w)) kvs"

definition admit_item :: "string set option \<Rightarrow> json \<Rightarrow> (value_error, json) res" where
  "admit_item known item =
     (case item of
        JObject kvs \<Rightarrow>
          (case map_of kvs ''file'' of
             None \<Rightarrow> Inr item
           | Some v \<Rightarrow> and_then (admit_reviewer_path (pyobj_of_json v) known)
               (\<lambda>path. Inr (JObject (set_key ''file'' (JString path) kvs))))
      | _ \<Rightarrow> Inr item)"

fun admit_items :: "string set option \<Rightarrow> json list \<Rightarrow> (value_error, json list) res" where
  "admit_items known [] = Inr []"
| "admit_items known (item # items) =
     and_then (admit_item known item) (\<lambda>v. and_then (admit_items known items) (\<lambda>vs. Inr (v # vs)))"

definition admit_paths_strict :: "string set option \<Rightarrow> document \<Rightarrow> (value_error, document) res" where
  "admit_paths_strict known kvs =
     (case map_of kvs ''findings'' of
        Some (JArray items) \<Rightarrow>
          and_then (admit_items known items) (\<lambda>vs. Inr (set_key ''findings'' (JArray vs) kvs))
      | _ \<Rightarrow> Inr kvs)"

text \<open>A finding that is kept, with its admitted path, or the reason it is dropped.\<close>

definition repair_item :: "parser_context \<Rightarrow> json \<Rightarrow> (string, json) res" where
  "repair_item px item =
     (case admit_item (px_known_paths px) item of
        Inl e \<Rightarrow> Inl (take REASON_LEN (px_path_reason px e))
      | Inr v \<Rightarrow> if finding_of_json v = None then Inl (take REASON_LEN (px_schema_reason px v)) else Inr v)"

fun repair_findings ::
  "parser_context \<Rightarrow> nat \<Rightarrow> json list \<Rightarrow> json list \<times> string list" where
  "repair_findings px index [] = ([], [])"
| "repair_findings px index (item # items) =
     (let (kept, dropped) = repair_findings px (index + 1) items in
      case repair_item px item of
        Inr v \<Rightarrow> (v # kept, dropped)
      | Inl reason \<Rightarrow>
          (kept, (''findings['' @ nat_str index @ '']: '' @ reason) # dropped))"

section \<open>The three attempts\<close>

definition counted_outcome ::
  "review_result \<Rightarrow> parse_status \<Rightarrow> int \<Rightarrow> string list \<Rightarrow> parse_outcome" where
  "counted_outcome result status attempt actions =
     (let count = int (length (rv_findings result)) in
      \<lparr>po_result = Some result, po_status = status, po_attempt_count = attempt, po_actions = actions,
       po_input_finding_count = Some count, po_retained_finding_count = Some count,
       po_dropped_finding_count = 0, po_failure_reason = None\<rparr>)"

definition try_exact :: "parser_context \<Rightarrow> string \<Rightarrow> parse_outcome" where
  "try_exact px raw =
     (case strict_loads (px_uni px) (px_frames px) raw of
        Inl reason \<Rightarrow> invalid_outcome 1 reason
      | Inr (JObject kvs) \<Rightarrow>
          (case admit_paths_strict (px_known_paths px) kvs of
             Inl e \<Rightarrow> invalid_outcome 1 (px_path_reason px e)
           | Inr admitted \<Rightarrow>
               (case review_of_document admitted of
                  None \<Rightarrow> invalid_outcome 1 (px_schema_reason px (JObject admitted))
                | Some result \<Rightarrow> counted_outcome result Exact 1 []))
      | Inr _ \<Rightarrow> invalid_outcome 1 ''top-level JSON value is not an object'')"

definition try_tolerant :: "parser_context \<Rightarrow> string \<Rightarrow> parse_outcome option" where
  "try_tolerant px raw =
     (let (transformed, actions) = tolerant_transform raw in
      if actions = [] then None
      else case strict_loads (px_uni px) (px_frames px) transformed of
        Inr (JObject kvs) \<Rightarrow>
          (case admit_paths_strict (px_known_paths px) kvs of
             Inl _ \<Rightarrow> None
           | Inr admitted \<Rightarrow>
               map_option (\<lambda>result. counted_outcome result Tolerant 2 actions)
                 (review_of_document admitted))
      | _ \<Rightarrow> None)"

definition add_default :: "string \<Rightarrow> json \<Rightarrow> string \<Rightarrow> document \<Rightarrow> document \<times> string list" where
  "add_default key v action kvs =
     (if key \<in> set (map fst kvs) then (kvs, []) else (kvs @ [(key, v)], [action]))"

definition repaired_outcome ::
  "parser_context \<Rightarrow> document \<Rightarrow> nat \<Rightarrow> nat \<Rightarrow> string list \<Rightarrow> string list \<Rightarrow> parse_outcome" where
  "repaired_outcome px data input_count dropped locations actions =
     (let summary = take REASON_LEN (join_with ''; '' locations) in
      case review_of_document data of
        None \<Rightarrow> invalid_outcome 3 (px_schema_reason px (JObject data))
      | Some result \<Rightarrow>
          \<lparr>po_result = Some result, po_status = Repaired, po_attempt_count = 3, po_actions = actions,
           po_input_finding_count = Some (int input_count),
           po_retained_finding_count = Some (int (length (rv_findings result))),
           po_dropped_finding_count = int dropped,
           po_failure_reason = (if summary = [] then None else Some summary)\<rparr>)"

definition repair_document ::
  "parser_context \<Rightarrow> document \<Rightarrow> json list \<Rightarrow> string list \<Rightarrow> parse_outcome" where
  "repair_document px kvs items actions =
     (let (kvs1, a1) = add_default ''overall_risk'' (JString ''medium'') ''default_overall_risk'' kvs;
          (kvs2, a2) = add_default ''review_summary'' (JString []) ''default_review_summary'' kvs1;
          (kept, locations) = repair_findings px 0 items;
          dropped = length items - length kept;
          a3 = (if dropped \<noteq> 0 then [''drop_invalid_findings''] else [])
      in repaired_outcome px (set_key ''findings'' (JArray kept) kvs2) (length items) dropped locations
           (actions @ a1 @ a2 @ a3))"

definition repair_value :: "parser_context \<Rightarrow> json \<Rightarrow> string list \<Rightarrow> parse_outcome" where
  "repair_value px v actions =
     (case v of
        JArray items \<Rightarrow>
          repair_document px [(''findings'', v)] items (actions @ [''wrap_findings_list''])
      | JObject kvs \<Rightarrow>
          (case map_of kvs ''findings'' of
             Some (JArray items) \<Rightarrow> repair_document px kvs items actions
           | _ \<Rightarrow> invalid_outcome 3 ''findings must be a JSON array'')
      | _ \<Rightarrow> invalid_outcome 3 ''top-level JSON value is not an object'')"

definition try_repair :: "parser_context \<Rightarrow> string \<Rightarrow> parse_outcome" where
  "try_repair px raw =
     (case strict_loads (px_uni px) (px_frames px) raw of
        Inr v \<Rightarrow> repair_value px v []
      | Inl _ \<Rightarrow>
          (let (transformed, actions) = tolerant_transform raw in
           case strict_loads (px_uni px) (px_frames px) transformed of
             Inl reason \<Rightarrow> invalid_outcome 3 reason
           | Inr v \<Rightarrow> repair_value px v actions))"

definition parse_reviewer_output :: "parser_context \<Rightarrow> bool \<Rightarrow> string \<Rightarrow> parse_outcome" where
  "parse_reviewer_output px enable_repair raw =
     (let exact = try_exact px raw in
      if po_status exact = Exact \<or> \<not> enable_repair then exact
      else case try_tolerant px raw of Some tolerant \<Rightarrow> tolerant | None \<Rightarrow> try_repair px raw)"

definition known_paths_from_context :: "string list \<Rightarrow> string \<Rightarrow> string set" where
  "known_paths_from_context relevant_files diff = set relevant_files \<union> set (referenced_paths diff)"

definition response_from_outcome ::
  "parse_outcome \<Rightarrow> string \<Rightarrow> int \<Rightarrow> int \<Rightarrow> int \<Rightarrow> rat \<Rightarrow> reviewer_response" where
  "response_from_outcome outcome raw latency_ms input_tokens output_tokens estimated_cost =
     \<lparr>rr_raw_response = raw, rr_parsed_response = po_result outcome,
      rr_invalid_output = (po_status outcome = Invalid),
      rr_parse_attempts = po_attempt_count outcome, rr_parse_status = po_status outcome,
      rr_parse_actions = po_actions outcome,
      rr_input_finding_count = po_input_finding_count outcome,
      rr_retained_finding_count = po_retained_finding_count outcome,
      rr_dropped_finding_count = po_dropped_finding_count outcome,
      rr_parse_error_summary = po_failure_reason outcome, rr_latency_ms = latency_ms,
      rr_input_tokens = input_tokens, rr_output_tokens = output_tokens,
      rr_estimated_cost = estimated_cost, rr_tool_usage = [], rr_derived_from_legacy = False\<rparr>"

section \<open>Every outcome makes a response\<close>

lemma map_of_set_key:
  "map_of (set_key key v kvs) k = (if k = key \<and> map_of kvs key \<noteq> None then Some v else map_of kvs k)"
  by (induction kvs) (auto simp: set_key_def)

lemma those_length: "those xs = Some ys \<Longrightarrow> length ys = length xs"
  by (induction xs arbitrary: ys) (auto split: option.splits)

lemma review_of_document_Some:
  assumes "review_of_document kvs = Some r"
  shows "valid_review_result r" and "\<exists>items. map_of kvs ''findings'' = Some (JArray items)
    \<and> length (rv_findings r) = length items"
proof -
  obtain items findings where items: "required as_list kvs ''findings'' = Some items"
    "those (map finding_of_json items) = Some findings" "rv_findings r = findings" "valid_review_result r"
    using assms unfolding review_of_document_def
    by (auto simp: Let_def bind_eq_Some_conv split: if_splits)
  then show "valid_review_result r" by blast
  have "map_of kvs ''findings'' = Some (JArray items)"
    using items(1) by (auto simp: required_def bind_eq_Some_conv elim: as_list.elims)
  then show "\<exists>items. map_of kvs ''findings'' = Some (JArray items) \<and> length (rv_findings r) = length items"
    using items(2,3) those_length by fastforce
qed

lemma valid_review_count: "valid_review_result r \<Longrightarrow> length (rv_findings r) \<le> JSON_MAX_NODES"
  by (simp add: valid_review_result_def len_ok_def MAX_FINDINGS_PER_RESPONSE_def FINDINGS_PER_RESPONSE_def
      JSON_MAX_NODES_def)

text \<open>What the response model asks of an outcome.\<close>

definition outcome_ok :: "parse_outcome \<Rightarrow> bool" where
  "outcome_ok outcome \<longleftrightarrow>
     (let r = response_from_outcome outcome [] 0 0 0 0 in
      valid_response_fields r \<and> check_evidence_invariants r = None)"

lemma response_ok:
  "valid_response_fields (response_from_outcome outcome raw l i j c)
     = valid_response_fields (response_from_outcome outcome [] 0 0 0 0)"
  "check_evidence_invariants (response_from_outcome outcome raw l i j c)
     = check_evidence_invariants (response_from_outcome outcome [] 0 0 0 0)"
  by (simp_all add: response_from_outcome_def valid_response_fields_def check_evidence_invariants_def
      Let_def cong: option.case_cong if_cong)

lemma invalid_outcome_ok: "outcome_ok (invalid_outcome n reason)"
  by (simp add: outcome_ok_def response_from_outcome_def invalid_outcome_def valid_response_fields_def
      check_evidence_invariants_def len_ok_def num_ok_def option_ok_def REASON_LEN_def)

lemma transform_actions:
  "tolerant_transform raw = (t, actions) \<Longrightarrow>
     set actions \<subseteq> {''strip_markdown_fence'', ''extract_json_object'', ''remove_trailing_commas''}
     \<and> length actions \<le> 3"
  by (auto simp: tolerant_transform_def Let_def split: if_splits option.splits prod.splits)

definition salvage_actions :: "string list \<Rightarrow> bool" where
  "salvage_actions actions \<longleftrightarrow> set actions \<subseteq> set PARSE_ACTIONS \<and> length actions \<le> 8"

lemma action_lengths: "a \<in> set PARSE_ACTIONS \<Longrightarrow> length a \<le> PARSE_ACTION_LEN"
  by (auto simp: PARSE_ACTIONS_def PARSE_ACTION_LEN_def)

lemma salvage_fields:
  "salvage_actions actions \<Longrightarrow> length actions \<le> PARSE_ACTIONS_MAX
     \<and> list_all (len_ok 0 PARSE_ACTION_LEN) actions"
  using action_lengths by (auto simp: salvage_actions_def PARSE_ACTIONS_MAX_def list_all_iff len_ok_def)

lemma counted_outcome_ok:
  assumes "valid_review_result r" "salvage_actions actions"
    and "status = Exact \<and> attempt = 1 \<and> actions = [] \<or> status = Tolerant \<and> actions \<noteq> []"
  shows "outcome_ok (counted_outcome r status attempt actions)"
  using assms(3) valid_review_count [OF assms(1)] salvage_fields [OF assms(2)] assms(2)
  by (auto simp: outcome_ok_def response_from_outcome_def counted_outcome_def valid_response_fields_def
      check_evidence_invariants_def len_ok_def num_ok_def option_ok_def Let_def salvage_actions_def)

lemma try_exact_ok: "outcome_ok (try_exact px raw)"
proof -
  have "outcome_ok (case review_of_document d of
      None \<Rightarrow> invalid_outcome 1 (px_schema_reason px (JObject d))
    | Some result \<Rightarrow> counted_outcome result Exact 1 [])" for d
    by (cases "review_of_document d")
      (simp_all add: invalid_outcome_ok counted_outcome_ok review_of_document_Some(1) salvage_actions_def)
  then show ?thesis
    by (simp add: try_exact_def invalid_outcome_ok split: sum.split json.split)
qed

lemma try_tolerant_ok: "try_tolerant px raw = Some outcome \<Longrightarrow> outcome_ok outcome"
proof -
  obtain t actions where t: "tolerant_transform raw = (t, actions)" by (cases "tolerant_transform raw")
  have "salvage_actions actions"
  proof -
    have "{''strip_markdown_fence'', ''extract_json_object'', ''remove_trailing_commas''} \<subseteq> set PARSE_ACTIONS"
      by (simp add: PARSE_ACTIONS_def)
    then show ?thesis using transform_actions [OF t] unfolding salvage_actions_def by auto
  qed
  moreover assume "try_tolerant px raw = Some outcome"
  then obtain result where "valid_review_result result" "actions \<noteq> []"
    "outcome = counted_outcome result Tolerant 2 actions"
    using t by (auto simp: try_tolerant_def dest: review_of_document_Some(1)
        split: sum.splits json.splits if_splits)
  ultimately show "outcome_ok outcome" by (simp add: counted_outcome_ok)
qed

lemma repair_findings_length:
  "repair_findings px i items = (kept, locations) \<Longrightarrow> length kept \<le> length items"
  by (induction px i items arbitrary: kept locations rule: repair_findings.induct)
    (fastforce split: sum.splits prod.splits)+

text \<open>An outcome whose response the model accepts, but for a repair that recorded no action.\<close>

definition outcome_nearly_ok :: "parse_outcome \<Rightarrow> bool" where
  "outcome_nearly_ok outcome \<longleftrightarrow>
     (let r = response_from_outcome outcome [] 0 0 0 0 in
      valid_response_fields r \<and> check_evidence_invariants r =
        (if po_status outcome = Repaired \<and> po_actions outcome = [] then Some RepairedWithoutActions else None))"

lemma invalid_outcome_nearly_ok: "outcome_nearly_ok (invalid_outcome n reason)"
  using invalid_outcome_ok [of n reason]
  by (simp add: outcome_nearly_ok_def outcome_ok_def Let_def invalid_outcome_def)

lemma repaired_outcome_ok:
  assumes "map_of data ''findings'' = Some (JArray kept)" "input_count = length kept + dropped"
    and "input_count \<le> JSON_MAX_NODES" "salvage_actions actions"
  shows "outcome_nearly_ok (repaired_outcome px data input_count dropped locations actions)"
proof (cases "review_of_document data")
  case None
  then show ?thesis by (simp add: repaired_outcome_def Let_def invalid_outcome_nearly_ok)
next
  case (Some result)
  then have n: "length (rv_findings result) = length kept"
    using review_of_document_Some(2) assms(1) by fastforce
  let ?r = "response_from_outcome (repaired_outcome px data input_count dropped locations actions) [] 0 0 0 0"
  have "check_evidence_invariants ?r = (if actions = [] then Some RepairedWithoutActions else None)"
    using assms(2,4) n
    by (simp add: repaired_outcome_def Some response_from_outcome_def check_evidence_invariants_def
        Let_def salvage_actions_def)
  moreover have "valid_response_fields ?r"
    using salvage_fields [OF assms(4)] assms(2,3) n
    by (simp add: repaired_outcome_def Some Let_def response_from_outcome_def valid_response_fields_def
        len_ok_def num_ok_def option_ok_def REASON_LEN_def)
  ultimately show ?thesis
    by (simp add: outcome_nearly_ok_def Let_def) (simp add: repaired_outcome_def Some Let_def)
qed

lemma add_default_spec:
  assumes "add_default key v action kvs = (kvs', actions)"
  shows "map_of kvs k = Some x \<Longrightarrow> map_of kvs' k = Some x" "actions = [] \<or> actions = [action]"
  using assms by (auto simp: add_default_def split: if_splits)

lemma repair_document_ok:
  assumes "map_of kvs ''findings'' = Some (JArray items)" "length items \<le> JSON_MAX_NODES"
    and "set actions \<subseteq> set PARSE_ACTIONS" "length actions \<le> 4"
  shows "outcome_nearly_ok (repair_document px kvs items actions)"
proof -
  obtain kvs1 a1 where d1: "add_default ''overall_risk'' (JString ''medium'') ''default_overall_risk'' kvs = (kvs1, a1)"
    by (metis prod.exhaust)
  obtain kvs2 a2 where d2: "add_default ''review_summary'' (JString []) ''default_review_summary'' kvs1 = (kvs2, a2)"
    by (metis prod.exhaust)
  obtain kept locations where kept: "repair_findings px 0 items = (kept, locations)"
    by (metis prod.exhaust)
  let ?a3 = "if length items - length kept \<noteq> 0 then [''drop_invalid_findings''] else []"
  have "map_of kvs2 ''findings'' = Some (JArray items)"
    using add_default_spec(1) [OF d2] add_default_spec(1) [OF d1] assms(1) by blast
  then have findings: "map_of (set_key ''findings'' (JArray kept) kvs2) ''findings'' = Some (JArray kept)"
    by (simp add: map_of_set_key)
  have added: "set a1 \<subseteq> set PARSE_ACTIONS \<and> length a1 \<le> 1" "set a2 \<subseteq> set PARSE_ACTIONS \<and> length a2 \<le> 1"
    "set ?a3 \<subseteq> set PARSE_ACTIONS \<and> length ?a3 \<le> 1"
    using add_default_spec(2) [OF d1] add_default_spec(2) [OF d2] by (auto simp: PARSE_ACTIONS_def)
  have salvage: "salvage_actions (actions @ a1 @ a2 @ ?a3)"
    using added assms(3,4) unfolding salvage_actions_def set_append length_append by (intro conjI) (blast, linarith)
  show ?thesis
    unfolding repair_document_def d1 d2 kept Let_def prod.case
    by (rule repaired_outcome_ok [OF findings _ _ salvage])
      (use repair_findings_length [OF kept] assms(2) in simp_all)
qed

lemma json_items_nodes: "length (json_children v) < json_nodes v"
proof -
  have "length vs \<le> sum_list (map json_nodes vs)" for vs
  proof (induction vs)
    case (Cons v vs)
    have "1 \<le> json_nodes v" by (cases v) simp_all
    then show ?case using Cons by simp
  qed simp
  then show ?thesis using json_nodes_children [of v] by (simp add: less_Suc_eq_le)
qed

lemma json_child_nodes: "c \<in> set (json_children v) \<Longrightarrow> json_nodes c \<le> json_nodes v"
  using json_nodes_children [of v] member_le_sum_list [of "json_nodes c" "map json_nodes (json_children v)"]
  by simp

lemma repair_value_ok:
  assumes "json_nodes v \<le> JSON_MAX_NODES" "set actions \<subseteq> set PARSE_ACTIONS" "length actions \<le> 3"
  shows "outcome_nearly_ok (repair_value px v actions)"
proof (cases v)
  case (JArray items)
  have "set (actions @ [''wrap_findings_list'']) \<subseteq> set PARSE_ACTIONS"
    using assms(2) by (simp add: PARSE_ACTIONS_def)
  then show ?thesis
    using repair_document_ok [of "[(''findings'', v)]" items "actions @ [''wrap_findings_list'']"]
      json_items_nodes [of v] assms JArray
    by (simp add: repair_value_def)
next
  case (JObject kvs)
  show ?thesis
  proof (cases "\<exists>items. map_of kvs ''findings'' = Some (JArray items)")
    case True
    then obtain items where items: "map_of kvs ''findings'' = Some (JArray items)" by blast
    then have "JArray items \<in> set (json_children v)"
      using JObject by (force dest: map_of_SomeD)
    then have "length items \<le> JSON_MAX_NODES"
      using json_child_nodes json_items_nodes [of "JArray items"] assms(1) by fastforce
    then show ?thesis
      using repair_document_ok [OF items] assms(2,3) by (simp add: repair_value_def JObject items)
  next
    case False
    then show ?thesis
      by (auto simp: repair_value_def JObject invalid_outcome_nearly_ok split: option.split json.split)
  qed
qed (simp_all add: repair_value_def invalid_outcome_nearly_ok)

lemma outcome_ok_nearly: "outcome_ok outcome \<Longrightarrow> outcome_nearly_ok outcome"
proof -
  assume "outcome_ok outcome"
  moreover have "check_evidence_invariants (response_from_outcome outcome [] 0 0 0 0) \<noteq> None"
    if "po_status outcome = Repaired" "po_actions outcome = []"
    using that by (auto simp: check_evidence_invariants_def response_from_outcome_def Let_def split: option.splits)
  ultimately show "outcome_nearly_ok outcome" by (auto simp: outcome_ok_def outcome_nearly_ok_def Let_def)
qed

lemma try_repair_ok: "outcome_nearly_ok (try_repair px raw)"
proof (cases "strict_loads (px_uni px) (px_frames px) raw")
  case (Inr v)
  then show ?thesis
    using repair_value_ok [of v "[]"] strict_loads_Inr [OF Inr] by (simp add: try_repair_def)
next
  case (Inl reason)
  obtain t actions where t: "tolerant_transform raw = (t, actions)" by (metis prod.exhaust)
  have "{''strip_markdown_fence'', ''extract_json_object'', ''remove_trailing_commas''} \<subseteq> set PARSE_ACTIONS"
    by (simp add: PARSE_ACTIONS_def)
  then have a: "set actions \<subseteq> set PARSE_ACTIONS" "length actions \<le> 3"
    using transform_actions [OF t] by auto
  show ?thesis
  proof (cases "strict_loads (px_uni px) (px_frames px) t")
    case (Inr v)
    then show ?thesis
      using repair_value_ok [OF _ a] strict_loads_Inr [OF Inr] Inl t by (simp add: try_repair_def)
  qed (simp add: try_repair_def Inl t invalid_outcome_nearly_ok)
qed

lemma try_exact_status: "po_status (try_exact px raw) \<in> {Exact, Invalid}"
  by (simp add: try_exact_def invalid_outcome_def counted_outcome_def Let_def
      split: sum.split json.split option.split)

lemma parse_nearly_ok: "outcome_nearly_ok (parse_reviewer_output px enable_repair raw)"
  using outcome_ok_nearly [OF try_exact_ok] outcome_ok_nearly [OF try_tolerant_ok] try_repair_ok
  by (simp add: parse_reviewer_output_def Let_def split: option.split)

text \<open>
  Whatever a reviewer returns, parsing it gives a response that the response model accepts, with
  counts, actions and status agreeing, save in one case: a repair that recorded no action, which
  the model rejects. Without the repair option the status is exact or invalid, so that case cannot
  arise.
\<close>

theorem parsed_response_valid:
  "let outcome = parse_reviewer_output px enable_repair raw;
       r = response_from_outcome outcome raw latency_ms input_tokens output_tokens cost
   in valid_response_fields r
      \<and> check_evidence_invariants r =
          (if rr_parse_status r = Repaired \<and> rr_parse_actions r = [] then Some RepairedWithoutActions else None)
      \<and> (enable_repair \<or> rr_parse_status r = Exact \<or> rr_parse_status r = Invalid)"
proof -
  let ?o = "parse_reviewer_output px enable_repair raw"
  have "enable_repair \<or> po_status ?o = Exact \<or> po_status ?o = Invalid"
    using try_exact_status [of px raw] by (auto simp: parse_reviewer_output_def Let_def)
  then show ?thesis
    using parse_nearly_ok [of px enable_repair raw]
    unfolding Let_def response_ok [of ?o raw] outcome_nearly_ok_def
    by (simp add: response_from_outcome_def)
qed

definition form_feed_review :: string where
  "form_feed_review = CHR 0x0C # map (\<lambda>c. if c = CHR ''`'' then CHR 0x22 else c)
     ''{`findings`:[],`overall_risk`:`low`,`review_summary`:``}''"

text \<open>
  That case does arise. A form feed before a valid review is not JSON whitespace, so the exact
  attempt fails; \<open>strip\<close> removes it without recording an action, so the tolerant attempt is skipped;
  the repair then succeeds with nothing to record, and building its response fails.
\<close>

theorem strip_only_repair_rejected:
  "let outcome = parse_reviewer_output
         \<lparr>px_uni = uni, px_frames = 100, px_schema_reason = schema, px_path_reason = reason,
          px_known_paths = None\<rparr> True form_feed_review;
       r = response_from_outcome outcome form_feed_review 0 0 0 0
   in po_status outcome = Repaired \<and> po_actions outcome = []
      \<and> check_evidence_invariants r = Some RepairedWithoutActions"
  by code_simp

section \<open>Admitted paths\<close>

definition admitted :: "string set option \<Rightarrow> finding \<Rightarrow> bool" where
  "admitted known f \<longleftrightarrow> (\<exists>given. admit_reviewer_path (PyStr given) known = Inr (f_file f))"

lemma finding_file:
  "finding_of_json (JObject kvs) = Some f \<Longrightarrow> map_of kvs ''file'' = Some (JString (f_file f))"
  by (auto simp: required_def bind_eq_Some_conv Let_def split: if_splits elim!: as_string.elims)

lemma admit_item_admitted:
  assumes "admit_item known item = Inr v" "finding_of_json v = Some f"
  shows "admitted known f"
proof -
  obtain kvs' where v: "v = JObject kvs'" using assms(2) by (cases v) simp_all
  then have f: "map_of kvs' ''file'' = Some (JString (f_file f))" using finding_file assms(2) by simp
  then obtain kvs w path where "item = JObject kvs" "map_of kvs ''file'' = Some w"
    "admit_reviewer_path (pyobj_of_json w) known = Inr path" "kvs' = set_key ''file'' (JString path) kvs"
    using assms(1) v by (auto simp: admit_item_def res_simps split: json.splits option.splits)
  moreover from this have "path = f_file f" using f by (simp add: map_of_set_key)
  ultimately show ?thesis by (cases w) (auto simp: admitted_def)
qed

lemma admit_items_member: "admit_items known items = Inr vs \<Longrightarrow> v \<in> set vs \<Longrightarrow> \<exists>item. admit_item known item = Inr v"
  by (induction items arbitrary: vs) (auto simp: res_simps)

lemma repair_findings_member:
  "repair_findings px i items = (kept, locations) \<Longrightarrow> v \<in> set kept \<Longrightarrow>
     \<exists>item. admit_item (px_known_paths px) item = Inr v"
proof (induction px i items arbitrary: kept locations rule: repair_findings.induct)
  case (2 px i item items)
  have "repair_item px item = Inr w \<Longrightarrow> admit_item (px_known_paths px) item = Inr w" for w
    by (auto simp: repair_item_def split: sum.splits if_splits)
  with 2 show ?case by (auto split: sum.splits prod.splits)
qed simp

lemma those_member: "those xs = Some ys \<Longrightarrow> y \<in> set ys \<Longrightarrow> Some y \<in> set xs"
  by (induction xs arbitrary: ys) (auto split: option.splits)

lemma review_findings_admitted:
  assumes "review_of_document kvs = Some r" "map_of kvs ''findings'' = Some (JArray vs)"
    and "\<And>v. v \<in> set vs \<Longrightarrow> \<exists>item. admit_item known item = Inr v"
  shows "list_all (admitted known) (rv_findings r)"
proof -
  have those: "those (map finding_of_json vs) = Some (rv_findings r)"
    using assms(1,2) unfolding review_of_document_def
    by (auto simp: Let_def bind_eq_Some_conv required_def split: if_splits)
  show ?thesis
  proof (unfold list_all_iff, rule ballI)
    fix f assume "f \<in> set (rv_findings r)"
    then obtain v where "v \<in> set vs" "finding_of_json v = Some f"
      using those_member [OF those] by force
    then show "admitted known f" using assms(3) admit_item_admitted by blast
  qed
qed

lemma strict_review_admitted:
  assumes "admit_paths_strict known kvs = Inr kvs'" "review_of_document kvs' = Some r"
  shows "list_all (admitted known) (rv_findings r)"
proof -
  obtain vs where vs: "map_of kvs' ''findings'' = Some (JArray vs)"
    using review_of_document_Some(2) [OF assms(2)] by blast
  then obtain items where "admit_items known items = Inr vs"
    using assms(1) by (auto simp: admit_paths_strict_def res_simps map_of_set_key
        split: option.splits json.splits)
  then show ?thesis using review_findings_admitted [OF assms(2) vs] admit_items_member by blast
qed

definition outcome_admitted :: "string set option \<Rightarrow> parse_outcome \<Rightarrow> bool" where
  "outcome_admitted known outcome \<longleftrightarrow>
     (\<forall>r. po_result outcome = Some r \<longrightarrow> list_all (admitted known) (rv_findings r))"

lemma invalid_outcome_admitted [simp]: "outcome_admitted known (invalid_outcome n reason)"
  by (simp add: outcome_admitted_def invalid_outcome_def)

lemma counted_outcome_admitted:
  "list_all (admitted known) (rv_findings r) \<Longrightarrow> outcome_admitted known (counted_outcome r status n actions)"
  by (simp add: outcome_admitted_def counted_outcome_def Let_def)

lemma try_exact_admitted: "outcome_admitted (px_known_paths px) (try_exact px raw)"
  by (simp add: try_exact_def split: sum.split json.split option.split)
    (use counted_outcome_admitted strict_review_admitted in blast)

lemma try_tolerant_admitted:
  "try_tolerant px raw = Some outcome \<Longrightarrow> outcome_admitted (px_known_paths px) outcome"
  by (auto simp: try_tolerant_def split: prod.splits if_splits sum.splits json.splits)
    (use counted_outcome_admitted strict_review_admitted in blast)

lemma repair_document_admitted:
  assumes "map_of kvs ''findings'' = Some (JArray items)"
  shows "outcome_admitted (px_known_paths px) (repair_document px kvs items actions)"
proof -
  obtain kvs1 a1 where d1: "add_default ''overall_risk'' (JString ''medium'') ''default_overall_risk'' kvs = (kvs1, a1)"
    by (metis prod.exhaust)
  obtain kvs2 a2 where d2: "add_default ''review_summary'' (JString []) ''default_review_summary'' kvs1 = (kvs2, a2)"
    by (metis prod.exhaust)
  obtain kept locations where kept: "repair_findings px 0 items = (kept, locations)"
    by (metis prod.exhaust)
  have "map_of kvs2 ''findings'' = Some (JArray items)"
    using add_default_spec(1) [OF d2] add_default_spec(1) [OF d1] assms by blast
  then have "map_of (set_key ''findings'' (JArray kept) kvs2) ''findings'' = Some (JArray kept)"
    by (simp add: map_of_set_key)
  then have "list_all (admitted (px_known_paths px)) (rv_findings r)"
    if "review_of_document (set_key ''findings'' (JArray kept) kvs2) = Some r" for r
    using review_findings_admitted [OF that] repair_findings_member [OF kept] by blast
  then show ?thesis
    unfolding repair_document_def d1 d2 kept Let_def prod.case repaired_outcome_def
    by (cases "review_of_document (set_key ''findings'' (JArray kept) kvs2)")
      (simp_all add: outcome_admitted_def invalid_outcome_def)
qed

lemma repair_value_admitted: "outcome_admitted (px_known_paths px) (repair_value px v actions)"
  using repair_document_admitted
  by (simp add: repair_value_def split: json.split option.split)

lemma parse_admitted: "outcome_admitted (px_known_paths px) (parse_reviewer_output px enable_repair raw)"
proof -
  have "outcome_admitted (px_known_paths px) (try_repair px raw)"
    using repair_value_admitted by (simp add: try_repair_def split: sum.split prod.split)
  then show ?thesis
    using try_exact_admitted try_tolerant_admitted
    by (simp add: parse_reviewer_output_def Let_def split: option.split)
qed

text \<open>
  C7: no finding of an accepted review, exact or salvaged, carries a path that was not admitted: each
  is the admitted form of a string the reviewer gave, and satisfies the pack path policy.
\<close>

theorem accepted_findings_admitted:
  assumes "po_result (parse_reviewer_output px enable_repair raw) = Some r"
  shows "list_all (\<lambda>f. relative_path_error (PyStr (f_file f)) = None
    \<and> (\<exists>given. admit_reviewer_path (PyStr given) (px_known_paths px) = Inr (f_file f))) (rv_findings r)"
proof -
  have "list_all (admitted (px_known_paths px)) (rv_findings r)"
    using parse_admitted assms by (simp add: outcome_admitted_def)
  then show ?thesis
    unfolding list_all_iff admitted_def using admitted_path_ok by blast
qed

definition sample_review :: string where
  "sample_review = map (\<lambda>c. if c = CHR ''`'' then CHR 0x22 else c)
     (''{`findings`:[{`title`:`t`,`summary`:`s`,`category`:`c`,`severity`:`low`,`file`:`./a.py`,''
      @ ''`line_start`:1,`line_end`:2,`evidence`:`e`,`confidence`:1}],`overall_risk`:`low`,`review_summary`:``}'')"

definition plain_context :: parser_context where
  "plain_context = \<lparr>px_uni = (\<lambda>_. []), px_frames = 100, px_schema_reason = (\<lambda>_. []),
     px_path_reason = (\<lambda>_. []), px_known_paths = None\<rparr>"

definition reported_paths :: "parse_outcome \<Rightarrow> string list" where
  "reported_paths po = (case po_result po of None \<Rightarrow> [] | Some r \<Rightarrow> map f_file (rv_findings r))"

theorem accepted_findings_admitted_witness:
  "reported_paths (parse_reviewer_output plain_context False sample_review) = [''a.py'']
     \<and> relative_path_error (PyStr ''a.py'') = None"
proof -
  have paths: "reported_paths (parse_reviewer_output plain_context False sample_review) = [''a.py'']"
    by code_simp
  then obtain r where r: "po_result (parse_reviewer_output plain_context False sample_review) = Some r"
    "map f_file (rv_findings r) = [''a.py'']"
    by (auto simp: reported_paths_def split: option.splits)
  have "relative_path_error (PyStr ''a.py'') = None"
    using accepted_findings_admitted [OF r(1)] by (cases "rv_findings r") (use r(2) in simp_all)
  with paths show ?thesis by blast
qed

end
