(* ===== verification/Git_Output.thy ===== *)
theory Git_Output
  imports Patch_Parser Models
begin

text \<open>
  \<open>arena/patching/git_pipeline.py\<close>, the parts that read Git's machine output and apply the result
  policy. Bytes are strings of the values 0..255. A path is decoded as UTF-8; a sequence for a code
  point above 255 counts as undecodable here, which raises \<open>unsafe_result_path\<close> where the source
  decodes it and then rejects it with the same reason, because the path profile is ASCII.

  On code points 0..255 NFC normalisation is the identity, so \<open>_norm\<close> is case folding.
\<close>

section \<open>Errors\<close>

text \<open>\<open>_GitRunError\<close>: a stable reason and a bounded diagnostic.\<close>

datatype git_error = GitError (git_reason: string) (git_diagnostic: string)

definition DIAG_LEN :: nat where "DIAG_LEN = 2048"

definition git_run_error :: "string \<Rightarrow> string \<Rightarrow> git_error" where
  "git_run_error reason diagnostic = GitError reason (take DIAG_LEN diagnostic)"

definition invalid_output :: "string \<Rightarrow> (git_error, 'a) res" where
  "invalid_output diagnostic = Inl (git_run_error ''git_output_invalid'' diagnostic)"

section \<open>Constants\<close>

definition ALLOWED_MODES :: "string list" where "ALLOWED_MODES = [''100644'', ''100755'']"
definition SYMLINK_MODE :: string where "SYMLINK_MODE = ''120000''"
definition GITLINK_MODE :: string where "GITLINK_MODE = ''160000''"
definition KNOWN_MODES :: "string list" where
  "KNOWN_MODES = [''000000'', ''100644'', ''100755'', ''120000'', ''160000'']"
definition RAW_STATUS :: string where "RAW_STATUS = ''AMDTRC''"

definition octal_mode :: "string \<Rightarrow> bool" where
  "octal_mode s \<longleftrightarrow> length s = 6 \<and> list_all (\<lambda>c. c \<in> set ''01234567'') s"

definition PROTECTED_BASENAMES :: "string list" where
  "PROTECTED_BASENAMES =
     [''conftest.py'', ''pytest.ini'', ''tox.ini'', ''setup.cfg'', ''pyproject.toml'',
      ''sitecustomize.py'', ''usercustomize.py'', ''.git'', ''.gitmodules'', ''.gitattributes'']"

record git_change =
  gc_status :: char
  gc_old_mode :: string
  gc_new_mode :: string
  gc_old_sha :: string
  gc_new_sha :: string
  gc_old_path :: "string option"
  gc_new_path :: string

section \<open>Parsing\<close>

definition sha_len :: "string \<Rightarrow> nat" where
  "sha_len object_format = (if object_format = ''sha256'' then 64 else 40)"

definition is_hex :: "string \<Rightarrow> bool" where
  "is_hex s \<longleftrightarrow> list_all (\<lambda>c. c \<in> set ''0123456789abcdef'') s"

definition is_hex_sha :: "string \<Rightarrow> nat \<Rightarrow> bool" where
  "is_hex_sha value len \<longleftrightarrow> length value = len \<and> is_hex value"

definition is_ascii :: "string \<Rightarrow> bool" where
  "is_ascii s \<longleftrightarrow> list_all (\<lambda>c. (of_char c :: nat) < 128) s"

fun utf8_decode :: "string \<Rightarrow> string option" where
  "utf8_decode [] = Some []"
| "utf8_decode (c # s) =
     (let n = (of_char c :: nat) in
      if n < 128 then map_option (Cons c) (utf8_decode s)
      else if n = 194 \<or> n = 195
      then (case s of
              [] \<Rightarrow> None
            | d # s' \<Rightarrow>
                let m = (of_char d :: nat) in
                if 128 \<le> m \<and> m < 192
                then map_option (Cons (char_of ((n - 192) * 64 + (m - 128)))) (utf8_decode s')
                else None)
      else None)"

definition decode_path :: "string \<Rightarrow> (git_error, string) res" where
  "decode_path raw =
     (case utf8_decode raw of
        None \<Rightarrow> Inl (git_run_error ''unsafe_result_path'' ''git reported an undecodable path'')
      | Some path \<Rightarrow> if path = [] then invalid_output ''git reported an empty path'' else Inr path)"

definition NUL :: char where "NUL = CHR 0x00"

definition split_z :: "string \<Rightarrow> (git_error, string list) res" where
  "split_z data =
     (if data \<noteq> [] \<and> last data \<noteq> NUL then invalid_output ''git output is not NUL-terminated''
      else let parts = split_on NUL data in
           Inr (if last parts = [] then butlast parts else parts))"

text \<open>One record header: modes, object ids and the status letter.\<close>

definition parse_raw_meta ::
  "string \<Rightarrow> (git_error, string \<times> string \<times> string \<times> string \<times> char) res" where
  "parse_raw_meta meta =
     (if \<not> starts_with meta '':'' then invalid_output ''unexpected raw-diff record''
      else if \<not> is_ascii (drop 1 meta) then invalid_output ''non-ascii raw-diff metadata''
      else case split_on CHR '' '' (drop 1 meta) of
        [old_mode, new_mode, old_sha, new_sha, status] \<Rightarrow>
          if \<not> (octal_mode old_mode \<and> octal_mode new_mode)
          then invalid_output ''malformed mode in raw diff''
          else if old_sha = [] \<or> \<not> is_hex old_sha \<or> new_sha = [] \<or> \<not> is_hex new_sha
          then invalid_output ''malformed object id in raw diff''
          else (case status of
            [] \<Rightarrow> invalid_output ''unknown raw-diff status''
          | letter # _ \<Rightarrow>
              if letter \<notin> set RAW_STATUS then invalid_output ''unknown raw-diff status''
              else Inr (old_mode, new_mode, old_sha, new_sha, letter))
      | _ \<Rightarrow> invalid_output ''malformed raw-diff metadata'')"

text \<open>The record at the front of the remaining parts, and the parts after it.\<close>

definition parse_raw_record ::
  "string \<Rightarrow> string list \<Rightarrow> (git_error, git_change \<times> string list) res" where
  "parse_raw_record meta parts =
     and_then (parse_raw_meta meta) (\<lambda>(old_mode, new_mode, old_sha, new_sha, letter).
       let change = (\<lambda>old_path new_path.
             \<lparr>gc_status = letter, gc_old_mode = old_mode, gc_new_mode = new_mode,
              gc_old_sha = old_sha, gc_new_sha = new_sha, gc_old_path = old_path,
              gc_new_path = new_path\<rparr>)
       in if letter = CHR ''R'' \<or> letter = CHR ''C''
          then (case parts of
            old # new # rest \<Rightarrow>
              and_then (decode_path old) (\<lambda>old_path.
              and_then (decode_path new) (\<lambda>new_path.
                Inr (change (Some old_path) new_path, rest)))
          | _ \<Rightarrow> invalid_output ''truncated rename record'')
          else (case parts of
            new # rest \<Rightarrow>
              and_then (decode_path new) (\<lambda>new_path. Inr (change None new_path, rest))
          | _ \<Rightarrow> invalid_output ''truncated raw-diff record''))"

lemma parse_raw_record_shorter:
  "parse_raw_record meta parts = Inr (change, rest) \<Longrightarrow> length rest < length parts"
  by (auto simp: parse_raw_record_def res_simps invalid_output_def Let_def
      split: if_splits list.splits)

function (sequential) parse_raw_parts ::
  "string list \<Rightarrow> string list \<Rightarrow> (git_error, git_change list) res" where
  "parse_raw_parts [] seen_new = Inr []"
| "parse_raw_parts (meta # parts) seen_new =
     (case parse_raw_record meta parts of
        Inl e \<Rightarrow> Inl e
      | Inr (change, rest) \<Rightarrow>
          if gc_new_path change \<in> set seen_new then invalid_output ''duplicate change record''
          else and_then (parse_raw_parts rest (gc_new_path change # seen_new))
                 (\<lambda>changes. Inr (change # changes)))"
  by pat_completeness auto
termination
  by (relation "measure (\<lambda>(parts, _). length parts)")
    (auto dest!: parse_raw_record_shorter)

definition parse_raw_z :: "string \<Rightarrow> (git_error, git_change list) res" where
  "parse_raw_z data = and_then (split_z data) (\<lambda>parts. parse_raw_parts parts [])"

type_synonym index_entry = "string \<times> string \<times> string"

definition parse_ls_record :: "nat \<Rightarrow> string \<Rightarrow> (git_error, index_entry) res" where
  "parse_ls_record sha_length record =
     (if CHR 0x09 \<notin> set record then invalid_output ''malformed ls-files record''
      else let meta = takeWhile (\<lambda>c. c \<noteq> CHR 0x09) record;
               raw_path = drop (length meta + 1) record
           in if \<not> is_ascii meta then invalid_output ''malformed ls-files metadata''
              else case split_ws meta of
                [mode, sha, stage] \<Rightarrow>
                  if \<not> octal_mode mode \<or> mode \<notin> set KNOWN_MODES
                  then invalid_output ''malformed ls-files mode''
                  else if \<not> is_hex_sha sha sha_length
                  then invalid_output ''malformed ls-files object id''
                  else if stage \<noteq> ''0''
                  then Inl (git_run_error ''unmerged_index'' ''the index has unmerged stages'')
                  else and_then (decode_path raw_path) (\<lambda>path. Inr (mode, sha, path))
              | _ \<Rightarrow> invalid_output ''malformed ls-files metadata'')"

fun parse_ls_records ::
  "nat \<Rightarrow> string list \<Rightarrow> string list \<Rightarrow> (git_error, index_entry list) res" where
  "parse_ls_records sha_length [] seen = Inr []"
| "parse_ls_records sha_length (record # records) seen =
     and_then (parse_ls_record sha_length record) (\<lambda>(mode, sha, path).
       if path \<in> set seen then invalid_output ''duplicate index path''
       else and_then (parse_ls_records sha_length records (path # seen))
              (\<lambda>entries. Inr ((mode, sha, path) # entries)))"

definition parse_ls_files_z :: "string \<Rightarrow> string \<Rightarrow> (git_error, index_entry list) res" where
  "parse_ls_files_z data object_format =
     and_then (split_z data) (\<lambda>parts. parse_ls_records (sha_len object_format) parts [])"

section \<open>Result policy\<close>

definition norm_component :: "string \<Rightarrow> string" where
  "norm_component component = casefold component"

definition path_components :: "string \<Rightarrow> string list" where
  "path_components path =
     filter (\<lambda>part. part \<noteq> [])
       (split_on CHR ''/'' (map (\<lambda>c. if c = CHR 0x5C then CHR ''/'' else c) path))"

definition is_protected :: "string \<Rightarrow> string list \<Rightarrow> bool" where
  "is_protected path protected =
     (let parts = map norm_component (path_components path);
          basenames = map norm_component PROTECTED_BASENAMES
      in list_ex (\<lambda>part. part \<in> set basenames) parts
         \<or> list_ex (\<lambda>rule.
             let rule_parts = map norm_component (path_components rule) in
             rule_parts \<noteq> [] \<and> take (length rule_parts) parts = rule_parts) protected)"

definition changed_paths :: "git_change \<Rightarrow> string list" where
  "changed_paths change =
     gc_new_path change # (case gc_old_path change of None \<Rightarrow> [] | Some p \<Rightarrow> [p])"

definition check_change_mode :: "string \<Rightarrow> (git_error, unit) res" where
  "check_change_mode mode =
     (if mode = SYMLINK_MODE
      then Inl (git_run_error ''unsafe_result_mode'' ''patch result introduces a symlink'')
      else if mode = GITLINK_MODE
      then Inl (git_run_error ''unsafe_result_mode'' ''patch result introduces a gitlink'')
      else if mode \<noteq> ''000000'' \<and> mode \<notin> set ALLOWED_MODES
      then Inl (git_run_error ''unsafe_result_mode'' (''unsupported mode '' @ mode))
      else Inr ())"

record result_lists =
  rl_unsafe :: "string list"
  rl_protected :: "string list"
  rl_added :: "string list"
  rl_modified :: "string list"
  rl_deleted :: "string list"
  rl_mode_changes :: "string list"

definition file_safe :: "string \<Rightarrow> bool" where
  "file_safe path \<longleftrightarrow> relative_path_error (PyStr path) = None"

definition categorize :: "git_change \<Rightarrow> result_lists \<Rightarrow> result_lists" where
  "categorize change l =
     (let new = gc_new_path change;
          l = (if gc_status change = CHR ''A'' then l\<lparr>rl_added := rl_added l @ [new]\<rparr>
               else if gc_status change = CHR ''D''
               then l\<lparr>rl_deleted := rl_deleted l
                        @ [case gc_old_path change of None \<Rightarrow> new | Some p \<Rightarrow> p]\<rparr>
               else if gc_status change = CHR ''T''
               then l\<lparr>rl_mode_changes := rl_mode_changes l @ [new],
                      rl_modified := rl_modified l @ [new]\<rparr>
               else l\<lparr>rl_modified := rl_modified l @ [new]\<rparr>)
      in if gc_old_mode change \<noteq> gc_new_mode change \<and> gc_old_mode change \<noteq> ''000000''
            \<and> gc_new_mode change \<noteq> ''000000''
         then l\<lparr>rl_mode_changes := rl_mode_changes l @ [new]\<rparr> else l)"

definition validate_change ::
  "string list \<Rightarrow> git_change \<Rightarrow> result_lists \<Rightarrow> (git_error, result_lists) res" where
  "validate_change protected change l =
     and_then (check_change_mode (gc_old_mode change)) (\<lambda>_.
     and_then (check_change_mode (gc_new_mode change)) (\<lambda>_.
       Inr (categorize change
         (l\<lparr>rl_unsafe := rl_unsafe l @ filter (\<lambda>p. \<not> file_safe p) (changed_paths change),
            rl_protected := rl_protected l
              @ filter (\<lambda>p. is_protected p protected) (changed_paths change)\<rparr>))))"

definition validate_index_entry ::
  "string list \<Rightarrow> git_change list \<Rightarrow> index_entry \<Rightarrow> (string \<rightharpoonup> string)
   \<Rightarrow> (git_error, string \<rightharpoonup> string) res" where
  "validate_index_entry protected changes = (\<lambda>(mode, _, path) seen.
     if mode = SYMLINK_MODE \<or> mode = GITLINK_MODE \<or> mode \<notin> set ALLOWED_MODES
     then Inl (git_run_error ''unsafe_result_mode'' (''index entry has unsupported mode '' @ mode))
     else if \<not> file_safe path
     then Inl (git_run_error ''unsafe_result_path'' ''index contains an unsafe path'')
     else if is_protected path protected
             \<and> list_ex (\<lambda>c. path = gc_new_path c \<or> Some path = gc_old_path c) changes
     then Inl (git_run_error ''protected_path_changed'' ''index change touches a protected path'')
     else let key = norm_component path in
          if seen key \<noteq> None \<and> seen key \<noteq> Some path
          then Inl (git_run_error ''path_collision'' ''index paths collide under normalization'')
          else Inr (seen(key \<mapsto> path)))"

definition no_results :: result_lists where
  "no_results = \<lparr>rl_unsafe = [], rl_protected = [], rl_added = [], rl_modified = [],
                 rl_deleted = [], rl_mode_changes = []\<rparr>"

definition validate_result ::
  "git_change list \<Rightarrow> index_entry list \<Rightarrow> string list
   \<Rightarrow> (git_error, result_lists \<times> string list) res" where
  "validate_result changes index protected =
     and_then (fold_res (validate_change protected) changes no_results) (\<lambda>l.
       if rl_unsafe l \<noteq> []
       then Inl (git_run_error ''unsafe_result_path''
                  (join_with ''; '' (sorted_set (rl_unsafe l))))
       else if rl_protected l \<noteq> []
       then Inl (git_run_error ''protected_path_changed''
                  (join_with ''; '' (sorted_set (rl_protected l))))
       else and_then (fold_res (validate_index_entry protected changes) index Map.empty) (\<lambda>_.
              Inr (l, sorted_set (map gc_new_path changes))))"

section \<open>Round trips of the parsers\<close>

fun utf8_encode :: "string \<Rightarrow> string" where
  "utf8_encode [] = []"
| "utf8_encode (c # s) =
     (let n = (of_char c :: nat) in
      if n < 128 then c # utf8_encode s
      else char_of (192 + n div 64) # char_of (128 + n mod 64) # utf8_encode s)"

lemma of_char_less: "(of_char (c :: char) :: nat) < 256"
  by (metis char_of_char nat_of_char_less_256)

lemma utf8_decode_two:
  assumes "(of_char c :: nat) = n" "n = 194 \<or> n = 195" "(of_char d :: nat) = m" "128 \<le> m" "m < 192"
  shows "utf8_decode (c # d # s) =
    map_option (Cons (char_of ((n - 192) * 64 + (m - 128)))) (utf8_decode s)"
  using assms(2,4,5) unfolding utf8_decode.simps(2) [of c] assms(1) list.case assms(3) Let_def
  by auto

lemma utf8_decode_encode [simp]: "utf8_decode (utf8_encode s) = Some s"
proof (induction s)
  case (Cons c s)
  define n where "n = (of_char c :: nat)"
  have n: "n < 256" by (simp add: n_def of_char_less)
  show ?case
  proof (cases "n < 128")
    case True
    then show ?thesis using Cons by (simp add: n_def)
  next
    case False
    have "n div 64 < 4" using n by (intro less_mult_imp_div_less) simp
    moreover have "128 div 64 \<le> n div 64" using False by (intro div_le_mono) simp
    ultimately have d: "n div 64 = 2 \<or> n div 64 = 3" by auto
    have m: "n mod 64 < 64" by simp
    have hi: "(of_char (char_of (192 + n div 64) :: char) :: nat) = 192 + n div 64"
    proof -
      have "192 + n div 64 < 256" using d by auto
      then show ?thesis by (simp only: of_char_of mod_less)
    qed
    have lo: "(of_char (char_of (128 + n mod 64) :: char) :: nat) = 128 + n mod 64"
    proof -
      have "128 + n mod 64 < 256" using m by linarith
      then show ?thesis by (simp only: of_char_of mod_less)
    qed
    have enc: "utf8_encode (c # s) = char_of (192 + n div 64) # char_of (128 + n mod 64) # utf8_encode s"
      using False by (simp add: n_def Let_def)
    have eq: "(192 + n div 64 - 192) * 64 + (128 + n mod 64 - 128) = n" by simp
    have c: "char_of n = c" by (simp add: n_def)
    have "utf8_decode (utf8_encode (c # s)) =
        map_option (Cons (char_of ((192 + n div 64 - 192) * 64 + (128 + n mod 64 - 128))))
          (utf8_decode (utf8_encode s))"
      unfolding enc by (rule utf8_decode_two [OF hi _ lo]) (use d m in auto)
    then have "utf8_decode (utf8_encode (c # s)) = map_option (Cons (char_of n)) (utf8_decode (utf8_encode s))"
      by (simp only: eq)
    then show ?thesis unfolding c Cons by simp
  qed
qed simp

lemma utf8_encode_NUL: "NUL \<in> set (utf8_encode s) \<longleftrightarrow> NUL \<in> set s"
proof (induction s)
  case (Cons c s)
  define n where "n = (of_char c :: nat)"
  have hi: "128 \<le> k \<Longrightarrow> k < 256 \<Longrightarrow> char_of k \<noteq> NUL" for k :: nat
  proof
    assume "128 \<le> k" "k < 256" "char_of k = NUL"
    then have "(of_char (char_of k :: char) :: nat) = of_char NUL" by simp
    then show False using \<open>128 \<le> k\<close> \<open>k < 256\<close> by (simp add: of_char_of NUL_def)
  qed
  show ?case
  proof (cases "n < 128")
    case True
    then show ?thesis using Cons by (simp add: n_def)
  next
    case False
    have "n < 256" by (simp add: n_def of_char_less)
    then have "n div 64 < 4" by (intro less_mult_imp_div_less) simp
    then have "char_of (192 + n div 64) \<noteq> NUL" by (intro hi) simp_all
    moreover have "n mod 64 < 64" by simp
    then have "char_of (128 + n mod 64) \<noteq> NUL" by (intro hi) linarith+
    moreover have "c \<noteq> NUL" using False by (auto simp: n_def NUL_def)
    ultimately show ?thesis using Cons False by (simp add: n_def Let_def)
  qed
qed simp

lemma decode_path_encode: "path \<noteq> [] \<Longrightarrow> decode_path (utf8_encode path) = Inr path"
  by (simp add: decode_path_def)

definition terminate_z :: "string list \<Rightarrow> string" where
  "terminate_z parts = concat (map (\<lambda>p. p @ [NUL]) parts)"

lemma split_z_terminate:
  assumes "list_all (\<lambda>p. NUL \<notin> set p) parts"
  shows "split_z (terminate_z parts) = Inr parts"
proof -
  have "split_on NUL (terminate_z parts) = parts @ [[]]"
    using assms by (induction parts) (auto simp: terminate_z_def split_on_append)
  moreover have "terminate_z parts \<noteq> [] \<Longrightarrow> last (terminate_z parts) = NUL"
    by (induction parts rule: rev_induct) (auto simp: terminate_z_def)
  ultimately show ?thesis by (auto simp: split_z_def)
qed

text \<open>How Git prints a raw-diff record.\<close>

definition change_parts :: "git_change \<Rightarrow> string list" where
  "change_parts c =
     (CHR '':'' # join_with '' '' [gc_old_mode c, gc_new_mode c, gc_old_sha c, gc_new_sha c, [gc_status c]])
     # map utf8_encode (case gc_old_path c of None \<Rightarrow> [gc_new_path c] | Some p \<Rightarrow> [p, gc_new_path c])"

definition wf_change :: "git_change \<Rightarrow> bool" where
  "wf_change c \<longleftrightarrow>
     octal_mode (gc_old_mode c) \<and> octal_mode (gc_new_mode c)
     \<and> gc_old_sha c \<noteq> [] \<and> is_hex (gc_old_sha c) \<and> gc_new_sha c \<noteq> [] \<and> is_hex (gc_new_sha c)
     \<and> gc_status c \<in> set RAW_STATUS
     \<and> (gc_old_path c \<noteq> None \<longleftrightarrow> gc_status c \<in> set ''RC'')
     \<and> list_all (\<lambda>p. p \<noteq> [] \<and> NUL \<notin> set p) (changed_paths c)"

lemma digit_chars:
  "octal_mode s \<Longrightarrow> list_all (\<lambda>c. c \<in> set ''01234567'') s"
  "is_hex s \<Longrightarrow> list_all (\<lambda>c. c \<in> set ''0123456789abcdef'') s"
  by (simp_all add: octal_mode_def is_hex_def)

lemma hex_char_plain:
  "list_all (\<lambda>c. c \<noteq> CHR '' '' \<and> c \<noteq> NUL \<and> (of_char c :: nat) < 128 \<and> \<not> is_space c
     \<and> c \<noteq> CHR 0x09) ''0123456789abcdef''"
  by (simp add: NUL_def is_space_def)

lemma digits_plain:
  assumes "list_all (\<lambda>c. c \<in> set ''0123456789abcdef'') s"
  shows "CHR '' '' \<notin> set s" "NUL \<notin> set s" "is_ascii s" "list_all (\<lambda>c. \<not> is_space c) s"
    "CHR 0x09 \<notin> set s"
proof -
  have "c \<noteq> CHR '' '' \<and> c \<noteq> NUL \<and> (of_char c :: nat) < 128 \<and> \<not> is_space c \<and> c \<noteq> CHR 0x09"
    if "c \<in> set s" for c
    using that assms hex_char_plain unfolding list_all_iff by blast
  then show "CHR '' '' \<notin> set s" "NUL \<notin> set s" "is_ascii s" "list_all (\<lambda>c. \<not> is_space c) s"
    "CHR 0x09 \<notin> set s"
    unfolding is_ascii_def list_all_iff by blast+
qed

lemma octal_hex:
  assumes "octal_mode s" shows "list_all (\<lambda>c. c \<in> set ''0123456789abcdef'') s"
proof -
  have "set ''01234567'' \<subseteq> set ''0123456789abcdef''" by simp
  then show ?thesis using assms unfolding octal_mode_def list_all_iff by blast
qed

lemma parse_raw_meta_print:
  assumes "wf_change c"
  shows "parse_raw_meta (hd (change_parts c)) =
    Inr (gc_old_mode c, gc_new_mode c, gc_old_sha c, gc_new_sha c, gc_status c)"
    and "NUL \<notin> set (hd (change_parts c))"
proof -
  have plain: "list_all (\<lambda>c. c \<in> set ''0123456789abcdef'') (gc_old_mode c)"
    "list_all (\<lambda>c. c \<in> set ''0123456789abcdef'') (gc_new_mode c)"
    "list_all (\<lambda>c. c \<in> set ''0123456789abcdef'') (gc_old_sha c)"
    "list_all (\<lambda>c. c \<in> set ''0123456789abcdef'') (gc_new_sha c)"
    using assms octal_hex digit_chars(2) by (simp_all add: wf_change_def)
  note d = digits_plain [OF plain(1)] digits_plain [OF plain(2)] digits_plain [OF plain(3)]
    digits_plain [OF plain(4)]
  have st: "gc_status c \<noteq> CHR '' ''" "gc_status c \<noteq> NUL" "is_ascii [gc_status c]"
    using assms by (auto simp: wf_change_def RAW_STATUS_def NUL_def is_ascii_def)
  let ?fields = "[gc_old_mode c, gc_new_mode c, gc_old_sha c, gc_new_sha c, [gc_status c]]"
  have "split_on CHR '' '' (join_with '' '' ?fields) = ?fields"
    using d st by (intro split_on_join) auto
  moreover have "is_ascii (join_with '' '' ?fields)"
    using d st by (simp add: is_ascii_def)
  ultimately show "parse_raw_meta (hd (change_parts c)) =
    Inr (gc_old_mode c, gc_new_mode c, gc_old_sha c, gc_new_sha c, gc_status c)"
    using assms by (simp add: parse_raw_meta_def change_parts_def wf_change_def)
  show "NUL \<notin> set (hd (change_parts c))"
    using d st by (simp add: change_parts_def NUL_def)
qed

lemma parse_raw_record_print:
  assumes "wf_change c"
  shows "parse_raw_record (hd (change_parts c)) (tl (change_parts c) @ rest) = Inr (c, rest)"
proof (cases "gc_old_path c")
  case None
  then have "gc_status c \<noteq> CHR ''R''" "gc_status c \<noteq> CHR ''C''" "gc_new_path c \<noteq> []"
    using assms by (auto simp: wf_change_def changed_paths_def)
  moreover have "tl (change_parts c) = [utf8_encode (gc_new_path c)]"
    using None by (simp add: change_parts_def)
  ultimately show ?thesis
    using parse_raw_meta_print(1) [OF assms] None
    by (simp add: parse_raw_record_def Let_def decode_path_encode)
next
  case (Some p)
  then have "gc_status c = CHR ''R'' \<or> gc_status c = CHR ''C''" "gc_new_path c \<noteq> []" "p \<noteq> []"
    using assms by (auto simp: wf_change_def changed_paths_def)
  moreover have "tl (change_parts c) = [utf8_encode p, utf8_encode (gc_new_path c)]"
    using Some by (simp add: change_parts_def)
  ultimately show ?thesis
    using parse_raw_meta_print(1) [OF assms] Some
    by (auto simp: parse_raw_record_def Let_def decode_path_encode)
qed

lemma parse_raw_parts_print:
  assumes "list_all wf_change cs" "distinct (map gc_new_path cs)"
    "set (map gc_new_path cs) \<inter> set seen = {}"
  shows "parse_raw_parts (concat (map change_parts cs)) seen = Inr cs"
  using assms
proof (induction cs arbitrary: seen)
  case (Cons c cs)
  have split: "change_parts c = hd (change_parts c) # tl (change_parts c)"
    by (simp add: change_parts_def)
  have "parse_raw_parts (concat (map change_parts cs)) (gc_new_path c # seen) = Inr cs"
    using Cons.prems by (intro Cons.IH) auto
  moreover have "concat (map change_parts (c # cs))
      = hd (change_parts c) # (tl (change_parts c) @ concat (map change_parts cs))"
    using split by simp
  moreover have "gc_new_path c \<notin> set seen" "wf_change c" using Cons.prems by auto
  ultimately show ?case
    using parse_raw_record_print [of c "concat (map change_parts cs)"]
    by (simp only: parse_raw_parts.simps) simp
qed simp

text \<open>
  The strict parser inverts Git's raw-diff printer: on the output for any list of well-formed
  changes with distinct target paths it returns exactly those changes, renames included.
\<close>

theorem raw_diff_roundtrip:
  assumes "list_all wf_change cs" "distinct (map gc_new_path cs)"
  shows "parse_raw_z (terminate_z (concat (map change_parts cs))) = Inr cs"
proof -
  have "NUL \<notin> set p" if c: "c \<in> set cs" and p: "p \<in> set (change_parts c)" for c p
  proof -
    have wf: "wf_change c" using assms(1) c by (simp add: list_all_iff)
    consider "p = hd (change_parts c)" | q where "q \<in> set (changed_paths c)" "p = utf8_encode q"
      using p by (auto simp: change_parts_def changed_paths_def split: option.splits)
    then show ?thesis
    proof cases
      case 1
      then show ?thesis using parse_raw_meta_print(2) [OF wf] by simp
    next
      case 2
      then show ?thesis using wf by (auto simp: wf_change_def list_all_iff utf8_encode_NUL)
    qed
  qed
  then have "list_all (\<lambda>p. NUL \<notin> set p) (concat (map change_parts cs))"
    by (auto simp: list_all_iff)
  then show ?thesis
    using parse_raw_parts_print [OF assms] by (simp add: parse_raw_z_def split_z_terminate)
qed

theorem raw_diff_roundtrip_witness:
  "parse_raw_z (terminate_z (concat (map change_parts
     [\<lparr>gc_status = CHR ''M'', gc_old_mode = ''100644'', gc_new_mode = ''100755'', gc_old_sha = ''1a'',
       gc_new_sha = ''2b'', gc_old_path = None, gc_new_path = ''x.py''\<rparr>,
      \<lparr>gc_status = CHR ''R'', gc_old_mode = ''100644'', gc_new_mode = ''100644'', gc_old_sha = ''1a'',
       gc_new_sha = ''1a'', gc_old_path = Some ''y'', gc_new_path = ''z''\<rparr>])))
   = Inr [\<lparr>gc_status = CHR ''M'', gc_old_mode = ''100644'', gc_new_mode = ''100755'', gc_old_sha = ''1a'',
       gc_new_sha = ''2b'', gc_old_path = None, gc_new_path = ''x.py''\<rparr>,
      \<lparr>gc_status = CHR ''R'', gc_old_mode = ''100644'', gc_new_mode = ''100644'', gc_old_sha = ''1a'',
       gc_new_sha = ''1a'', gc_old_path = Some ''y'', gc_new_path = ''z''\<rparr>]"
  by (rule raw_diff_roundtrip)
    (simp_all add: wf_change_def octal_mode_def is_hex_def RAW_STATUS_def changed_paths_def NUL_def)

text \<open>How Git prints an index entry.\<close>

definition entry_record :: "index_entry \<Rightarrow> string" where
  "entry_record = (\<lambda>(mode, sha, path).
     join_with '' '' [mode, sha, ''0''] @ CHR 0x09 # utf8_encode path)"

definition wf_entry :: "nat \<Rightarrow> index_entry \<Rightarrow> bool" where
  "wf_entry len = (\<lambda>(mode, sha, path).
     octal_mode mode \<and> mode \<in> set KNOWN_MODES \<and> sha \<noteq> [] \<and> is_hex_sha sha len
     \<and> path \<noteq> [] \<and> NUL \<notin> set path)"

lemma split_ws_aux_token:
  "list_all (\<lambda>c. \<not> is_space c) t \<Longrightarrow> split_ws_aux acc (t @ s) = split_ws_aux (rev t @ acc) s"
  by (induction t arbitrary: acc) simp_all

lemma split_ws_aux_space:
  "is_space c \<Longrightarrow> acc \<noteq> [] \<Longrightarrow> split_ws_aux acc (c # s) = rev acc # split_ws_aux [] s"
  by simp

lemma split_ws_three:
  assumes "list_all (\<lambda>c. \<not> is_space c) a" "list_all (\<lambda>c. \<not> is_space c) b"
    "list_all (\<lambda>c. \<not> is_space c) d" "a \<noteq> []" "b \<noteq> []" "d \<noteq> []"
  shows "split_ws (join_with '' '' [a, b, d]) = [a, b, d]"
proof -
  have sp: "is_space CHR '' ''" by (simp add: is_space_def)
  have "split_ws_aux [] d = [d]"
    using split_ws_aux_token [OF assms(3), of "[]" "[]"] assms(6) by simp
  moreover have "split_ws_aux [] (b @ CHR '' '' # d) = b # split_ws_aux [] d"
    using split_ws_aux_token [OF assms(2), of "[]"] split_ws_aux_space [OF sp, of "rev b"] assms(5)
    by simp
  moreover have "split_ws_aux [] (a @ CHR '' '' # b @ CHR '' '' # d)
      = a # split_ws_aux [] (b @ CHR '' '' # d)"
    using split_ws_aux_token [OF assms(1), of "[]"] split_ws_aux_space [OF sp, of "rev a"] assms(4)
    by simp
  ultimately show ?thesis by (simp add: split_ws_def)
qed

lemma parse_ls_record_print:
  assumes "wf_entry len e"
  shows "parse_ls_record len (entry_record e) = Inr e" and "NUL \<notin> set (entry_record e)"
proof -
  obtain mode sha path where e: "e = (mode, sha, path)" by (cases e)
  have wf: "octal_mode mode" "mode \<in> set KNOWN_MODES" "sha \<noteq> []" "is_hex_sha sha len" "path \<noteq> []"
    "NUL \<notin> set path"
    using assms by (simp_all add: wf_entry_def e)
  note m = digits_plain [OF octal_hex [OF wf(1)]]
  have hex: "is_hex sha" using wf(4) by (simp add: is_hex_sha_def)
  note h = digits_plain [OF digit_chars(2) [OF hex]]
  let ?meta = "join_with '' '' [mode, sha, ''0'']"
  have ne: "mode \<noteq> []" using wf(1) by (auto simp: octal_mode_def)
  have tab: "CHR 0x09 \<notin> set ?meta" using m h by simp
  have rec: "entry_record e = ?meta @ CHR 0x09 # utf8_encode path" by (simp add: entry_record_def e)
  have tw: "takeWhile (\<lambda>c. c \<noteq> CHR 0x09) (entry_record e) = ?meta"
    unfolding rec using tab by (subst takeWhile_append2) auto
  have dr: "drop (length ?meta + 1) (entry_record e) = utf8_encode path"
    unfolding rec drop_append by (simp del: join_with.simps)
  have sp: "split_ws ?meta = [mode, sha, ''0'']"
    using m h wf(3) ne by (intro split_ws_three) (simp_all add: is_space_def)
  have asc: "is_ascii ?meta" using m h by (simp add: is_ascii_def)
  have "CHR 0x09 \<in> set (entry_record e)" unfolding rec by simp
  then show "parse_ls_record len (entry_record e) = Inr e"
    unfolding parse_ls_record_def Let_def tw dr using sp asc wf decode_path_encode [OF wf(5)]
    by (simp add: e)
  show "NUL \<notin> set (entry_record e)"
    unfolding rec using m h wf(6) by (simp add: utf8_encode_NUL) (simp add: NUL_def)
qed

lemma parse_ls_records_print:
  assumes "list_all (wf_entry len) es" "distinct (map (\<lambda>(_, _, p). p) es)"
    "(\<lambda>(_, _, p). p) ` set es \<inter> set seen = {}"
  shows "parse_ls_records len (map entry_record es) seen = Inr es"
  using assms
proof (induction es arbitrary: seen)
  case (Cons e es)
  obtain mode sha path where e: "e = (mode, sha, path)" by (cases e)
  have "parse_ls_records len (map entry_record es) (path # seen) = Inr es"
    using Cons.prems e by (intro Cons.IH) auto
  then show ?case using parse_ls_record_print(1) [of len e] Cons.prems e by simp
qed simp

text \<open>
  The strict index parser inverts Git's printer of the index, for either object format: modes,
  full-length object ids and paths come back exactly.
\<close>

theorem index_listing_roundtrip:
  assumes "list_all (wf_entry (sha_len object_format)) es" "distinct (map (\<lambda>(_, _, p). p) es)"
  shows "parse_ls_files_z (terminate_z (map entry_record es)) object_format = Inr es"
proof -
  have "list_all (\<lambda>p. NUL \<notin> set p) (map entry_record es)"
    using assms(1) parse_ls_record_print(2) by (auto simp: list_all_iff)
  then show ?thesis
    using parse_ls_records_print [OF assms, of "[]"] by (simp add: parse_ls_files_z_def split_z_terminate)
qed

theorem index_listing_roundtrip_witness:
  "parse_ls_files_z (terminate_z (map entry_record
     [(''100644'', replicate 40 CHR ''a'', ''app/x.py''), (''100755'', replicate 40 CHR ''0'', ''run.sh'')]))
     ''sha1''
   = Inr [(''100644'', replicate 40 CHR ''a'', ''app/x.py''),
          (''100755'', replicate 40 CHR ''0'', ''run.sh'')]"
  by (rule index_listing_roundtrip) code_simp+

section \<open>Protected paths\<close>

lemma of_char_char_of: "n < 256 \<Longrightarrow> (of_char (char_of n :: char) :: nat) = n"
  by (simp only: of_char_of mod_less)

lemma fold_char_upper:
  fixes n :: nat
  assumes "(65 \<le> n \<and> n \<le> 90) \<or> (192 \<le> n \<and> n \<le> 222)" "(of_char d :: nat) < 65 \<or> (of_char d :: nat) = 92"
  shows "char_of (n + 32) \<noteq> d"
proof
  assume "char_of (n + 32) = d"
  then have "(of_char (char_of (n + 32) :: char) :: nat) = of_char d" by simp
  moreover have "n + 32 < 256" using assms(1) by auto
  ultimately show False using assms of_char_char_of [of "n + 32"] by auto
qed

lemma fold_char_sep:
  assumes "d = CHR ''/'' \<or> d = CHR 0x5C"
  shows "d \<in> set (fold_char c) \<longleftrightarrow> c = d" and "fold_char d = [d]"
proof -
  have d: "(of_char d :: nat) < 65 \<or> (of_char d :: nat) = 92" "d \<noteq> CHR ''s''" using assms by auto
  show "fold_char d = [d]" using assms by (auto simp: fold_char_def)
  show "d \<in> set (fold_char c) \<longleftrightarrow> c = d"
  proof (cases "(65 \<le> (of_char c :: nat) \<and> of_char c \<le> (90 :: nat))
      \<or> (192 \<le> (of_char c :: nat) \<and> of_char c \<le> (222 :: nat) \<and> (of_char c :: nat) \<noteq> 215)")
    case True
    then have "fold_char c = [char_of ((of_char c :: nat) + 32)]" by (simp add: fold_char_def)
    moreover have "char_of ((of_char c :: nat) + 32) \<noteq> d" using True d(1) by (intro fold_char_upper) auto
    moreover have "c \<noteq> d" using True assms by auto
    ultimately show ?thesis by auto
  next
    case False
    then have "fold_char c = (if (of_char c :: nat) = 223 then ''ss'' else [c])"
      unfolding fold_char_def Let_def by auto
    moreover have "(of_char c :: nat) = 223 \<Longrightarrow> c \<noteq> d" using d(1) by auto
    ultimately show ?thesis using d(2) by auto
  qed
qed

lemma fold_char_nonempty: "fold_char c \<noteq> []"
  by (simp add: fold_char_def Let_def)

lemma casefold_eq_Nil [simp]: "casefold s = [] \<longleftrightarrow> s = []"
  by (cases s) (simp_all add: fold_char_nonempty)

abbreviation slashes :: "string \<Rightarrow> string" where
  "slashes s \<equiv> map (\<lambda>c. if c = CHR 0x5C then CHR ''/'' else c) s"

lemma slashes_casefold: "slashes (casefold s) = casefold (slashes s)"
proof (induction s)
  case (Cons c s)
  have "slashes (fold_char c) = fold_char (if c = CHR 0x5C then CHR ''/'' else c)"
  proof (cases "c = CHR 0x5C")
    case True
    then show ?thesis using fold_char_sep(2) by simp
  next
    case False
    then have "CHR 0x5C \<notin> set (fold_char c)" using fold_char_sep(1) [of "CHR 0x5C" c] by simp
    then have "slashes (fold_char c) = fold_char c" by (induction "fold_char c") (auto intro: map_idI)
    then show ?thesis using False by simp
  qed
  then show ?case using Cons by simp
qed simp

lemma split_on_prefix:
  "c \<notin> set x \<Longrightarrow> split_on c (x @ s) = (x @ hd (split_on c s)) # tl (split_on c s)"
proof (induction x)
  case Nil
  then show ?case by (simp add: hd_Cons_tl)
next
  case (Cons a x)
  then have "a \<noteq> c" "split_on c (x @ s) = (x @ hd (split_on c s)) # tl (split_on c s)" by auto
  then show ?case by simp
qed

lemma split_on_casefold: "split_on CHR ''/'' (casefold s) = map casefold (split_on CHR ''/'' s)"
proof (induction s)
  case (Cons c s)
  show ?case
  proof (cases "c = CHR ''/''")
    case True
    then show ?thesis using Cons fold_char_sep(2) by simp
  next
    case False
    then have "CHR ''/'' \<notin> set (fold_char c)" using fold_char_sep(1) [of "CHR ''/''" c] by simp
    then show ?thesis
      using False Cons split_on_prefix [of "CHR ''/''" "fold_char c" "casefold s"]
      by (cases "split_on CHR ''/'' s") auto
  qed
qed simp

lemma path_components_casefold: "path_components (casefold p) = map norm_component (path_components p)"
  unfolding path_components_def slashes_casefold split_on_casefold
  by (simp add: filter_map comp_def norm_component_def)

text \<open>
  Protection depends only on the case-folded path and rules, component by component: a path is
  protected exactly when some component is a protected basename or a nonempty rule is a prefix of
  its components, all compared folded. So no spelling of a protected path in another case escapes.
\<close>

theorem is_protected_spec:
  "(is_protected p rules \<longleftrightarrow>
      (\<exists>part b. part \<in> set (path_components (casefold p)) \<and> b \<in> set PROTECTED_BASENAMES
         \<and> part = casefold b)
      \<or> (\<exists>rule rest. rule \<in> set rules \<and> path_components rule \<noteq> []
         \<and> path_components (casefold p) = path_components (casefold rule) @ rest))
   \<and> (casefold p = casefold q \<longrightarrow> is_protected p rules = is_protected q rules)"
proof -
  have prefix: "take (length r) ps = r \<longleftrightarrow> (\<exists>rest. ps = r @ rest)" for r ps :: "string list"
    by (metis append_eq_conv_conj)
  have "is_protected p rules \<longleftrightarrow>
      (\<exists>part b. part \<in> set (path_components (casefold p)) \<and> b \<in> set PROTECTED_BASENAMES
         \<and> part = casefold b)
      \<or> (\<exists>rule rest. rule \<in> set rules \<and> path_components rule \<noteq> []
         \<and> path_components (casefold p) = path_components (casefold rule) @ rest)" for p
    unfolding is_protected_def Let_def path_components_casefold prefix
    by (auto simp: list_ex_iff norm_component_def)
  then show ?thesis by simp
qed

theorem is_protected_spec_witness:
  "is_protected ''app/ConfTest.PY'' [] \<and> is_protected ''Tests/x.py'' [''tests'']
   \<and> \<not> is_protected ''tests_extra/x.py'' [''tests'']
   \<and> is_protected ''TESTS/X.py'' [''tests''] = is_protected ''tests/x.PY'' [''tests'']"
proof -
  have "casefold ''TESTS/X.py'' = casefold ''tests/x.PY''" by code_simp
  then have "is_protected ''TESTS/X.py'' [''tests''] = is_protected ''tests/x.PY'' [''tests'']"
    using is_protected_spec by blast
  moreover have "is_protected ''app/ConfTest.PY'' []" "is_protected ''Tests/x.py'' [''tests'']"
    "\<not> is_protected ''tests_extra/x.py'' [''tests'']"
    by code_simp+
  ultimately show ?thesis by simp
qed

section \<open>The result policy\<close>

definition mode_ok :: "string \<Rightarrow> bool" where
  "mode_ok mode \<longleftrightarrow> mode = ''000000'' \<or> mode \<in> set ALLOWED_MODES"

lemma check_change_mode_Inr: "check_change_mode mode = Inr () \<longleftrightarrow> mode_ok mode"
  by (auto simp: check_change_mode_def mode_ok_def ALLOWED_MODES_def SYMLINK_MODE_def GITLINK_MODE_def)

lemma validate_change_Inr:
  "validate_change protected c l = Inr l' \<longleftrightarrow>
     mode_ok (gc_old_mode c) \<and> mode_ok (gc_new_mode c)
     \<and> l' = categorize c
         (l\<lparr>rl_unsafe := rl_unsafe l @ filter (\<lambda>p. \<not> file_safe p) (changed_paths c),
            rl_protected := rl_protected l @ filter (\<lambda>p. is_protected p protected) (changed_paths c)\<rparr>)"
  by (auto simp: validate_change_def res_simps check_change_mode_Inr)

lemma categorize_fields [simp]:
  "rl_unsafe (categorize c l) = rl_unsafe l" "rl_protected (categorize c l) = rl_protected l"
  "rl_added (categorize c l) = rl_added l @ (if gc_status c = CHR ''A'' then [gc_new_path c] else [])"
  "rl_deleted (categorize c l) = rl_deleted l
     @ (if gc_status c = CHR ''D''
        then [case gc_old_path c of None \<Rightarrow> gc_new_path c | Some p \<Rightarrow> p] else [])"
  "rl_modified (categorize c l) = rl_modified l
     @ (if gc_status c \<noteq> CHR ''A'' \<and> gc_status c \<noteq> CHR ''D'' then [gc_new_path c] else [])"
  by (simp_all add: categorize_def Let_def)

lemma validate_changes_spec:
  assumes "fold_res (validate_change protected) cs l = Inr l'"
  shows "list_all (\<lambda>c. mode_ok (gc_old_mode c) \<and> mode_ok (gc_new_mode c)) cs"
    and "rl_unsafe l' = rl_unsafe l @ filter (\<lambda>p. \<not> file_safe p) (concat (map changed_paths cs))"
    and "rl_protected l' = rl_protected l
      @ filter (\<lambda>p. is_protected p protected) (concat (map changed_paths cs))"
    and "rl_added l' = rl_added l @ map gc_new_path (filter (\<lambda>c. gc_status c = CHR ''A'') cs)"
    and "rl_modified l' = rl_modified l
      @ map gc_new_path (filter (\<lambda>c. gc_status c \<noteq> CHR ''A'' \<and> gc_status c \<noteq> CHR ''D'') cs)"
    and "rl_deleted l' = rl_deleted l
      @ map (\<lambda>c. case gc_old_path c of None \<Rightarrow> gc_new_path c | Some p \<Rightarrow> p)
          (filter (\<lambda>c. gc_status c = CHR ''D'') cs)"
  using assms
proof (induction cs arbitrary: l)
  case (Cons c cs)
  {
    case 1 then show ?case using Cons.IH(1) by (auto simp: res_simps validate_change_Inr)
  next
    case 2 then show ?case using Cons.IH(2) by (auto simp: res_simps validate_change_Inr)
  next
    case 3 then show ?case using Cons.IH(3) by (auto simp: res_simps validate_change_Inr)
  next
    case 4 then show ?case using Cons.IH(4) by (auto simp: res_simps validate_change_Inr)
  next
    case 5 then show ?case using Cons.IH(5) by (auto simp: res_simps validate_change_Inr)
  next
    case 6 then show ?case using Cons.IH(6) by (auto simp: res_simps validate_change_Inr)
  }
qed auto

lemma validate_changes_total:
  "list_all (\<lambda>c. mode_ok (gc_old_mode c) \<and> mode_ok (gc_new_mode c)) cs \<Longrightarrow>
   \<exists>l'. fold_res (validate_change protected) cs l = Inr l'"
proof (induction cs arbitrary: l)
  case (Cons c cs)
  then have "\<exists>l1. validate_change protected c l = Inr l1" by (auto simp: validate_change_Inr)
  then obtain l1 where "validate_change protected c l = Inr l1" ..
  then show ?case using Cons by simp
qed simp

definition entry_ok :: "string list \<Rightarrow> git_change list \<Rightarrow> index_entry \<Rightarrow> bool" where
  "entry_ok protected changes = (\<lambda>(mode, _, path).
     mode \<in> set ALLOWED_MODES \<and> file_safe path
     \<and> \<not> (is_protected path protected \<and> path \<in> set (concat (map changed_paths changes))))"

abbreviation entry_path :: "index_entry \<Rightarrow> string" where
  "entry_path e \<equiv> snd (snd e)"

lemma changed_path_listed:
  "list_ex (\<lambda>c. path = gc_new_path c \<or> Some path = gc_old_path c) changes
     \<longleftrightarrow> path \<in> set (concat (map changed_paths changes))"
  by (auto simp: list_ex_iff changed_paths_def split: option.splits)

lemma validate_index_entry_Inr:
  "validate_index_entry protected changes e seen = Inr seen' \<longleftrightarrow>
     entry_ok protected changes e
     \<and> (seen (norm_component (entry_path e)) = None \<or> seen (norm_component (entry_path e)) = Some (entry_path e))
     \<and> seen' = seen(norm_component (entry_path e) \<mapsto> entry_path e)"
proof -
  obtain mode sha path where e: "e = (mode, sha, path)" by (cases e)
  have "mode \<in> set ALLOWED_MODES \<Longrightarrow> mode \<noteq> SYMLINK_MODE \<and> mode \<noteq> GITLINK_MODE"
    by (auto simp: ALLOWED_MODES_def SYMLINK_MODE_def GITLINK_MODE_def)
  then show ?thesis
    unfolding validate_index_entry_def e prod.case Let_def changed_path_listed entry_ok_def
    by auto
qed

lemma validate_index_seen:
  assumes "fold_res (validate_index_entry protected changes) es seen = Inr seen'"
  shows "(\<forall>k v. seen k = Some v \<longrightarrow> seen' k = Some v)
    \<and> list_all (entry_ok protected changes) es
    \<and> (\<forall>e \<in> set es. seen' (norm_component (entry_path e)) = Some (entry_path e))"
  using assms
proof (induction es arbitrary: seen)
  case (Cons e es)
  then obtain seen1 where e: "validate_index_entry protected changes e seen = Inr seen1"
    and rest: "fold_res (validate_index_entry protected changes) es seen1 = Inr seen'"
    by (auto simp: res_simps)
  note s = e [unfolded validate_index_entry_Inr]
  note IH = Cons.IH [OF rest]
  have "seen' k = Some v" if "seen k = Some v" for k v
    using s IH that by (cases "k = norm_component (entry_path e)") auto
  then show ?case using s IH by simp
qed simp

lemma validate_index_total:
  assumes "list_all (entry_ok protected changes) es" "inj_on norm_component (entry_path ` set es)"
    and "\<forall>e \<in> set es. seen (norm_component (entry_path e)) = None
           \<or> seen (norm_component (entry_path e)) = Some (entry_path e)"
  shows "\<exists>seen'. fold_res (validate_index_entry protected changes) es seen = Inr seen'"
  using assms
proof (induction es arbitrary: seen)
  case (Cons e es)
  let ?seen = "seen(norm_component (entry_path e) \<mapsto> entry_path e)"
  have "validate_index_entry protected changes e seen = Inr ?seen"
    using Cons.prems by (simp add: validate_index_entry_Inr)
  moreover have "\<exists>seen'. fold_res (validate_index_entry protected changes) es ?seen = Inr seen'"
  proof (rule Cons.IH)
    show "list_all (entry_ok protected changes) es" using Cons.prems(1) by simp
    show "inj_on norm_component (entry_path ` set es)"
      using Cons.prems(2) by (rule inj_on_subset) auto
    show "\<forall>e' \<in> set es. ?seen (norm_component (entry_path e')) = None
           \<or> ?seen (norm_component (entry_path e')) = Some (entry_path e')"
      using Cons.prems(2,3) by (auto simp: inj_on_def)
  qed
  ultimately show ?case by simp
qed simp

lemma filter_nil_list_all: "filter (\<lambda>x. \<not> P x) xs = [] \<longleftrightarrow> list_all P xs"
  by (induction xs) auto

lemma validate_result_Inr:
  "(\<exists>r. validate_result changes index protected = Inr r) \<longleftrightarrow>
     list_all (\<lambda>c. mode_ok (gc_old_mode c) \<and> mode_ok (gc_new_mode c)
        \<and> list_all (\<lambda>p. file_safe p \<and> \<not> is_protected p protected) (changed_paths c)) changes
     \<and> list_all (\<lambda>(mode, _, path). mode \<in> set ALLOWED_MODES \<and> file_safe path) index
     \<and> inj_on casefold (entry_path ` set index)" (is "?L \<longleftrightarrow> ?C \<and> ?I \<and> ?inj")
proof
  assume ?L
  then obtain l seen' where l: "fold_res (validate_change protected) changes no_results = Inr l"
    and none: "rl_unsafe l = []" "rl_protected l = []"
    and seen: "fold_res (validate_index_entry protected changes) index Map.empty = Inr seen'"
    by (auto simp: validate_result_def res_simps split: if_splits)
  note v = validate_changes_spec [OF l]
  have "filter (\<lambda>p. \<not> file_safe p) (concat (map changed_paths changes)) = []"
    "filter (\<lambda>p. is_protected p protected) (concat (map changed_paths changes)) = []"
    using v(2,3) none by (simp_all add: no_results_def)
  then have c: ?C using v(1) by (auto simp: list_all_iff filter_empty_conv)
  note s = validate_index_seen [OF seen]
  have ?I using s by (auto simp: list_all_iff entry_ok_def)
  moreover have ?inj
    using s by (auto intro!: inj_onI simp: norm_component_def) (metis option.inject snd_conv)+
  ultimately show "?C \<and> ?I \<and> ?inj" using c by blast
next
  assume R: "?C \<and> ?I \<and> ?inj"
  then have "list_all (\<lambda>c. mode_ok (gc_old_mode c) \<and> mode_ok (gc_new_mode c)) changes"
    by (simp add: list_all_iff)
  then obtain l where l: "fold_res (validate_change protected) changes no_results = Inr l"
    using validate_changes_total by blast
  note v = validate_changes_spec [OF l]
  have none: "rl_unsafe l = []" "rl_protected l = []"
    using v(2,3) R by (auto simp: no_results_def list_all_iff filter_empty_conv)
  have unprot: "\<forall>p \<in> set (concat (map changed_paths changes)). \<not> is_protected p protected"
    using R by (auto simp: list_all_iff)
  have "list_all (entry_ok protected changes) index"
    using R unprot by (auto simp: list_all_iff entry_ok_def)
  then obtain seen' where "fold_res (validate_index_entry protected changes) index Map.empty = Inr seen'"
    using validate_index_total [of protected changes index Map.empty] R
    by (auto simp: norm_component_def [abs_def])
  then show ?L using l none by (auto simp: validate_result_def)
qed

lemma validate_result_lists:
  assumes "validate_result changes index protected = Inr (l, touched)"
  shows "touched = sorted_set (map gc_new_path changes)"
    and "rl_added l = map gc_new_path (filter (\<lambda>c. gc_status c = CHR ''A'') changes)"
    and "rl_modified l =
      map gc_new_path (filter (\<lambda>c. gc_status c \<noteq> CHR ''A'' \<and> gc_status c \<noteq> CHR ''D'') changes)"
    and "rl_deleted l = map (\<lambda>c. case gc_old_path c of None \<Rightarrow> gc_new_path c | Some p \<Rightarrow> p)
      (filter (\<lambda>c. gc_status c = CHR ''D'') changes)"
proof -
  have l: "fold_res (validate_change protected) changes no_results = Inr l"
    and t: "touched = sorted_set (map gc_new_path changes)"
    using assms by (auto simp: validate_result_def res_simps split: if_splits)
  note v = validate_changes_spec [OF l]
  show "touched = sorted_set (map gc_new_path changes)" by fact
  show "rl_added l = map gc_new_path (filter (\<lambda>c. gc_status c = CHR ''A'') changes)"
    "rl_modified l =
      map gc_new_path (filter (\<lambda>c. gc_status c \<noteq> CHR ''A'' \<and> gc_status c \<noteq> CHR ''D'') changes)"
    "rl_deleted l = map (\<lambda>c. case gc_old_path c of None \<Rightarrow> gc_new_path c | Some p \<Rightarrow> p)
      (filter (\<lambda>c. gc_status c = CHR ''D'') changes)"
    using v(4-6) by (simp_all add: no_results_def)
qed

text \<open>
  C3: the policy accepts a Git result exactly when every change has regular-file modes and touches
  only safe, unprotected paths, every entry of the complete result index is a regular file at a safe
  path, and no two index paths differ only in case. Then the touched files are the changed paths,
  sorted, each once.
\<close>

theorem result_policy_exact:
  "((\<exists>r. validate_result changes index protected = Inr r) \<longleftrightarrow>
     list_all (\<lambda>c. mode_ok (gc_old_mode c) \<and> mode_ok (gc_new_mode c)
        \<and> list_all (\<lambda>p. file_safe p \<and> \<not> is_protected p protected) (changed_paths c)) changes
     \<and> list_all (\<lambda>(mode, _, path). mode \<in> set ALLOWED_MODES \<and> file_safe path) index
     \<and> inj_on casefold (entry_path ` set index))
   \<and> (validate_result changes index protected = Inr (l, touched) \<longrightarrow>
       sorted touched \<and> distinct touched \<and> set touched = gc_new_path ` set changes)"
proof (intro conjI impI)
  assume r: "validate_result changes index protected = Inr (l, touched)"
  show "sorted touched" "distinct touched" "set touched = gc_new_path ` set changes"
    unfolding validate_result_lists(1) [OF r] by simp_all
qed (rule validate_result_Inr)

theorem result_policy_exact_witness:
  "(\<exists>l. validate_result
     [\<lparr>gc_status = CHR ''A'', gc_old_mode = ''000000'', gc_new_mode = ''100644'', gc_old_sha = ''0'',
       gc_new_sha = ''1'', gc_old_path = None, gc_new_path = ''b''\<rparr>]
     [(''100644'', ''1'', ''b'')] [] = Inr (l, [''b'']))
   \<and> sorted [''b''] \<and> set [''b''] = gc_new_path `
     set [\<lparr>gc_status = CHR ''A'', gc_old_mode = ''000000'', gc_new_mode = ''100644'', gc_old_sha = ''0'',
       gc_new_sha = ''1'', gc_old_path = None, gc_new_path = ''b''\<rparr>]"
proof -
  let ?c = "\<lparr>gc_status = CHR ''A'', gc_old_mode = ''000000'', gc_new_mode = ''100644'',
     gc_old_sha = ''0'', gc_new_sha = ''1'', gc_old_path = None, gc_new_path = ''b''\<rparr>"
  let ?i = "[(''100644'', ''1'', ''b'')]"
  have "map_prod (\<lambda>_. ()) id (projr (validate_result [?c] ?i [])) = ((), [''b''])"
    "isl (validate_result [?c] ?i []) = False" by code_simp+
  then obtain l where l: "validate_result [?c] ?i [] = Inr (l, [''b''])"
    by (cases "validate_result [?c] ?i []") auto
  then show ?thesis using result_policy_exact [of "[?c]" ?i "[]" l "[''b'']"] by auto
qed

end
