(* ===== verification/Manifest_Diff.thy ===== *)
theory Manifest_Diff
  imports Main
begin

text \<open>
  The contract of a comparison of two manifests (name to fingerprint), which the harness writes twice:
  for the hidden tests around a run and for the evidence bundle of a saved run. A report lists
  changes, each about one name, and the names reported are exactly those whose entries differ.
\<close>

locale manifest_diff =
  fixes report :: "('k \<times> 'v) list \<Rightarrow> ('k \<times> 'v) list \<Rightarrow> 'c list"
    and subject :: "'c \<Rightarrow> 'k"
  assumes reported: "subject ` set (report before after) = {k. map_of before k \<noteq> map_of after k}"
begin

lemma quiet_iff: "report before after = [] \<longleftrightarrow> map_of before = map_of after"
proof -
  have "report before after = [] \<longleftrightarrow> subject ` set (report before after) = {}" by simp
  also have "\<dots> \<longleftrightarrow> map_of before = map_of after" by (auto simp: reported fun_eq_iff)
  finally show ?thesis .
qed

lemma quiet_refl: "report m m = []"
  by (simp add: quiet_iff)

lemma quiet_trans: "report a b = [] \<Longrightarrow> report b c = [] \<Longrightarrow> report a c = []"
  by (simp add: quiet_iff)

lemma detects: "map_of before k \<noteq> map_of after k \<longleftrightarrow> (\<exists>c \<in> set (report before after). subject c = k)"
proof -
  have "map_of before k \<noteq> map_of after k \<longleftrightarrow> k \<in> subject ` set (report before after)"
    by (simp add: reported)
  then show ?thesis by (auto simp: image_iff)
qed

end

end
