(* ===== verification/Workspace.thy ===== *)
theory Workspace
  imports Git_Output Manifest_Diff
begin

text \<open>
  The file tree below a workspace or a case, and the code that walks it:
  \<open>arena/execution/integrity.py\<close> and the workspace checks of \<open>arena/patching/git_pipeline.py\<close>.

  A tree is a directory listing with, per entry, a regular file (bytes, executable bit, link
  count), a symbolic link (to a directory, to something else, or to nothing), a special file, or a directory. \<open>os.walk\<close> visits
  a directory, then its real subdirectories in the same order; it lists a link to a directory among
  the directories and does not follow it.
\<close>

section \<open>Trees\<close>

datatype link_target = ToDir | ToOther | Dangling

datatype node = File string bool nat | Link link_target | Special | Dir "(string \<times> node) list"

fun is_real_dir :: "node \<Rightarrow> bool" where
  "is_real_dir (Dir es) = True"
| "is_real_dir _ = False"

text \<open>What \<open>os.walk\<close> lists among the directories.\<close>

fun is_dir_like :: "node \<Rightarrow> bool" where
  "is_dir_like (Dir es) = True"
| "is_dir_like (Link target) = (target = ToDir)"
| "is_dir_like _ = False"

lemma node_size_entry [termination_simp]:
  "e \<in> set es \<Longrightarrow> size (snd e) < Suc (size_list (size_prod (\<lambda>_. 0) size) es)"
  by (induction es) (auto simp: less_Suc_eq_le le_Suc_eq)

type_synonym visit = "string list \<times> (string \<times> node) list \<times> (string \<times> node) list"

fun walk :: "string list \<Rightarrow> node \<Rightarrow> visit list" where
  "walk prefix (Dir es) =
     (prefix, filter (\<lambda>e. is_dir_like (snd e)) es, filter (\<lambda>e. \<not> is_dir_like (snd e)) es)
     # concat (map (\<lambda>e. walk (prefix @ [fst e]) (snd e)) es)"
| "walk prefix _ = []"

fun entries_of :: "node \<Rightarrow> (string \<times> node) list" where
  "entries_of (Dir es) = es"
| "entries_of _ = []"

fun node_at :: "string list \<Rightarrow> node \<Rightarrow> node option" where
  "node_at [] n = Some n"
| "node_at (c # cs) n =
     (case map_of (entries_of n) c of None \<Rightarrow> None | Some m \<Rightarrow> node_at cs m)"

text \<open>The node a path leads to without following a link: the first link on the way stops it.\<close>

fun reach :: "string list \<Rightarrow> node \<Rightarrow> node option" where
  "reach [] n = Some n"
| "reach (c # cs) (Dir es) = (case map_of es c of None \<Rightarrow> None | Some m \<Rightarrow> reach cs m)"
| "reach (c # cs) (Link target) = Some (Link target)"
| "reach (c # cs) _ = None"

definition posix_join :: "string list \<Rightarrow> string" where
  "posix_join cs = join_with ''/'' cs"

text \<open>A tree a file system can hold: entry names are nonempty, without a slash, and distinct.\<close>

fun wf_node :: "node \<Rightarrow> bool" where
  "wf_node (Dir es) \<longleftrightarrow>
     distinct (map fst es) \<and> list_all (\<lambda>e. fst e \<noteq> [] \<and> CHR ''/'' \<notin> set (fst e)) es
     \<and> list_all (\<lambda>e. wf_node (snd e)) es"
| "wf_node _ \<longleftrightarrow> True"

section \<open>Integrity of the hidden tests\<close>

definition IGNORED_DIR_NAMES :: "string list" where
  "IGNORED_DIR_NAMES = [''__pycache__'', ''.pytest_cache'', ''.mypy_cache'', ''.ruff_cache'']"

definition is_pyc :: "string \<Rightarrow> bool" where
  "is_pyc name \<longleftrightarrow> ends_with name ''.pyc'' \<and> length name > 4"

text \<open>\<open>_classify\<close>: \<open>None\<close> for a regular file.\<close>

fun classify :: "node \<Rightarrow> string option" where
  "classify (Link _) = Some ''symlink''"
| "classify (File _ _ _) = None"
| "classify _ = Some ''special''"

definition manifest_dir_entry :: "string list \<Rightarrow> string \<times> node \<Rightarrow> (string \<times> string) list" where
  "manifest_dir_entry prefix = (\<lambda>(name, n).
     if name \<in> set IGNORED_DIR_NAMES then []
     else if \<not> is_real_dir n then [(posix_join (prefix @ [name]), ''symlink'')] else [])"

definition manifest_file_entry ::
  "(string \<Rightarrow> string) \<Rightarrow> string list \<Rightarrow> string \<times> node \<Rightarrow> (string \<times> string) list" where
  "manifest_file_entry sha256 prefix = (\<lambda>(name, n).
     case classify n of
       Some kind \<Rightarrow> [(posix_join (prefix @ [name]), kind)]
     | None \<Rightarrow> (case n of
         File bytes _ _ \<Rightarrow>
           if is_pyc name then [] else [(posix_join (prefix @ [name]), sha256 bytes)]
       | _ \<Rightarrow> []))"

fun manifest_below :: "(string \<Rightarrow> string) \<Rightarrow> string list \<Rightarrow> node \<Rightarrow> (string \<times> string) list" where
  "manifest_below sha256 prefix (Dir es) =
     concat (map (manifest_dir_entry prefix) (filter (\<lambda>e. is_dir_like (snd e)) es))
     @ concat (map (manifest_file_entry sha256 prefix) (filter (\<lambda>e. \<not> is_dir_like (snd e)) es))
     @ concat (map (\<lambda>e. if fst e \<in> set IGNORED_DIR_NAMES then []
                        else manifest_below sha256 (prefix @ [fst e]) (snd e)) es)"
| "manifest_below sha256 prefix _ = []"

text \<open>
  \<open>root.is_dir()\<close> and \<open>os.walk(root)\<close> follow a link at the root itself, or on the way to it: \<open>behind\<close> is what
  the path leads to then. A root that is missing or no directory has no manifest.
\<close>

fun walked_root :: "node option \<Rightarrow> node option \<Rightarrow> node" where
  "walked_root behind (Some (Dir es)) = Dir es"
| "walked_root behind (Some (Link target)) = (case behind of Some (Dir es) \<Rightarrow> Dir es | _ \<Rightarrow> Dir [])"
| "walked_root behind _ = Dir []"

definition file_manifest ::
  "(string \<Rightarrow> string) \<Rightarrow> node option \<Rightarrow> node option \<Rightarrow> (string \<times> string) list" where
  "file_manifest sha256 behind tree_root = manifest_below sha256 [] (walked_root behind tree_root)"

definition change_token ::
  "(string \<times> string) list \<Rightarrow> (string \<times> string) list \<Rightarrow> string \<Rightarrow> string list" where
  "change_token before after key =
     (case map_of before key of
        None \<Rightarrow> [''created:'' @ key]
      | Some previous \<Rightarrow>
          (case map_of after key of
             None \<Rightarrow> [''deleted:'' @ key]
           | Some current \<Rightarrow> if previous \<noteq> current then [''modified:'' @ key] else []))"

definition manifest_changes ::
  "(string \<times> string) list \<Rightarrow> (string \<times> string) list \<Rightarrow> string list" where
  "manifest_changes before after =
     concat (map (change_token before after) (sorted_set (map fst before @ map fst after)))"

definition unsafe_entries :: "(string \<times> string) list \<Rightarrow> string list" where
  "unsafe_entries manifest =
     sort (map fst (filter (\<lambda>(_, v). v = ''symlink'' \<or> v = ''special'') manifest))"

fun unsafe_below :: "string list \<Rightarrow> node \<Rightarrow> string list" where
  "unsafe_below prefix (Dir es) =
     map (\<lambda>e. posix_join (prefix @ [fst e]))
       (filter (\<lambda>e. is_dir_like (snd e) \<and> \<not> is_real_dir (snd e)) es)
     @ map (\<lambda>e. posix_join (prefix @ [fst e]))
       (filter (\<lambda>e. \<not> is_dir_like (snd e) \<and> classify (snd e) \<noteq> None) es)
     @ concat (map (\<lambda>e. unsafe_below (prefix @ [fst e]) (snd e)) es)"
| "unsafe_below prefix _ = []"

definition find_unsafe_files :: "node option \<Rightarrow> string list" where
  "find_unsafe_files tree_root = (case tree_root of None \<Rightarrow> [] | Some n \<Rightarrow> sort (unsafe_below [] n))"

section \<open>Checks of a patch workspace\<close>

fun is_symlink :: "node \<Rightarrow> bool" where
  "is_symlink (Link _) = True"
| "is_symlink _ = False"

fun is_regular :: "node \<Rightarrow> bool" where
  "is_regular (File _ _ _) = True"
| "is_regular _ = False"

definition is_git_name :: "string \<Rightarrow> bool" where
  "is_git_name name \<longleftrightarrow> casefold name = ''.git''"

definition check_prepared_entry :: "string \<times> node \<Rightarrow> (git_error, unit) res" where
  "check_prepared_entry = (\<lambda>(name, n).
     if is_git_name name
     then Inl (git_run_error ''baseline_index_failed'' ''source contains a .git entry'')
     else if is_symlink n
     then Inl (git_run_error ''baseline_index_failed'' ''source contains a symlink'')
     else if \<not> (is_real_dir n \<or> is_regular n)
     then Inl (git_run_error ''baseline_index_failed'' ''source contains a special file'')
     else Inr ())"

definition check_prepared :: "node \<Rightarrow> (git_error, unit) res" where
  "check_prepared tree_root =
     check_all (\<lambda>(_, dirs, files). check_all check_prepared_entry (dirs @ files)) (walk [] tree_root)"

definition validate_baseline_paths :: "node \<Rightarrow> (git_error, unit) res" where
  "validate_baseline_paths tree_root =
     check_all (\<lambda>(prefix, _, files).
       check_all (\<lambda>(name, _).
         if \<not> file_safe (posix_join (prefix @ [name]))
         then Inl (git_run_error ''baseline_index_failed'' ''baseline contains an unsafe path'')
         else Inr ()) files) (walk [] tree_root)"

definition scan_dir_entry :: "string \<times> node \<Rightarrow> (git_error, unit) res" where
  "scan_dir_entry = (\<lambda>(dirname, n).
     if is_git_name dirname
     then Inl (git_run_error ''unsafe_result_entry'' ''git metadata remains in the workspace'')
     else if is_symlink n
     then Inl (git_run_error ''unsafe_result_entry'' ''result contains a symlinked directory'')
     else if \<not> is_real_dir n
     then Inl (git_run_error ''unsafe_result_entry'' ''result contains a special directory'')
     else Inr ())"

definition scan_file_entry ::
  "string list \<Rightarrow> string \<times> node \<Rightarrow> string list \<Rightarrow> (git_error, string list) res" where
  "scan_file_entry prefix = (\<lambda>(name, n) found.
     if is_git_name name
     then Inl (git_run_error ''unsafe_result_entry'' ''git metadata remains in the workspace'')
     else case n of
       Link _ \<Rightarrow> Inl (git_run_error ''unsafe_result_entry'' ''result contains a symlink'')
     | File _ _ nlink \<Rightarrow>
         if nlink > 1
         then Inl (git_run_error ''unsafe_result_entry'' ''result contains a hardlink alias'')
         else if \<not> file_safe (posix_join (prefix @ [name]))
         then Inl (git_run_error ''unsafe_result_path'' ''result contains an unsafe path'')
         else Inr (posix_join (prefix @ [name]) # found)
     | _ \<Rightarrow> Inl (git_run_error ''unsafe_result_entry'' ''result contains a special file''))"

definition scan_visit :: "visit \<Rightarrow> string list \<Rightarrow> (git_error, string list) res" where
  "scan_visit = (\<lambda>(prefix, dirs, files) found.
     and_then (check_all scan_dir_entry dirs) (\<lambda>_. fold_res (scan_file_entry prefix) files found))"

definition scan_workspace_files :: "node \<Rightarrow> (git_error, string list) res" where
  "scan_workspace_files tree_root = fold_res scan_visit (walk [] tree_root) []"

text \<open>
  \<open>_remove_git_metadata\<close>: \<open>exists\<close> follows a link, and \<open>rmtree\<close> fails on anything but a real directory.
\<close>

definition remove_git_metadata :: "node \<Rightarrow> (git_error, node) res" where
  "remove_git_metadata tree_root =
     (let es = entries_of tree_root;
          failed = Inl (git_run_error ''git_metadata_cleanup_failed'' ''could not remove git metadata'');
          verify = (\<lambda>es. if list_ex (\<lambda>e. is_git_name (fst e)) es
            then Inl (git_run_error ''git_metadata_cleanup_failed'' ''git metadata still present'')
            else Inr (Dir es))
      in case map_of es ''.git'' of
           None \<Rightarrow> verify es
         | Some (Dir _) \<Rightarrow> verify (filter (\<lambda>e. fst e \<noteq> ''.git'') es)
         | Some (Link Dangling) \<Rightarrow> verify es
         | Some _ \<Rightarrow> failed)"

section \<open>What the walks see\<close>

lemma split_posix_join:
  "p \<noteq> [] \<Longrightarrow> list_all (\<lambda>c. CHR ''/'' \<notin> set c) p \<Longrightarrow> split_on CHR ''/'' (posix_join p) = p"
  by (simp add: posix_join_def split_on_join list_all_iff)

lemma posix_join_inj:
  assumes "list_all (\<lambda>c. CHR ''/'' \<notin> set c) p" "list_all (\<lambda>c. CHR ''/'' \<notin> set c) q"
    and "p \<noteq> []" "q \<noteq> []" "posix_join p = posix_join q"
  shows "p = q"
  using assms by (metis split_posix_join)

lemma wf_node_entries:
  assumes "wf_node (Dir es)"
  shows "map_of es c = Some m \<longleftrightarrow> (c, m) \<in> set es"
    and "(c, m) \<in> set es \<Longrightarrow> wf_node m"
    and "(c, m) \<in> set es \<Longrightarrow> c \<noteq> [] \<and> CHR ''/'' \<notin> set c"
    and "(c, m) \<in> set es \<Longrightarrow> (c, m') \<in> set es \<Longrightarrow> m = m'"
proof -
  have es: "distinct (map fst es)" "\<forall>e \<in> set es. fst e \<noteq> [] \<and> CHR ''/'' \<notin> set (fst e)"
    "\<forall>e \<in> set es. wf_node (snd e)"
    using assms by (auto simp: list_all_iff)
  show "map_of es c = Some m \<longleftrightarrow> (c, m) \<in> set es" using es by simp
  show "(c, m) \<in> set es \<Longrightarrow> wf_node m" using es(3) by fastforce
  show "(c, m) \<in> set es \<Longrightarrow> c \<noteq> [] \<and> CHR ''/'' \<notin> set c" using es(2) by fastforce
  show "(c, m) \<in> set es \<Longrightarrow> (c, m') \<in> set es \<Longrightarrow> m = m'"
    using es(1) by (metis map_of_is_SomeI option.inject)
qed

declare wf_node.simps(1) [simp del]

lemma node_at_Cons:
  assumes "wf_node n"
  shows "node_at (c # p) n = Some m \<longleftrightarrow>
    (\<exists>es k. n = Dir es \<and> (c, k) \<in> set es \<and> node_at p k = Some m)"
proof (cases n)
  case (Dir es)
  have "node_at (c # p) (Dir es) = Some m \<longleftrightarrow> (\<exists>k. map_of es c = Some k \<and> node_at p k = Some m)"
    by (cases "map_of es c") simp_all
  then show ?thesis using assms Dir by (simp add: wf_node_entries(1))
qed simp_all

lemma node_at_wf:
  assumes "wf_node n" "node_at p n = Some m"
  shows "wf_node m" and "list_all (\<lambda>c. c \<noteq> [] \<and> CHR ''/'' \<notin> set c) p"
proof -
  have "wf_node m \<and> list_all (\<lambda>c. c \<noteq> [] \<and> CHR ''/'' \<notin> set c) p"
    using assms
  proof (induction p arbitrary: n)
    case (Cons c p)
    then obtain es k where "n = Dir es" "(c, k) \<in> set es" "node_at p k = Some m"
      unfolding node_at_Cons [OF Cons.prems(1)] by blast
    then show ?case using Cons wf_node_entries(2,3) [of es c k] by simp
  qed simp
  then show "wf_node m" "list_all (\<lambda>c. c \<noteq> [] \<and> CHR ''/'' \<notin> set c) p" by simp_all
qed

lemma node_at_no_slash:
  "wf_node n \<Longrightarrow> node_at p n = Some m \<Longrightarrow> list_all (\<lambda>c. CHR ''/'' \<notin> set c) p"
  using node_at_wf(2) by (fastforce simp: list_all_iff)

lemma node_at_append: "node_at (p @ q) n = (case node_at p n of None \<Rightarrow> None | Some m \<Rightarrow> node_at q m)"
  by (induction p arbitrary: n) (auto split: option.splits)

lemma node_at_snoc:
  assumes "wf_node n"
  shows "node_at (p @ [c]) n = Some m \<longleftrightarrow> (\<exists>es. node_at p n = Some (Dir es) \<and> (c, m) \<in> set es)"
proof (cases "node_at p n")
  case (Some k)
  then have "wf_node k" using assms node_at_wf(1) by blast
  then show ?thesis using Some by (auto simp: node_at_append node_at_Cons simp del: node_at.simps(2))
qed (simp add: node_at_append)

lemma node_at_not_dir: "\<not> is_real_dir n \<Longrightarrow> node_at p n \<noteq> Some (Dir es)"
  by (cases p; cases n) simp_all

lemma node_at_file: "\<not> is_real_dir n \<Longrightarrow> p \<noteq> [] \<Longrightarrow> node_at p n = None"
  by (cases p; cases n) simp_all

lemma walk_visits:
  assumes "wf_node n"
  shows "(q, ds, fs) \<in> set (walk prefix n) \<longleftrightarrow>
    (\<exists>p es. q = prefix @ p \<and> node_at p n = Some (Dir es)
       \<and> ds = filter (\<lambda>e. is_dir_like (snd e)) es \<and> fs = filter (\<lambda>e. \<not> is_dir_like (snd e)) es)"
    (is "_ \<longleftrightarrow> (\<exists>p es. q = prefix @ p \<and> node_at p n = Some (Dir es) \<and> ?P es)")
  using assms
proof (induction prefix n rule: walk.induct)
  case (1 prefix es)
  have below: "(q, ds, fs) \<in> set (walk (prefix @ [fst e]) (snd e)) \<longleftrightarrow>
      (\<exists>p es. q = prefix @ fst e # p \<and> node_at p (snd e) = Some (Dir es) \<and> ?P es)"
    if "e \<in> set es" for e
    using 1 that wf_node_entries(2) by (metis append.assoc append_Cons append_Nil prod.collapse)
  have "(\<exists>p es'. q = prefix @ p \<and> node_at p (Dir es) = Some (Dir es') \<and> ?P es') \<longleftrightarrow>
      (q = prefix \<and> ?P es) \<or> (\<exists>e \<in> set es. \<exists>p es'. q = prefix @ fst e # p
         \<and> node_at p (snd e) = Some (Dir es') \<and> ?P es')" (is "?L \<longleftrightarrow> ?R")
  proof
    assume ?L
    then obtain p es' where p: "q = prefix @ p" "node_at p (Dir es) = Some (Dir es')" "?P es'"
      by blast
    show ?R
    proof (cases p)
      case (Cons c p')
      then obtain k where "(c, k) \<in> set es" "node_at p' k = Some (Dir es')"
        using p(2) unfolding Cons node_at_Cons [OF 1(2)] by blast
      then show ?thesis using p Cons by force
    qed (use p in simp)
  next
    assume ?R
    moreover have ?L if "e \<in> set es" "q = prefix @ fst e # p"
        "node_at p (snd e) = Some (Dir es')" "?P es'" for e p es'
    proof -
      have "node_at (fst e # p) (Dir es) = Some (Dir es')"
        unfolding node_at_Cons [OF 1(2)] using that by (metis prod.collapse)
      then show ?L using that by blast
    qed
    moreover have ?L if "q = prefix" "?P es"
      using that by (metis append_Nil2 node_at.simps(1))
    ultimately show ?L by blast
  qed
  then show ?case using below by auto
qed (simp_all add: node_at_not_dir)

section \<open>Integrity: what the manifest tracks\<close>

fun tracked_token :: "(string \<Rightarrow> string) \<Rightarrow> string \<Rightarrow> node \<Rightarrow> string option" where
  "tracked_token sha256 name (File bytes _ _) = (if is_pyc name then None else Some (sha256 bytes))"
| "tracked_token sha256 name (Link target) =
     (if target = ToDir \<and> name \<in> set IGNORED_DIR_NAMES then None else Some ''symlink'')"
| "tracked_token sha256 name Special = Some ''special''"
| "tracked_token sha256 name (Dir _) = None"

text \<open>What is recorded of the path \<open>p\<close> below \<open>n\<close>: nothing below a cache directory, else its token.\<close>

definition tracked :: "(string \<Rightarrow> string) \<Rightarrow> node \<Rightarrow> string list \<Rightarrow> string option" where
  "tracked sha256 n p =
     (if p = [] \<or> list_ex (\<lambda>c. c \<in> set IGNORED_DIR_NAMES) (butlast p) then None
      else case node_at p n of None \<Rightarrow> None | Some m \<Rightarrow> tracked_token sha256 (last p) m)"

lemma manifest_entries:
  "(k, v) \<in> set (concat (map (manifest_dir_entry prefix) (filter (\<lambda>e. is_dir_like (snd e)) es))
     @ concat (map (manifest_file_entry sha256 prefix) (filter (\<lambda>e. \<not> is_dir_like (snd e)) es)))
   \<longleftrightarrow> (\<exists>c m. (c, m) \<in> set es \<and> k = posix_join (prefix @ [c]) \<and> tracked_token sha256 c m = Some v)"
proof -
  have "(is_dir_like m \<and> (k, v) \<in> set (manifest_dir_entry prefix (c, m)))
      \<or> (\<not> is_dir_like m \<and> (k, v) \<in> set (manifest_file_entry sha256 prefix (c, m)))
      \<longleftrightarrow> k = posix_join (prefix @ [c]) \<and> tracked_token sha256 c m = Some v" for c m
    by (cases m) (auto simp: manifest_dir_entry_def manifest_file_entry_def)
  then show ?thesis by (simp add: Bex_def split_paired_Ex) blast
qed

lemma tracked_Some:
  "tracked sha256 n p = Some v \<longleftrightarrow> p \<noteq> [] \<and> \<not> list_ex (\<lambda>c. c \<in> set IGNORED_DIR_NAMES) (butlast p)
     \<and> (\<exists>m. node_at p n = Some m \<and> tracked_token sha256 (last p) m = Some v)"
  by (auto simp: tracked_def split: option.splits)

lemma tracked_file: "\<not> is_real_dir n \<Longrightarrow> tracked sha256 n p = None"
  by (cases "p = []") (simp_all add: tracked_def node_at_file)

lemma tracked_Cons:
  assumes "wf_node (Dir es)"
  shows "tracked sha256 (Dir es) p = Some v \<longleftrightarrow>
    (\<exists>c m. p = [c] \<and> (c, m) \<in> set es \<and> tracked_token sha256 c m = Some v)
    \<or> (\<exists>c m q. p = c # q \<and> (c, m) \<in> set es \<and> c \<notin> set IGNORED_DIR_NAMES
         \<and> tracked sha256 m q = Some v)"
proof (cases p)
  case (Cons c q)
  show ?thesis
    unfolding Cons tracked_Some node_at_Cons [OF assms]
    by (cases "q = []") auto
qed (simp add: tracked_def)

lemma manifest_below_tracked:
  "wf_node n \<Longrightarrow> (k, v) \<in> set (manifest_below sha256 prefix n) \<longleftrightarrow>
     (\<exists>p. k = posix_join (prefix @ p) \<and> tracked sha256 n p = Some v)"
proof (induction sha256 prefix n rule: manifest_below.induct)
  case (1 sha256 prefix es)
  have below: "(k, v) \<in> set (manifest_below sha256 (prefix @ [c]) m) \<longleftrightarrow>
      (\<exists>q. k = posix_join (prefix @ c # q) \<and> tracked sha256 m q = Some v)"
    if "(c, m) \<in> set es" "c \<notin> set IGNORED_DIR_NAMES" for c m
    using 1(1) [of "(c, m)"] that wf_node_entries(2) [OF 1(2) that(1)] by simp
  have "(k, v) \<in> set (if c \<in> set IGNORED_DIR_NAMES then [] else xs) \<longleftrightarrow>
      c \<notin> set IGNORED_DIR_NAMES \<and> (k, v) \<in> set xs" for c xs
    by simp
  then have subdirs: "(k, v) \<in> set (concat (map (\<lambda>e. if fst e \<in> set IGNORED_DIR_NAMES then []
        else manifest_below sha256 (prefix @ [fst e]) (snd e)) es)) \<longleftrightarrow>
      (\<exists>c m. (c, m) \<in> set es \<and> c \<notin> set IGNORED_DIR_NAMES
           \<and> (k, v) \<in> set (manifest_below sha256 (prefix @ [c]) m))"
    by (simp add: Bex_def split_paired_Ex)
  have "(k, v) \<in> set (manifest_below sha256 prefix (Dir es)) \<longleftrightarrow>
      (\<exists>c m. (c, m) \<in> set es \<and> k = posix_join (prefix @ [c]) \<and> tracked_token sha256 c m = Some v)
      \<or> (\<exists>c m. (c, m) \<in> set es \<and> c \<notin> set IGNORED_DIR_NAMES
           \<and> (k, v) \<in> set (manifest_below sha256 (prefix @ [c]) m))"
    unfolding manifest_below.simps append_assoc [symmetric] manifest_entries [symmetric]
      subdirs [symmetric] by (simp only: set_append Un_iff)
  also have "\<dots> \<longleftrightarrow>
      (\<exists>c m. (c, m) \<in> set es \<and> k = posix_join (prefix @ [c]) \<and> tracked_token sha256 c m = Some v)
      \<or> (\<exists>c m. (c, m) \<in> set es \<and> c \<notin> set IGNORED_DIR_NAMES
           \<and> (\<exists>q. k = posix_join (prefix @ c # q) \<and> tracked sha256 m q = Some v))"
    using below by (simp cong: conj_cong)
  also have "\<dots> \<longleftrightarrow> (\<exists>p. k = posix_join (prefix @ p) \<and> tracked sha256 (Dir es) p = Some v)"
    unfolding tracked_Cons [OF 1(2)] by (rule iffI) (fast, fast)
  finally show ?case .
qed (simp_all add: tracked_file)

lemma manifest_map:
  assumes "wf_node n"
  shows "map_of (manifest_below sha256 [] n) k = tracked sha256 n (split_on CHR ''/'' k)"
proof -
  have member: "(k, v) \<in> set (manifest_below sha256 [] n) \<longleftrightarrow>
      tracked sha256 n (split_on CHR ''/'' k) = Some v" for v
  proof
    assume "(k, v) \<in> set (manifest_below sha256 [] n)"
    then obtain p where "k = posix_join p" "tracked sha256 n p = Some v"
      using manifest_below_tracked [OF assms, of k v sha256 "[]"] by auto
    then show "tracked sha256 n (split_on CHR ''/'' k) = Some v"
      using node_at_no_slash [OF assms] by (auto simp: tracked_Some split_posix_join)
  next
    assume "tracked sha256 n (split_on CHR ''/'' k) = Some v"
    then show "(k, v) \<in> set (manifest_below sha256 [] n)"
      using manifest_below_tracked [OF assms, of k v sha256 "[]"]
      by (auto simp: posix_join_def intro!: exI [of _ "split_on CHR ''/'' k"])
  qed
  show ?thesis
  proof (cases "map_of (manifest_below sha256 [] n) k")
    case None
    then have "(k, v) \<notin> set (manifest_below sha256 [] n)" for v
      by (force simp: map_of_eq_None_iff)
    then show ?thesis using member None by (metis not_Some_eq)
  next
    case (Some v)
    then show ?thesis using member by (metis map_of_SomeD)
  qed
qed

lemma manifest_changes_member:
  "t \<in> set (manifest_changes before after) \<longleftrightarrow>
     (\<exists>k. t = ''created:'' @ k \<and> map_of before k = None \<and> map_of after k \<noteq> None
        \<or> t = ''deleted:'' @ k \<and> map_of before k \<noteq> None \<and> map_of after k = None
        \<or> t = ''modified:'' @ k \<and> map_of before k \<noteq> None \<and> map_of after k \<noteq> None
          \<and> map_of before k \<noteq> map_of after k)" (is "_ \<longleftrightarrow> (\<exists>k. ?changed k)")
proof -
  have keys: "k \<in> set (map fst before @ map fst after) \<longleftrightarrow> map_of before k \<noteq> None \<or> map_of after k \<noteq> None"
    for k by (auto simp: map_of_eq_None_iff)
  have "t \<in> set (manifest_changes before after) \<longleftrightarrow>
      (\<exists>k. (map_of before k \<noteq> None \<or> map_of after k \<noteq> None) \<and> t \<in> set (change_token before after k))"
    unfolding manifest_changes_def keys [symmetric] by auto
  moreover have "(map_of before k \<noteq> None \<or> map_of after k \<noteq> None)
      \<and> t \<in> set (change_token before after k) \<longleftrightarrow> ?changed k" for k
    by (auto simp: change_token_def split: option.splits if_splits)
  ultimately show ?thesis by simp
qed

text \<open>The name a change token is about, after its first colon.\<close>

definition token_subject :: "string \<Rightarrow> string" where
  "token_subject token = tl (dropWhile (\<lambda>c. c \<noteq> CHR '':'') token)"

lemma token_subject_simps:
  "token_subject (''created:'' @ k) = k" "token_subject (''deleted:'' @ k) = k"
  "token_subject (''modified:'' @ k) = k"
  by (simp_all add: token_subject_def)

lemma changed_key_token:
  assumes "map_of before k \<noteq> map_of after k"
  shows "\<exists>t \<in> set (manifest_changes before after). token_subject t = k"
proof -
  consider "map_of before k = None" "map_of after k \<noteq> None" | "map_of before k \<noteq> None" "map_of after k = None"
    | "map_of before k \<noteq> None" "map_of after k \<noteq> None" using assms by fastforce
  then show ?thesis
  proof cases
    case 1
    then have "''created:'' @ k \<in> set (manifest_changes before after)"
      unfolding manifest_changes_member by blast
    then show ?thesis by (rule rev_bexI) (rule token_subject_simps)
  next
    case 2
    then have "''deleted:'' @ k \<in> set (manifest_changes before after)"
      unfolding manifest_changes_member by blast
    then show ?thesis by (rule rev_bexI) (rule token_subject_simps)
  next
    case 3
    then have "''modified:'' @ k \<in> set (manifest_changes before after)"
      unfolding manifest_changes_member using assms by blast
    then show ?thesis by (rule rev_bexI) (rule token_subject_simps)
  qed
qed

interpretation tests: manifest_diff manifest_changes token_subject
proof unfold_locales
  fix before after :: "(string \<times> string) list"
  have "map_of before k \<noteq> map_of after k"
    if "t \<in> set (manifest_changes before after)" "k = token_subject t" for t k
    using that unfolding manifest_changes_member
    by (elim exE disjE conjE) (simp_all only: token_subject_simps, auto)
  then show "token_subject ` set (manifest_changes before after)
      = {k. map_of before k \<noteq> map_of after k}"
    using changed_key_token by blast
qed

lemma manifest_changes_Nil:
  "manifest_changes before after = [] \<longleftrightarrow> map_of before = map_of after"
  by (rule tests.quiet_iff)

lemma tracked_by_key:
  assumes "wf_node n" "tracked sha256 n p \<noteq> None" "wf_node m"
  shows "map_of (manifest_below sha256 [] m) (posix_join p) = tracked sha256 m p"
  using assms(2) node_at_no_slash [OF assms(1)]
  by (auto simp: manifest_map [OF assms(3)] tracked_Some split_posix_join)

lemma tree_changes:
  assumes "wf_node before" "wf_node after"
  shows "set (manifest_changes (manifest_below sha256 [] before) (manifest_below sha256 [] after)) =
      {''created:'' @ posix_join p | p. tracked sha256 before p = None \<and> tracked sha256 after p \<noteq> None}
      \<union> {''deleted:'' @ posix_join p | p. tracked sha256 before p \<noteq> None \<and> tracked sha256 after p = None}
      \<union> {''modified:'' @ posix_join p | p. tracked sha256 before p \<noteq> None
          \<and> tracked sha256 after p \<noteq> None \<and> tracked sha256 before p \<noteq> tracked sha256 after p}
    \<and> (manifest_changes (manifest_below sha256 [] before) (manifest_below sha256 [] after) = []
       \<longleftrightarrow> (\<forall>p. tracked sha256 before p = tracked sha256 after p))" (is "set ?changes = ?tokens \<and> _")
proof
  let ?before = "map_of (manifest_below sha256 [] before)"
  let ?after = "map_of (manifest_below sha256 [] after)"
  have by_path: "?before (posix_join p) = tracked sha256 before p \<and> ?after (posix_join p) = tracked sha256 after p"
    if "tracked sha256 before p \<noteq> None \<or> tracked sha256 after p \<noteq> None" for p
    using that tracked_by_key assms by metis
  have key: "\<exists>p. k = posix_join p \<and> tracked sha256 before p = ?before k \<and> tracked sha256 after p = ?after k"
    for k
    by (rule exI [of _ "split_on CHR ''/'' k"]) (simp add: posix_join_def manifest_map assms)
  show "set ?changes = ?tokens"
  proof (intro set_eqI iffI)
    fix t assume "t \<in> set ?changes"
    then obtain k where "t = ''created:'' @ k \<and> ?before k = None \<and> ?after k \<noteq> None
        \<or> t = ''deleted:'' @ k \<and> ?before k \<noteq> None \<and> ?after k = None
        \<or> t = ''modified:'' @ k \<and> ?before k \<noteq> None \<and> ?after k \<noteq> None \<and> ?before k \<noteq> ?after k"
      unfolding manifest_changes_member by blast
    with key [of k] show "t \<in> ?tokens" by fastforce
  next
    fix t assume "t \<in> ?tokens"
    then show "t \<in> set ?changes"
      unfolding manifest_changes_member using by_path by (elim UnE CollectE exE) metis+
  qed
  show "?changes = [] \<longleftrightarrow> (\<forall>p. tracked sha256 before p = tracked sha256 after p)"
    unfolding manifest_changes_Nil
  proof
    assume same: "?before = ?after"
    show "\<forall>p. tracked sha256 before p = tracked sha256 after p"
    proof
      fix p
      show "tracked sha256 before p = tracked sha256 after p"
        using by_path [of p] same by metis
    qed
  qed (simp add: fun_eq_iff manifest_map assms)
qed

text \<open>
  C27: comparing the manifests of the hidden tests before and after a run finds every difference between the
  trees that are walked, outside caches and bytecode: a path is reported created, deleted or modified exactly when its
  token (the digest of a file, or the marker of a link or special file) appeared, vanished or
  changed, and nothing is reported exactly when all tokens are the same. The walked tree is the one the root leads to: a root
  that became a link is followed, so one that leads to an identical tree is not reported.
\<close>

theorem integrity_detects_tampering:
  assumes "wf_node (walked_root behind tree)" "wf_node (walked_root behind' tree')"
  shows "let before = walked_root behind tree; after = walked_root behind' tree';
      changes = manifest_changes (file_manifest sha256 behind tree) (file_manifest sha256 behind' tree') in
    set changes =
      {''created:'' @ posix_join p | p. tracked sha256 before p = None \<and> tracked sha256 after p \<noteq> None}
      \<union> {''deleted:'' @ posix_join p | p. tracked sha256 before p \<noteq> None \<and> tracked sha256 after p = None}
      \<union> {''modified:'' @ posix_join p | p. tracked sha256 before p \<noteq> None
          \<and> tracked sha256 after p \<noteq> None \<and> tracked sha256 before p \<noteq> tracked sha256 after p}
    \<and> (changes = [] \<longleftrightarrow> (\<forall>p. tracked sha256 before p = tracked sha256 after p))
    \<and> (\<forall>es target. tree = Some (Dir es) \<and> tree' = Some (Link target) \<and> behind' = Some (Dir es) \<longrightarrow> changes = [])"
  using tree_changes [OF assms, of sha256] unfolding Let_def file_manifest_def by (auto simp: manifest_changes_Nil)

text \<open>A tree whose suite rewrites a test, drops one and leaves a cache behind.\<close>

definition tests_before :: node where
  "tests_before = Dir [(''t.py'', File ''x'' False 1), (''d'', Dir [(''u.py'', File ''y'' False 1)])]"

definition tests_after :: node where
  "tests_after = Dir [(''t.py'', File ''z'' False 1), (''d'', Dir [(''__pycache__'', Dir [(''k'', File ''c'' False 1)])])]"

lemma sample_trees:
  "walked_root None (Some tests_before) = tests_before" "walked_root None (Some tests_after) = tests_after"
  "walked_root (Some tests_before) (Some (Link ToDir)) = tests_before"
  "wf_node tests_before" "wf_node tests_after"
  by (simp_all add: tests_before_def tests_after_def wf_node.simps(1))

lemma integrity_detects_tampering_witness:
  "(let changes = manifest_changes (file_manifest (\<lambda>b. b) None (Some tests_before))
        (file_manifest (\<lambda>b. b) None (Some tests_after))
    in ''modified:t.py'' \<in> set changes \<and> ''deleted:d/u.py'' \<in> set changes)
   \<and> manifest_changes (file_manifest (\<lambda>b. b) None (Some tests_before))
       (file_manifest (\<lambda>b. b) (Some tests_before) (Some (Link ToDir))) = []"
proof -
  have tokens: "tracked (\<lambda>b. b) tests_before [''t.py''] = Some ''x''" "tracked (\<lambda>b. b) tests_after [''t.py''] = Some ''z''"
    "tracked (\<lambda>b. b) tests_before [''d'', ''u.py''] = Some ''y''"
    "tracked (\<lambda>b. b) tests_after [''d'', ''u.py''] = None"
    "posix_join [''t.py''] = ''t.py''" "posix_join [''d'', ''u.py''] = ''d/u.py''"
    by code_simp+
  have "set (manifest_changes (file_manifest (\<lambda>b. b) None (Some tests_before))
        (file_manifest (\<lambda>b. b) None (Some tests_after))) =
      {''created:'' @ posix_join p | p. tracked (\<lambda>b. b) tests_before p = None \<and> tracked (\<lambda>b. b) tests_after p \<noteq> None}
      \<union> {''deleted:'' @ posix_join p | p. tracked (\<lambda>b. b) tests_before p \<noteq> None \<and> tracked (\<lambda>b. b) tests_after p = None}
      \<union> {''modified:'' @ posix_join p | p. tracked (\<lambda>b. b) tests_before p \<noteq> None
          \<and> tracked (\<lambda>b. b) tests_after p \<noteq> None \<and> tracked (\<lambda>b. b) tests_before p \<noteq> tracked (\<lambda>b. b) tests_after p}"
    (is "?changes = _")
    by (rule integrity_detects_tampering [of None "Some tests_before" None "Some tests_after" "\<lambda>b. b",
        unfolded Let_def sample_trees, OF sample_trees(4,5), THEN conjunct1])
  note detect = this
  have "''modified:t.py'' \<in> ?changes"
    unfolding detect by (intro UnI2 CollectI exI [of _ "[''t.py'']"]) (simp add: tokens)
  moreover have "''deleted:d/u.py'' \<in> ?changes"
    unfolding detect by (intro UnI1 [OF UnI2] CollectI exI [of _ "[''d'', ''u.py'']"]) (simp add: tokens)
  moreover have "manifest_changes (file_manifest (\<lambda>b. b) None (Some tests_before))
      (file_manifest (\<lambda>b. b) (Some tests_before) (Some (Link ToDir))) = []"
    using integrity_detects_tampering [of None "Some tests_before" "Some tests_before" "Some (Link ToDir)" "\<lambda>b. b",
        unfolded Let_def sample_trees, OF sample_trees(4,4), THEN conjunct2, THEN conjunct1]
    by (simp only: simp_thms)
  ultimately show ?thesis by (simp add: Let_def)
qed

section \<open>What the scans accept\<close>

text \<open>A loop that accepts or raises on each element, and prepends what it collects.\<close>

lemma fold_res_collect:
  assumes "\<And>x s s'. f x s = Inr s' \<longleftrightarrow> P x \<and> s' = g x @ s"
  shows "fold_res f xs s = Inr s' \<longleftrightarrow> (\<forall>x \<in> set xs. P x) \<and> s' = concat (map g (rev xs)) @ s"
  by (induction xs arbitrary: s) (auto simp: res_simps assms)

definition scan_file_ok :: "string list \<Rightarrow> string \<times> node \<Rightarrow> bool" where
  "scan_file_ok p e \<longleftrightarrow> \<not> is_git_name (fst e)
     \<and> (case snd e of File _ _ nlink \<Rightarrow> nlink \<le> 1 \<and> file_safe (posix_join (p @ [fst e])) | _ \<Rightarrow> False)"

definition scan_dir_ok :: "string \<times> node \<Rightarrow> bool" where
  "scan_dir_ok e \<longleftrightarrow> \<not> is_git_name (fst e) \<and> is_real_dir (snd e)"

lemma scan_file_entry_Inr:
  "scan_file_entry p e found = Inr found' \<longleftrightarrow> scan_file_ok p e \<and> found' = [posix_join (p @ [fst e])] @ found"
  by (cases e; cases "snd e") (auto simp: scan_file_entry_def scan_file_ok_def)

lemma scan_dir_entry_Inr: "scan_dir_entry e = Inr u \<longleftrightarrow> scan_dir_ok e"
  by (cases e; cases "snd e") (auto simp: scan_dir_entry_def scan_dir_ok_def)

definition visit_ok :: "visit \<Rightarrow> bool" where
  "visit_ok = (\<lambda>(p, ds, fs). (\<forall>e \<in> set ds. scan_dir_ok e) \<and> (\<forall>e \<in> set fs. scan_file_ok p e))"

definition visit_files :: "visit \<Rightarrow> string list" where
  "visit_files = (\<lambda>(p, ds, fs). map (\<lambda>e. posix_join (p @ [fst e])) (rev fs))"

lemma scan_visit_Inr:
  "scan_visit v found = Inr found' \<longleftrightarrow> visit_ok v \<and> found' = visit_files v @ found"
proof -
  obtain p ds fs where v: "v = (p, ds, fs)" by (cases v)
  have "fold_res (scan_file_entry p) fs found = Inr found' \<longleftrightarrow>
      (\<forall>e \<in> set fs. scan_file_ok p e) \<and> found' = concat (map (\<lambda>e. [posix_join (p @ [fst e])]) (rev fs)) @ found"
    by (rule fold_res_collect) (rule scan_file_entry_Inr)
  then show ?thesis
    by (simp add: v scan_visit_def visit_ok_def visit_files_def res_simps scan_dir_entry_Inr)
qed

lemma scan_workspace_files_Inr:
  "scan_workspace_files n = Inr found \<longleftrightarrow>
     (\<forall>v \<in> set (walk [] n). visit_ok v) \<and> found = concat (map visit_files (rev (walk [] n)))"
  unfolding scan_workspace_files_def
  using fold_res_collect [of scan_visit visit_ok visit_files, OF scan_visit_Inr] by simp

definition entry_admissible :: "string list \<Rightarrow> node \<Rightarrow> bool" where
  "entry_admissible p m \<longleftrightarrow> \<not> is_git_name (last p)
     \<and> (case m of Dir _ \<Rightarrow> True | File _ _ nlink \<Rightarrow> nlink \<le> 1 \<and> file_safe (posix_join p) | _ \<Rightarrow> False)"

lemma entry_admissible_iff:
  "entry_admissible (p @ [fst e]) (snd e) \<longleftrightarrow> (if is_dir_like (snd e) then scan_dir_ok e else scan_file_ok p e)"
  by (cases "snd e") (simp_all add: entry_admissible_def scan_dir_ok_def scan_file_ok_def)

definition visit_at :: "string list \<Rightarrow> (string \<times> node) list \<Rightarrow> visit" where
  "visit_at p es = (p, filter (\<lambda>e. is_dir_like (snd e)) es, filter (\<lambda>e. \<not> is_dir_like (snd e)) es)"

lemma walk_visit_at:
  assumes "wf_node n"
  shows "v \<in> set (walk [] n) \<longleftrightarrow> (\<exists>p es. node_at p n = Some (Dir es) \<and> v = visit_at p es)"
  using walk_visits [OF assms, of "fst v" "fst (snd v)" "snd (snd v)" "[]"]
  by (cases v) (auto simp: visit_at_def)

lemma visit_at_ok:
  "visit_ok (visit_at p es) \<longleftrightarrow> (\<forall>e \<in> set es. entry_admissible (p @ [fst e]) (snd e))"
  unfolding entry_admissible_iff visit_ok_def visit_at_def prod.case set_filter
  by (simp only: mem_Collect_eq Ball_def) metis

lemma walk_entries_ok:
  assumes "wf_node n"
  shows "(\<forall>v \<in> set (walk [] n). visit_ok v) \<longleftrightarrow>
    (\<forall>p es. node_at p n = Some (Dir es) \<longrightarrow> (\<forall>e \<in> set es. entry_admissible (p @ [fst e]) (snd e)))"
  unfolding Ball_def [of "set (walk [] n)"] walk_visit_at [OF assms] visit_at_ok [symmetric] by blast

lemma visit_at_files:
  "set (visit_files (visit_at p es)) = {posix_join (p @ [c]) | c m. (c, m) \<in> set es \<and> \<not> is_dir_like m}"
  by (auto simp: visit_files_def visit_at_def image_iff) blast+

lemma scan_files_found:
  assumes "wf_node n" "scan_workspace_files n = Inr found"
  shows "set found = {posix_join p | p b x l. p \<noteq> [] \<and> node_at p n = Some (File b x l)}"
proof -
  note scan = assms(2) [unfolded scan_workspace_files_Inr]
  have "k \<in> set found \<longleftrightarrow> (\<exists>v. v \<in> set (walk [] n) \<and> k \<in> set (visit_files v))" for k
    using scan by auto
  also have "\<dots> k \<longleftrightarrow> (\<exists>p es c m. node_at p n = Some (Dir es) \<and> (c, m) \<in> set es \<and> \<not> is_dir_like m
      \<and> k = posix_join (p @ [c]))" for k
    unfolding walk_visit_at [OF assms(1)] using visit_at_files by blast
  also have "\<dots> k \<longleftrightarrow> (\<exists>p c m. node_at (p @ [c]) n = Some m \<and> \<not> is_dir_like m \<and> k = posix_join (p @ [c]))" for k
    unfolding node_at_snoc [OF assms(1)] by blast
  also have "\<dots> k \<longleftrightarrow> (\<exists>p b x l. p \<noteq> [] \<and> node_at p n = Some (File b x l) \<and> k = posix_join p)"
    (is "?L k \<longleftrightarrow> ?R k") for k
  proof
    assume "?L k"
    then obtain p c m where m: "node_at (p @ [c]) n = Some m" "\<not> is_dir_like m" "k = posix_join (p @ [c])"
      by blast
    then obtain es where es: "node_at p n = Some (Dir es)" "(c, m) \<in> set es"
      using node_at_snoc [OF assms(1)] by blast
    have "entry_admissible (p @ [c]) m"
      using walk_entries_ok [OF assms(1)] scan es by fastforce
    then show "?R k" using m by (cases m) (auto simp: entry_admissible_def intro!: exI [of _ "p @ [c]"])
  next
    assume "?R k"
    then obtain p b x l where "p \<noteq> []" "node_at p n = Some (File b x l)" "k = posix_join p" by blast
    then show "?L k" by (metis is_dir_like.simps(3) rev_exhaust)
  qed
  finally show ?thesis by blast
qed

lemma scan_workspace_exact:
  assumes "wf_node n"
  shows "((\<exists>found. scan_workspace_files n = Inr found) \<longleftrightarrow>
      (\<forall>p m. p \<noteq> [] \<and> node_at p n = Some m \<longrightarrow> casefold (last p) \<noteq> ''.git'' \<and>
         (case m of Dir _ \<Rightarrow> True
          | File _ _ nlink \<Rightarrow> nlink \<le> 1 \<and> relative_path_error (PyStr (posix_join p)) = None
          | _ \<Rightarrow> False)))
    \<and> (\<forall>found. scan_workspace_files n = Inr found \<longrightarrow>
         set found = {posix_join p | p bytes executable nlink.
           p \<noteq> [] \<and> node_at p n = Some (File bytes executable nlink)})"
proof
  have "(\<exists>found. scan_workspace_files n = Inr found) \<longleftrightarrow>
      (\<forall>p es. node_at p n = Some (Dir es) \<longrightarrow> (\<forall>e \<in> set es. entry_admissible (p @ [fst e]) (snd e)))"
    unfolding scan_workspace_files_Inr walk_entries_ok [OF assms] by blast
  also have "\<dots> \<longleftrightarrow> (\<forall>p c m. node_at (p @ [c]) n = Some m \<longrightarrow> entry_admissible (p @ [c]) m)"
    unfolding node_at_snoc [OF assms] by fastforce
  also have "\<dots> \<longleftrightarrow> (\<forall>p m. p \<noteq> [] \<and> node_at p n = Some m \<longrightarrow> entry_admissible p m)"
    by (metis rev_exhaust snoc_eq_iff_butlast)
  finally show "(\<exists>found. scan_workspace_files n = Inr found) \<longleftrightarrow>
      (\<forall>p m. p \<noteq> [] \<and> node_at p n = Some m \<longrightarrow> casefold (last p) \<noteq> ''.git'' \<and>
         (case m of Dir _ \<Rightarrow> True
          | File _ _ nlink \<Rightarrow> nlink \<le> 1 \<and> relative_path_error (PyStr (posix_join p)) = None
          | _ \<Rightarrow> False))"
    unfolding entry_admissible_def is_git_name_def file_safe_def .
qed (use scan_files_found [OF assms] in blast)

text \<open>
  The scan of a patched workspace accepts it exactly when no entry at any depth is called
  \<open>.git\<close> in any case, and every entry is a real directory or a regular file with a single link and
  a path the policy admits; it then returns the paths of the files below the root, all of them and
  no others.
\<close>

theorem scan_accepts_exactly:
  assumes "wf_node n"
  shows "((\<exists>found. scan_workspace_files n = Inr found) \<longleftrightarrow>
      (\<forall>p m. p \<noteq> [] \<and> node_at p n = Some m \<longrightarrow> casefold (last p) \<noteq> ''.git'' \<and>
         (case m of Dir _ \<Rightarrow> True
          | File _ _ nlink \<Rightarrow> nlink \<le> 1 \<and> relative_path_error (PyStr (posix_join p)) = None
          | _ \<Rightarrow> False)))
    \<and> (\<forall>found. scan_workspace_files n = Inr found \<longrightarrow>
         set found = {posix_join p | p bytes executable nlink.
           p \<noteq> [] \<and> node_at p n = Some (File bytes executable nlink)})"
  using assms by (rule scan_workspace_exact)

definition patched_tree :: "string \<Rightarrow> node" where
  "patched_tree name = Dir [(''app.py'', File ''x'' False 1), (''d'', Dir [(name, Dir [])])]"

lemma scan_accepts_exactly_witness:
  "wf_node (patched_tree ''.GIT'') \<and> \<not> (\<exists>found. scan_workspace_files (patched_tree ''.GIT'') = Inr found)"
proof -
  have wf: "wf_node (patched_tree ''.GIT'')"
    by (simp add: patched_tree_def wf_node.simps(1))
  have "node_at [''d'', ''.GIT''] (patched_tree ''.GIT'') = Some (Dir [])" "casefold (last [''d'', ''.GIT'']) = ''.git''"
    by code_simp+
  then show ?thesis
    using wf scan_accepts_exactly [OF wf, THEN conjunct1] by (metis list.distinct(1))
qed

end
