(* ===== verification/Test_Executor.thy ===== *)
theory Test_Executor
  imports Results Workspace "HOL-Library.Sublist"
begin

text \<open>
  How fixture commands are run: \<open>arena/execution/commands.py\<close> (parsing and pinning the command),
  \<open>process.py\<close> (the bounded supervisor), \<open>hardening.py\<close> (the child's environment) and
  \<open>test_executor.py\<close> (the choice of backend and the loop over commands).

  The operating system and the docker command line are parameters, collected in \<open>executor_env\<close>:
  what a supervised child prints, how it ends and what it leaves of the workspace.
\<close>

section \<open>Splitting a command string\<close>

text \<open>
  \<open>shlex.split\<close> in its POSIX mode, as the standard library writes it: outside a token, inside one,
  inside quotes, and after a backslash (which remembers where to return to). \<open>quoted\<close> says that
  the current token had quotes, so that an empty one still counts.
\<close>

datatype lex_state = Blank | Word | Quoted char | Escaped char lex_state

datatype lex_error = NoClosingQuotation | NoEscapedCharacter

definition SHLEX_WHITESPACE :: string where
  "SHLEX_WHITESPACE = [CHR '' '', CHR 0x09, CHR 0x0D, CHR 0x0A]"

definition SHLEX_QUOTES :: string where "SHLEX_QUOTES = [CHR 0x27, CHR 0x22]"

definition BACKSLASH :: char where "BACKSLASH = CHR 0x5C"

fun shlex_scan :: "lex_state \<Rightarrow> bool \<Rightarrow> string \<Rightarrow> string \<Rightarrow> (lex_error, string list) res" where
  "shlex_scan Blank quoted token [] = Inr []"
| "shlex_scan Word quoted token [] = Inr [rev token]"
| "shlex_scan (Quoted q) quoted token [] = Inl NoClosingQuotation"
| "shlex_scan (Escaped e back) quoted token [] = Inl NoEscapedCharacter"
| "shlex_scan Blank quoted token (c # s) =
     (if c \<in> set SHLEX_WHITESPACE then shlex_scan Blank False [] s
      else if c = BACKSLASH then shlex_scan (Escaped c Word) False [] s
      else if c \<in> set SHLEX_QUOTES then shlex_scan (Quoted c) False [] s
      else shlex_scan Word False [c] s)"
| "shlex_scan (Quoted q) quoted token (c # s) =
     (if c = q then shlex_scan Word True token s
      else if c = BACKSLASH \<and> q = CHR 0x22 then shlex_scan (Escaped c (Quoted q)) True token s
      else shlex_scan (Quoted q) True (c # token) s)"
| "shlex_scan (Escaped e back) quoted token (c # s) =
     (case back of
        Quoted q \<Rightarrow>
          if c \<noteq> e \<and> c \<noteq> q then shlex_scan back quoted (c # e # token) s
          else shlex_scan back quoted (c # token) s
      | _ \<Rightarrow> shlex_scan back quoted (c # token) s)"
| "shlex_scan Word quoted token (c # s) =
     (if c \<in> set SHLEX_WHITESPACE
      then (if token \<noteq> [] \<or> quoted
            then and_then (shlex_scan Blank False [] s) (\<lambda>rest. Inr (rev token # rest))
            else shlex_scan Blank quoted token s)
      else if c \<in> set SHLEX_QUOTES then shlex_scan (Quoted c) quoted token s
      else if c = BACKSLASH then shlex_scan (Escaped c Word) quoted token s
      else shlex_scan Word quoted (c # token) s)"

definition shlex_split :: "string \<Rightarrow> (lex_error, string list) res" where
  "shlex_split s = shlex_scan Blank False [] s"

section \<open>Commands\<close>

definition SHELL_OPERATORS :: "string list" where
  "SHELL_OPERATORS = [''&&'', ''||'', '';'', ''|'', ''>'', ''>>'', ''<'', ''<<'', ''&'']"

text \<open>\<open>PurePosixPath(p).name\<close>: the last component that is neither empty nor a dot.\<close>

definition posix_name :: "string \<Rightarrow> string" where
  "posix_name p =
     (let parts = filter (\<lambda>c. c \<noteq> [] \<and> c \<noteq> ''.'') (split_on CHR ''/'' p)
      in if parts = [] then [] else last parts)"

definition pin_interpreter :: "string \<Rightarrow> string list \<Rightarrow> string list" where
  "pin_interpreter sys_executable argv =
     (let program = posix_name (hd argv) in
      if program = ''pytest'' then sys_executable # ''-m'' # ''pytest'' # tl argv
      else if program \<in> set [''python'', ''python3''] then sys_executable # tl argv
      else argv)"

definition pin_container_interpreter :: "string list \<Rightarrow> string list" where
  "pin_container_interpreter argv =
     (let program = posix_name (hd argv) in
      if program = ''pytest'' then ''python'' # ''-m'' # ''pytest'' # tl argv
      else if program \<in> set [''python'', ''python3''] then ''python'' # tl argv
      else argv)"

datatype command_error =
  EmptyCommand | UsesShellOperator string | LooksLikeShell string | NotParseable lex_error

definition validate_argv :: "string list \<Rightarrow> (command_error, string list) res" where
  "validate_argv argv =
     (if argv = [] then Inl EmptyCommand
      else case find (\<lambda>token. token \<in> set SHELL_OPERATORS) argv of
        Some token \<Rightarrow> Inl (UsesShellOperator token)
      | None \<Rightarrow>
          (if list_ex (\<lambda>operator. contains_sub operator (hd argv)) ['';'', ''|'', ''&'']
           then Inl (LooksLikeShell (hd argv)) else Inr argv))"

definition collect_argv ::
  "string list \<Rightarrow> string list list \<Rightarrow> (command_error, string list list) res" where
  "collect_argv item acc = and_then (validate_argv item) (\<lambda>argv. Inr (acc @ [argv]))"

fun parse_test_commands :: "test_command option \<Rightarrow> (command_error, string list list) res" where
  "parse_test_commands None = Inr []"
| "parse_test_commands (Some (CommandString s)) =
     (if py_strip s = [] then Inr []
      else case shlex_split s of
        Inl e \<Rightarrow> Inl (NotParseable e)
      | Inr argv \<Rightarrow> and_then (validate_argv argv) (\<lambda>argv. Inr [argv]))"
| "parse_test_commands (Some (ArgvCommand argv)) =
     (if argv = [] then Inr [] else and_then (validate_argv argv) (\<lambda>argv. Inr [argv]))"
| "parse_test_commands (Some (ArgvSequence items)) = fold_res collect_argv items []"

section \<open>The supervisor\<close>

record supervised_result =
  sv_returncode :: "int option"
  sv_stdout :: string
  sv_stderr :: string
  sv_timed_out :: bool
  sv_output_limit_exceeded :: bool

text \<open>
  \<open>_pump\<close> on what the operating system delivers before the deadline: a list of rounds, one per
  return of \<open>select\<close>, each with what was read from the streams that were ready (an empty chunk is
  the end of the stream). When the rounds run out with a stream still open, the deadline passes.
\<close>

datatype stream = StdOut | StdErr

datatype read_result = WouldBlock | Bytes string

record buffers =
  bu_out :: string
  bu_err :: string
  bu_open :: "stream list"

fun read_stream :: "stream \<times> read_result \<Rightarrow> buffers \<Rightarrow> buffers" where
  "read_stream (k, WouldBlock) b = b"
| "read_stream (k, Bytes chunk) b =
     (if chunk = [] then b\<lparr>bu_open := removeAll k (bu_open b)\<rparr>
      else case k of
        StdOut \<Rightarrow> b\<lparr>bu_out := bu_out b @ chunk\<rparr>
      | StdErr \<Rightarrow> b\<lparr>bu_err := bu_err b @ chunk\<rparr>)"

definition trim_combined :: "string \<Rightarrow> string \<Rightarrow> nat \<Rightarrow> string \<times> string" where
  "trim_combined out err limit =
     (let overflow = length out + length err - limit;
          trim_err = min (length err) overflow
      in if overflow = 0 then (out, err)
         else (take (length out - (overflow - trim_err)) out, take (length err - trim_err) err))"

fun pump ::
  "nat option \<Rightarrow> buffers \<Rightarrow> (stream \<times> read_result) list list \<Rightarrow> (string \<times> string) \<times> bool \<times> bool" where
  "pump limit b [] = ((bu_out b, bu_err b), False, bu_open b \<noteq> [])"
| "pump limit b (ready # rounds) =
     (if bu_open b = [] then ((bu_out b, bu_err b), False, False)
      else let b' = fold read_stream ready b in
        case limit of
          Some l \<Rightarrow>
            if length (bu_out b') + length (bu_err b') > l
            then (trim_combined (bu_out b') (bu_err b') l, True, False)
            else pump limit b' rounds
        | None \<Rightarrow> pump limit b' rounds)"

definition no_output :: buffers where
  "no_output = \<lparr>bu_out = [], bu_err = [], bu_open = [StdOut, StdErr]\<rparr>"

text \<open>
  \<open>_run_posix\<close>: \<open>ended\<close> gives the return code once the group was left alone (\<open>False\<close>) or
  terminated (\<open>True\<close>), and \<open>decode_replace\<close> is the decoding with replacement characters.
\<close>

definition run_posix ::
  "(string \<Rightarrow> string) \<Rightarrow> nat option \<Rightarrow> (stream \<times> read_result) list list \<Rightarrow> (bool \<Rightarrow> int option)
   \<Rightarrow> supervised_result" where
  "run_posix decode_replace output_limit rounds ended =
     (case pump output_limit no_output rounds of
        ((out, err), exceeded, timed_out) \<Rightarrow>
          \<lparr>sv_returncode = ended (timed_out \<or> exceeded), sv_stdout = decode_replace out,
           sv_stderr = decode_replace err, sv_timed_out = timed_out,
           sv_output_limit_exceeded = exceeded\<rparr>)"

section \<open>The environment of a child\<close>

type_synonym env = "(string \<times> string) list"

definition SAFE_ENV_KEYS :: "string list" where
  "SAFE_ENV_KEYS = [''PATH'', ''LANG'', ''LC_ALL'', ''LC_CTYPE'', ''SYSTEMROOT'', ''COMSPEC'', ''PATHEXT'']"

definition forward_var :: "(string \<rightharpoonup> string) \<Rightarrow> string \<Rightarrow> env \<Rightarrow> env" where
  "forward_var environ name e = (case environ name of None \<Rightarrow> e | Some v \<Rightarrow> alist_put name v e)"

definition passthrough_names :: "(string \<rightharpoonup> string) \<Rightarrow> string list" where
  "passthrough_names environ =
     filter (\<lambda>name. name \<noteq> [])
       (map py_strip (split_on CHR '','' (case environ ''ARENA_PASSTHROUGH_ENV'' of None \<Rightarrow> [] | Some v \<Rightarrow> v)))"

definition put_all :: "env \<Rightarrow> env \<Rightarrow> env" where
  "put_all extra e = fold (\<lambda>(k, v). alist_put k v) extra e"

definition sandbox_env :: "(string \<rightharpoonup> string) \<Rightarrow> env \<Rightarrow> env" where
  "sandbox_env environ extra =
     put_all extra
       (alist_put ''PYTHONDONTWRITEBYTECODE'' ''1''
         (fold (forward_var environ) (passthrough_names environ)
           (fold (forward_var environ) SAFE_ENV_KEYS [])))"

definition sandboxed_home_env :: "(string \<rightharpoonup> string) \<Rightarrow> string \<Rightarrow> env \<Rightarrow> env" where
  "sandboxed_home_env environ home extra =
     put_all [(''HOME'', home), (''TMPDIR'', home), (''TEMP'', home), (''TMP'', home)]
       (sandbox_env environ extra)"

text \<open>\<open>_clamped\<close>, with \<open>None\<close> for an infinite hard limit.\<close>

definition clamped :: "int option \<Rightarrow> int \<Rightarrow> int \<times> int" where
  "clamped hard desired =
     (let cap = (case hard of None \<Rightarrow> desired | Some h \<Rightarrow> min desired h) in (cap, cap))"

section \<open>Test execution\<close>

record test_request =
  tq_case_id :: string
  tq_workspace_path :: string
  tq_test_command :: test_command
  tq_timeout_seconds :: int
  tq_docker_image :: "string option"
  tq_allow_local_execution :: bool
  tq_readonly_paths :: "string list"

definition OUTPUT_LIMIT_BYTES :: nat where "OUTPUT_LIMIT_BYTES = 512000"

text \<open>
  What lies outside. \<open>xe_docker\<close> is a run of the docker command line (return code, standard
  output); \<open>xe_run\<close> is a supervised child given its command line, environment and workspace:
  \<open>None\<close> if it could not be started, else its result, duration and the workspace it leaves.
  \<open>xe_mount_source\<close> resolves a path of the workspace if it exists, \<open>xe_uuid\<close> numbers the containers.
\<close>

record executor_env =
  xe_win32 :: bool
  xe_sys_executable :: string
  xe_environ :: "string \<rightharpoonup> string"
  xe_environ_list :: env
  xe_home :: string
  xe_uid :: nat
  xe_gid :: nat
  xe_has_docker :: bool
  xe_docker :: "string list \<Rightarrow> int \<times> string"
  xe_remove_hangs :: "string \<Rightarrow> bool"
  xe_uuid :: "nat \<Rightarrow> string"
  xe_mount_source :: "string \<Rightarrow> string option"
  xe_describe :: "command_error \<Rightarrow> string"
  xe_run :: "string list \<Rightarrow> env \<Rightarrow> int \<Rightarrow> node \<Rightarrow> (supervised_result \<times> int \<times> node) option"

datatype run_error = UnsupportedPlatform | CannotStart | RemoveTimedOut

definition skipped :: "string \<Rightarrow> string \<Rightarrow> test_execution_result" where
  "skipped slug error =
     \<lparr>te_case_id = slug, te_ran = False, te_passed = False, te_exit_code = None, te_stdout = [],
      te_stderr = [], te_duration_ms = 0, te_timed_out = False, te_execution_mode = ModeSkipped,
      te_error = Some error, te_image_digest = None\<rparr>"

definition docker_available :: "executor_env \<Rightarrow> bool" where
  "docker_available xe \<longleftrightarrow>
     xe_has_docker xe \<and> fst (xe_docker xe [''version'', ''--format'', ''{{.Server.Version}}'']) = 0"

definition image_present :: "executor_env \<Rightarrow> string \<Rightarrow> bool" where
  "image_present xe image_ref =
     (let (returncode, out) = xe_docker xe [''image'', ''ls'', ''-q'', image_ref]
      in returncode = 0 \<and> py_strip out \<noteq> [])"

definition image_digest :: "executor_env \<Rightarrow> string option \<Rightarrow> string option" where
  "image_digest xe image_ref =
     (case image_ref of
        None \<Rightarrow> None
      | Some i \<Rightarrow>
          if i = [] then None
          else let digest = py_strip (snd (xe_docker xe
                 [''image'', ''inspect'', i, ''--format'', ''{{index .RepoDigests 0}}'']))
               in if digest = [] then None else Some digest)"

definition slug_char :: "char \<Rightarrow> char" where
  "slug_char c = (if is_ascii_alnum c \<or> c \<in> set ''_.-'' then c else CHR ''-'')"

definition container_name :: "executor_env \<Rightarrow> string \<Rightarrow> nat \<Rightarrow> string" where
  "container_name xe slug i =
     ''arena-'' @ take 40 (map slug_char slug) @ ''-'' @ take 8 (xe_uuid xe i)"

definition getenv :: "executor_env \<Rightarrow> string \<Rightarrow> string \<Rightarrow> string" where
  "getenv xe key fallback = (case xe_environ xe key of None \<Rightarrow> fallback | Some v \<Rightarrow> v)"

definition readonly_mount :: "executor_env \<Rightarrow> string \<Rightarrow> string list" where
  "readonly_mount xe relative =
     (case xe_mount_source xe relative of
        None \<Rightarrow> []
      | Some src \<Rightarrow> [''-v'', src @ '':'' @ ''/workspace/'' @ relative @ '':ro''])"

definition container_options :: "executor_env \<Rightarrow> test_request \<Rightarrow> string \<Rightarrow> string list" where
  "container_options xe q name =
     [''docker'', ''run'', ''--rm'', ''--pull'', ''never'', ''--name'', name, ''--network'', ''none'',
      ''--cap-drop'', ''ALL'', ''--security-opt'', ''no-new-privileges'',
      ''--pids-limit'', getenv xe ''ARENA_DOCKER_PIDS'' ''256'',
      ''--memory'', getenv xe ''ARENA_DOCKER_MEMORY'' ''2g'',
      ''--cpus'', getenv xe ''ARENA_DOCKER_CPUS'' ''2'', ''--read-only'',
      ''--tmpfs'', ''/tmp:rw,noexec,nosuid,size='' @ getenv xe ''ARENA_DOCKER_TMPFS_SIZE'' ''256m'',
      ''-e'', ''PYTHONDONTWRITEBYTECODE=1'', ''-e'', ''PYTEST_DISABLE_PLUGIN_AUTOLOAD=1'',
      ''-e'', ''HOME=/tmp'', ''-v'', tq_workspace_path q @ '':/workspace'', ''-w'', ''/workspace'']
     @ concat (map (readonly_mount xe) (tq_readonly_paths q))
     @ (if xe_win32 xe then []
        else [''--user'', nat_str (xe_uid xe) @ '':'' @ nat_str (xe_gid xe)])"

definition docker_args ::
  "executor_env \<Rightarrow> test_request \<Rightarrow> string \<Rightarrow> string list \<Rightarrow> string \<Rightarrow> string list" where
  "docker_args xe q image_ref argv name =
     container_options xe q name @ image_ref # pin_container_interpreter argv"

text \<open>
  The mounted paths are the case's test directory, which satisfies the directory policy, so joining it
  to \<open>/workspace\<close> changes nothing in it. \<open>tq_workspace_path\<close> is the resolved path.
\<close>

text \<open>\<open>_run\<close>: one command in one backend, with what it leaves of the workspace.\<close>

definition verdict ::
  "test_request \<Rightarrow> execution_mode \<Rightarrow> supervised_result \<Rightarrow> int \<Rightarrow> test_execution_result" where
  "verdict q mode r duration_ms =
     \<lparr>te_case_id = tq_case_id q, te_ran = True,
      te_passed = (\<not> sv_timed_out r \<and> sv_returncode r = Some 0),
      te_exit_code = (if sv_timed_out r then None else sv_returncode r),
      te_stdout = sv_stdout r, te_stderr = sv_stderr r, te_duration_ms = duration_ms,
      te_timed_out = sv_timed_out r, te_execution_mode = mode,
      te_error = (if sv_timed_out r then Some ''test_execution_timed_out'' else None),
      te_image_digest = None\<rparr>"

definition supervise ::
  "executor_env \<Rightarrow> string list \<Rightarrow> env \<Rightarrow> int \<Rightarrow> node
   \<Rightarrow> (run_error, supervised_result \<times> int) res \<times> node" where
  "supervise xe args env timeout workspace =
     (if xe_win32 xe then (Inl UnsupportedPlatform, workspace)
      else case xe_run xe args env timeout workspace of
        None \<Rightarrow> (Inl CannotStart, workspace)
      | Some (r, duration_ms, workspace') \<Rightarrow> (Inr (r, duration_ms), workspace'))"

definition run_local ::
  "executor_env \<Rightarrow> test_request \<Rightarrow> string list \<Rightarrow> node
   \<Rightarrow> (run_error, test_execution_result) res \<times> node" where
  "run_local xe q argv workspace =
     (case supervise xe (pin_interpreter (xe_sys_executable xe) argv)
             (sandboxed_home_env (xe_environ xe) (xe_home xe)
                [(''PYTEST_DISABLE_PLUGIN_AUTOLOAD'', ''1'')])
             (tq_timeout_seconds q) workspace of
        (Inl e, workspace') \<Rightarrow> (Inl e, workspace')
      | (Inr (r, duration_ms), workspace') \<Rightarrow> (Inr (verdict q ModeLocal r duration_ms), workspace'))"

definition run_docker ::
  "executor_env \<Rightarrow> test_request \<Rightarrow> string \<Rightarrow> string list \<Rightarrow> nat \<Rightarrow> node
   \<Rightarrow> (run_error, test_execution_result) res \<times> node" where
  "run_docker xe q image_ref argv i workspace =
     (let name = container_name xe (tq_case_id q) i in
      case supervise xe (docker_args xe q image_ref argv name)
             (alist_put ''PYTHONDONTWRITEBYTECODE'' ''1'' (xe_environ_list xe))
             (tq_timeout_seconds q) workspace of
        (Inl e, workspace') \<Rightarrow> (Inl e, workspace')
      | (Inr (r, duration_ms), workspace') \<Rightarrow>
          (if sv_timed_out r \<and> xe_remove_hangs xe name then (Inl RemoveTimedOut, workspace')
           else (Inr (verdict q ModeDocker r duration_ms), workspace')))"

text \<open>The loop over the commands, which stops at the first that does not pass.\<close>

fun run_commands ::
  "(string list \<Rightarrow> nat \<Rightarrow> node \<Rightarrow> (run_error, test_execution_result) res \<times> node)
   \<Rightarrow> nat \<Rightarrow> string list list \<Rightarrow> node \<Rightarrow> (run_error, test_execution_result list) res \<times> node" where
  "run_commands run i [] workspace = (Inr [], workspace)"
| "run_commands run i (argv # commands) workspace =
     (case run argv i workspace of
        (Inl e, workspace') \<Rightarrow> (Inl e, workspace')
      | (Inr r, workspace') \<Rightarrow>
          (if \<not> te_passed r then (Inr [r], workspace')
           else case run_commands run (i + 1) commands workspace' of
             (Inl e, workspace'') \<Rightarrow> (Inl e, workspace'')
           | (Inr rs, workspace'') \<Rightarrow> (Inr (r # rs), workspace'')))"

definition combined :: "string \<Rightarrow> test_execution_result list \<Rightarrow> execution_mode \<Rightarrow> test_execution_result" where
  "combined slug results mode =
     (let final = last results in
      if length results = 1 then final
      else \<lparr>te_case_id = slug, te_ran = True, te_passed = list_all te_passed results,
            te_exit_code = te_exit_code final,
            te_stdout = join_with [CHR 0x0A] (filter (\<lambda>s. s \<noteq> []) (map te_stdout results)),
            te_stderr = join_with [CHR 0x0A] (filter (\<lambda>s. s \<noteq> []) (map te_stderr results)),
            te_duration_ms = sum_list (map te_duration_ms results),
            te_timed_out = list_ex te_timed_out results, te_execution_mode = mode,
            te_error = te_error final, te_image_digest = None\<rparr>)"

definition given :: "string option \<Rightarrow> bool" where
  "given x \<longleftrightarrow> x \<noteq> None \<and> x \<noteq> Some []"

definition execute ::
  "executor_env \<Rightarrow> test_request \<Rightarrow> node option
   \<Rightarrow> (run_error, test_execution_result) res \<times> node option" where
  "execute xe q workspace =
     (let skip = (\<lambda>error. (Inr (skipped (tq_case_id q) error), workspace)) in
      case workspace of
        None \<Rightarrow> skip ''workspace_not_found''
      | Some tree \<Rightarrow>
          if \<not> is_dir_like tree then skip ''workspace_not_found''
          else case parse_test_commands (Some (tq_test_command q)) of
            Inl e \<Rightarrow> skip (''invalid_test_command: '' @ xe_describe xe e)
          | Inr commands \<Rightarrow>
              if commands = [] then skip ''empty_test_command''
              else if given (tq_docker_image q) then
                (let image_ref = the (tq_docker_image q) in
                 if \<not> docker_available xe then skip ''docker_required_but_unavailable''
                 else if \<not> image_present xe image_ref then skip ''docker_image_not_present''
                 else case run_commands (run_docker xe q image_ref) 0 commands tree of
                   (Inl e, tree') \<Rightarrow> (Inl e, Some tree')
                 | (Inr results, tree') \<Rightarrow>
                     (Inr ((combined (tq_case_id q) results ModeDocker)
                        \<lparr>te_image_digest := image_digest xe (tq_docker_image q)\<rparr>), Some tree'))
              else if tq_allow_local_execution q then
                (case run_commands (\<lambda>argv _. run_local xe q argv) 0 commands tree of
                   (Inl e, tree') \<Rightarrow> (Inl e, Some tree')
                 | (Inr results, tree') \<Rightarrow> (Inr (combined (tq_case_id q) results ModeLocal), Some tree'))
              else skip ''local_execution_disabled'')"

section \<open>Bounded output\<close>

definition read_bytes :: "stream \<Rightarrow> stream \<times> read_result \<Rightarrow> string" where
  "read_bytes k r = (case r of (k', Bytes chunk) \<Rightarrow> if k' = k then chunk else [] | _ \<Rightarrow> [])"

definition stream_bytes :: "stream \<Rightarrow> (stream \<times> read_result) list list \<Rightarrow> string" where
  "stream_bytes k rounds = concat (map (read_bytes k) (concat rounds))"

lemma fold_read_stream:
  "bu_out (fold read_stream ready b) = bu_out b @ concat (map (read_bytes StdOut) ready)"
  "bu_err (fold read_stream ready b) = bu_err b @ concat (map (read_bytes StdErr) ready)"
proof (induction ready arbitrary: b)
  case (Cons r ready)
  {
    case 1
    show ?case
      by (cases "(r, b)" rule: read_stream.cases) (auto simp: Cons.IH read_bytes_def split: stream.split)
  next
    case 2
    show ?case
      by (cases "(r, b)" rule: read_stream.cases) (auto simp: Cons.IH read_bytes_def split: stream.split)
  }
qed simp_all

lemma trim_combined_spec:
  assumes "limit \<le> length out + length err" "trim_combined out err limit = (o', e')"
  shows "prefix o' out \<and> prefix e' err \<and> length o' + length e' = limit"
  using assms by (auto simp: trim_combined_def Let_def take_is_prefix split: if_splits)

lemma pump_spec:
  assumes "length (bu_out b) + length (bu_err b) \<le> l"
    "pump (Some l) b rounds = ((out, err), exceeded, timed_out)"
  shows "\<exists>n. prefix out (bu_out b @ stream_bytes StdOut (take n rounds))
      \<and> prefix err (bu_err b @ stream_bytes StdErr (take n rounds))
      \<and> length out + length err \<le> l
      \<and> (if exceeded then length out + length err = l \<and> \<not> timed_out
         else out = bu_out b @ stream_bytes StdOut (take n rounds)
            \<and> err = bu_err b @ stream_bytes StdErr (take n rounds))"
  using assms
proof (induction rounds arbitrary: b)
  case Nil
  then show ?case by (auto simp: stream_bytes_def)
next
  case (Cons ready rounds)
  let ?b = "fold read_stream ready b"
  consider "bu_open b = []" | "bu_open b \<noteq> []" "length (bu_out ?b) + length (bu_err ?b) > l"
    | "bu_open b \<noteq> []" "length (bu_out ?b) + length (bu_err ?b) \<le> l" by linarith
  then show ?case
  proof cases
    case 1
    then show ?thesis using Cons.prems by (intro exI [of _ 0]) (auto simp: stream_bytes_def)
  next
    case 2
    then have "trim_combined (bu_out ?b) (bu_err ?b) l = (out, err)" "exceeded" "\<not> timed_out"
      using Cons.prems(2) by (auto simp: Let_def)
    then show ?thesis
      using trim_combined_spec [of l "bu_out ?b" "bu_err ?b" out err] 2(2)
      by (intro exI [of _ 1]) (simp add: stream_bytes_def fold_read_stream)
  next
    case 3
    then have "pump (Some l) ?b rounds = ((out, err), exceeded, timed_out)"
      using Cons.prems(2) by (simp add: Let_def)
    from Cons.IH [OF 3(2) this] obtain n where
      "prefix out (bu_out ?b @ stream_bytes StdOut (take n rounds))
      \<and> prefix err (bu_err ?b @ stream_bytes StdErr (take n rounds))
      \<and> length out + length err \<le> l
      \<and> (if exceeded then length out + length err = l \<and> \<not> timed_out
         else out = bu_out ?b @ stream_bytes StdOut (take n rounds)
            \<and> err = bu_err ?b @ stream_bytes StdErr (take n rounds))" ..
    then show ?thesis
      by (intro exI [of _ "Suc n"]) (simp add: stream_bytes_def fold_read_stream)
  qed
qed

text \<open>
  Whatever a child prints, the harness keeps at most the limit, standard output first: the kept
  texts are what the two streams delivered up to some point, whole when the limit was not exceeded,
  and exactly the limit in total when it was. Exceeding the limit and timing out exclude each other.
\<close>

theorem supervised_output_bounded:
  "case pump (Some l) no_output rounds of ((out, err), exceeded, timed_out) \<Rightarrow>
     \<exists>n. prefix out (stream_bytes StdOut (take n rounds))
       \<and> prefix err (stream_bytes StdErr (take n rounds))
       \<and> length out + length err \<le> l
       \<and> (if exceeded then length out + length err = l \<and> \<not> timed_out
          else out = stream_bytes StdOut (take n rounds) \<and> err = stream_bytes StdErr (take n rounds))"
proof -
  obtain out err exceeded timed_out where
    p: "pump (Some l) no_output rounds = ((out, err), exceeded, timed_out)" by (metis prod.exhaust)
  have start: "bu_out no_output = []" "bu_err no_output = []" by (simp_all add: no_output_def)
  then have "length (bu_out no_output) + length (bu_err no_output) \<le> l" by simp
  from pump_spec [OF this p] show ?thesis
    unfolding p prod.case start append_Nil .
qed

section \<open>The choice of the backend\<close>

lemma run_commands_modes:
  assumes "run_commands run i commands w = (Inr results, w')"
    and "\<And>argv i w r w'. run argv i w = (Inr r, w') \<Longrightarrow> te_execution_mode r = mode"
  shows "list_all (\<lambda>r. te_execution_mode r = mode) results \<and> (commands \<noteq> [] \<longleftrightarrow> results \<noteq> [])"
  using assms(1)
proof (induction commands arbitrary: i w results)
  case (Cons argv commands)
  then show ?case
    using assms(2) by (auto split: prod.splits sum.splits if_splits)
qed simp

lemma combined_mode:
  "list_all (\<lambda>r. te_execution_mode r = mode) results \<Longrightarrow> results \<noteq> [] \<Longrightarrow>
   te_execution_mode (combined slug results mode) = mode"
  by (auto simp: combined_def Let_def list_all_iff)

lemma run_modes:
  "run_local xe q argv w = (Inr r, w') \<Longrightarrow> te_execution_mode r = ModeLocal"
  "run_docker xe q image_ref argv i w = (Inr r, w') \<Longrightarrow> te_execution_mode r = ModeDocker"
  by (auto simp: run_local_def run_docker_def verdict_def Let_def split: prod.splits sum.splits if_splits)

lemma skipped_simps [simp]:
  "te_execution_mode (skipped slug e) = ModeSkipped" "te_ran (skipped slug e) = False"
  "te_passed (skipped slug e) = False"
  by (simp_all add: skipped_def)

text \<open>What \<open>execute\<close> decides before anything runs: a reason to skip, or the backend and the commands.\<close>

definition plan :: "executor_env \<Rightarrow> test_request \<Rightarrow> (string, execution_mode \<times> string list list) res" where
  "plan xe q =
     (case parse_test_commands (Some (tq_test_command q)) of
        Inl e \<Rightarrow> Inl (''invalid_test_command: '' @ xe_describe xe e)
      | Inr commands \<Rightarrow>
          if commands = [] then Inl ''empty_test_command''
          else if given (tq_docker_image q) then
            (if \<not> docker_available xe then Inl ''docker_required_but_unavailable''
             else if \<not> image_present xe (the (tq_docker_image q)) then Inl ''docker_image_not_present''
             else Inr (ModeDocker, commands))
          else if tq_allow_local_execution q then Inr (ModeLocal, commands)
          else Inl ''local_execution_disabled'')"

definition runner_of ::
  "executor_env \<Rightarrow> test_request \<Rightarrow> execution_mode \<Rightarrow> string list \<Rightarrow> nat \<Rightarrow> node
   \<Rightarrow> (run_error, test_execution_result) res \<times> node" where
  "runner_of xe q mode =
     (if mode = ModeDocker then run_docker xe q (the (tq_docker_image q))
      else (\<lambda>argv _. run_local xe q argv))"

definition finish :: "executor_env \<Rightarrow> test_request \<Rightarrow> execution_mode \<Rightarrow> test_execution_result list \<Rightarrow> test_execution_result" where
  "finish xe q mode results =
     (let r = combined (tq_case_id q) results mode in
      if mode = ModeDocker then r\<lparr>te_image_digest := image_digest xe (tq_docker_image q)\<rparr> else r)"

lemma execute_plan:
  "execute xe q workspace =
     (case workspace of
        None \<Rightarrow> (Inr (skipped (tq_case_id q) ''workspace_not_found''), workspace)
      | Some tree \<Rightarrow>
          if \<not> is_dir_like tree then (Inr (skipped (tq_case_id q) ''workspace_not_found''), workspace)
          else case plan xe q of
            Inl error \<Rightarrow> (Inr (skipped (tq_case_id q) error), workspace)
          | Inr (mode, commands) \<Rightarrow>
              (case run_commands (runner_of xe q mode) 0 commands tree of
                 (Inl e, tree') \<Rightarrow> (Inl e, Some tree')
               | (Inr results, tree') \<Rightarrow> (Inr (finish xe q mode results), Some tree')))"
  by (simp add: execute_def plan_def runner_of_def finish_def Let_def
      split: option.split sum.split prod.split)

lemma plan_Inr:
  "plan xe q = Inr (mode, commands) \<longleftrightarrow>
     parse_test_commands (Some (tq_test_command q)) = Inr commands \<and> commands \<noteq> []
     \<and> (if given (tq_docker_image q)
        then mode = ModeDocker \<and> docker_available xe \<and> image_present xe (the (tq_docker_image q))
        else mode = ModeLocal \<and> tq_allow_local_execution q)"
  by (auto simp: plan_def split: sum.splits)

lemma plan_any_run: "plan (xe\<lparr>xe_run := any_run\<rparr>) q = plan xe q"
  by (simp add: plan_def docker_available_def image_present_def split: sum.split)

lemma finish_mode:
  assumes "plan xe q = Inr (mode, commands)"
    and "run_commands (runner_of xe q mode) 0 commands tree = (Inr results, tree')"
  shows "te_execution_mode (finish xe q mode results) = mode"
proof -
  have "mode = ModeDocker \<or> mode = ModeLocal" "commands \<noteq> []"
    using assms(1) by (auto simp: plan_Inr split: if_splits)
  then have "te_execution_mode r = mode" if "runner_of xe q mode argv i w = (Inr r, w')" for argv i w r w'
    using that run_modes by (auto simp: runner_of_def)
  from run_commands_modes [OF assms(2) this] \<open>commands \<noteq> []\<close>
  have "te_execution_mode (combined (tq_case_id q) results mode) = mode"
    by (intro combined_mode) auto
  then show ?thesis by (cases "mode = ModeDocker") (simp_all add: finish_def Let_def)
qed

text \<open>
  C8: there is no silent fallback between backends. A result from docker means that the case names an
  image, that docker answered and that the image was already there; a local result means that the
  case names no image and local execution was allowed; in every other case the request is skipped: no
  child is started (the outcome does not depend on what one would do), the workspace is untouched
  and nothing passed.
\<close>

theorem execute_backend_policy:
  "case execute xe q workspace of
     (Inl e, _) \<Rightarrow> given (tq_docker_image q) \<and> docker_available xe \<or> tq_allow_local_execution q
   | (Inr r, workspace') \<Rightarrow>
       (case te_execution_mode r of
          ModeDocker \<Rightarrow> given (tq_docker_image q) \<and> docker_available xe
            \<and> image_present xe (the (tq_docker_image q))
        | ModeLocal \<Rightarrow> \<not> given (tq_docker_image q) \<and> tq_allow_local_execution q
        | ModeSkipped \<Rightarrow> \<not> te_ran r \<and> \<not> te_passed r \<and> workspace' = workspace
            \<and> execute (xe\<lparr>xe_run := any_run\<rparr>) q workspace = (Inr r, workspace))"
proof (cases "\<exists>tree mode commands. workspace = Some tree \<and> is_dir_like tree \<and> plan xe q = Inr (mode, commands)")
  case True
  then obtain tree mode commands where w: "workspace = Some tree" "is_dir_like tree"
    and p: "plan xe q = Inr (mode, commands)" by blast
  have m: "if given (tq_docker_image q)
      then mode = ModeDocker \<and> docker_available xe \<and> image_present xe (the (tq_docker_image q))
      else mode = ModeLocal \<and> tq_allow_local_execution q"
    using p by (simp add: plan_Inr)
  obtain r tree' where run: "run_commands (runner_of xe q mode) 0 commands tree = (r, tree')" by fastforce
  show ?thesis
  proof (cases r)
    case (Inl e)
    then show ?thesis using w p run m by (auto simp: execute_plan split: if_splits)
  next
    case (Inr results)
    then show ?thesis
      using w p run m finish_mode [OF p, of tree results tree'] by (auto simp: execute_plan split: if_splits)
  qed
next
  case False
  have "\<exists>e. \<forall>x. plan x q = plan xe q \<longrightarrow>
      execute x q workspace = (Inr (skipped (tq_case_id q) e), workspace)"
  proof (cases workspace)
    case (Some tree)
    then show ?thesis using False by (cases "plan xe q") (auto simp: execute_plan)
  qed (auto simp: execute_plan)
  then obtain e where "execute x q workspace = (Inr (skipped (tq_case_id q) e), workspace)"
    if "plan x q = plan xe q" for x by blast
  note outcome = this [OF refl] this [OF plan_any_run]
  show ?thesis by (simp add: outcome)
qed

section \<open>The image reference\<close>

definition option_as_image :: execution_config where
  "option_as_image =
     \<lparr>ex_run_tests = True,
      ex_test_command = Some (ArgvCommand [''stdout'', ''--privileged'', ''-v'', ''/:/host'', ''img'', ''sh'']),
      ex_timeout_seconds = 1, ex_docker_image = Some ''-a'', ex_run_static_analysis = False,
      ex_static_analysis_command = None\<rparr>"

text \<open>
  The image of a case is put on docker's command line where docker still reads options, and the
  only constraint the schema puts on it is its length. A valid configuration names \<open>-a\<close> as its image
  (which \<open>docker image ls -q -a\<close> takes for a flag and answers with every image), and then the case's
  own command continues docker's options.
\<close>

theorem image_reference_not_checked:
  "valid_execution_config option_as_image
   \<and> (case parse_test_commands (ex_test_command option_as_image) of
        Inr [argv] \<Rightarrow> docker_args xe q (the (ex_docker_image option_as_image)) argv name =
          container_options xe q name
          @ [''-a'', ''stdout'', ''--privileged'', ''-v'', ''/:/host'', ''img'', ''sh'']
      | _ \<Rightarrow> False)"
  by (simp add: option_as_image_def valid_execution_config_def option_ok_def valid_argv_def len_ok_def
      num_ok_def limit_defs validate_argv_def SHELL_OPERATORS_def docker_args_def
      pin_container_interpreter_def posix_name_def)

end
