(* ===== verification/Reviewers.thy ===== *)
theory Reviewers
  imports Response_Parser Test_Executor
begin

text \<open>
  The reviewers that are external programs: \<open>arena/reviewers/base.py\<close>, \<open>custom_command.py\<close> and
  \<open>http.py\<close>, and what they are shown of a case (\<open>serialize_reviewer_case\<close>).

  The contract of a reviewer is the locale \<open>reviewer\<close>: whatever it returns is a response the model
  accepts. \<open>blind_reviewer\<close> adds that the review depends on nothing but the blind payload. Both
  external reviewers are interpretations. The child process and the HTTP exchange are parameters.
\<close>

section \<open>What a reviewer is given\<close>

record reviewer_case =
  rm_id :: string
  rm_title :: string
  rm_category :: string
  rm_severity :: severity
  rm_stack :: "string list"
  rm_description :: string

record case_context =
  cc_case :: reviewer_case
  cc_diff :: string
  cc_relevant_files :: "(string \<times> string) list"
  cc_context_truncated :: bool
  cc_omitted_files :: "string list"
  cc_test_output :: string
  cc_static_analysis_output :: string
  cc_case_dir :: "string option"

fun severity_name :: "severity \<Rightarrow> string" where
  "severity_name Critical = ''critical''"
| "severity_name High = ''high''"
| "severity_name Medium = ''medium''"
| "severity_name Low = ''low''"

definition text_entry :: "string \<Rightarrow> string \<Rightarrow> (string \<times> json) list" where
  "text_entry key value = (if value = [] then [] else [(key, JString value)])"

definition serialize_reviewer_case :: "case_context \<Rightarrow> bool \<Rightarrow> bool \<Rightarrow> (string \<times> json) list" where
  "serialize_reviewer_case c reveal_metadata reveal_test_output =
     [(''case_id'', JString (rm_id (cc_case c))),
      (''stack'', JArray (map JString (rm_stack (cc_case c)))),
      (''pr_diff'', JString (cc_diff c)),
      (''relevant_files'', JObject (map (\<lambda>(p, s). (p, JString s)) (cc_relevant_files c)))]
     @ (if cc_context_truncated c then [(''context_truncated'', JBool True)] else [])
     @ (if reveal_metadata
        then [(''title'', JString (rm_title (cc_case c))),
              (''category'', JString (rm_category (cc_case c))),
              (''severity'', JString (severity_name (rm_severity (cc_case c)))),
              (''description'', JString (rm_description (cc_case c)))] else [])
     @ (if reveal_test_output
        then text_entry ''test_output'' (cc_test_output c)
             @ text_entry ''static_analysis_output'' (cc_static_analysis_output c) else [])"

section \<open>Building a response\<close>

datatype review_error =
    ResponseFields | ResponseEvidence evidence_error | CommandTemplate lex_error | CommandNotStarted

definition build_response :: "reviewer_response \<Rightarrow> (review_error, reviewer_response) res" where
  "build_response r =
     (if \<not> valid_response_fields r then Inl ResponseFields
      else case check_evidence_invariants r of
        Some e \<Rightarrow> Inl (ResponseEvidence e)
      | None \<Rightarrow> Inr r)"

text \<open>\<open>json.dumps\<close> of a string, and of the object \<open>{"error": message}\<close>.\<close>

definition hex_digit :: "nat \<Rightarrow> char" where
  "hex_digit n = ''0123456789abcdef'' ! n"

definition dump_char :: "char \<Rightarrow> string" where
  "dump_char c =
     (let n = (of_char c :: nat) in
      if c = CHR 0x22 then [CHR 0x5C, c]
      else if c = CHR 0x5C then [CHR 0x5C, c]
      else if n = 10 then [CHR 0x5C, CHR ''n'']
      else if n = 13 then [CHR 0x5C, CHR ''r'']
      else if n = 9 then [CHR 0x5C, CHR ''t'']
      else if n = 12 then [CHR 0x5C, CHR ''f'']
      else if n = 8 then [CHR 0x5C, CHR ''b'']
      else if n < 32 \<or> 126 < n
      then [CHR 0x5C, CHR ''u'', CHR ''0'', CHR ''0'', hex_digit (n div 16), hex_digit (n mod 16)]
      else [c])"

definition dump_string :: "string \<Rightarrow> string" where
  "dump_string s = CHR 0x22 # concat (map dump_char s) @ [CHR 0x22]"

definition error_object :: "string \<Rightarrow> string" where
  "error_object message = ''{'' @ dump_string ''error'' @ '': '' @ dump_string message @ ''}''"

definition invalid_response :: "string \<Rightarrow> string \<Rightarrow> int \<Rightarrow> reviewer_response" where
  "invalid_response raw summary latency_ms =
     \<lparr>rr_raw_response = raw, rr_parsed_response = None, rr_invalid_output = True,
      rr_parse_attempts = 1, rr_parse_status = Invalid, rr_parse_actions = [],
      rr_input_finding_count = None, rr_retained_finding_count = None,
      rr_dropped_finding_count = 0, rr_parse_error_summary = Some summary,
      rr_latency_ms = latency_ms, rr_input_tokens = 0, rr_output_tokens = 0,
      rr_estimated_cost = 0, rr_tool_usage = [], rr_derived_from_legacy = False\<rparr>"

section \<open>The command reviewer\<close>

text \<open>
  \<open>cw_run\<close> is the supervised child, given its command line and the files written for it: \<open>None\<close>
  if it cannot be started, \<open>Inl\<close> the text of an \<open>ExecutionError\<close>, else its result. \<open>cw_dumps\<close> is
  \<open>json.dumps\<close> with indentation, \<open>cw_parser\<close> what the parser takes from its surroundings.
\<close>

record command_world =
  cw_command_template :: string
  cw_timeout_seconds :: nat
  cw_reveal_metadata :: bool
  cw_enable_repair :: bool
  cw_reveal_test_output :: bool
  cw_temp_dir :: string
  cw_dumps :: "json \<Rightarrow> string"
  cw_run :: "string list \<Rightarrow> (string \<times> string) list \<Rightarrow> (string + supervised_result) option"
  cw_elapsed_ms :: int
  cw_parser :: parser_context

definition short_invalid_response :: "string \<Rightarrow> string \<Rightarrow> int \<Rightarrow> reviewer_response" where
  "short_invalid_response raw summary latency_ms =
     invalid_response raw (take PARSE_ERROR_SUMMARY_LEN summary) latency_ms"

definition expand_command_template ::
  "string \<Rightarrow> string \<Rightarrow> string \<Rightarrow> string \<Rightarrow> string \<Rightarrow> (lex_error, string list) res" where
  "expand_command_template template case_path diff_file slug workspace =
     shlex_split
       (replace_sub ''{workspace}'' workspace
         (replace_sub ''{case_id}'' slug
           (replace_sub ''{diff_file}'' diff_file
             (replace_sub ''{case_json}'' case_path template))))"

definition int_str :: "int \<Rightarrow> string" where
  "int_str n = (if n < 0 then ''-'' @ nat_str (nat (- n)) else nat_str (nat n))"

definition tail_chars :: "nat \<Rightarrow> string \<Rightarrow> string" where
  "tail_chars n s = drop (length s - n) s"

definition first_nonempty :: "string list \<Rightarrow> string \<Rightarrow> string" where
  "first_nonempty xs fallback = (case find (\<lambda>s. s \<noteq> []) xs of Some s \<Rightarrow> s | None \<Rightarrow> fallback)"

definition command_files :: "command_world \<Rightarrow> case_context \<Rightarrow> (string \<times> string) list" where
  "command_files cw c =
     [(cw_temp_dir cw @ ''/case.json'',
       cw_dumps cw (JObject (serialize_reviewer_case c (cw_reveal_metadata cw) (cw_reveal_test_output cw)))),
      (cw_temp_dir cw @ ''/pr.diff'', cc_diff c)]
     @ map (\<lambda>(p, s). (cw_temp_dir cw @ ''/workspace/'' @ p, s)) (cc_relevant_files c)"

definition parsed_response ::
  "parser_context \<Rightarrow> bool \<Rightarrow> case_context \<Rightarrow> string \<Rightarrow> int \<Rightarrow> reviewer_response" where
  "parsed_response px enable_repair c raw latency_ms =
     response_from_outcome
       (parse_reviewer_output
          (px\<lparr>px_known_paths := Some (known_paths_from_context (map fst (cc_relevant_files c)) (cc_diff c))\<rparr>)
          enable_repair raw)
       raw latency_ms 0 0 0"

definition exit_notes :: "supervised_result \<Rightarrow> string" where
  "exit_notes r =
     (let notes = ''command exited with code ''
            @ (case sv_returncode r of None \<Rightarrow> ''None'' | Some n \<Rightarrow> int_str n);
          stderr_tail = tail_chars 500 (py_strip (sv_stderr r))
      in if stderr_tail = [] then notes else notes @ ''; '' @ stderr_tail)"

definition completed_response :: "command_world \<Rightarrow> case_context \<Rightarrow> supervised_result \<Rightarrow> reviewer_response" where
  "completed_response cw c r =
     (let t = cw_elapsed_ms cw; raw = py_strip (sv_stdout r) in
      if sv_timed_out r
      then short_invalid_response
             (error_object (''command timed out after '' @ nat_str (cw_timeout_seconds cw) @ ''s''))
             ''reviewer timed out'' t
      else if sv_output_limit_exceeded r
      then short_invalid_response (error_object ''reviewer_output_too_large'')
             ''reviewer_output_too_large'' t
      else if sv_returncode r \<noteq> Some 0
      then short_invalid_response
             (first_nonempty [raw, py_strip (sv_stderr r)] (exit_notes r)) (exit_notes r) t
      else if raw = [] then short_invalid_response (error_object ''no output'') ''no reviewer output'' t
      else parsed_response (cw_parser cw) (cw_enable_repair cw) c raw t)"

definition custom_review :: "command_world \<Rightarrow> case_context \<Rightarrow> (review_error, reviewer_response) res" where
  "custom_review cw c =
     (case expand_command_template (cw_command_template cw) (cw_temp_dir cw @ ''/case.json'')
             (cw_temp_dir cw @ ''/pr.diff'') (rm_id (cc_case c)) (cw_temp_dir cw @ ''/workspace'') of
        Inl e \<Rightarrow> Inl (CommandTemplate e)
      | Inr args \<Rightarrow>
          (case cw_run cw args (command_files cw c) of
             None \<Rightarrow> Inl CommandNotStarted
           | Some (Inl message) \<Rightarrow>
               build_response (short_invalid_response (error_object message)
                 ''reviewer process error: ExecutionError'' (cw_elapsed_ms cw))
           | Some (Inr r) \<Rightarrow> build_response (completed_response cw c r)))"

section \<open>The HTTP reviewer\<close>

text \<open>
  \<open>hw_post\<close> is the exchange, given the URL, the headers and the JSON body: \<open>Inl (name, text)\<close> for an
  \<open>httpx\<close> exception, else the status and the decoded chunks of the body. \<open>hw_decode\<close> is strict UTF-8
  decoding, \<open>hw_decode_replace\<close> decoding with replacement characters.
\<close>

datatype http_style = OpenAI | PlainJSON

record http_world =
  hw_url :: string
  hw_style :: http_style
  hw_model :: string
  hw_api_key :: "string option"
  hw_reveal_metadata :: bool
  hw_enable_repair :: bool
  hw_reveal_test_output :: bool
  hw_system_prompt :: string
  hw_dumps :: "json \<Rightarrow> string"
  hw_post :: "string \<Rightarrow> (string \<times> string) list \<Rightarrow> json \<Rightarrow> (string \<times> string) + (nat \<times> string list)"
  hw_decode :: "string \<Rightarrow> string option"
  hw_decode_replace :: "string \<Rightarrow> string"
  hw_elapsed_ms :: int
  hw_parser :: parser_context

definition INVALID_MESSAGE_LEN :: nat where "INVALID_MESSAGE_LEN = 4096"

definition http_headers :: "http_world \<Rightarrow> (string \<times> string) list" where
  "http_headers hw =
     (''Content-Type'', ''application/json'')
     # (if given (hw_api_key hw) then [(''Authorization'', ''Bearer '' @ the (hw_api_key hw))] else [])"

definition endpoint :: "http_world \<Rightarrow> string" where
  "endpoint hw =
     (if hw_style hw = OpenAI \<and> \<not> ends_with (hw_url hw) ''/chat/completions''
      then hw_url hw @ ''/chat/completions'' else hw_url hw)"

definition request_body :: "http_world \<Rightarrow> json \<Rightarrow> json" where
  "request_body hw payload =
     (if hw_style hw = OpenAI
      then JObject
        [(''model'', JString (hw_model hw)), (''temperature'', JInt 0),
         (''messages'', JArray
            [JObject [(''role'', JString ''system''), (''content'', JString (hw_system_prompt hw))],
             JObject [(''role'', JString ''user''), (''content'', JString (hw_dumps hw payload))]])]
      else payload)"

text \<open>The indexing of \<open>_extract_openai_content\<close>, with the name of the exception it raises.\<close>

fun json_get :: "string \<Rightarrow> json \<Rightarrow> (string, json) res" where
  "json_get key (JObject kvs) =
     (case map_of kvs key of None \<Rightarrow> Inl ''KeyError'' | Some v \<Rightarrow> Inr v)"
| "json_get key _ = Inl ''TypeError''"

fun json_head :: "json \<Rightarrow> (string, json) res" where
  "json_head (JArray vs) = (case vs of [] \<Rightarrow> Inl ''IndexError'' | v # _ \<Rightarrow> Inr v)"
| "json_head (JString s) = (case s of [] \<Rightarrow> Inl ''IndexError'' | c # _ \<Rightarrow> Inr (JString [c]))"
| "json_head (JObject kvs) = Inl ''KeyError''"
| "json_head _ = Inl ''TypeError''"

definition extract_openai_content :: "json \<Rightarrow> (string, string) res" where
  "extract_openai_content data =
     and_then (json_get ''choices'' data) (\<lambda>choices.
     and_then (json_head choices) (\<lambda>choice.
     and_then (json_get ''message'' choice) (\<lambda>message.
     and_then (json_get ''content'' message) (\<lambda>content.
       (case content of JString s \<Rightarrow> Inr s | _ \<Rightarrow> Inl ''TypeError'')))))"

text \<open>The loop of \<open>_post_bounded\<close>: \<open>None\<close> once the total passes the limit.\<close>

fun read_chunks :: "nat \<Rightarrow> nat \<Rightarrow> string list \<Rightarrow> string list \<Rightarrow> string option" where
  "read_chunks limit seen acc [] = Some (concat (rev acc))"
| "read_chunks limit seen acc (chunk # chunks) =
     (let seen' = seen + length chunk in
      if seen' > limit then None else read_chunks limit seen' (chunk # acc) chunks)"

definition post_bounded :: "http_world \<Rightarrow> json \<Rightarrow> (string \<times> string) + (string option \<times> nat)" where
  "post_bounded hw payload =
     (case hw_post hw (endpoint hw) (http_headers hw) (request_body hw payload) of
        Inl e \<Rightarrow> Inl e
      | Inr (status, chunks) \<Rightarrow> Inr (read_chunks RAW_RESPONSE_BYTES 0 [] chunks, status))"

definition http_invalid :: "http_world \<Rightarrow> string \<Rightarrow> reviewer_response" where
  "http_invalid hw message =
     (let bounded = take INVALID_MESSAGE_LEN message
      in invalid_response (error_object bounded) bounded (hw_elapsed_ms hw))"

definition openai_content :: "http_world \<Rightarrow> string \<Rightarrow> (string, string) res" where
  "openai_content hw s =
     (case strict_loads (px_uni (hw_parser hw)) (px_frames (hw_parser hw)) s of
        Inl _ \<Rightarrow> Inl ''StrictJSONError''
      | Inr data \<Rightarrow> extract_openai_content data)"

definition http_response :: "http_world \<Rightarrow> case_context \<Rightarrow> reviewer_response" where
  "http_response hw c =
     (case post_bounded hw
             (JObject (serialize_reviewer_case c (hw_reveal_metadata hw) (hw_reveal_test_output hw))) of
        Inl (name, message) \<Rightarrow>
          http_invalid hw (''http reviewer request failed: '' @ name @ '': '' @ message)
      | Inr (None, status) \<Rightarrow> http_invalid hw ''reviewer_output_too_large''
      | Inr (Some body, status) \<Rightarrow>
          if status \<ge> 400
          then http_invalid hw (''http reviewer request failed with status '' @ nat_str status @ '': ''
                 @ take 512 (hw_decode_replace hw body))
          else (case hw_decode hw body of
            None \<Rightarrow> http_invalid hw ''http reviewer response was not valid UTF-8''
          | Some s \<Rightarrow>
              (case (if hw_style hw = OpenAI then openai_content hw s else Inr s) of
                 Inl name \<Rightarrow> http_invalid hw (''malformed OpenAI envelope: '' @ name)
               | Inr content \<Rightarrow>
                   parsed_response (hw_parser hw) (hw_enable_repair hw) c content (hw_elapsed_ms hw))))"

definition http_review :: "http_world \<Rightarrow> case_context \<Rightarrow> (review_error, reviewer_response) res" where
  "http_review hw c = build_response (http_response hw c)"

section \<open>The contract of a reviewer\<close>

lemma build_response_Inr:
  "build_response r = Inr r' \<longleftrightarrow> r' = r \<and> valid_response_fields r \<and> check_evidence_invariants r = None"
  by (auto simp: build_response_def split: option.split)

locale reviewer =
  fixes review :: "case_context \<Rightarrow> (review_error, reviewer_response) res"
  assumes accepted: "review c = Inr r \<Longrightarrow> valid_response_fields r \<and> check_evidence_invariants r = None"
    and not_legacy: "review c = Inr r \<Longrightarrow> \<not> rr_derived_from_legacy r"
begin

lemma invalid_without_result:
  "review c = Inr r \<Longrightarrow> rr_parse_status r = Invalid \<longleftrightarrow> rr_parsed_response r = None"
  using accepted [of c r] not_legacy [of c r]
  by (auto simp: check_evidence_invariants_def Let_def split: if_splits option.splits)

lemma invalid_output_iff:
  "review c = Inr r \<Longrightarrow> rr_invalid_output r \<longleftrightarrow> rr_parse_status r = Invalid"
  using accepted [of c r] not_legacy [of c r]
  by (auto simp: check_evidence_invariants_def Let_def split: if_splits option.splits)

lemma exact_unsalvaged:
  "review c = Inr r \<Longrightarrow> rr_parse_status r = Exact \<Longrightarrow>
     rr_parse_attempts r = 1 \<and> rr_parse_actions r = [] \<and> rr_dropped_finding_count r = 0"
  using accepted [of c r] not_legacy [of c r]
  by (auto simp: check_evidence_invariants_def Let_def split: if_splits option.splits)

end

text \<open>A reviewer whose answer depends on nothing but the blind payload.\<close>

definition blind_view :: "case_context \<Rightarrow> (string \<times> json) list" where
  "blind_view c = serialize_reviewer_case c False False"

locale blind_reviewer = reviewer +
  assumes blind: "blind_view c = blind_view c' \<Longrightarrow> review c = review c'"
begin

lemma hidden_fields_irrelevant:
  "review (c\<lparr>cc_case := (cc_case c)\<lparr>rm_title := t, rm_category := k, rm_severity := s, rm_description := d\<rparr>,
     cc_test_output := o1, cc_static_analysis_output := o2, cc_omitted_files := f, cc_case_dir := dir\<rparr>)
   = review c"
  by (rule blind) (simp add: blind_view_def serialize_reviewer_case_def)

end

lemma map_JString_inj: "map JString xs = map JString ys \<longleftrightarrow> xs = ys"
  by (rule inj_map_eq_map) (simp add: inj_def)

lemma relevant_files_inj:
  "map (\<lambda>(p, s). (p, JString s)) xs = map (\<lambda>(p, s). (p, JString s)) ys \<longleftrightarrow> xs = ys"
  by (rule inj_map_eq_map) (auto simp: inj_def)

lemma blind_view_eq:
  "blind_view c = blind_view c' \<longleftrightarrow>
     rm_id (cc_case c) = rm_id (cc_case c') \<and> rm_stack (cc_case c) = rm_stack (cc_case c')
     \<and> cc_diff c = cc_diff c' \<and> cc_relevant_files c = cc_relevant_files c'
     \<and> cc_context_truncated c = cc_context_truncated c'"
  by (auto simp: blind_view_def serialize_reviewer_case_def map_JString_inj relevant_files_inj)

text \<open>Neither external reviewer derives a response from a legacy document.\<close>

lemma responses_not_legacy [simp]:
  "\<not> rr_derived_from_legacy (invalid_response raw summary t)"
  "\<not> rr_derived_from_legacy (parsed_response px e c raw t)"
  by (simp_all add: invalid_response_def parsed_response_def response_from_outcome_def)

interpretation custom: reviewer "custom_review cw" for cw
  by unfold_locales
    (auto simp: custom_review_def build_response_Inr completed_response_def short_invalid_response_def Let_def
      split: sum.splits option.splits if_splits)

interpretation http: reviewer "http_review hw" for hw
  by unfold_locales
    (auto simp: http_review_def build_response_Inr http_response_def http_invalid_def Let_def
      split: sum.splits option.splits prod.splits if_splits)

text \<open>Both use of the context no more than what they send and the paths they admit.\<close>

lemma custom_review_payload:
  assumes "serialize_reviewer_case c (cw_reveal_metadata cw) (cw_reveal_test_output cw)
      = serialize_reviewer_case c' (cw_reveal_metadata cw) (cw_reveal_test_output cw)"
    and "rm_id (cc_case c) = rm_id (cc_case c')" "cc_diff c = cc_diff c'" "cc_relevant_files c = cc_relevant_files c'"
  shows "custom_review cw c = custom_review cw c'"
proof -
  have parsed: "parsed_response px e c = parsed_response px e c'" for px e
    using assms by (intro ext) (simp add: parsed_response_def)
  have files: "command_files cw c = command_files cw c'" using assms by (simp add: command_files_def)
  show ?thesis unfolding custom_review_def completed_response_def parsed files assms(2) ..
qed

lemma http_review_payload:
  assumes "serialize_reviewer_case c (hw_reveal_metadata hw) (hw_reveal_test_output hw)
      = serialize_reviewer_case c' (hw_reveal_metadata hw) (hw_reveal_test_output hw)"
    and "cc_diff c = cc_diff c'" "cc_relevant_files c = cc_relevant_files c'"
  shows "http_review hw c = http_review hw c'"
proof -
  have parsed: "parsed_response px e c = parsed_response px e c'" for px e
    using assms by (intro ext) (simp add: parsed_response_def)
  show ?thesis unfolding http_review_def http_response_def parsed assms(1) ..
qed

definition blind_command :: "command_world \<Rightarrow> command_world" where
  "blind_command cw = cw\<lparr>cw_reveal_metadata := False, cw_reveal_test_output := False\<rparr>"

definition blind_http :: "http_world \<Rightarrow> http_world" where
  "blind_http hw = hw\<lparr>hw_reveal_metadata := False, hw_reveal_test_output := False\<rparr>"

lemma blind_flags [simp]:
  "cw_reveal_metadata (blind_command cw) = False" "cw_reveal_test_output (blind_command cw) = False"
  "hw_reveal_metadata (blind_http hw) = False" "hw_reveal_test_output (blind_http hw) = False"
  by (simp_all add: blind_command_def blind_http_def)

interpretation blind_custom: blind_reviewer "custom_review (blind_command cw)" for cw
proof unfold_locales
  fix c c' :: case_context
  assume "blind_view c = blind_view c'"
  note same = this [unfolded blind_view_def] this [unfolded blind_view_eq]
  show "custom_review (blind_command cw) c = custom_review (blind_command cw) c'"
    by (rule custom_review_payload) (use same in simp_all)
qed

interpretation blind_web: blind_reviewer "http_review (blind_http hw)" for hw
proof unfold_locales
  fix c c' :: case_context
  assume "blind_view c = blind_view c'"
  note same = this [unfolded blind_view_def] this [unfolded blind_view_eq]
  show "http_review (blind_http hw) c = http_review (blind_http hw) c'"
    by (rule http_review_payload) (use same in simp_all)
qed

section \<open>What the external reviewers guarantee\<close>

text \<open>
  C11: with the two reveal options off, a command or HTTP review is a function of five things only: the opaque case id, the
  stack, the diff, the context files and whether they were cut. Two contexts that agree on these get the same
  review, whatever their titles, categories, severities, descriptions, omitted files, directories, and test and analysis outputs.
  Each reveal option uncovers its own fields and no more: the metadata without the outputs, the outputs without the metadata.
\<close>

theorem external_reviews_blind:
  assumes "rm_id (cc_case c) = rm_id (cc_case c')" "rm_stack (cc_case c) = rm_stack (cc_case c')"
    and "cc_diff c = cc_diff c'" "cc_relevant_files c = cc_relevant_files c'"
    and "cc_context_truncated c = cc_context_truncated c'"
  shows "custom_review (blind_command cw) c = custom_review (blind_command cw) c'
    \<and> http_review (blind_http hw) c = http_review (blind_http hw) c'
    \<and> (cc_case c = cc_case c' \<longrightarrow>
        custom_review (cw\<lparr>cw_reveal_test_output := False\<rparr>) c = custom_review (cw\<lparr>cw_reveal_test_output := False\<rparr>) c'
        \<and> http_review (hw\<lparr>hw_reveal_test_output := False\<rparr>) c = http_review (hw\<lparr>hw_reveal_test_output := False\<rparr>) c')
    \<and> (cc_test_output c = cc_test_output c' \<and> cc_static_analysis_output c = cc_static_analysis_output c' \<longrightarrow>
        custom_review (cw\<lparr>cw_reveal_metadata := False\<rparr>) c = custom_review (cw\<lparr>cw_reveal_metadata := False\<rparr>) c'
        \<and> http_review (hw\<lparr>hw_reveal_metadata := False\<rparr>) c = http_review (hw\<lparr>hw_reveal_metadata := False\<rparr>) c')"
proof -
  have blind: "blind_view c = blind_view c'" using assms by (simp add: blind_view_eq)
  have metadata: "serialize_reviewer_case c m False = serialize_reviewer_case c' m False" if "cc_case c = cc_case c'" for m
    using assms that by (simp add: serialize_reviewer_case_def)
  have outputs: "serialize_reviewer_case c False t = serialize_reviewer_case c' False t"
    if "cc_test_output c = cc_test_output c'" "cc_static_analysis_output c = cc_static_analysis_output c'" for t
    using assms that by (simp add: serialize_reviewer_case_def)
  show ?thesis
    using blind_custom.blind [OF blind] blind_web.blind [OF blind]
      custom_review_payload [OF _ assms(1,3,4)] http_review_payload [OF _ assms(3,4)] metadata outputs
    by simp
qed

definition open_case :: "string \<Rightarrow> string \<Rightarrow> case_context" where
  "open_case title output =
     \<lparr>cc_case = \<lparr>rm_id = ''case-1'', rm_title = title, rm_category = ''authz'', rm_severity = High,
                rm_stack = [''python''], rm_description = title\<rparr>,
      cc_diff = ''+++ b/a.py'', cc_relevant_files = [(''a.py'', ''x'')], cc_context_truncated = False,
      cc_omitted_files = [], cc_test_output = output, cc_static_analysis_output = [],
      cc_case_dir = None\<rparr>"

theorem external_reviews_blind_witness:
  "(\<forall>cw. custom_review (blind_command cw) (open_case ''missing check'' ''expected 403'')
     = custom_review (blind_command cw) (open_case ''a case'' []))
   \<and> open_case ''missing check'' ''expected 403'' \<noteq> open_case ''a case'' []"
  using external_reviews_blind [of "open_case ''missing check'' ''expected 403''" "open_case ''a case'' []"]
  by (simp add: open_case_def)

text \<open>
  What the command reviewer returns is a consistent response (a result exactly when its status
  is not invalid), and it carries a review only if the child could be started, ended in time with
  exit code 0 and within the output cap, its stripped output being the raw response.
\<close>

theorem custom_review_sound:
  "case custom_review cw c of
     Inl _ \<Rightarrow> True
   | Inr r \<Rightarrow>
       (rr_parse_status r = Invalid \<longleftrightarrow> rr_parsed_response r = None)
       \<and> (rr_parsed_response r = None
          \<or> (\<exists>args child. cw_run cw args (command_files cw c) = Some (Inr child)
               \<and> sv_returncode child = Some 0 \<and> sv_timed_out child = False
               \<and> sv_output_limit_exceeded child = False
               \<and> rr_raw_response r = py_strip (sv_stdout child)))"
proof (cases "custom_review cw c")
  case (Inr r)
  have "rr_parsed_response r = None
      \<or> (\<exists>args child. cw_run cw args (command_files cw c) = Some (Inr child)
           \<and> sv_returncode child = Some 0 \<and> sv_timed_out child = False
           \<and> sv_output_limit_exceeded child = False
           \<and> rr_raw_response r = py_strip (sv_stdout child))"
    using Inr
    by (auto simp: custom_review_def build_response_Inr completed_response_def short_invalid_response_def
        invalid_response_def parsed_response_def response_from_outcome_def Let_def
        split: sum.splits option.splits if_splits)
  then show ?thesis using custom.invalid_without_result [OF Inr] Inr by simp
qed simp

lemma long_summary_rejected:
  "PARSE_ERROR_SUMMARY_LEN < length summary \<Longrightarrow> build_response (invalid_response raw summary t) = Inl ResponseFields"
  by (simp add: build_response_def invalid_response_def valid_response_fields_def option_ok_def len_ok_def)

text \<open>
  A failed HTTP exchange is meant to be recorded as an invalid response. The message is cut to 4096
  characters, but the response model allows a failure summary of 512: a status of 400 or more whose
  body has 512 characters makes building the response fail instead.
\<close>

theorem http_long_error_raises:
  assumes "post_bounded hw
      (JObject (serialize_reviewer_case c (hw_reveal_metadata hw) (hw_reveal_test_output hw)))
      = Inr (Some body, status)"
    and "400 \<le> status" and "512 \<le> length (hw_decode_replace hw body)"
  shows "http_review hw c = Inl ResponseFields"
proof -
  let ?message = "''http reviewer request failed with status '' @ nat_str status @ '': ''
      @ take 512 (hw_decode_replace hw body)"
  have "512 < length ?message" using assms(3) by simp
  then have "PARSE_ERROR_SUMMARY_LEN < length (take INVALID_MESSAGE_LEN ?message)"
    unfolding length_take INVALID_MESSAGE_LEN_def PARSE_ERROR_SUMMARY_LEN_def by linarith
  moreover have "http_response hw c = http_invalid hw ?message"
    unfolding http_response_def assms(1) using assms(2) by simp
  ultimately show ?thesis
    unfolding http_review_def http_invalid_def Let_def by (simp add: long_summary_rejected)
qed

definition failing_server :: http_world where
  "failing_server =
     \<lparr>hw_url = ''http://localhost:8080/review'', hw_style = PlainJSON, hw_model = ''default'',
      hw_api_key = None, hw_reveal_metadata = False, hw_enable_repair = False,
      hw_reveal_test_output = False, hw_system_prompt = [], hw_dumps = (\<lambda>_. []),
      hw_post = (\<lambda>_ _ _. Inr (500, [replicate 512 CHR ''x''])), hw_decode = Some,
      hw_decode_replace = (\<lambda>s. s), hw_elapsed_ms = 3, hw_parser = plain_context\<rparr>"

theorem http_long_error_raises_witness:
  "http_review failing_server (open_case [] []) = Inl ResponseFields"
  by (rule http_long_error_raises [where body = "replicate 512 CHR ''x''" and status = 500])
    (simp_all add: failing_server_def post_bounded_def RAW_RESPONSE_BYTES_def Let_def)

end
