(* ===== verification/Case_Loader.thy ===== *)
theory Case_Loader
  imports Reviewers "HOL-Library.Code_Target_Nat"
begin

text \<open>
  From a pack on disk to cases and to what a reviewer sees of them: \<open>arena/core/bounded_io.py\<close> (the
  bounded readers), \<open>arena/benchmark/case_loader.py\<close>, \<open>diff_loader.py\<close>, \<open>artifacts.py\<close> and
  \<open>dataset_validator.py\<close>.

  A case directory is a tree of theory Workspace. The YAML library is a parameter: a document either
  fails to load or gives the raw fields, which the models then validate. Decoding is a parameter too
  (\<open>text_codec\<close>), because decoded text and the truncation mark can have code points above 255.
\<close>

section \<open>Bounded readers\<close>

record text_codec =
  tc_decode :: "string \<Rightarrow> string option"
  tc_decode_replace :: "string \<Rightarrow> string"
  tc_utf8_size :: "string \<Rightarrow> nat"
  tc_truncation_mark :: string

datatype input_error = MissingInput | NotADirectory | UnsafeInput | InputTooLarge | InvalidEncoding

text \<open>
  \<open>lstat\<close> of a path: absent, or an entry that is itself not followed. A component that is used as a directory and
  is none raises \<open>NotADirectoryError\<close>, and a link on the way leads where \<open>behind\<close> says.
\<close>

fun lstat_path ::
  "(input_error, node option) res \<Rightarrow> string list \<Rightarrow> node \<Rightarrow> (input_error, node option) res" where
  "lstat_path behind [] n = Inr (Some n)"
| "lstat_path behind (c # cs) (Dir es) =
     (case map_of es c of None \<Rightarrow> Inr None | Some m \<Rightarrow> lstat_path behind cs m)"
| "lstat_path behind (c # cs) (Link target) = behind"
| "lstat_path behind (c # cs) _ = Inl NotADirectory"

text \<open>\<open>_read_at_most\<close> of what \<open>lstat\<close> found: \<open>None\<close> is \<open>FileNotFoundError\<close>.\<close>

fun read_at_most :: "node option \<Rightarrow> nat \<Rightarrow> (input_error, string) res" where
  "read_at_most None count = Inl MissingInput"
| "read_at_most (Some (File bytes _ _)) count = Inr (take count bytes)"
| "read_at_most (Some _) count = Inl UnsafeInput"

definition read_bytes_bounded :: "node option \<Rightarrow> nat \<Rightarrow> (input_error, string) res" where
  "read_bytes_bounded n limit =
     and_then (read_at_most n (limit + 1)) (\<lambda>bytes.
       if length bytes > limit then Inl InputTooLarge else Inr bytes)"

definition read_text_bounded :: "text_codec \<Rightarrow> node option \<Rightarrow> nat \<Rightarrow> (input_error, string) res" where
  "read_text_bounded tc n limit =
     and_then (read_bytes_bounded n limit) (\<lambda>bytes.
       case tc_decode tc bytes of None \<Rightarrow> Inl InvalidEncoding | Some s \<Rightarrow> Inr s)"

definition read_text_capped :: "text_codec \<Rightarrow> node option \<Rightarrow> nat \<Rightarrow> (input_error, string \<times> bool) res" where
  "read_text_capped tc n limit =
     and_then (read_at_most n (limit + 1)) (\<lambda>bytes.
       Inr (tc_decode_replace tc (take limit bytes), length bytes > limit))"

section \<open>Diffs\<close>

text \<open>\<open>HUNK_RE\<close>, whose choices are determined by the next character; the group is the new start.\<close>

definition is_digit :: "char \<Rightarrow> bool" where
  "is_digit c = (let n = (of_char c :: nat) in 48 \<le> n \<and> n \<le> 57)"

definition digits_value :: "string \<Rightarrow> nat" where
  "digits_value s = fold (\<lambda>c v. 10 * v + (of_char c - 48)) s 0"

definition eat :: "string \<Rightarrow> string \<Rightarrow> string option" where
  "eat lead s = (if starts_with s lead then Some (drop (length lead) s) else None)"

definition eat_digits :: "string \<Rightarrow> (string \<times> string) option" where
  "eat_digits s = (if takeWhile is_digit s = [] then None
     else Some (takeWhile is_digit s, dropWhile is_digit s))"

definition eat_count :: "string \<Rightarrow> string" where
  "eat_count s =
     (case eat '','' s of
        None \<Rightarrow> s
      | Some t \<Rightarrow> (case eat_digits t of None \<Rightarrow> s | Some (_, u) \<Rightarrow> u))"

definition hunk_start :: "string \<Rightarrow> nat option" where
  "hunk_start line =
     do {
       s \<leftarrow> eat ''@@ -'' line;
       (_, s) \<leftarrow> eat_digits s;
       s \<leftarrow> eat '' +'' (eat_count s);
       (start, s) \<leftarrow> eat_digits s;
       _ \<leftarrow> eat '' @@'' (eat_count s);
       Some (digits_value start)
     }"

datatype key_error = KeyError string

record diff_state =
  df_added :: "(string \<times> nat list) list"
  df_file :: "string option"
  df_line :: "nat option"

definition add_line :: "string \<Rightarrow> nat \<Rightarrow> (string \<times> nat list) list \<Rightarrow> (key_error, (string \<times> nat list) list) res" where
  "add_line path n added =
     (case map_of added path of
        None \<Rightarrow> Inl (KeyError path)
      | Some ns \<Rightarrow> Inr (alist_put path (List.insert n ns) added))"

definition diff_step :: "string \<Rightarrow> diff_state \<Rightarrow> (key_error, diff_state) res" where
  "diff_step line d =
     (if starts_with line ''+++ '' then
        (let target = takeWhile (\<lambda>c. c \<noteq> CHR 0x09) (drop 4 line);
             path = (if starts_with target ''b/'' then drop 2 target else target)
         in Inr (d\<lparr>df_file := Some path,
                   df_added := (if path \<noteq> ''/dev/null'' then setdefault path [] (df_added d) else df_added d)\<rparr>))
      else case hunk_start line of
        Some start \<Rightarrow> Inr (d\<lparr>df_line := Some start\<rparr>)
      | None \<Rightarrow>
          (case (df_file d, df_line d) of
             (Some path, Some n) \<Rightarrow>
               if starts_with line ''+'' \<and> \<not> starts_with line ''+++''
               then and_then (add_line path n (df_added d))
                      (\<lambda>added. Inr (d\<lparr>df_added := added, df_line := Some (n + 1)\<rparr>))
               else if starts_with line ''-'' \<and> \<not> starts_with line ''---'' then Inr d
               else if starts_with line [BACKSLASH] then Inr d
               else Inr (d\<lparr>df_line := Some (n + 1)\<rparr>)
           | _ \<Rightarrow> Inr d))"

definition parse_added_lines :: "string \<Rightarrow> (key_error, (string \<times> nat list) list) res" where
  "parse_added_lines diff =
     and_then (fold_res diff_step (splitlines diff) \<lparr>df_added = [], df_file = None, df_line = None\<rparr>)
       (\<lambda>d. Inr (df_added d))"

section \<open>What a reviewer sees\<close>

record context_limits =
  cl_max_files :: nat
  cl_max_total_bytes :: nat
  cl_max_file_bytes :: nat

definition default_limits :: context_limits where
  "default_limits = \<lparr>cl_max_files = 40, cl_max_total_bytes = 262144, cl_max_file_bytes = 65536\<rparr>"

text \<open>The regular files below a directory, as \<open>rglob\<close> and \<open>is_file\<close> find them in a tree without links.\<close>

definition file_paths :: "node \<Rightarrow> string list" where
  "file_paths n =
     sort (concat (map (\<lambda>(lead, _, files).
       map (\<lambda>e. posix_join (lead @ [fst e])) (filter (\<lambda>e. is_regular (snd e)) files)) (walk [] n)))"

definition reading_order :: "node \<Rightarrow> string \<Rightarrow> string list" where
  "reading_order after diff_text =
     (let all_paths = file_paths after;
          diff_first = filter (\<lambda>p. p \<in> set all_paths) (touched_files diff_text)
      in diff_first @ filter (\<lambda>p. p \<notin> set diff_first) all_paths)"

record reading =
  rd_contents :: "(string \<times> string) list"
  rd_omitted :: "string list"
  rd_truncated :: bool
  rd_total_bytes :: nat

definition node_path :: "string \<Rightarrow> node \<Rightarrow> node option" where
  "node_path path n = node_at (split_on CHR ''/'' path) n"

definition read_step ::
  "text_codec \<Rightarrow> context_limits \<Rightarrow> node \<Rightarrow> string \<Rightarrow> reading \<Rightarrow> (input_error, reading) res" where
  "read_step tc cl after relative s =
     (if length (rd_contents s) \<ge> cl_max_files cl \<or> rd_total_bytes s \<ge> cl_max_total_bytes cl
      then Inr (s\<lparr>rd_omitted := rd_omitted s @ [relative]\<rparr>)
      else and_then (read_text_capped tc (node_path relative after) (min (cl_max_file_bytes cl) PACK_FILE_BYTES))
        (\<lambda>(content, file_truncated).
          let content = (if file_truncated then content @ tc_truncation_mark tc else content);
              s = (if file_truncated then s\<lparr>rd_truncated := True\<rparr> else s);
              size = tc_utf8_size tc content
          in if rd_total_bytes s + size > cl_max_total_bytes cl
             then Inr (s\<lparr>rd_omitted := rd_omitted s @ [relative], rd_total_bytes := cl_max_total_bytes cl\<rparr>)
             else Inr (s\<lparr>rd_contents := alist_put relative content (rd_contents s),
                         rd_total_bytes := rd_total_bytes s + size\<rparr>)))"

definition read_relevant_files ::
  "text_codec \<Rightarrow> context_limits \<Rightarrow> node \<Rightarrow> string
   \<Rightarrow> (input_error, (string \<times> string) list \<times> bool \<times> string list) res" where
  "read_relevant_files tc cl after diff_text =
     and_then (fold_res (read_step tc cl after) (reading_order after diff_text)
         \<lparr>rd_contents = [], rd_omitted = [], rd_truncated = False, rd_total_bytes = 0\<rparr>)
       (\<lambda>s. Inr (rd_contents s, rd_truncated s \<or> rd_omitted s \<noteq> [], rd_omitted s))"

fun is_regular_at :: "node option \<Rightarrow> bool" where
  "is_regular_at (Some (File _ _ _)) = True"
| "is_regular_at _ = False"

fun is_dir_at :: "node option \<Rightarrow> bool" where
  "is_dir_at (Some (Dir _)) = True"
| "is_dir_at _ = False"

definition load_diff :: "text_codec \<Rightarrow> node option \<Rightarrow> (input_error, string) res" where
  "load_diff tc n = (if \<not> is_regular_at n then Inl MissingInput else read_text_bounded tc n DIFF_BYTES)"

definition build_context ::
  "text_codec \<Rightarrow> context_limits \<Rightarrow> string \<Rightarrow> benchmark_case \<Rightarrow> node \<Rightarrow> string \<Rightarrow> string
   \<Rightarrow> (input_error, case_context) res" where
  "build_context tc cl case_dir c tree test_output static_analysis_output =
     and_then (load_diff tc (node_path (in_diff (case_input_of c)) tree)) (\<lambda>diff_text.
     and_then (read_relevant_files tc cl
         (case node_path (in_after_dir (case_input_of c)) tree of None \<Rightarrow> Dir [] | Some n \<Rightarrow> n) diff_text)
       (\<lambda>(relevant_files, truncated, omitted).
         Inr \<lparr>cc_case = \<lparr>rm_id = case_id c, rm_title = case_title c, rm_category = case_category c,
                         rm_severity = case_severity c, rm_stack = case_stack c,
                         rm_description = case_description c\<rparr>,
              cc_diff = diff_text, cc_relevant_files = relevant_files, cc_context_truncated = truncated,
              cc_omitted_files = omitted, cc_test_output = test_output,
              cc_static_analysis_output = static_analysis_output, cc_case_dir = Some case_dir\<rparr>))"

section \<open>Loading cases\<close>

text \<open>
  A pack as the loader meets it: whether the root and the case directories are links, the YAML
  documents (\<open>Inl\<close> if the reader or the YAML library rejects one), and the tree of each case.
  \<open>pk_dirs\<close> are the directories that hold a \<open>case.yaml\<close>.
\<close>

record case_source =
  cs_is_symlink :: bool
  cs_yaml :: "(string, benchmark_case) res"
  cs_tree :: node

record pack_source =
  pk_root :: abs_path
  pk_is_symlink :: bool
  pk_manifest :: "(string, case_manifest) res"
  pk_case :: "string \<Rightarrow> case_source"
  pk_dirs :: "string list"
  pk_resolve :: "abs_path \<Rightarrow> string list \<Rightarrow> abs_path"

datatype load_error =
    BadYaml string | BadManifest model_error | BadCase model_error | RootSymlink
  | CaseSymlink string | UnsafeContents "string list" | BadPath arena_error
  | IdsCollide string string | IdMismatch string string

definition raise_as :: "('e \<Rightarrow> 'f) \<Rightarrow> ('e, 'a) res \<Rightarrow> ('f, 'a) res" where
  "raise_as f r = (case r of Inl e \<Rightarrow> Inl (f e) | Inr x \<Rightarrow> Inr x)"

definition load_manifest :: "pack_source \<Rightarrow> (load_error, case_manifest) res" where
  "load_manifest pk =
     and_then (raise_as BadYaml (pk_manifest pk)) (\<lambda>m. raise_as BadManifest (validate_case_manifest m))"

definition input_fields :: "case_input \<Rightarrow> string list" where
  "input_fields i =
     [in_diff i, in_before_dir i, in_after_dir i]
     @ (case in_tests_dir i of None \<Rightarrow> [] | Some d \<Rightarrow> [d])"

definition load_case :: "pack_source \<Rightarrow> string \<Rightarrow> (load_error, benchmark_case \<times> node) res" where
  "load_case pk name =
     (let src = pk_case pk name in
      if cs_is_symlink src then Inl (CaseSymlink name)
      else and_then (raise_as BadYaml (cs_yaml src)) (\<lambda>raw.
        and_then (raise_as BadCase (validate_benchmark_case raw)) (\<lambda>c.
          let unsafe = find_unsafe_files (Some (cs_tree src)) in
          if unsafe \<noteq> [] then Inl (UnsafeContents unsafe)
          else and_then (raise_as BadPath (validate_case_id (case_id c))) (\<lambda>_.
            and_then (raise_as BadPath
                (check_all (\<lambda>field. and_then (resolve_under (pk_resolve pk) (pk_root pk @ [name]) field)
                                     (\<lambda>_. Inr ())) (input_fields (case_input_of c)))) (\<lambda>_.
              Inr (c, cs_tree src))))))"

definition see_manifest_id ::
  "pack_source \<Rightarrow> string \<Rightarrow> (string \<times> string) list \<Rightarrow> (load_error, (string \<times> string) list) res" where
  "see_manifest_id pk name seen_folded =
     and_then (raise_as BadPath (validate_case_id name)) (\<lambda>_.
       if cs_is_symlink (pk_case pk name) then Inl (CaseSymlink name)
       else and_then (raise_as BadPath (resolve_under (pk_resolve pk) (pk_root pk) name)) (\<lambda>_.
         case map_of seen_folded (casefold name) of
           Some other \<Rightarrow> Inl (IdsCollide other name)
         | None \<Rightarrow> Inr ((casefold name, name) # seen_folded)))"

definition load_listed ::
  "pack_source \<Rightarrow> string \<Rightarrow> (benchmark_case \<times> node) list
   \<Rightarrow> (load_error, (benchmark_case \<times> node) list) res" where
  "load_listed pk name cases =
     and_then (load_case pk name) (\<lambda>(c, tree).
       if case_id c \<noteq> name then Inl (IdMismatch name (case_id c)) else Inr (cases @ [(c, tree)]))"

definition fill_image :: "string option \<Rightarrow> benchmark_case \<Rightarrow> benchmark_case" where
  "fill_image image_ref c =
     (if given image_ref \<and> ex_docker_image (case_execution c) = None
      then c\<lparr>case_execution := (case_execution c)\<lparr>ex_docker_image := image_ref\<rparr>\<rparr> else c)"

definition load_cases :: "pack_source \<Rightarrow> (load_error, (benchmark_case \<times> node) list) res" where
  "load_cases pk =
     (if pk_is_symlink pk then Inl RootSymlink
      else and_then (load_manifest pk) (\<lambda>m.
        and_then (fold_res (see_manifest_id pk) (man_cases m) []) (\<lambda>_.
          and_then (fold_res (load_listed pk) (man_cases m) []) (\<lambda>cases.
            Inr (map (\<lambda>(c, tree). (fill_image (man_default_docker_image m) c, tree)) cases)))))"

section \<open>Validating a pack\<close>

datatype dataset_error =
    MissingBefore string | MissingAfter string | NoAddedLines string | BadDiff input_error
  | WeightsNot100 string | CommandRequired string | BadCommand string command_error
  | PatchMissing string | BadPatch string input_error | TruthFileMissing string nat string
  | BadTruthFile string input_error | RangeExceeds string line_range string nat
  | AcceptableMissing string string | NotLoaded load_error | NoCases
  | NotOnDisk string | NotListed string

fun command_given :: "test_command option \<Rightarrow> bool" where
  "command_given None \<longleftrightarrow> False"
| "command_given (Some (CommandString s)) \<longleftrightarrow> s \<noteq> []"
| "command_given (Some (ArgvCommand argv)) \<longleftrightarrow> argv \<noteq> []"
| "command_given (Some (ArgvSequence cs)) \<longleftrightarrow> cs \<noteq> []"

definition REFERENCE_PATCH_FILENAME :: string where "REFERENCE_PATCH_FILENAME = ''reference.patch''"

definition load_reference_patch :: "text_codec \<Rightarrow> node option \<Rightarrow> (input_error, string) res" where
  "load_reference_patch tc n = read_text_bounded tc n PATCH_BYTES"

definition diff_errors :: "text_codec \<Rightarrow> benchmark_case \<Rightarrow> node \<Rightarrow> (key_error, dataset_error list) res" where
  "diff_errors tc c tree =
     (case load_diff tc (node_path (in_diff (case_input_of c)) tree) of
        Inl e \<Rightarrow> Inr [BadDiff e]
      | Inr diff \<Rightarrow> and_then (parse_added_lines diff)
          (\<lambda>changed. Inr (if changed = [] then [NoAddedLines (case_id c)] else [])))"

definition patch_errors :: "text_codec \<Rightarrow> benchmark_case \<Rightarrow> node \<Rightarrow> dataset_error list" where
  "patch_errors tc c tree =
     (let n = node_path REFERENCE_PATCH_FILENAME tree in
      if \<not> va_patch_required (case_validation c) then []
      else if \<not> is_regular_at n then [PatchMissing (case_id c)]
      else case load_reference_patch tc n of
        Inl e \<Rightarrow> [BadPatch (case_id c) e]
      | Inr patch \<Rightarrow> if py_strip patch = [] then [PatchMissing (case_id c)] else [])"

definition truth_file_errors ::
  "text_codec \<Rightarrow> string \<Rightarrow> (string \<Rightarrow> node option) \<Rightarrow> nat \<Rightarrow> gt_file \<Rightarrow> dataset_error list" where
  "truth_file_errors tc slug after bug_index f =
     (if \<not> is_regular_at (after (gf_path f)) then [TruthFileMissing slug bug_index (gf_path f)]
      else case read_text_bounded tc (after (gf_path f)) PACK_FILE_BYTES of
        Inl e \<Rightarrow> [BadTruthFile slug e]
      | Inr content \<Rightarrow>
          (let line_count = length (splitlines content) in
           map (\<lambda>r. RangeExceeds slug r (gf_path f) line_count)
             (filter (\<lambda>r. lr_end r > int line_count) (gf_line_ranges f))))"

definition after_file :: "benchmark_case \<Rightarrow> node \<Rightarrow> string \<Rightarrow> node option" where
  "after_file c tree path =
     (case node_path (in_after_dir (case_input_of c)) tree of None \<Rightarrow> None | Some n \<Rightarrow> node_path path n)"

definition validate_case ::
  "text_codec \<Rightarrow> benchmark_case \<times> node \<Rightarrow> (key_error, dataset_error list) res" where
  "validate_case tc = (\<lambda>(c, tree).
     (let slug = case_id c; g = case_ground_truth c; e = case_execution c;
          before_node = node_path (in_before_dir (case_input_of c)) tree;
          after_node = node_path (in_after_dir (case_input_of c)) tree;
          after = after_file c tree
      in and_then (diff_errors tc c tree) (\<lambda>from_diff. Inr (
           (if is_dir_at before_node then [] else [MissingBefore slug])
           @ (if is_dir_at after_node then [] else [MissingAfter slug])
           @ from_diff
           @ (if weights_total (sc_weights (case_scoring c)) \<noteq> 100 then [WeightsNot100 slug] else [])
           @ (if ex_run_tests e \<and> \<not> command_given (ex_test_command e) then [CommandRequired slug] else [])
           @ (case parse_test_commands (ex_test_command e) of Inl err \<Rightarrow> [BadCommand slug err] | Inr _ \<Rightarrow> [])
           @ patch_errors tc c tree
           @ concat (map (\<lambda>(i, b). concat (map (truth_file_errors tc slug after i) (bug_files b)))
               (enum_list (gt_bugs g)))
           @ concat (map (\<lambda>a. case acc_path a of
               None \<Rightarrow> []
             | Some p \<Rightarrow> if p \<noteq> [] \<and> \<not> is_regular_at (after p) then [AcceptableMissing slug p] else [])
               (gt_acceptable_findings g))))))"

definition manifest_directory_mismatches :: "pack_source \<Rightarrow> case_manifest \<Rightarrow> dataset_error list" where
  "manifest_directory_mismatches pk m =
     map NotOnDisk (sorted_set (filter (\<lambda>i. i \<notin> set (pk_dirs pk)) (man_cases m)))
     @ map NotListed (sorted_set (filter (\<lambda>i. i \<notin> set (man_cases m)) (pk_dirs pk)))"

definition validate_each ::
  "text_codec \<Rightarrow> benchmark_case \<times> node \<Rightarrow> dataset_error list \<Rightarrow> (key_error, dataset_error list) res" where
  "validate_each tc c errors = and_then (validate_case tc c) (\<lambda>es. Inr (errors @ es))"

definition validate_dataset :: "text_codec \<Rightarrow> pack_source \<Rightarrow> (key_error, dataset_error list) res" where
  "validate_dataset tc pk =
     (case load_cases pk of
        Inl e \<Rightarrow> Inr [NotLoaded e]
      | Inr cases \<Rightarrow>
          and_then (fold_res (validate_each tc) cases []) (\<lambda>errors.
            Inr (errors @ (if cases = [] then [NoCases] else [])
              @ (case load_manifest pk of Inl e \<Rightarrow> [NotLoaded e]
                 | Inr m \<Rightarrow> manifest_directory_mismatches pk m))))"

datatype pack_error = ParserCrash key_error | PackRejected "dataset_error list"

definition load_and_validate_pack ::
  "text_codec \<Rightarrow> pack_source \<Rightarrow> (pack_error, (benchmark_case \<times> node) list) res" where
  "load_and_validate_pack tc pk =
     and_then (raise_as ParserCrash (validate_dataset tc pk)) (\<lambda>errors.
       if errors \<noteq> [] then Inl (PackRejected errors)
       else raise_as (\<lambda>e. PackRejected [NotLoaded e]) (load_cases pk))"

section \<open>The context budget\<close>

lemma alist_put_props:
  "set (alist_put k v d) \<subseteq> insert (k, v) (set d)"
  "length (alist_put k v d) \<le> Suc (length d)"
  "sum_list (map (\<lambda>e. f (snd e)) (alist_put k v d)) \<le> sum_list (map (\<lambda>e. f (snd e)) d) + (f v :: nat)"
  by (induction k v d rule: alist_put.induct) auto

definition read_whole :: "text_codec \<Rightarrow> context_limits \<Rightarrow> node \<Rightarrow> string \<times> string \<Rightarrow> bool" where
  "read_whole tc cl after = (\<lambda>(p, s). \<exists>bytes x k.
     node_path p after = Some (File bytes x k)
     \<and> length bytes \<le> min (cl_max_file_bytes cl) PACK_FILE_BYTES \<and> s = tc_decode_replace tc bytes)"

definition reading_ok :: "text_codec \<Rightarrow> context_limits \<Rightarrow> node \<Rightarrow> string set \<Rightarrow> reading \<Rightarrow> bool" where
  "reading_ok tc cl after seen s \<longleftrightarrow>
     sum_list (map (\<lambda>e. tc_utf8_size tc (snd e)) (rd_contents s)) \<le> rd_total_bytes s
     \<and> rd_total_bytes s \<le> cl_max_total_bytes cl \<and> length (rd_contents s) \<le> cl_max_files cl
     \<and> fst ` set (rd_contents s) \<union> set (rd_omitted s) = seen
     \<and> (rd_truncated s \<or> (\<forall>e \<in> set (rd_contents s). read_whole tc cl after e))"

lemma read_text_capped_uncut:
  "read_text_capped tc n limit = Inr (content, False) \<Longrightarrow>
     \<exists>bytes x k. n = Some (File bytes x k) \<and> length bytes \<le> limit \<and> content = tc_decode_replace tc bytes"
  by (auto simp: read_text_capped_def res_simps not_less elim!: read_at_most.elims)

lemma read_capped_whole:
  "read_text_capped tc (node_path p after) (min (cl_max_file_bytes cl) PACK_FILE_BYTES) = Inr (content, False)
   \<Longrightarrow> read_whole tc cl after (p, content)"
  unfolding read_whole_def prod.case by (rule read_text_capped_uncut)

lemma read_step_ok:
  assumes "reading_ok tc cl after seen s" "read_step tc cl after p s = Inr s'"
  shows "reading_ok tc cl after (insert p seen) s'"
proof (cases "length (rd_contents s) \<ge> cl_max_files cl \<or> rd_total_bytes s \<ge> cl_max_total_bytes cl")
  case True
  then show ?thesis using assms by (auto simp: read_step_def reading_ok_def)
next
  case False
  let ?limit = "min (cl_max_file_bytes cl) PACK_FILE_BYTES"
  obtain content cut where r: "read_text_capped tc (node_path p after) ?limit = Inr (content, cut)"
    using assms(2) False by (auto simp: read_step_def res_simps)
  define content' where "content' = (if cut then content @ tc_truncation_mark tc else content)"
  define s0 where "s0 = (if cut then s\<lparr>rd_truncated := True\<rparr> else s)"
  have s0: "reading_ok tc cl after seen s0" "rd_contents s0 = rd_contents s"
    "rd_total_bytes s0 = rd_total_bytes s" "\<not> rd_truncated s0 \<Longrightarrow> \<not> cut"
    using assms(1) by (auto simp: s0_def reading_ok_def)
  have s': "s' = (if rd_total_bytes s + tc_utf8_size tc content' > cl_max_total_bytes cl
      then s0\<lparr>rd_omitted := rd_omitted s0 @ [p], rd_total_bytes := cl_max_total_bytes cl\<rparr>
      else s0\<lparr>rd_contents := alist_put p content' (rd_contents s0),
              rd_total_bytes := rd_total_bytes s + tc_utf8_size tc content'\<rparr>)"
    using assms(2) False r s0(2,3) by (simp add: read_step_def Let_def s0_def content'_def split: if_splits)
  show ?thesis
  proof (cases "rd_total_bytes s + tc_utf8_size tc content' > cl_max_total_bytes cl")
    case True
    then show ?thesis using s0(1) unfolding s' by (auto simp: reading_ok_def)
  next
    case fits: False
    have whole: "read_whole tc cl after (p, content')" if "\<not> rd_truncated s0"
      using read_capped_whole r s0(4) [OF that] by (simp add: content'_def)
    have keys: "fst ` set (alist_put p content' (rd_contents s)) = insert p (fst ` set (rd_contents s))"
      using keys_alist_put [of p content' "rd_contents s"] by simp
    have "\<forall>e \<in> set (alist_put p content' (rd_contents s)). read_whole tc cl after e" if "\<not> rd_truncated s0"
      using s0(1,2) whole [OF that] that alist_put_props(1) [of p content' "rd_contents s"]
      by (auto simp: reading_ok_def)
    then show ?thesis
      using s0 fits False alist_put_props(2) [of p content' "rd_contents s"] keys
        alist_put_props(3) [of "tc_utf8_size tc" p content' "rd_contents s"]
      unfolding s' by (auto simp: reading_ok_def)
  qed
qed

lemma reading_all:
  assumes "fold_res (read_step tc cl after) ps s = Inr s'" "reading_ok tc cl after seen s"
  shows "reading_ok tc cl after (seen \<union> set ps) s'"
  using assms
proof (induction ps arbitrary: s seen)
  case (Cons p ps)
  then obtain t where "read_step tc cl after p s = Inr t" "fold_res (read_step tc cl after) ps t = Inr s'"
    by (auto simp: res_simps)
  then show ?case using Cons.IH read_step_ok [OF Cons.prems(2)] by fastforce
qed simp

text \<open>
  C10: what a reviewer sees stays within the limits on files and bytes, every file of the changed tree is
  either shown or reported as omitted, and a context that is not flagged as truncated shows every
  file whole.
\<close>

theorem context_within_budget:
  assumes "read_relevant_files tc cl after diff_text = Inr (contents, truncated, omitted)"
  shows "sum_list (map (\<lambda>e. tc_utf8_size tc (snd e)) contents) \<le> cl_max_total_bytes cl
    \<and> length contents \<le> cl_max_files cl
    \<and> fst ` set contents \<union> set omitted = set (file_paths after)
    \<and> (truncated \<or> omitted = [] \<and> list_all (read_whole tc cl after) contents)"
proof -
  obtain s where s: "fold_res (read_step tc cl after) (reading_order after diff_text)
      \<lparr>rd_contents = [], rd_omitted = [], rd_truncated = False, rd_total_bytes = 0\<rparr> = Inr s"
    "contents = rd_contents s" "truncated \<longleftrightarrow> rd_truncated s \<or> rd_omitted s \<noteq> []" "omitted = rd_omitted s"
    using assms by (auto simp: read_relevant_files_def res_simps)
  have "reading_ok tc cl after {} \<lparr>rd_contents = [], rd_omitted = [], rd_truncated = False, rd_total_bytes = 0\<rparr>"
    by (simp add: reading_ok_def)
  from reading_all [OF s(1) this]
  have "reading_ok tc cl after (set (reading_order after diff_text)) s" by simp
  moreover have "set (reading_order after diff_text) = set (file_paths after)"
    by (auto simp: reading_order_def Let_def)
  ultimately show ?thesis
    using s(2-4) by (auto simp: reading_ok_def list_all_iff)
qed

definition latin :: text_codec where
  "latin = \<lparr>tc_decode = Some, tc_decode_replace = (\<lambda>s. s), tc_utf8_size = length,
            tc_truncation_mark = ''[cut]''\<rparr>"

definition two_files :: node where
  "two_files = Dir [(''a.py'', File ''aaaa'' False 1), (''lib'', Dir [(''b.py'', File ''bb'' False 1)])]"

definition tight :: context_limits where
  "tight = \<lparr>cl_max_files = 5, cl_max_total_bytes = 3, cl_max_file_bytes = 10\<rparr>"

theorem context_within_budget_witness:
  "read_relevant_files latin tight two_files ''+++ b/lib/b.py'' = Inr ([(''lib/b.py'', ''bb'')], True, [''a.py''])
   \<and> {''lib/b.py''} \<union> {''a.py''} = set (file_paths two_files)"
proof -
  have r: "read_relevant_files latin tight two_files ''+++ b/lib/b.py''
      = Inr ([(''lib/b.py'', ''bb'')], True, [''a.py''])"
    by code_simp
  then show ?thesis using context_within_budget [OF r] by simp
qed

text \<open>
  A diff whose deleted file is followed by an added line makes the parser look up a file it never
  recorded. The exception is not one that the callers handle.
\<close>

definition deleted_then_added :: string where
  "deleted_then_added = join_with [CHR 0x0A] [''+++ /dev/null'', ''@@ -1 +0,0 @@'', ''+x'']"

theorem added_lines_key_error:
  "parse_added_lines deleted_then_added = Inl (KeyError ''/dev/null'')"
  by code_simp

definition small_case :: benchmark_case where
  "small_case =
     \<lparr>case_id = ''case-1'', case_title = ''t'', case_category = ''authz'', case_severity = High,
      case_stack = [''python''], case_description = [],
      case_input_of = \<lparr>in_diff = ''pr.diff'', in_before_dir = ''before'', in_after_dir = ''after'',
                       in_tests_dir = None\<rparr>,
      case_ground_truth = \<lparr>gt_bugs =
        [\<lparr>bug_id = [], bug_summary = ''s'',
          bug_files = [\<lparr>gf_path = ''a.py'', gf_line_ranges = [\<lparr>lr_start = 1, lr_end = 2\<rparr>]\<rparr>],
          bug_concepts = [''auth''], bug_must_mention = [], bug_fix_keywords = []\<rparr>],
        gt_acceptable_findings = []\<rparr>,
      case_scoring = \<lparr>sc_weights = \<lparr>w_concept_match = 30, w_file_match = 15, w_line_overlap = 20,
          w_severity_match = 10, w_fix_quality = 15, w_no_false_positives = 10\<rparr>,
        sc_false_positive_penalty = 5, sc_false_positive_penalty_cap = 20, sc_invalid_json_penalty = 10\<rparr>,
      case_execution = \<lparr>ex_run_tests = False, ex_test_command = None, ex_timeout_seconds = 30,
        ex_docker_image = None, ex_run_static_analysis = False, ex_static_analysis_command = None\<rparr>,
      case_validation = \<lparr>va_patch_required = False, va_tests_required = False,
        va_structural_validators = [], va_max_false_positives = 0, va_protected_paths = [],
        va_detection_requirement = AllBugs\<rparr>,
      case_beta = 1\<rparr>"

text \<open>
  The check for a diff without added lines looks at whether any file was named, not at the lines: a
  diff that only deletes lines of a file that stays passes it.
\<close>

definition only_deletions :: string where
  "only_deletions = join_with [CHR 0x0A] [''+++ b/a.py'', ''@@ -1,2 +1 @@'', ''-x'', '' y'']"

theorem no_added_lines_accepted:
  "parse_added_lines only_deletions = Inr [(''a.py'', [])]
   \<and> diff_errors latin small_case (Dir [(''pr.diff'', File only_deletions False 1)]) = Inr []"
  by code_simp

section \<open>What an admitted pack is\<close>

definition truth_located :: "text_codec \<Rightarrow> benchmark_case \<Rightarrow> node \<Rightarrow> gt_file \<Rightarrow> bool" where
  "truth_located tc c tree f \<longleftrightarrow>
     (case read_text_bounded tc (after_file c tree (gf_path f)) PACK_FILE_BYTES of
        Inl _ \<Rightarrow> False
      | Inr content \<Rightarrow> list_all (\<lambda>r. lr_end r \<le> int (length (splitlines content))) (gf_line_ranges f))"

definition admissible_case :: "text_codec \<Rightarrow> benchmark_case \<times> node \<Rightarrow> bool" where
  "admissible_case tc = (\<lambda>(c, tree).
     find_unsafe_files (Some tree) = []
     \<and> is_dir_at (node_path (in_before_dir (case_input_of c)) tree)
     \<and> is_dir_at (node_path (in_after_dir (case_input_of c)) tree)
     \<and> weights_total (sc_weights (case_scoring c)) = 100
     \<and> (ex_run_tests (case_execution c) \<longrightarrow> command_given (ex_test_command (case_execution c)))
     \<and> (\<exists>commands. parse_test_commands (ex_test_command (case_execution c)) = Inr commands)
     \<and> (va_patch_required (case_validation c) \<longrightarrow>
          (\<exists>patch. load_reference_patch tc (node_path REFERENCE_PATCH_FILENAME tree) = Inr patch
             \<and> py_strip patch \<noteq> []))
     \<and> (\<forall>b \<in> set (gt_bugs (case_ground_truth c)). list_all (truth_located tc c tree) (bug_files b)))"

lemma raise_as_Inr [res_simps]: "raise_as f r = Inr x \<longleftrightarrow> r = Inr x"
  by (cases r) (auto simp: raise_as_def)

lemma truth_file_errors_Nil:
  "truth_file_errors tc slug (after_file c tree) i f = [] \<Longrightarrow> truth_located tc c tree f"
  by (auto simp: truth_file_errors_def truth_located_def Let_def filter_empty_conv list_all_iff not_less
      split: if_splits sum.splits)

lemma validate_case_Nil:
  assumes "validate_case tc (c, tree) = Inr []" "find_unsafe_files (Some tree) = []"
  shows "admissible_case tc (c, tree)"
proof -
  note facts = assms(1) [unfolded validate_case_def Let_def prod.case and_then_Inr sum.inject append_is_Nil_conv]
  then obtain
    "(if is_dir_at (node_path (in_before_dir (case_input_of c)) tree) then [] else [MissingBefore (case_id c)]) = []"
    "(if is_dir_at (node_path (in_after_dir (case_input_of c)) tree) then [] else [MissingAfter (case_id c)]) = []"
    "(if weights_total (sc_weights (case_scoring c)) \<noteq> 100 then [WeightsNot100 (case_id c)] else []) = []"
    "(if ex_run_tests (case_execution c) \<and> \<not> command_given (ex_test_command (case_execution c))
      then [CommandRequired (case_id c)] else []) = []"
    and commands: "(case parse_test_commands (ex_test_command (case_execution c)) of
        Inl err \<Rightarrow> [BadCommand (case_id c) err] | Inr _ \<Rightarrow> []) = []"
    and patch: "patch_errors tc c tree = []"
    and truth: "concat (map (\<lambda>(i, b).
       concat (map (truth_file_errors tc (case_id c) (after_file c tree) i) (bug_files b)))
       (enum_list (gt_bugs (case_ground_truth c)))) = []"
    by (elim exE conjE) (rule that)
  then have none: "is_dir_at (node_path (in_before_dir (case_input_of c)) tree)"
    "is_dir_at (node_path (in_after_dir (case_input_of c)) tree)"
    "weights_total (sc_weights (case_scoring c)) = 100"
    "ex_run_tests (case_execution c) \<longrightarrow> command_given (ex_test_command (case_execution c))"
    by (simp_all split: if_splits)
  have parsed: "\<exists>commands. parse_test_commands (ex_test_command (case_execution c)) = Inr commands"
    using commands by (simp split: sum.splits)
  have patch_ok: "va_patch_required (case_validation c) \<longrightarrow>
      (\<exists>p. load_reference_patch tc (node_path REFERENCE_PATCH_FILENAME tree) = Inr p \<and> py_strip p \<noteq> [])"
    using patch by (auto simp: patch_errors_def Let_def split: sum.splits if_splits)
  have "list_all (truth_located tc c tree) (bug_files b)" if "b \<in> set (gt_bugs (case_ground_truth c))" for b
  proof -
    have "b \<in> set (map snd (enum_list (gt_bugs (case_ground_truth c))))"
      using that by (simp only: map_snd_enum_list)
    then obtain e where "e \<in> set (enum_list (gt_bugs (case_ground_truth c)))" "b = snd e"
      unfolding set_map by blast
    then obtain i where "(i, b) \<in> set (enum_list (gt_bugs (case_ground_truth c)))"
      by (metis prod.collapse)
    then have "\<forall>f \<in> set (bug_files b). truth_file_errors tc (case_id c) (after_file c tree) i f = []"
      using truth by fastforce
    then show ?thesis using truth_file_errors_Nil by (auto simp: list_all_iff)
  qed
  then show ?thesis
    using none parsed patch_ok assms(2) unfolding admissible_case_def prod.case by blast
qed

lemma validate_each_Inr:
  "validate_each tc c acc = Inr t \<longleftrightarrow> (\<exists>es. validate_case tc c = Inr es \<and> t = acc @ es)"
  by (auto simp: validate_each_def res_simps)

lemma validate_each_Nil:
  "fold_res (validate_each tc) cases acc = Inr [] \<Longrightarrow> acc = [] \<and> (\<forall>c \<in> set cases. validate_case tc c = Inr [])"
proof (induction cases arbitrary: acc)
  case (Cons c cases)
  then obtain t where t: "validate_each tc c acc = Inr t" "fold_res (validate_each tc) cases t = Inr []"
    by (auto simp: res_simps)
  then show ?case using Cons.IH [OF t(2)] by (auto simp: validate_each_Inr)
qed simp

lemma load_case_safe: "load_case pk name = Inr (c, tree) \<Longrightarrow> find_unsafe_files (Some tree) = []"
  by (auto simp: load_case_def Let_def res_simps split: if_splits)

lemma load_listed_Inr:
  "load_listed pk name acc = Inr t \<longleftrightarrow>
     (\<exists>c tree. load_case pk name = Inr (c, tree) \<and> case_id c = name \<and> t = acc @ [(c, tree)])"
  by (auto simp: load_listed_def res_simps split: if_splits)

lemma load_listed_all:
  "fold_res (load_listed pk) names acc = Inr cases \<Longrightarrow>
     map (case_id \<circ> fst) cases = map (case_id \<circ> fst) acc @ names
     \<and> (\<forall>c \<in> set cases. c \<in> set acc \<or> load_case pk (case_id (fst c)) = Inr c)"
proof (induction names arbitrary: acc)
  case (Cons name names)
  then obtain t where t: "load_listed pk name acc = Inr t" "fold_res (load_listed pk) names t = Inr cases"
    by (auto simp: res_simps)
  then show ?case using Cons.IH [OF t(2)] by (auto simp: load_listed_Inr)
qed simp

lemma see_manifest_id_Inr:
  "see_manifest_id pk name seen = Inr t \<Longrightarrow>
     map_of seen (casefold name) = None \<and> t = (casefold name, name) # seen"
  by (auto simp: see_manifest_id_def res_simps split: if_splits option.splits)

lemma see_manifest_ids:
  "fold_res (see_manifest_id pk) names seen = Inr seen' \<Longrightarrow>
     distinct (map casefold names) \<and> (\<forall>n \<in> set names. map_of seen (casefold n) = None)"
proof (induction names arbitrary: seen)
  case (Cons name names)
  then obtain t where t: "see_manifest_id pk name seen = Inr t" "fold_res (see_manifest_id pk) names t = Inr seen'"
    by (auto simp: res_simps)
  then show ?case
    using Cons.IH [OF t(2)] see_manifest_id_Inr [OF t(1)] by (auto split: if_splits)
qed simp

lemma fill_image_simps [simp]:
  "case_id (fill_image i c) = case_id c" "case_input_of (fill_image i c) = case_input_of c"
  by (simp_all add: fill_image_def)

lemma load_cases_Inr:
  assumes "load_cases pk = Inr cases"
  shows "\<exists>m. load_manifest pk = Inr m \<and> map (case_id \<circ> fst) cases = man_cases m
    \<and> distinct (map casefold (man_cases m))
    \<and> (\<forall>x \<in> set cases. find_unsafe_files (Some (snd x)) = []
         \<and> (given (man_default_docker_image m) \<longrightarrow> ex_docker_image (case_execution (fst x)) \<noteq> None))"
proof -
  obtain m seen loaded where m: "load_manifest pk = Inr m"
    and seen: "fold_res (see_manifest_id pk) (man_cases m) [] = Inr seen"
    and loaded: "fold_res (load_listed pk) (man_cases m) [] = Inr loaded"
    and cases: "cases = map (\<lambda>(c, tree). (fill_image (man_default_docker_image m) c, tree)) loaded"
    using assms by (auto simp: load_cases_def res_simps split: if_splits)
  have "map (case_id \<circ> fst) cases = man_cases m"
    using load_listed_all [OF loaded] by (simp add: cases comp_def case_prod_unfold)
  moreover have "find_unsafe_files (Some (snd x)) = []
      \<and> (given (man_default_docker_image m) \<longrightarrow> ex_docker_image (case_execution (fst x)) \<noteq> None)"
    if "x \<in> set cases" for x
    using that load_listed_all [OF loaded] load_case_safe
    by (force simp: cases fill_image_def given_def)
  ultimately show ?thesis using m see_manifest_ids [OF seen] by blast
qed

text \<open>
  C9: a pack that runs was admitted case by case. Its cases are those of the manifest, in order, under
  identifiers that differ even ignoring case; every case has its directories, contains no links or
  special files, weights that sum to 100, a command that parses, a usable reference patch where one
  is required, and a ground truth whose line ranges exist in the changed files; and where the manifest
  has a default image no case is left without one.
\<close>

theorem admitted_pack_sound:
  assumes "load_and_validate_pack tc pk = Inr cases"
  shows "cases \<noteq> [] \<and> list_all (admissible_case tc) cases
    \<and> (\<exists>m. load_manifest pk = Inr m \<and> map (case_id \<circ> fst) cases = man_cases m
         \<and> distinct (map casefold (man_cases m))
         \<and> set (pk_dirs pk) = set (man_cases m)
         \<and> (given (man_default_docker_image m) \<longrightarrow>
              list_all (\<lambda>x. ex_docker_image (case_execution (fst x)) \<noteq> None) cases))"
proof -
  have loaded: "load_cases pk = Inr cases" and none: "validate_dataset tc pk = Inr []"
    using assms by (auto simp: load_and_validate_pack_def res_simps)
  from load_cases_Inr [OF loaded] obtain m where
    m: "load_manifest pk = Inr m" "map (case_id \<circ> fst) cases = man_cases m"
      "distinct (map casefold (man_cases m))"
    and safe: "\<forall>x \<in> set cases. find_unsafe_files (Some (snd x)) = []
         \<and> (given (man_default_docker_image m) \<longrightarrow> ex_docker_image (case_execution (fst x)) \<noteq> None)"
    by blast
  have "fold_res (validate_each tc) cases [] = Inr []" "cases \<noteq> []"
    "manifest_directory_mismatches pk m = []"
    using none loaded m(1) by (auto simp: validate_dataset_def res_simps split: if_splits)
  then have each: "\<forall>c \<in> set cases. validate_case tc c = Inr []"
    and dirs: "set (pk_dirs pk) = set (man_cases m)"
    using validate_each_Nil by (auto simp: manifest_directory_mismatches_def filter_empty_conv)
  have "list_all (admissible_case tc) cases"
    using each safe validate_case_Nil by (fastforce simp: list_all_iff)
  then show ?thesis using \<open>cases \<noteq> []\<close> m dirs safe by (auto simp: list_all_iff)
qed

definition small_tree :: node where
  "small_tree = Dir
     [(''pr.diff'', File (join_with [CHR 0x0A] [''+++ b/a.py'', ''@@ -1 +1,2 @@'', ''+x'', ''+y'']) False 1),
      (''before'', Dir []),
      (''after'', Dir [(''a.py'', File [CHR ''x'', CHR 0x0A, CHR ''y'', CHR 0x0A] False 1)])]"

definition small_pack :: pack_source where
  "small_pack =
     \<lparr>pk_root = [''packs'', ''p''], pk_is_symlink = False,
      pk_manifest = Inr \<lparr>man_version = ''v1'', man_name = ''n'', man_cases = [''case-1''],
                         man_default_docker_image = Some ''bench:1''\<rparr>,
      pk_case = (\<lambda>_. \<lparr>cs_is_symlink = False, cs_yaml = Inr small_case, cs_tree = small_tree\<rparr>),
      pk_dirs = [''case-1''], pk_resolve = lexical_join\<rparr>"

definition pack_images :: "(pack_error, (benchmark_case \<times> node) list) res \<Rightarrow> (string \<times> string option) list option" where
  "pack_images r = (case r of Inl _ \<Rightarrow> None
     | Inr cases \<Rightarrow> Some (map (\<lambda>(c, _). (case_id c, ex_docker_image (case_execution c))) cases))"

theorem admitted_pack_sound_witness:
  "\<exists>cases. load_and_validate_pack latin small_pack = Inr cases
     \<and> map (case_id \<circ> fst) cases = [''case-1''] \<and> list_all (admissible_case latin) cases"
proof -
  have "pack_images (load_and_validate_pack latin small_pack) = Some [(''case-1'', Some ''bench:1'')]"
    by code_simp
  then obtain cases where c: "load_and_validate_pack latin small_pack = Inr cases"
    "map (\<lambda>(c, _). (case_id c, ex_docker_image (case_execution c))) cases = [(''case-1'', Some ''bench:1'')]"
    by (auto simp: pack_images_def split: sum.splits)
  have "map fst (map (\<lambda>(c, _). (case_id c, ex_docker_image (case_execution c))) cases) = [''case-1'']"
    by (simp add: c(2))
  then have "map (case_id \<circ> fst) cases = [''case-1'']"
    by (simp add: comp_def case_prod_unfold)
  with c(1) admitted_pack_sound [OF c(1)] show ?thesis by (intro exI [of _ cases]) simp
qed

end
