(* ===== verification/Validators.thy ===== *)
theory Validators
  imports Pattern Case_Loader
begin

text \<open>
  The structural validators: \<open>arena/validators/base.py\<close>, \<open>source_text.py\<close>, \<open>registry.py\<close>,
  \<open>python_ast.py\<close>, \<open>rag_validators.py\<close>, \<open>sql_static.py\<close> and \<open>javascript_static.py\<close>.

  A validator reads the file of the primary bug from the patched workspace, strips its comments and
  matches the rest. Python's own parser is a parameter (\<open>py_tools\<close>): the \<open>tokenize\<close> round trip that
  drops comments (\<open>None\<close> if it raises), \<open>ast.parse\<close> (\<open>None\<close> on a syntax error), \<open>ast.unparse\<close>,
  \<open>ast.dump\<close>, \<open>repr\<close>, the text of the \<open>ValueError\<close> a validator that parses raises on a source, and the text of the
  \<open>NotADirectoryError\<close> for a path. A syntax tree has the node kinds the validators ask for; its other nodes are
  \<open>OtherNode\<close>.
\<close>

section \<open>Text\<close>

definition lower_char :: "char \<Rightarrow> char" where
  "lower_char c = (let n = (of_char c :: nat) in
     if (65 \<le> n \<and> n \<le> 90) \<or> (192 \<le> n \<and> n \<le> 222 \<and> n \<noteq> 215) then char_of (n + 32) else c)"

definition py_lower :: "string \<Rightarrow> string" where "py_lower s = map lower_char s"

definition drop_blanks :: "string \<Rightarrow> string" where
  "drop_blanks s = filter (\<lambda>c. c \<noteq> CHR '' '') s"

definition has_any :: "string list \<Rightarrow> string \<Rightarrow> bool" where
  "has_any ws s = list_ex (\<lambda>w. contains_sub w s) ws"

fun find_sub :: "string \<Rightarrow> string \<Rightarrow> nat option" where
  "find_sub p [] = (if p = [] then Some 0 else None)"
| "find_sub p (c # s) = (if starts_with (c # s) p then Some 0 else map_option Suc (find_sub p s))"

fun rfind_sub :: "string \<Rightarrow> string \<Rightarrow> nat option" where
  "rfind_sub p [] = (if p = [] then Some 0 else None)"
| "rfind_sub p (c # s) =
     (case rfind_sub p s of Some n \<Rightarrow> Some (Suc n)
      | None \<Rightarrow> if starts_with (c # s) p then Some 0 else None)"

definition or_minus_1 :: "nat option \<Rightarrow> int" where
  "or_minus_1 x = (case x of None \<Rightarrow> - 1 | Some n \<Rightarrow> int n)"

section \<open>Comments\<close>

fun after_close :: "string \<Rightarrow> string option" where
  "after_close (c # d # s) = (if c = CHR ''*'' \<and> d = CHR ''/'' then Some s else after_close (d # s))"
| "after_close _ = None"

lemma after_close_shorter [termination_simp]: "after_close s = Some r \<Longrightarrow> length r < length s"
  by (induction s rule: after_close.induct) (auto split: if_splits)

lemma length_drop_line [termination_simp]: "length (dropWhile P s) < Suc (Suc (length s))"
  using length_dropWhile_le [of P s] by linarith

text \<open>
  \<open>_JS_COMMENT.sub\<close> and \<open>_SQL_COMMENT.sub\<close>, whose line comments start with the doubled character \<open>m\<close>.
\<close>

fun strip_comments :: "char \<Rightarrow> string \<Rightarrow> string" where
  "strip_comments m (c # d # s) =
     (if c = m \<and> d = m then strip_comments m (dropWhile (\<lambda>x. x \<noteq> CHR 0x0A) s)
      else if c = CHR ''/'' \<and> d = CHR ''*'' then
        (case after_close s of
           Some r \<Rightarrow> strip_comments m r
         | None \<Rightarrow> c # strip_comments m (d # s))
      else c # strip_comments m (d # s))"
| "strip_comments m s = s"

fun strip_hash :: "bool \<Rightarrow> string \<Rightarrow> string" where
  "strip_hash commented [] = []"
| "strip_hash commented (c # s) =
     (if c = CHR 0x0A then c # strip_hash False s
      else if commented \<or> c = CHR ''#'' then strip_hash True s
      else c # strip_hash False s)"

datatype py_node =
    FunctionDef string "py_node list" "py_node list" "py_node list"
  | AsyncFunctionDef "py_node list" "py_node list" "py_node list"
  | Return "py_node option"
  | Subscript py_node "py_node list"
  | TupleNode "py_node list"
  | OtherNode "py_node list"

text \<open>The three lists of a function are its fields before the body, its body and the fields after it.\<close>

record py_tools =
  pt_uncommented :: "string \<Rightarrow> string option"
  pt_parse :: "string \<Rightarrow> py_node option"
  pt_unparse :: "py_node \<Rightarrow> string"
  pt_dump :: "py_node \<Rightarrow> string"
  pt_repr :: "string \<Rightarrow> string"
  pt_value_error :: "string \<Rightarrow> string \<Rightarrow> string option"
  pt_not_directory :: "string \<Rightarrow> string"

definition strip_python_comments :: "py_tools \<Rightarrow> string \<Rightarrow> string" where
  "strip_python_comments pt s =
     (case pt_uncommented pt s of Some r \<Rightarrow> r | None \<Rightarrow> strip_hash False s)"

definition JS_LIKE_SUFFIXES :: "string list" where
  "JS_LIKE_SUFFIXES = [''.ts'', ''.tsx'', ''.js'', ''.jsx'', ''.java'']"

definition stripped_source :: "py_tools \<Rightarrow> string \<Rightarrow> string \<Rightarrow> string" where
  "stripped_source pt path s =
     (if ends_with path ''.py'' then strip_python_comments pt s
      else if list_ex (ends_with path) JS_LIKE_SUFFIXES then strip_comments (CHR ''/'') s
      else if ends_with path ''.sql'' then strip_comments (CHR ''-'') s
      else s)"

section \<open>Syntax trees\<close>

fun child_nodes :: "py_node \<Rightarrow> py_node list" where
  "child_nodes (FunctionDef _ lead body trail) = lead @ body @ trail"
| "child_nodes (AsyncFunctionDef lead body trail) = lead @ body @ trail"
| "child_nodes (Return v) = (case v of None \<Rightarrow> [] | Some n \<Rightarrow> [n])"
| "child_nodes (Subscript v trail) = v # trail"
| "child_nodes (TupleNode elts) = elts"
| "child_nodes (OtherNode ns) = ns"

lemma child_nodes_size: "sum_list (map size (child_nodes n)) < size n"
  by (cases n) (auto simp: size_list_conv_sum_list comp_def sum_list_addf split: option.split)

text \<open>\<open>ast.walk\<close>: breadth first, a queue of nodes still to visit.\<close>

function ast_walk :: "py_node list \<Rightarrow> py_node list" where
  "ast_walk [] = []"
| "ast_walk (n # todo) = n # ast_walk (todo @ child_nodes n)"
  by pat_completeness auto
termination
  by (relation "measure (\<lambda>todo. sum_list (map size todo))") (auto simp: child_nodes_size)

section \<open>The contract of a validator\<close>

record validator_context =
  vc_case_id :: string
  vc_workspace :: node
  vc_behind_link :: "(input_error, node option) res"
  vc_changed_files :: "string list"
  vc_finding :: "finding option"
  vc_case :: benchmark_case

text \<open>The workspace path is a tree and what a link on the way to the file, left by the tests, leads to.\<close>

definition expected_path :: "validator_context \<Rightarrow> string" where
  "expected_path ctx = gf_path (hd (bug_files (primary_bug (case_ground_truth (vc_case ctx)))))"

definition read_expected_file ::
  "text_codec \<Rightarrow> validator_context \<Rightarrow> (input_error, string \<times> string) res" where
  "read_expected_file tc ctx =
     (let path = expected_path ctx in
      and_then (lstat_path (vc_behind_link ctx) (split_on CHR ''/'' path) (vc_workspace ctx)) (\<lambda>found.
      and_then (read_text_bounded tc found PACK_FILE_BYTES) (\<lambda>s. Inr (path, s))))"

definition read_expected_source ::
  "text_codec \<Rightarrow> py_tools \<Rightarrow> validator_context \<Rightarrow> (input_error, string \<times> string) res" where
  "read_expected_source tc pt ctx =
     and_then (read_expected_file tc ctx) (\<lambda>(path, s). Inr (path, stripped_source pt path s))"

definition report ::
  "string \<Rightarrow> bool \<Rightarrow> rat \<times> rat \<Rightarrow> string \<times> string \<Rightarrow> string list \<Rightarrow> validator_result" where
  "report name passed confidence message evidence =
     \<lparr>vr_name = name, vr_passed = passed,
      vr_confidence = (if passed then fst confidence else snd confidence),
      vr_message = (if passed then fst message else snd message),
      vr_evidence = evidence, vr_error = None\<rparr>"

definition said :: "bool \<Rightarrow> string \<Rightarrow> string list" where
  "said b s = (if b then [s] else [])"


section \<open>Python validators\<close>

definition compact :: "string \<Rightarrow> string" where "compact s = drop_blanks s"

definition word_call :: "string list \<Rightarrow> pattern" where
  "word_call names = sequence [WordBoundary, literals names, blanks, literal ''('']"

definition not_paren :: pattern where "not_paren = Many (Class (\<lambda>c. c \<noteq> CHR '')''))"

definition fastapi_requires_admin_authorization :: "py_tools \<Rightarrow> string \<Rightarrow> validator_result" where
  "fastapi_requires_admin_authorization pt s =
     (let lower = py_lower s;
          rendered = (case pt_parse pt s of None \<Rightarrow> lower | Some t \<Rightarrow> py_lower (pt_dump pt t));
          dependency = has_any [''depends(require_admin)'', ''depends(admin_required)''] (compact lower);
          helper = search_pattern (Then (NotBehind ''def '')
            (word_call [''require_permission'', ''check_admin_permission'', ''authorize_admin''])) lower;
          role_check = (contains_sub ''is_admin'' lower \<or> search_pattern (sequence
            [literals [''role'', ''permission'', ''permissions''], UpTo 50 anything,
             any_of [literal ''=='', literal ''!='', sequence [WordBoundary, literal ''in'', WordBoundary]],
             UpTo 30 anything, literals [''admin'', ''administrator'']]) lower);
          denied = (contains_sub ''status_code=403'' (compact lower)
            \<or> (contains_sub ''forbidden'' lower \<and> role_check)
            \<or> (contains_sub ''returnnone'' (compact lower) \<and> role_check));
          passed = (dependency \<or> helper \<or> role_check \<and> denied)
      in report ''fastapi_requires_admin_authorization'' passed (92 / 100, 90 / 100)
           (''A credible administrator authorization path was found.'',
            ''The admin route still lacks a credible authorization guard.'')
           (said dependency ''Admin authorization dependency is attached to the route.''
            @ said (helper \<and> \<not> dependency) ''Route invokes a helper with admin or permission semantics.''
            @ said (role_check \<and> denied) ''Route checks privilege and rejects unauthorized access.''
            @ said (contains_sub ''functiondef'' rendered \<and> passed)
                ''Patched module parses as a Python route implementation.''))"

definition least_of :: "int list \<Rightarrow> int" where
  "least_of xs = (if xs = [] then - 1 else Min (set xs))"

definition greatest_of :: "int list \<Rightarrow> int" where
  "greatest_of xs = (if xs = [] then - 1 else Max (set xs))"

definition found_at :: "(string \<Rightarrow> string \<Rightarrow> nat option) \<Rightarrow> string list \<Rightarrow> string \<Rightarrow> int list" where
  "found_at find_in tokens s =
     filter (\<lambda>n. 0 \<le> n) (map (\<lambda>token. or_minus_1 (find_in token s)) tokens)"

definition kafka_idempotency_guard :: "py_tools \<Rightarrow> string \<Rightarrow> validator_result" where
  "kafka_idempotency_guard pt s =
     (let lower = py_lower s;
          has_key = (found_at find_sub [''event_id'', ''message_id'', ''idempotency_key''] lower \<noteq> []);
          mutation = least_of (found_at find_sub [''.credit('', ''.update('', ''.apply(''] lower);
          guard = least_of (found_at find_sub
            [''processed_event'', ''processed_message'', ''idempotency'', ''already_processed''] lower);
          record = greatest_of (found_at rfind_sub [''add('', ''insert'', ''save('', ''record''] lower);
          conditional = has_any [''if '', ''exists'', ''contains''] lower;
          passed = (has_key \<and> 0 \<le> mutation \<and> 0 \<le> guard \<and> conditional
            \<and> guard < mutation \<and> mutation < record)
      in report ''kafka_idempotency_guard'' passed (94 / 100, 88 / 100)
           (''Idempotency guard wraps the state mutation.'',
            ''No complete check-then-record idempotency guard surrounds the mutation.'')
           (said has_key ''A unique event/message identifier is referenced.''
            @ said (0 \<le> guard \<and> 0 \<le> mutation \<and> guard < mutation)
                ''Processed-event state is checked before mutation.''
            @ said (mutation < record \<and> 0 \<le> mutation)
                ''Processed-event state is recorded after mutation.''))"

definition fastapi_tenant_admin_authorization :: "py_tools \<Rightarrow> string \<Rightarrow> validator_result" where
  "fastapi_tenant_admin_authorization pt s =
     (let lower = py_lower s;
          tenant_dependency = has_any [''depends(require_tenant_admin)'',
            ''depends(require_admin_for_tenant)'', ''depends(tenant_admin_required)''] (compact lower);
          tenant_helper = search_pattern (word_call
            [''require_tenant_admin'', ''require_admin_for_tenant'', ''authorize_tenant_admin'']) lower;
          role_check = search_pattern (sequence [literals [''has_role'', ''is_admin'', ''role''],
            UpTo 80 anything, literals [''tenant'', ''org'', ''organization'']]) lower;
          tenant_guard = search_pattern (Or
            (sequence [literal ''tenant_id'', UpTo 40 anything,
              any_of [literal ''!='', literal ''=='', Then (literal ''in'') WordBoundary]])
            (sequence [literals [''!='', ''==''], UpTo 40 anything, literal ''tenant_id''])) lower;
          denied = (contains_sub ''status_code=403'' (compact lower)
            \<or> contains_sub ''forbidden'' lower \<and> (role_check \<or> tenant_guard));
          passed = (tenant_dependency \<or> tenant_helper \<or> role_check \<and> tenant_guard \<and> denied);
          auth_only = (contains_sub ''depends(get_current_user)'' (compact lower) \<and> \<not> passed)
      in report ''fastapi_tenant_admin_authorization'' passed (93 / 100, 90 / 100)
           (''Tenant-scoped administrator authorization is enforced.'',
            ''Tenant admin route still lacks tenant-scoped administrator enforcement.'')
           (said tenant_dependency ''Route depends on a tenant-scoped admin guard.''
            @ said tenant_helper ''Route invokes a tenant admin authorization helper.''
            @ said (role_check \<and> tenant_guard) ''Route checks tenant-scoped administrator privilege.''
            @ said auth_only ''Route only checks authentication, not tenant admin privilege.''))"

definition async_update_atomicity_guard :: "py_tools \<Rightarrow> string \<Rightarrow> validator_result" where
  "async_update_atomicity_guard pt s =
     (let lower = py_lower s;
          lock_guard = (contains_sub ''asyncio.lock'' lower \<and> contains_sub ''async with'' lower);
          transaction = has_any [''begin_transaction'', ''transaction'', ''atomic''] lower;
          versioned = has_any [''version'', ''compare_and_swap'', ''cas(''] lower;
          unguarded = search_pattern (sequence [literal ''current'', blanks, literal ''='', blanks,
            literal ''self.balance'', UpTo 120 anything, literal ''self.balance'', blanks, literal ''='',
            blanks, literal ''current'']) lower;
          passed = (lock_guard \<or> transaction \<or> versioned)
      in (report ''async_update_atomicity_guard'' passed (94 / 100, 90 / 100)
           (''Concurrent balance mutation is protected.'',
            ''Balance updates remain vulnerable to lost concurrent writes.'')
           (said lock_guard ''Concurrent updates are guarded with asyncio.Lock.''
            @ said transaction ''Updates run inside a transaction or atomic abstraction.''
            @ said versioned ''Updates use a version or compare-and-swap check.''
            @ said (unguarded \<and> \<not> passed) ''Read-modify-write balance update remains unguarded.''))
         \<lparr>vr_passed := (passed \<and> \<not> (unguarded \<and> \<not> lock_guard))\<rparr>)"

fun lookup_text :: "py_tools \<Rightarrow> py_node \<Rightarrow> string" where
  "lookup_text pt (Subscript v trail) = '' '' @ py_lower (pt_unparse pt v)"
| "lookup_text pt (TupleNode elts) = '' '' @ py_lower (pt_unparse pt (TupleNode elts))"
| "lookup_text pt _ = []"

fun named_function :: "string list \<Rightarrow> py_node \<Rightarrow> bool" where
  "named_function names (FunctionDef name _ _ _) \<longleftrightarrow> name \<in> set names"
| "named_function names _ \<longleftrightarrow> False"

definition tenant_scoped_idempotency_key :: "py_tools \<Rightarrow> string \<Rightarrow> validator_result" where
  "tenant_scoped_idempotency_key pt s =
     (let lower = py_lower s;
          expression = (case pt_parse pt s of
              None \<Rightarrow> lower
            | Some t \<Rightarrow> lower @ concat (map (\<lambda>n. concat (map (lookup_text pt) (ast_walk [n])))
                (filter (named_function [''lookup'', ''store'', ''get'', ''set'']) (ast_walk [t]))));
          key_in_tuple = [blanks, literal ''('', not_paren, literal '','', blanks, literal ''key'', blanks,
            literal '')''];
          tuple_key = (search_pattern (Then (literal ''.get('') (sequence key_in_tuple)) expression
            \<or> search_pattern (Then (literal ''['') (sequence (key_in_tuple @ [blanks, literal '']'']))) expression
            \<or> search_pattern (sequence [literal ''['', blanks, literal ''('', blanks,
                literals [''tenant'', ''org'', ''account'', ''workspace'']]) expression);
          global_only = (search_pattern (sequence [literal ''.get('', blanks, literal ''key'', blanks,
                literal '')'']) expression
            \<or> search_pattern (sequence [literal ''_records['', blanks, literal ''key'', blanks,
                literal '']'']) expression);
          passed = (tuple_key \<and> \<not> global_only)
      in report ''tenant_scoped_idempotency_key'' passed (95 / 100, 90 / 100)
           (''Idempotency keys are scoped per tenant or account.'',
            ''Idempotency storage is not scoped by tenant or account.'')
           (said tuple_key ''Idempotency lookup/storage includes tenant or account scope with the key.''
            @ said global_only ''Idempotency storage still appears globally keyed.''))"

fun is_return :: "py_node \<Rightarrow> bool" where
  "is_return (Return v) = True"
| "is_return _ = False"

definition cache_key_text :: "py_tools \<Rightarrow> string \<Rightarrow> string" where
  "cache_key_text pt s =
     (case pt_parse pt s of
        None \<Rightarrow> py_lower s
      | Some t \<Rightarrow>
          (case find (named_function [''cache_key'']) (ast_walk [t]) of
             None \<Rightarrow> []
           | Some n \<Rightarrow>
               (case find is_return (ast_walk [n]) of
                  Some (Return (Some v)) \<Rightarrow> py_lower (pt_unparse pt v)
                | _ \<Rightarrow> [])))"

definition redis_cache_key_has_tenant_scope :: "py_tools \<Rightarrow> string \<Rightarrow> validator_result" where
  "redis_cache_key_has_tenant_scope pt s =
     (let expression = cache_key_text pt s;
          tenant = find (\<lambda>term. contains_sub term expression)
            [''tenant_id'', ''org_id'', ''organization_id'', ''workspace_id'', ''account_id''];
          included = filter (\<lambda>term. contains_sub term expression) [''user_id'', ''query'', ''filter''];
          passed = (tenant \<noteq> None \<and> included \<noteq> [])
      in report ''redis_cache_key_has_tenant_scope'' passed (97 / 100, 94 / 100)
           (''Cache key contains tenant scope and request/user dimensions.'',
            ''Cache key remains insufficiently scoped for tenant isolation.'')
           (said passed (''Cache key includes tenant scope `'' @ the tenant @ ''` and dimension(s) ''
              @ join_with '', '' included @ ''.'')))"

fun body_of :: "py_node \<Rightarrow> py_node list" where
  "body_of (FunctionDef _ _ body _) = body"
| "body_of (AsyncFunctionDef _ body _) = body"
| "body_of _ = []"

definition function_text :: "py_tools \<Rightarrow> string \<Rightarrow> string" where
  "function_text pt s =
     (case pt_parse pt s of
        None \<Rightarrow> py_lower s
      | Some t \<Rightarrow>
          (let bodies = concat (map body_of (ast_walk [t]))
           in if bodies = [] then py_lower s
              else py_lower (join_with [CHR 0x0A] (map (pt_unparse pt) bodies))))"

definition jwt_audience_issuer_validated :: "py_tools \<Rightarrow> string \<Rightarrow> validator_result" where
  "jwt_audience_issuer_validated pt s =
     (let lower = function_text pt s;
          quoted = (\<lambda>q w. q # w @ [q]);
          audience = has_any [quoted (CHR 0x22) ''aud'', quoted (CHR 0x27) ''aud'', ''audience'',
            ''expected_audience''] lower;
          issuer = has_any [quoted (CHR 0x22) ''iss'', quoted (CHR 0x27) ''iss'', ''issuer'',
            ''expected_issuer''] lower;
          signature_only = (search_pattern (sequence [literal ''return'', some_blanks, literal ''bool('',
            not_paren, literal ''signature'']) lower \<and> \<not> audience \<and> \<not> issuer);
          passed = (audience \<and> issuer \<and> \<not> signature_only)
      in report ''jwt_audience_issuer_validated'' passed (94 / 100, 90 / 100)
           (''JWT verification validates audience and issuer.'',
            ''JWT verification still omits audience or issuer checks.'')
           (said audience ''Token verification checks audience.''
            @ said issuer ''Token verification checks issuer.''
            @ said signature_only ''Verifier only checks signature validity.''))"

definition version_order :: "string \<Rightarrow> pattern" where
  "version_order comparison =
     sequence [perhaps (literal ''event.''), literal ''version'', blanks, literal comparison, blanks,
       perhaps (literal ''self.''), perhaps (literal ''state.''), literal ''version'']"

definition event_version_monotonic_guard :: "py_tools \<Rightarrow> string \<Rightarrow> validator_result" where
  "event_version_monotonic_guard pt s =
     (let lower = py_lower s;
          stale_guard = (search_pattern (version_order ''<='') lower
            \<or> search_pattern (version_order ''<'') lower
            \<or> has_any [''stale'', ''out_of_order'', ''updated_at'', ''sequence''] lower);
          blind_apply = (search_pattern (sequence [literal ''def'', some_blanks, literal ''apply'',
            UpTo 180 anything, literal ''self.state.'', literals [''status'', ''version''], blanks,
            literal ''='', blanks, literal ''event.'', literals [''status'', ''version'']]) lower
            \<and> \<not> stale_guard);
          passed = (stale_guard \<and> \<not> blind_apply)
      in report ''event_version_monotonic_guard'' passed (94 / 100, 90 / 100)
           (''State updates ignore stale event versions.'',
            ''Events can overwrite newer state without version checks.'')
           (said stale_guard ''Stale or out-of-order events are ignored before mutation.''
            @ said blind_apply ''Events overwrite state without version ordering.''))"

definition pagination_uses_stable_tiebreaker :: "py_tools \<Rightarrow> string \<Rightarrow> validator_result" where
  "pagination_uses_stable_tiebreaker pt s =
     (let lower = py_lower s;
          composite = (search_pattern (sequence [literal ''created_at'', UpTo 40 anything,
              any_of [literal '','', sequence [WordBoundary, literal ''and'', WordBoundary]],
              UpTo 40 anything, WordBoundary, literal ''id'', WordBoundary]) lower
            \<or> search_pattern (sequence [literal ''(created_at,'', blanks, literal ''id)'']) lower
            \<or> search_pattern (sequence [literal ''cursor'', UpTo 60 anything, literal ''id'']) lower);
          created_only = (search_pattern (sequence [literal ''cursor'', UpTo 80 anything,
              literal ''created_at'']) lower \<and> \<not> composite);
          passed = (composite \<and> \<not> created_only)
      in report ''pagination_uses_stable_tiebreaker'' passed (95 / 100, 90 / 100)
           (''Pagination cursor includes a stable unique tiebreaker.'',
            ''Pagination cursor omits a stable tiebreaker for duplicate timestamps.'')
           (said composite ''Pagination cursor uses created_at with a stable id tiebreaker.''
            @ said created_only ''Pagination cursor relies on created_at without a tiebreaker.''))"

section \<open>The other validators\<close>

definition rag_citation_ids_validated :: "py_tools \<Rightarrow> string \<Rightarrow> validator_result" where
  "rag_citation_ids_validated pt s =
     (let lower = py_lower s;
          source = has_any [''retrieved_chunks'', ''source_ids'', ''valid_ids'', ''allowed_citations''] lower;
          citation = contains_sub ''citation'' lower;
          decision = has_any [''not in'', ''raise '', ''reject'', ''invalid'', ''allowed_citations'', ''valid_ids'']
            lower;
          passed = (source \<and> citation \<and> decision)
      in report ''rag_citation_ids_validated'' passed (93 / 100, 90 / 100)
           (''Generated citation IDs are constrained by retrieved sources.'',
            ''Generated citations are still returned without source-ID validation.'')
           (said source ''Validation references IDs derived from retrieved source context.''
            @ said (citation \<and> decision) ''Returned citations are rejected or filtered when unsupported.''))"

definition system_text :: pattern where
  "system_text = sequence [literal ''system'', Many (Class (\<lambda>c. c = CHR ''_'' \<or> is_space c)),
     literals [''instructions'', ''prompt'']]"

definition underscored :: "string \<Rightarrow> string" where
  "underscored s = map (\<lambda>c. if c = CHR '' '' then CHR ''_'' else c) s"

definition rag_retrieved_context_is_untrusted :: "py_tools \<Rightarrow> string \<Rightarrow> validator_result" where
  "rag_retrieved_context_is_untrusted pt s =
     (let lower = py_lower s;
          labels = [''untrusted'', ''retrieved context'', ''retrieved_context'', ''user context'',
            ''external context'', ''context data''];
          separation = has_any [''untrusted_retrieved'', ''retrieved_context_section'', ''context_block'',
            ''wrap_retrieved'', ''format_retrieved'', ''--- retrieved'', ''role: user'', ''data only''] lower;
          labelled = list_ex (\<lambda>label. contains_sub (underscored label) lower \<or> contains_sub label lower) labels;
          system_preserved = has_any [''system_instructions'', ''system_prompt''] lower;
          direct_concat = (search_pattern (sequence [system_text, UpTo 120 anything, literal ''+'', blanks,
              literal ''retrieved'']) lower
            \<or> search_pattern (sequence [literal ''return'', some_blanks, system_text, UpTo 80 anything,
              literal ''+'', blanks]) lower);
          passed = ((separation \<or> labelled) \<and> system_preserved \<and> \<not> direct_concat)
      in report ''rag_retrieved_context_is_untrusted'' passed (92 / 100, 90 / 100)
           (''Retrieved context is isolated from trusted system instructions.'',
            ''Retrieved content can override trusted system instructions.'')
           (said (separation \<or> labelled) ''Retrieved content is labelled or wrapped as untrusted context.''
            @ said system_preserved ''System instructions remain separate from retrieved content.''
            @ said direct_concat ''Retrieved text is concatenated directly into system instructions.''))"

definition SQL_SCOPES :: "string list" where
  "SQL_SCOPES = [''tenant_id'', ''org_id'', ''organization_id'', ''team_id'', ''owner_id'', ''account_id'']"

definition sql_has_tenant_or_owner_filter :: "py_tools \<Rightarrow> string \<Rightarrow> validator_result" where
  "sql_has_tenant_or_owner_filter pt s =
     (let lower = py_lower s;
          found = filter (\<lambda>scope. contains_sub scope lower) SQL_SCOPES;
          passed = (contains_sub ''where'' lower \<and> found \<noteq> [])
      in report ''sql_has_tenant_or_owner_filter'' passed (98 / 100, 96 / 100)
           (''Document query contains an ownership or tenant predicate.'',
            ''Document query filters by resource ID without ownership scope.'')
           (map (\<lambda>scope. ''Scoped predicate references `'' @ scope @ ''`.'') found))"

definition react_uses_functional_state_update :: "py_tools \<Rightarrow> string \<Rightarrow> validator_result" where
  "react_uses_functional_state_update pt s =
     (let normalized = drop_blanks s;
          passed = (contains_sub ''setMessages(previous=>[...previous,message])'' normalized
            \<or> contains_sub ''setMessages('' s \<and> contains_sub ''=>'' s \<and> contains_sub ''...previous'' s)
      in report ''react_uses_functional_state_update'' passed (90 / 100, 90 / 100)
           (''State update uses the prior value function.'', ''State update still closes over stale state.'')
           (said passed ''Functional state update found.''))"

definition graphql_uses_batching_or_dataloader :: "py_tools \<Rightarrow> string \<Rightarrow> validator_result" where
  "graphql_uses_batching_or_dataloader pt s =
     (let lower = py_lower s; passed = has_any [''dataloader'', ''loadmany'', ''batch''] lower
      in report ''graphql_uses_batching_or_dataloader'' passed (85 / 100, 85 / 100)
           (''Resolver uses batching semantics.'', ''Resolver still performs per-item loading.'')
           (said passed ''Batch/DataLoader call found.''))"

section \<open>The registry\<close>

definition VALIDATORS :: "(string \<times> (py_tools \<Rightarrow> string \<Rightarrow> validator_result)) list" where
  "VALIDATORS =
     [(''fastapi_requires_admin_authorization'', fastapi_requires_admin_authorization),
      (''fastapi_tenant_admin_authorization'', fastapi_tenant_admin_authorization),
      (''kafka_idempotency_guard'', kafka_idempotency_guard),
      (''async_update_atomicity_guard'', async_update_atomicity_guard),
      (''tenant_scoped_idempotency_key'', tenant_scoped_idempotency_key),
      (''redis_cache_key_has_tenant_scope'', redis_cache_key_has_tenant_scope),
      (''sql_has_tenant_or_owner_filter'', sql_has_tenant_or_owner_filter),
      (''rag_citation_ids_validated'', rag_citation_ids_validated),
      (''rag_retrieved_context_is_untrusted'', rag_retrieved_context_is_untrusted),
      (''jwt_audience_issuer_validated'', jwt_audience_issuer_validated),
      (''event_version_monotonic_guard'', event_version_monotonic_guard),
      (''pagination_uses_stable_tiebreaker'', pagination_uses_stable_tiebreaker),
      (''react_uses_functional_state_update'', react_uses_functional_state_update),
      (''graphql_uses_batching_or_dataloader'', graphql_uses_batching_or_dataloader)]"

text \<open>The validators that call \<open>ast.parse\<close>; they catch its \<open>SyntaxError\<close> only.\<close>

definition AST_VALIDATORS :: "string list" where
  "AST_VALIDATORS =
     [''fastapi_requires_admin_authorization'', ''tenant_scoped_idempotency_key'',
      ''redis_cache_key_has_tenant_scope'', ''jwt_audience_issuer_validated'']"

definition value_error_of :: "py_tools \<Rightarrow> string \<Rightarrow> string \<Rightarrow> string option" where
  "value_error_of pt name s = (if name \<in> set AST_VALIDATORS then pt_value_error pt name s else None)"

definition could_not_evaluate :: "string \<Rightarrow> string \<Rightarrow> validator_result" where
  "could_not_evaluate name error =
     \<lparr>vr_name = name, vr_passed = False, vr_confidence = 1,
      vr_message = ''Validator could not evaluate the patched workspace.'', vr_evidence = [],
      vr_error = Some error\<rparr>"

text \<open>
  \<open>run_validators\<close>: an unknown name (\<open>KeyError\<close>), a file below something that is no directory (\<open>OSError\<close>) and a
  \<open>ValueError\<close> of the parser become failed reports. The other errors of the bounded reader are domain errors,
  which are none of the three, so they leave the loop.
\<close>

definition run_validator ::
  "text_codec \<Rightarrow> py_tools \<Rightarrow> validator_context \<Rightarrow> string \<Rightarrow> (input_error, validator_result) res" where
  "run_validator tc pt ctx name =
     (case map_of VALIDATORS name of
        None \<Rightarrow> Inr (could_not_evaluate name (pt_repr pt (''Unknown structural validator: '' @ name)))
      | Some validate \<Rightarrow>
          (case read_expected_source tc pt ctx of
             Inl e \<Rightarrow> if e = NotADirectory then Inr (could_not_evaluate name (pt_not_directory pt (expected_path ctx)))
                      else Inl e
           | Inr (path, s) \<Rightarrow>
               (case value_error_of pt name s of
                  Some message \<Rightarrow> Inr (could_not_evaluate name message)
                | None \<Rightarrow> Inr (validate pt s))))"

definition run_validators ::
  "text_codec \<Rightarrow> py_tools \<Rightarrow> string list \<Rightarrow> validator_context
   \<Rightarrow> (input_error, validator_result list) res" where
  "run_validators tc pt names ctx =
     fold_res (\<lambda>name results. and_then (run_validator tc pt ctx name) (\<lambda>r. Inr (results @ [r]))) names []"

section \<open>Reports\<close>

definition sound_report :: "string \<Rightarrow> validator_result \<Rightarrow> bool" where
  "sound_report name r \<longleftrightarrow> vr_name r = name \<and> 0 \<le> vr_confidence r \<and> vr_confidence r \<le> 1"

lemma report_sound:
  "0 \<le> fst c \<Longrightarrow> fst c \<le> 1 \<Longrightarrow> 0 \<le> snd c \<Longrightarrow> snd c \<le> 1 \<Longrightarrow> sound_report name (report name b c m e)"
  "sound_report name r \<Longrightarrow> sound_report name (r\<lparr>vr_passed := b\<rparr>)"
  by (simp_all add: sound_report_def report_def)

lemma report_error:
  "vr_error (report name b c m e) = None" "vr_error r = None \<Longrightarrow> vr_error (r\<lparr>vr_passed := b\<rparr>) = None"
  by (simp_all add: report_def)

lemma validators_sound:
  "list_all (\<lambda>(name, validate).
     sound_report name (validate pt s) \<and> vr_error (validate pt s) = None) VALIDATORS"
  unfolding VALIDATORS_def list.pred_inject prod.case
  unfolding fastapi_requires_admin_authorization_def
    fastapi_tenant_admin_authorization_def
    kafka_idempotency_guard_def
    async_update_atomicity_guard_def
    tenant_scoped_idempotency_key_def
    redis_cache_key_has_tenant_scope_def
    sql_has_tenant_or_owner_filter_def
    rag_citation_ids_validated_def
    rag_retrieved_context_is_untrusted_def
    jwt_audience_issuer_validated_def
    event_version_monotonic_guard_def
    pagination_uses_stable_tiebreaker_def
    react_uses_functional_state_update_def
    graphql_uses_batching_or_dataloader_def
    Let_def
  by (intro conjI TrueI report_sound report_error; simp)


lemma registered_sound:
  "map_of VALIDATORS name = Some validate \<Longrightarrow>
   sound_report name (validate pt s) \<and> vr_error (validate pt s) = None"
  using validators_sound [of pt s] by (auto simp: list_all_iff dest: map_of_SomeD)

text \<open>A validator that gave its verdict on the source, and one that could not.\<close>

definition verdict_of :: "text_codec \<Rightarrow> py_tools \<Rightarrow> validator_context \<Rightarrow> string \<Rightarrow> validator_result \<Rightarrow> bool" where
  "verdict_of tc pt ctx name r \<longleftrightarrow>
     (\<exists>validate path s. map_of VALIDATORS name = Some validate \<and> read_expected_source tc pt ctx = Inr (path, s)
        \<and> value_error_of pt name s = None \<and> r = validate pt s)"

definition reported_as :: "text_codec \<Rightarrow> py_tools \<Rightarrow> validator_context \<Rightarrow> string \<Rightarrow> validator_result \<Rightarrow> bool" where
  "reported_as tc pt ctx name r \<longleftrightarrow>
     sound_report name r \<and> (vr_error r = None \<longleftrightarrow> verdict_of tc pt ctx name r) \<and> \<not> (vr_error r \<noteq> None \<and> vr_passed r)"

lemma could_not_evaluate_reported:
  "\<not> verdict_of tc pt ctx name (could_not_evaluate name e) \<Longrightarrow> reported_as tc pt ctx name (could_not_evaluate name e)"
  by (simp add: reported_as_def sound_report_def could_not_evaluate_def)

lemma no_verdict_on_error: "vr_error r \<noteq> None \<Longrightarrow> \<not> verdict_of tc pt ctx name r"
  using registered_sound by (auto simp: verdict_of_def)

lemma run_validator_Inr: "run_validator tc pt ctx name = Inr r \<Longrightarrow> reported_as tc pt ctx name r"
proof -
  assume run: "run_validator tc pt ctx name = Inr r"
  then consider e where "r = could_not_evaluate name e" | "verdict_of tc pt ctx name r"
    by (auto simp: run_validator_def verdict_of_def value_error_of_def split: option.splits sum.splits if_splits)
  then show ?thesis
  proof cases
    case (1 e)
    then show ?thesis
      using could_not_evaluate_reported no_verdict_on_error by (simp add: could_not_evaluate_def)
  next
    case 2
    then show ?thesis using registered_sound by (auto simp: reported_as_def verdict_of_def)
  qed
qed

lemma read_source_error: "read_expected_source tc pt ctx = Inl e \<longleftrightarrow> read_expected_file tc ctx = Inl e"
  by (auto simp: read_expected_source_def and_then_def split: sum.splits)

lemma run_validator_Inl:
  "run_validator tc pt ctx name = Inl e \<longleftrightarrow>
     map_of VALIDATORS name \<noteq> None \<and> read_expected_file tc ctx = Inl e \<and> e \<noteq> NotADirectory"
  unfolding read_source_error [of tc pt ctx, symmetric]
  by (auto simp: run_validator_def split: option.splits sum.splits if_splits)

lemma run_validators_from:
  "case fold_res (\<lambda>name results. and_then (run_validator tc pt ctx name) (\<lambda>r. Inr (results @ [r]))) names acc of
     Inl e \<Rightarrow> list_ex (\<lambda>name. map_of VALIDATORS name \<noteq> None) names
       \<and> read_expected_file tc ctx = Inl e \<and> e \<noteq> NotADirectory
   | Inr rs \<Rightarrow> \<exists>new. rs = acc @ new \<and> list_all2 (reported_as tc pt ctx) names new"
proof (induction names arbitrary: acc)
  case (Cons name names)
  show ?case
  proof (cases "run_validator tc pt ctx name")
    case (Inl e)
    with run_validator_Inl [of tc pt ctx name e] show ?thesis by auto
  next
    case (Inr r)
    then show ?thesis
      using Cons.IH [of "acc @ [r]"] run_validator_Inr [OF Inr] by (auto split: sum.splits)
  qed
qed simp

text \<open>
  C21: running the configured validators either gives one report per name, in that order, under that name and
  with a confidence between 0 and 1, or stops with no reports at all. A report carries no error exactly when the
  validator is known, could read the file of the primary bug, met no \<open>ValueError\<close> of the parser, and the report is its verdict
  on the stripped source; a report with an error has failed. No reports come out only when a known
  validator cannot read the file for another reason than a path through something that is no directory: that error leaves the loop.
\<close>

theorem validators_report:
  "case run_validators tc pt names ctx of
     Inl e \<Rightarrow> list_ex (\<lambda>name. map_of VALIDATORS name \<noteq> None) names
       \<and> read_expected_file tc ctx = Inl e \<and> e \<noteq> NotADirectory
   | Inr rs \<Rightarrow>
       map vr_name rs = names
       \<and> list_all (\<lambda>r. 0 \<le> vr_confidence r \<and> vr_confidence r \<le> 1
           \<and> (vr_error r = None \<longleftrightarrow>
               (\<exists>validate path s. map_of VALIDATORS (vr_name r) = Some validate
                  \<and> read_expected_source tc pt ctx = Inr (path, s)
                  \<and> value_error_of pt (vr_name r) s = None
                  \<and> r = validate pt s))
           \<and> \<not> (vr_error r \<noteq> None \<and> vr_passed r)) rs"
proof (cases "run_validators tc pt names ctx")
  case (Inl e)
  then show ?thesis
    using run_validators_from [where tc = tc and pt = pt and ctx = ctx and names = names and acc = "[]"]
    by (simp add: run_validators_def)
next
  case (Inr rs)
  then have rs: "list_all2 (reported_as tc pt ctx) names rs"
    using run_validators_from [where tc = tc and pt = pt and ctx = ctx and names = names and acc = "[]"]
    by (simp add: run_validators_def)
  then have "map vr_name rs = names"
    by (induction rule: list_all2_induct) (simp_all add: reported_as_def sound_report_def)
  moreover have "list_all (\<lambda>r. 0 \<le> vr_confidence r \<and> vr_confidence r \<le> 1
      \<and> (vr_error r = None \<longleftrightarrow> verdict_of tc pt ctx (vr_name r) r)
      \<and> \<not> (vr_error r \<noteq> None \<and> vr_passed r)) rs"
    using rs by (induction rule: list_all2_induct) (auto simp: reported_as_def sound_report_def)
  ultimately show ?thesis by (simp add: Inr verdict_of_def)
qed

section \<open>Comments do not count\<close>
















end
