(* ===== verification/Git_Transaction.thy ===== *)
theory Git_Transaction
  imports Workspace Results "HOL-Library.Code_Target_Nat"
begin

text \<open>
  The patch transaction of \<open>arena/patching/git_pipeline.py\<close> (\<open>apply_patch\<close> and what it calls) and
  \<open>arena/patching/patch_applier.py\<close>.

  Git itself is a parameter: it takes the command line after the executable, the environment,
  standard input and the workspace, and says how it ended and what became of the workspace. Every
  step threads the destination directory, so the state after a failure at any point is the state
  the code leaves. The duration fields, which only record the clock, are left out.
\<close>

section \<open>Running Git\<close>

datatype git_outcome = GitNotFound | GitTimedOut | GitExit int string string

record git_context =
  cx_git :: "string list \<Rightarrow> (string \<times> string) list \<Rightarrow> string \<Rightarrow> node \<Rightarrow> git_outcome \<times> node"
  cx_env :: "(string \<times> string) list"
  cx_config :: "string list"
  cx_scrub :: "string list"
  cx_decode_replace :: "string \<Rightarrow> string"
  cx_beyond_link :: "string list \<Rightarrow> node option"

text \<open>
  \<open>cx_decode_replace\<close> is \<open>bytes.decode("utf-8", errors="replace")\<close>, whose replacement character is not
  a value of our strings; \<open>cx_beyond_link\<close> is what the operating system finds through a symbolic
  link, which a tree does not record.
\<close>

definition HOST_VARS :: "string list" where
  "HOST_VARS = [''PATH'', ''SYSTEMROOT'', ''SystemRoot'', ''WINDIR'', ''TEMP'', ''TMP'', ''PATHEXT'']"

definition git_env ::
  "string \<Rightarrow> string \<Rightarrow> string \<Rightarrow> (string \<rightharpoonup> string) \<Rightarrow> (string \<times> string) list" where
  "git_env home empty_config ceiling_dir environ =
     [(''HOME'', home), (''XDG_CONFIG_HOME'', home), (''GIT_CONFIG_GLOBAL'', empty_config),
      (''GIT_CONFIG_SYSTEM'', empty_config), (''GIT_CONFIG_NOSYSTEM'', ''1''),
      (''GIT_ATTR_NOSYSTEM'', ''1''), (''GIT_TERMINAL_PROMPT'', ''0''),
      (''GIT_OPTIONAL_LOCKS'', ''0''), (''GIT_PAGER'', ''cat''), (''GIT_EDITOR'', ''true''),
      (''GIT_ASKPASS'', ''true''), (''GIT_ALLOW_PROTOCOL'', []),
      (''GIT_CEILING_DIRECTORIES'', ceiling_dir), (''LC_ALL'', ''C''), (''LANG'', ''C'')]
     @ concat (map (\<lambda>key. case environ key of None \<Rightarrow> [] | Some v \<Rightarrow> [(key, v)]) HOST_VARS)"

definition git_config :: "string \<Rightarrow> string list" where
  "git_config hooks_dir =
     concat (map (\<lambda>pair. [''-c'', pair])
       [''core.hooksPath='' @ hooks_dir, ''core.pager='', ''core.autocrlf=false'',
        ''core.safecrlf=false'', ''core.fsmonitor=false'', ''core.attributesfile='',
        ''commit.gpgsign=false'', ''gc.auto=0'', ''protocol.allow=never'', ''core.editor=true'',
        ''advice.detachedHead=false''])"

datatype tx_error = GitFailed git_error | OsError | ValueError

text \<open>The state: the destination and what the result reports of Git. A step returns or raises.\<close>

record tx_state =
  tx_destination :: "node option"
  tx_version :: "string option"
  tx_format :: "string option"

type_synonym 'a tx = "tx_state \<Rightarrow> (tx_error, 'a) res \<times> tx_state"

definition ret :: "'a \<Rightarrow> 'a tx" where
  "ret x = (\<lambda>s. (Inr x, s))"

definition raise :: "tx_error \<Rightarrow> 'a tx" where
  "raise e = (\<lambda>s. (Inl e, s))"

definition bind_tx :: "'a tx \<Rightarrow> ('a \<Rightarrow> 'b tx) \<Rightarrow> 'b tx" where
  "bind_tx m f = (\<lambda>s. case m s of (Inl e, s') \<Rightarrow> (Inl e, s') | (Inr x, s') \<Rightarrow> f x s')"

definition lift_res :: "(git_error, 'a) res \<Rightarrow> 'a tx" where
  "lift_res r = (case r of Inl e \<Rightarrow> raise (GitFailed e) | Inr x \<Rightarrow> ret x)"

definition raise_git :: "string \<Rightarrow> string \<Rightarrow> 'a tx" where
  "raise_git reason diagnostic = raise (GitFailed (git_run_error reason diagnostic))"

definition get_destination :: "node tx" where
  "get_destination = (\<lambda>s. case tx_destination s of None \<Rightarrow> (Inl OsError, s) | Some n \<Rightarrow> (Inr n, s))"

definition set_destination :: "node option \<Rightarrow> unit tx" where
  "set_destination d = (\<lambda>s. (Inr (), s\<lparr>tx_destination := d\<rparr>))"

text \<open>
  \<open>_run_git\<close>: the readers stop the process group once a stream, or both together, exceed the
  ceiling. The exit value stands for the streams as far as Git wrote them.
\<close>

definition run_git :: "git_context \<Rightarrow> string list \<Rightarrow> string \<Rightarrow> (int \<times> string \<times> string) tx" where
  "run_git ctx args stdin =
     bind_tx get_destination (\<lambda>workspace.
       case cx_git ctx (cx_config ctx @ args) (cx_env ctx) stdin workspace of
         (GitNotFound, _) \<Rightarrow> raise_git ''git_unavailable'' ''git executable not found''
       | (GitTimedOut, workspace') \<Rightarrow>
           bind_tx (set_destination (Some workspace'))
             (\<lambda>_. raise_git ''git_timeout'' ''git command timed out'')
       | (GitExit rc out err, workspace') \<Rightarrow>
           bind_tx (set_destination (Some workspace'))
             (\<lambda>_. if GIT_OUTPUT_BYTES < length out \<or> GIT_OUTPUT_BYTES < length err
                     \<or> GIT_OUTPUT_BYTES < length out + length err
                  then raise_git ''git_output_too_large'' ''git produced too much output''
                  else ret (rc, out, err)))"

definition git_text :: "git_context \<Rightarrow> string \<Rightarrow> string" where
  "git_text ctx data = py_strip (cx_decode_replace ctx data)"

definition scrub :: "git_context \<Rightarrow> string \<Rightarrow> string" where
  "scrub ctx text =
     take DIAG_LEN (fold (\<lambda>secret cleaned. if secret \<noteq> [] then replace_sub secret ''<private>'' cleaned
       else cleaned) (cx_scrub ctx) text)"

definition git_checked :: "git_context \<Rightarrow> string list \<Rightarrow> string \<Rightarrow> string tx" where
  "git_checked ctx args reason =
     bind_tx (run_git ctx args []) (\<lambda>(rc, out, err).
       if rc \<noteq> 0
       then raise_git reason (scrub ctx (if git_text ctx err \<noteq> [] then git_text ctx err
                                         else git_text ctx out))
       else ret out)"

section \<open>Workspace and index\<close>

text \<open>
  \<open>shutil.copytree(source, destination, symlinks=True)\<close>: every copied file has one link; a special
  file cannot be copied, which raises after the rest has been copied.
\<close>

fun copy_tree :: "node \<Rightarrow> node" where
  "copy_tree (File bytes executable nlink) = File bytes executable 1"
| "copy_tree (Dir es) = Dir (map (\<lambda>e. (fst e, copy_tree (snd e))) (filter (\<lambda>e. snd e \<noteq> Special) es))"
| "copy_tree n = n"

fun has_special :: "node \<Rightarrow> bool" where
  "has_special Special = True"
| "has_special (Dir es) = list_ex (\<lambda>e. has_special (snd e)) es"
| "has_special _ = False"

definition prepare_workspace :: "node \<Rightarrow> unit tx" where
  "prepare_workspace source =
     (if \<not> is_real_dir source then bind_tx (set_destination None) (\<lambda>_. raise OsError)
      else bind_tx (set_destination (Some (copy_tree source))) (\<lambda>_.
        if has_special source then raise OsError else lift_res (check_prepared (copy_tree source))))"

text \<open>\<open>lstat\<close> of a relative path.\<close>

fun lstat_at :: "(string list \<Rightarrow> node option) \<Rightarrow> string list \<Rightarrow> node \<Rightarrow> node option" where
  "lstat_at beyond [] n = Some n"
| "lstat_at beyond (c # cs) (Dir es) =
     (case map_of es c of None \<Rightarrow> None | Some m \<Rightarrow> lstat_at beyond cs m)"
| "lstat_at beyond (c # cs) (Link _) = beyond (c # cs)"
| "lstat_at beyond (c # cs) _ = None"

definition raw_blob_id :: "git_context \<Rightarrow> string \<Rightarrow> string tx" where
  "raw_blob_id ctx relative =
     bind_tx (git_checked ctx [''hash-object'', ''--no-filters'', ''--'', relative]
                ''index_worktree_mismatch'')
       (\<lambda>out. ret (git_text ctx out))"

definition verify_entry ::
  "git_context \<Rightarrow> string \<Rightarrow> string \<Rightarrow> index_entry \<Rightarrow> unit tx" where
  "verify_entry ctx object_format reason = (\<lambda>(mode, sha, path).
     if mode \<notin> set ALLOWED_MODES
     then raise_git reason (''index entry has unsupported mode '' @ mode)
     else if \<not> file_safe path then raise_git reason ''index contains an unsafe path''
     else if \<not> is_hex_sha sha (sha_len object_format)
     then raise_git reason ''index object id has the wrong length/format''
     else bind_tx get_destination (\<lambda>workspace.
       case lstat_at (cx_beyond_link ctx) (split_on CHR ''/'' path) workspace of
         None \<Rightarrow> raise OsError
       | Some (File _ executable _) \<Rightarrow>
           if (mode = ''100755'') \<noteq> executable
           then raise_git reason ''worktree mode disagrees with the index''
           else bind_tx (raw_blob_id ctx path) (\<lambda>blob.
             if blob \<noteq> sha
             then raise_git reason ''worktree bytes differ from the index blob'' else ret ())
       | Some _ \<Rightarrow> raise_git reason ''index entry is not a regular worktree file''))"

fun verify_index_bytes ::
  "git_context \<Rightarrow> index_entry list \<Rightarrow> string \<Rightarrow> string \<Rightarrow> unit tx" where
  "verify_index_bytes ctx [] object_format reason = ret ()"
| "verify_index_bytes ctx (e # index) object_format reason =
     bind_tx (verify_entry ctx object_format reason e)
       (\<lambda>_. verify_index_bytes ctx index object_format reason)"

definition check_status_record :: "string \<Rightarrow> (git_error, unit) res" where
  "check_status_record record =
     (if record = [] then Inr ()
      else let code = take 2 record in
        if code = ''??''
        then Inl (git_run_error ''untracked_output'' ''patch produced an untracked file'')
        else if CHR ''U'' \<in> set code
        then Inl (git_run_error ''unmerged_index'' ''the index has unmerged stages'')
        else if 2 \<le> length code \<and> code ! 1 \<noteq> CHR '' ''
        then Inl (git_run_error ''index_worktree_mismatch'' ''worktree differs from the index'')
        else Inr ())"

definition check_status_clean :: "git_context \<Rightarrow> unit tx" where
  "check_status_clean ctx =
     bind_tx (git_checked ctx [''status'', ''--porcelain'', ''-z'', ''--untracked-files=all'']
                ''git_output_invalid'')
       (\<lambda>out. lift_res (check_all check_status_record (split_on NUL out)))"

section \<open>The transaction\<close>

record git_patch_result =
  gp_applied :: bool
  gp_reason :: "string option"
  gp_diagnostic :: "string option"
  gp_patch_sha256 :: "string option"
  gp_git_version :: "string option"
  gp_object_format :: "string option"
  gp_baseline_tree :: "string option"
  gp_result_tree :: "string option"
  gp_changes :: "git_change list"
  gp_touched_files :: "string list"
  gp_added :: "string list"
  gp_modified :: "string list"
  gp_deleted :: "string list"
  gp_mode_changes :: "string list"
  gp_protected_violations :: "string list"
  gp_unsafe_paths :: "string list"

definition patch_not_applied :: "string \<Rightarrow> git_patch_result" where
  "patch_not_applied reason =
     \<lparr>gp_applied = False, gp_reason = Some reason, gp_diagnostic = None, gp_patch_sha256 = None,
      gp_git_version = None, gp_object_format = None, gp_baseline_tree = None,
      gp_result_tree = None, gp_changes = [], gp_touched_files = [], gp_added = [],
      gp_modified = [], gp_deleted = [], gp_mode_changes = [], gp_protected_violations = [],
      gp_unsafe_paths = []\<rparr>"

definition set_version :: "string \<Rightarrow> unit tx" where
  "set_version v = (\<lambda>s. (Inr (), s\<lparr>tx_version := Some v\<rparr>))"

definition set_format :: "string \<Rightarrow> unit tx" where
  "set_format f = (\<lambda>s. (Inr (), s\<lparr>tx_format := Some f\<rparr>))"

definition git_text_checked :: "git_context \<Rightarrow> string list \<Rightarrow> string \<Rightarrow> string tx" where
  "git_text_checked ctx args reason =
     bind_tx (git_checked ctx args reason) (\<lambda>out. ret (git_text ctx out))"

text \<open>The baseline: copy, validate, index, and prove the index holds the exact bytes.\<close>

definition baseline_phase :: "git_context \<Rightarrow> node \<Rightarrow> (string \<times> string) tx" where
  "baseline_phase ctx source =
     bind_tx (prepare_workspace source) (\<lambda>_.
     bind_tx get_destination (\<lambda>workspace.
     bind_tx (lift_res (validate_baseline_paths workspace)) (\<lambda>_.
     bind_tx (git_text_checked ctx [''version''] ''git_unavailable'') (\<lambda>git_version.
     bind_tx (set_version git_version) (\<lambda>_.
     bind_tx (git_checked ctx [''init'', ''-q''] ''git_initialization_failed'') (\<lambda>_.
     bind_tx (git_text_checked ctx [''rev-parse'', ''--show-object-format'']
                ''git_initialization_failed'') (\<lambda>object_format.
     bind_tx (set_format object_format) (\<lambda>_.
     bind_tx (git_checked ctx [''add'', ''-A''] ''baseline_index_failed'') (\<lambda>_.
     bind_tx (git_checked ctx [''ls-files'', ''-s'', ''-z''] ''baseline_index_failed'') (\<lambda>listing.
     bind_tx (lift_res (parse_ls_files_z listing object_format)) (\<lambda>baseline_index.
     bind_tx (verify_index_bytes ctx baseline_index object_format ''baseline_index_failed'') (\<lambda>_.
     bind_tx (git_text_checked ctx [''write-tree''] ''baseline_index_failed'') (\<lambda>baseline_tree.
       ret (object_format, baseline_tree))))))))))))))"

definition apply_step :: "git_context \<Rightarrow> string list \<Rightarrow> string \<Rightarrow> string \<Rightarrow> unit tx" where
  "apply_step ctx args patch_bytes reason =
     bind_tx (run_git ctx args patch_bytes) (\<lambda>(rc, _, err).
       if rc \<noteq> 0 then raise_git reason (scrub ctx (git_text ctx err)) else ret ())"

text \<open>The result: what Git says changed, the policy, and the exact bytes again.\<close>

definition result_phase ::
  "git_context \<Rightarrow> string list \<Rightarrow> string \<Rightarrow> string
   \<Rightarrow> (string \<times> git_change list \<times> index_entry list \<times> result_lists \<times> string list) tx" where
  "result_phase ctx protected_paths object_format baseline_tree =
     bind_tx (check_status_clean ctx) (\<lambda>_.
     bind_tx (git_text_checked ctx [''write-tree''] ''result_tree_verification_failed'') (\<lambda>result_tree.
     bind_tx (git_checked ctx
                [''diff'', ''--raw'', ''-z'', ''--no-renames'', ''--full-index'', baseline_tree, result_tree]
                ''git_output_invalid'') (\<lambda>raw.
     bind_tx (lift_res (parse_raw_z raw)) (\<lambda>changes.
     if GIT_MAX_CHANGED_FILES < length changes
     then raise_git ''git_output_too_large'' ''too many changed files''
     else
     bind_tx (git_checked ctx [''ls-files'', ''-s'', ''-z''] ''git_output_invalid'') (\<lambda>listing.
     bind_tx (lift_res (parse_ls_files_z listing object_format)) (\<lambda>index.
     if GIT_MAX_CHANGED_FILES < length index
     then raise_git ''git_output_too_large'' ''index too large''
     else
     bind_tx (lift_res (validate_result changes index protected_paths)) (\<lambda>(categories, touched).
     bind_tx (verify_index_bytes ctx index object_format ''index_worktree_mismatch'') (\<lambda>_.
     bind_tx (git_text_checked ctx [''write-tree''] ''result_tree_verification_failed'') (\<lambda>tree_again.
     if tree_again \<noteq> result_tree
     then raise_git ''result_tree_verification_failed'' ''result tree changed''
     else ret (result_tree, changes, index, categories, touched))))))))))"

text \<open>Git's metadata goes, and what is left must be exactly the files of the index.\<close>

definition seal_phase :: "index_entry list \<Rightarrow> unit tx" where
  "seal_phase index =
     bind_tx get_destination (\<lambda>workspace.
     bind_tx (lift_res (remove_git_metadata workspace)) (\<lambda>cleaned.
     bind_tx (set_destination (Some cleaned)) (\<lambda>_.
     bind_tx (lift_res (scan_workspace_files cleaned)) (\<lambda>found.
     if set found \<noteq> set (map (\<lambda>(_, _, path). path) index)
     then raise_git ''index_worktree_mismatch'' ''workspace and index file sets differ''
     else ret ()))))"

definition transaction ::
  "git_context \<Rightarrow> node \<Rightarrow> string \<Rightarrow> string \<Rightarrow> string list \<Rightarrow> git_patch_result tx" where
  "transaction ctx source patch_bytes patch_sha protected_paths =
     bind_tx (baseline_phase ctx source) (\<lambda>(object_format, baseline_tree).
     bind_tx (apply_step ctx [''apply'', ''--check'', ''--index'', ''--whitespace=nowarn'', ''-'']
                patch_bytes ''patch_preflight_failed'') (\<lambda>_.
     bind_tx (apply_step ctx [''apply'', ''--index'', ''--whitespace=nowarn'', ''-'']
                patch_bytes ''patch_apply_failed'') (\<lambda>_.
     bind_tx (result_phase ctx protected_paths object_format baseline_tree)
       (\<lambda>(result_tree, changes, index, categories, touched).
     bind_tx (seal_phase index) (\<lambda>_ s.
       (Inr \<lparr>gp_applied = True, gp_reason = None, gp_diagnostic = None,
              gp_patch_sha256 = Some patch_sha, gp_git_version = tx_version s,
              gp_object_format = Some object_format, gp_baseline_tree = Some baseline_tree,
              gp_result_tree = Some result_tree, gp_changes = changes, gp_touched_files = touched,
              gp_added = rl_added categories, gp_modified = rl_modified categories,
              gp_deleted = rl_deleted categories, gp_mode_changes = dedup (rl_mode_changes categories),
              gp_protected_violations = [], gp_unsafe_paths = []\<rparr>, s))))))"

text \<open>\<open>diagnostic.split("; ")\<close>.\<close>

function split_semis :: "string \<Rightarrow> string \<Rightarrow> string list" where
  "split_semis acc s =
     (if s = [] then [rev acc]
      else if starts_with s ''; '' then rev acc # split_semis [] (drop 2 s)
      else split_semis (hd s # acc) (tl s))"
  by pat_completeness auto
termination
  by (relation "measure (\<lambda>(_, s). length s)") auto

declare split_semis.simps [simp del]

definition failed_result :: "git_error \<Rightarrow> string \<Rightarrow> tx_state \<Rightarrow> git_patch_result" where
  "failed_result e patch_sha s =
     (patch_not_applied (git_reason e))
       \<lparr>gp_diagnostic := (if git_diagnostic e = [] then None else Some (git_diagnostic e)),
        gp_patch_sha256 := Some patch_sha, gp_git_version := tx_version s,
        gp_object_format := tx_format s,
        gp_protected_violations := (if git_reason e = ''protected_path_changed''
          then split_semis [] (git_diagnostic e) else []),
        gp_unsafe_paths := (if git_reason e = ''unsafe_result_path''
          then split_semis [] (git_diagnostic e) else [])\<rparr>"

text \<open>
  \<open>apply_patch\<close>: the second component is the destination afterwards, \<open>prior\<close> what it was. Removing the
  destination is taken to succeed. The directory for Git's own metadata is outside the workspace
  and removed in every case; its paths are in the context.
\<close>

definition apply_patch ::
  "git_context \<Rightarrow> (string \<Rightarrow> string) \<Rightarrow> node \<Rightarrow> string \<Rightarrow> string list \<Rightarrow> node option \<Rightarrow> rat
   \<Rightarrow> (tx_error, git_patch_result) res \<times> node option" where
  "apply_patch ctx sha256 source patch_text protected_paths prior timeout =
     (if \<not> (of_nat GIT_TIMEOUT_SECONDS_MIN \<le> timeout \<and> timeout \<le> of_nat GIT_TIMEOUT_SECONDS_MAX)
      then (Inl ValueError, prior)
      else if py_strip patch_text = [] then (Inr (patch_not_applied ''no_patch_provided''), prior)
      else let patch_bytes = utf8_encode patch_text in
        if PATCH_BYTES < length patch_bytes
        then (Inr (patch_not_applied ''patch_too_large''), prior)
        else let patch_sha = sha256 patch_bytes in
          case transaction ctx source patch_bytes patch_sha protected_paths
                 \<lparr>tx_destination = prior, tx_version = None, tx_format = None\<rparr> of
            (Inr result, s) \<Rightarrow> (Inr result, tx_destination s)
          | (Inl (GitFailed e), s) \<Rightarrow> (Inr (failed_result e patch_sha s), None)
          | (Inl e, s) \<Rightarrow> (Inl e, tx_destination s))"

section \<open>The applier\<close>

definition workspace_path :: "string \<Rightarrow> string \<Rightarrow> string \<Rightarrow> string" where
  "workspace_path runs_root run_id slug =
     join_with ''/'' [runs_root, run_id, ''workspaces'', slug]"

definition applier_result ::
  "string \<Rightarrow> string option \<Rightarrow> string \<Rightarrow> string \<Rightarrow> int \<Rightarrow> git_patch_result \<Rightarrow> patch_apply_result" where
  "applier_result slug finding_id patch_text workspace duration_ms result =
     \<lparr>pa_case_id = slug, pa_finding_id = finding_id, pa_applied = gp_applied result,
      pa_error = (if gp_applied result then None else gp_reason result),
      pa_touched_files = gp_touched_files result,
      pa_touched_protected = gp_protected_violations result,
      pa_unsafe_paths = gp_unsafe_paths result, pa_workspace_path = workspace,
      pa_patch_text = patch_text, pa_duration_ms = duration_ms, pa_reason = gp_reason result,
      pa_git_diagnostic = gp_diagnostic result, pa_patch_sha256 = gp_patch_sha256 result,
      pa_git_version = gp_git_version result, pa_object_format = gp_object_format result,
      pa_baseline_tree = gp_baseline_tree result, pa_result_tree = gp_result_tree result,
      pa_added = gp_added result, pa_modified = gp_modified result,
      pa_deleted = gp_deleted result, pa_mode_changes = gp_mode_changes result\<rparr>"

text \<open>\<open>PatchApplier.apply\<close>: \<open>clock\<close> is the duration the transaction reports.\<close>

definition applier_apply ::
  "git_context \<Rightarrow> (string \<Rightarrow> string) \<Rightarrow> int \<Rightarrow> string \<Rightarrow> rat \<Rightarrow> string \<Rightarrow> string \<Rightarrow> string option
   \<Rightarrow> node \<Rightarrow> string \<Rightarrow> string list \<Rightarrow> node option
   \<Rightarrow> (arena_error + tx_error, patch_apply_result) res \<times> node option" where
  "applier_apply ctx sha256 clock runs_root timeout run_id slug finding_id source patch_text
     protected_paths prior =
     (case validate_case_id slug of
        Inl e \<Rightarrow> (Inl (Inl e), prior)
      | Inr _ \<Rightarrow>
          (case validate_case_id run_id of
             Inl e \<Rightarrow> (Inl (Inl e), prior)
           | Inr _ \<Rightarrow>
               (case apply_patch ctx sha256 source patch_text protected_paths prior timeout of
                  (Inl e, destination) \<Rightarrow> (Inl (Inr e), destination)
                | (Inr result, destination) \<Rightarrow>
                    (Inr (applier_result slug finding_id patch_text
                            (workspace_path runs_root run_id slug) clock result), destination))))"

section \<open>Reasoning about steps\<close>

named_theorems tx_simps \<open>inversion of steps that return\<close>
named_theorems tx_keeps \<open>steps that keep the destination a well-formed tree\<close>

lemma bind_tx_Inr [tx_simps]:
  "bind_tx m f s = (Inr y, t) \<longleftrightarrow> (\<exists>x u. m s = (Inr x, u) \<and> f x u = (Inr y, t))"
  by (auto simp: bind_tx_def split: prod.splits sum.splits)

lemma basic_steps_Inr [tx_simps]:
  "ret x s = (Inr y, t) \<longleftrightarrow> y = x \<and> t = s"
  "raise e s = (Inr y, t) \<longleftrightarrow> False"
  "raise_git reason diagnostic s = (Inr y, t) \<longleftrightarrow> False"
  "lift_res r s = (Inr y, t) \<longleftrightarrow> r = Inr y \<and> t = s"
  "get_destination s = (Inr n, t) \<longleftrightarrow> tx_destination s = Some n \<and> t = s"
  "set_destination d s = (Inr u, t) \<longleftrightarrow> t = s\<lparr>tx_destination := d\<rparr>"
  by (auto simp: ret_def raise_def raise_git_def lift_res_def get_destination_def
      set_destination_def split: sum.splits option.splits)

lemma if_step_Inr [tx_simps]:
  "(if b then raise_git reason diagnostic else m) s = (Inr y, t) \<longleftrightarrow> \<not> b \<and> m s = (Inr y, t)"
  by (simp add: tx_simps)

definition wf_state :: "tx_state \<Rightarrow> bool" where
  "wf_state s \<longleftrightarrow> (\<forall>w. tx_destination s = Some w \<longrightarrow> wf_node w)"

definition keeps_wf :: "'a tx \<Rightarrow> bool" where
  "keeps_wf m \<longleftrightarrow> (\<forall>s. wf_state s \<longrightarrow> wf_state (snd (m s)))"

text \<open>Documented of Git: what it leaves in the workspace is a tree of the file system.\<close>

definition git_leaves_trees :: "git_context \<Rightarrow> bool" where
  "git_leaves_trees ctx \<longleftrightarrow>
     (\<forall>args env stdin w. wf_node w \<longrightarrow> wf_node (snd (cx_git ctx args env stdin w)))"

lemma keeps_bind [tx_keeps]:
  assumes "keeps_wf m" "\<And>x. keeps_wf (f x)"
  shows "keeps_wf (bind_tx m f)"
  unfolding keeps_wf_def
proof (intro allI impI)
  fix s assume s: "wf_state s"
  then have "wf_state (snd (m s))" using assms(1) by (simp add: keeps_wf_def)
  then show "wf_state (snd (bind_tx m f s))"
    using assms(2) by (auto simp: bind_tx_def keeps_wf_def split: prod.splits sum.splits)
qed

lemma keeps_basic [tx_keeps]:
  "keeps_wf (ret x)" "keeps_wf (raise e)" "keeps_wf (raise_git reason diagnostic)"
  "keeps_wf (lift_res r)" "keeps_wf get_destination" "keeps_wf (set_version v)"
  "keeps_wf (set_format v)"
  by (auto simp: keeps_wf_def ret_def raise_def raise_git_def lift_res_def get_destination_def
      set_version_def set_format_def wf_state_def split: sum.splits option.splits)

lemma keeps_if [tx_keeps]: "keeps_wf m \<Longrightarrow> keeps_wf n \<Longrightarrow> keeps_wf (if b then m else n)"
  by simp

lemma keeps_pair [tx_keeps]: "(\<And>x y. keeps_wf (f x y)) \<Longrightarrow> keeps_wf (case p of (x, y) \<Rightarrow> f x y)"
  by (cases p) simp

lemma keeps_run_git [tx_keeps]:
  assumes git: "git_leaves_trees ctx"
  shows "keeps_wf (run_git ctx args stdin)"
proof -
  have "wf_state (snd (run_git ctx args stdin s))" if "wf_state s" for s
  proof (cases "tx_destination s")
    case (Some w)
    obtain out w' where run: "cx_git ctx (cx_config ctx @ args) (cx_env ctx) stdin w = (out, w')"
      by (cases "cx_git ctx (cx_config ctx @ args) (cx_env ctx) stdin w")
    have "wf_node w'"
      using that Some run git [unfolded git_leaves_trees_def] by (metis snd_conv wf_state_def)
    then show ?thesis
      using that Some run
      by (cases out) (auto simp: run_git_def bind_tx_def get_destination_def set_destination_def
          raise_git_def raise_def ret_def wf_state_def)
  qed (use that in \<open>simp add: run_git_def bind_tx_def get_destination_def\<close>)
  then show ?thesis by (simp add: keeps_wf_def)
qed

lemma keeps_git_checked [tx_keeps]:
  "git_leaves_trees ctx \<Longrightarrow> keeps_wf (git_checked ctx args reason)"
  "git_leaves_trees ctx \<Longrightarrow> keeps_wf (git_text_checked ctx args reason)"
  "git_leaves_trees ctx \<Longrightarrow> keeps_wf (raw_blob_id ctx path)"
  "git_leaves_trees ctx \<Longrightarrow> keeps_wf (apply_step ctx args patch_bytes reason)"
  "git_leaves_trees ctx \<Longrightarrow> keeps_wf (check_status_clean ctx)"
  unfolding git_checked_def git_text_checked_def raw_blob_id_def apply_step_def
    check_status_clean_def
  by (intro tx_keeps | assumption)+

lemma keeps_verify_entry [tx_keeps]:
  "git_leaves_trees ctx \<Longrightarrow> keeps_wf (verify_entry ctx object_format reason e)"
  unfolding verify_entry_def
  by (intro tx_keeps | assumption | (split option.split node.split; safe))+

lemma keeps_verify_index [tx_keeps]:
  "git_leaves_trees ctx \<Longrightarrow> keeps_wf (verify_index_bytes ctx index object_format reason)"
  by (induction ctx index object_format reason rule: verify_index_bytes.induct)
    (simp_all add: tx_keeps)

lemma keeps_result_phase [tx_keeps]:
  "git_leaves_trees ctx \<Longrightarrow> keeps_wf (result_phase ctx protected_paths object_format baseline_tree)"
  unfolding result_phase_def by (intro tx_keeps | assumption)+

lemma wf_filter_entries: "wf_node (Dir es) \<Longrightarrow> wf_node (Dir (filter P es))"
  by (auto simp: wf_node.simps(1) list_all_iff distinct_map_filter)

lemma wf_copy_tree: "wf_node n \<Longrightarrow> wf_node (copy_tree n)"
proof (induction n rule: copy_tree.induct)
  case (2 es)
  have "wf_node (Dir (filter (\<lambda>e. snd e \<noteq> Special) es))"
    using 2(2) by (rule wf_filter_entries)
  then show ?case
    using 2(1) by (auto simp: wf_node.simps(1) list_all_iff comp_def)
qed simp_all

lemma wf_after_prepare:
  assumes "wf_node source" "prepare_workspace source s = (Inr u, t)"
  shows "wf_state t"
  using assms wf_copy_tree [OF assms(1)]
  by (auto simp: prepare_workspace_def wf_state_def tx_simps split: if_splits)

lemma baseline_keeps:
  assumes "git_leaves_trees ctx" "wf_node source" "baseline_phase ctx source s = (Inr r, t)"
  shows "wf_state t"
proof -
  obtain u where "prepare_workspace source s = (Inr (), u)"
    and "\<exists>f. keeps_wf f \<and> f u = (Inr r, t)"
    using assms(3) unfolding baseline_phase_def bind_tx_Inr [of "prepare_workspace source"]
    by (elim exE conjE, intro that, simp)
      (rule exI, rule conjI [rotated], assumption, (intro tx_keeps assms(1)))
  then show ?thesis using wf_after_prepare [OF assms(2)] by (metis keeps_wf_def snd_conv)
qed

lemma remove_git_metadata_wf:
  assumes "wf_node n" "remove_git_metadata n = Inr m" shows "wf_node m"
  using assms wf_filter_entries
  by (cases n) (auto simp: remove_git_metadata_def Let_def split: if_splits option.splits node.splits
      link_target.splits simp: wf_node.simps(1))

lemma seal_phase_Inr:
  assumes "seal_phase index s = (Inr u, t)" "wf_state s"
  obtains w found where "tx_destination t = Some w" "wf_node w"
    "scan_workspace_files w = Inr found" "set found = (\<lambda>(_, _, path). path) ` set index"
  using assms remove_git_metadata_wf
  by (auto simp: seal_phase_def tx_simps wf_state_def)

lemma result_phase_Inr:
  assumes "result_phase ctx protected_paths object_format baseline_tree s
    = (Inr (result_tree, changes, index, categories, touched), t)"
  shows "validate_result changes index protected_paths = Inr (categories, touched)"
  using assms by (auto simp: result_phase_def tx_simps)

lemma transaction_Inr:
  assumes git: "git_leaves_trees ctx" and source: "wf_node source"
    and "transaction ctx source patch_bytes patch_sha protected_paths s = (Inr r, t)"
  obtains w found index categories where "tx_destination t = Some w" "wf_node w"
    "scan_workspace_files w = Inr found" "set found = entry_path ` set index"
    "validate_result (gp_changes r) index protected_paths = Inr (categories, gp_touched_files r)"
    "gp_applied r" "gp_added r = rl_added categories" "gp_modified r = rl_modified categories"
    "gp_deleted r = rl_deleted categories" "gp_patch_sha256 r = Some patch_sha"
proof -
  obtain object_format baseline_tree s1 s2 s3 s4 result_tree changes index categories touched where
    base: "baseline_phase ctx source s = (Inr (object_format, baseline_tree), s1)"
    and check: "apply_step ctx [''apply'', ''--check'', ''--index'', ''--whitespace=nowarn'', ''-'']
      patch_bytes ''patch_preflight_failed'' s1 = (Inr (), s2)"
    and applied: "apply_step ctx [''apply'', ''--index'', ''--whitespace=nowarn'', ''-'']
      patch_bytes ''patch_apply_failed'' s2 = (Inr (), s3)"
    and res: "result_phase ctx protected_paths object_format baseline_tree s3
      = (Inr (result_tree, changes, index, categories, touched), s4)"
    and seal: "seal_phase index s4 = (Inr (), t)"
    and r: "gp_changes r = changes" "gp_touched_files r = touched" "gp_applied r"
      "gp_added r = rl_added categories" "gp_modified r = rl_modified categories"
      "gp_deleted r = rl_deleted categories" "gp_patch_sha256 r = Some patch_sha"
    using assms(3) unfolding transaction_def by (auto simp: tx_simps)
  have "wf_state s1" using baseline_keeps [OF git source base] .
  then have "wf_state s2" using keeps_git_checked(4) [OF git] check by (metis keeps_wf_def snd_conv)
  then have "wf_state s3" using keeps_git_checked(4) [OF git] applied by (metis keeps_wf_def snd_conv)
  then have s4: "wf_state s4" using keeps_result_phase [OF git] res by (metis keeps_wf_def snd_conv)
  have val: "validate_result changes index protected_paths = Inr (categories, touched)"
    using result_phase_Inr [OF res] .
  have paths: "(\<lambda>(_, _, path). path) ` set index = entry_path ` set index"
    by (auto simp: case_prod_unfold)
  show thesis
    by (rule seal_phase_Inr [OF seal s4]) (use that val r paths in auto)
qed

lemma apply_patch_applied:
  assumes "apply_patch ctx sha256 source patch_text protected_paths prior timeout = (Inr r, d)"
    and "gp_applied r"
  obtains t where "transaction ctx source (utf8_encode patch_text) (sha256 (utf8_encode patch_text))
      protected_paths \<lparr>tx_destination = prior, tx_version = None, tx_format = None\<rparr> = (Inr r, t)"
    "tx_destination t = d"
  using assms
  by (auto simp: apply_patch_def Let_def patch_not_applied_def failed_result_def
      split: if_splits prod.splits sum.splits tx_error.splits)

section \<open>Outcomes\<close>

text \<open>
  Why a transaction stops, phase by phase. A Git command that cannot be found, takes too long or says too much has its own
  reason; one that fails has the reason of its command in that phase (\<open>command_reason\<close>). The other reasons come from what
  Git answered (\<open>answered\<close>), from the policy, or from the workspace itself.
\<close>

datatype phase = BaselinePhase | PreflightPhase | ApplyPhase | ResultPhase | SealPhase

definition command_reason :: "phase \<Rightarrow> string list \<Rightarrow> string" where
  "command_reason ph args =
     (if hd args = ''hash-object'' then ''index_worktree_mismatch''
      else case ph of
        BaselinePhase \<Rightarrow>
          if hd args = ''version'' then ''git_unavailable''
          else if hd args \<in> {''init'', ''rev-parse''} then ''git_initialization_failed'' else ''baseline_index_failed''
      | PreflightPhase \<Rightarrow> ''patch_preflight_failed''
      | ApplyPhase \<Rightarrow> ''patch_apply_failed''
      | ResultPhase \<Rightarrow> if hd args = ''write-tree'' then ''result_tree_verification_failed'' else ''git_output_invalid''
      | SealPhase \<Rightarrow> [])"

definition answered :: "git_context \<Rightarrow> string list \<Rightarrow> string \<Rightarrow> tx_state \<Rightarrow> bool" where
  "answered ctx args out t \<longleftrightarrow>
     (\<exists>w w' err. cx_git ctx (cx_config ctx @ args) (cx_env ctx) [] w = (GitExit 0 out err, w')
        \<and> tx_destination t = Some w')"

inductive stops :: "git_context \<Rightarrow> string list \<Rightarrow> phase \<Rightarrow> git_error \<Rightarrow> tx_state \<Rightarrow> bool"
  for ctx protected_paths where
  absent: "cx_git ctx (cx_config ctx @ args) (cx_env ctx) stdin w = (GitNotFound, w') \<Longrightarrow> tx_destination t = Some w
    \<Longrightarrow> git_reason e = ''git_unavailable'' \<Longrightarrow> stops ctx protected_paths ph e t"
| slow: "cx_git ctx (cx_config ctx @ args) (cx_env ctx) stdin w = (GitTimedOut, w') \<Longrightarrow> tx_destination t = Some w'
    \<Longrightarrow> git_reason e = ''git_timeout'' \<Longrightarrow> stops ctx protected_paths ph e t"
| large: "cx_git ctx (cx_config ctx @ args) (cx_env ctx) stdin w = (GitExit rc out err, w') \<Longrightarrow> tx_destination t = Some w'
    \<Longrightarrow> GIT_OUTPUT_BYTES < length out + length err
    \<Longrightarrow> git_reason e = ''git_output_too_large'' \<Longrightarrow> stops ctx protected_paths ph e t"
| failed: "cx_git ctx (cx_config ctx @ args) (cx_env ctx) stdin w = (GitExit rc out err, w') \<Longrightarrow> tx_destination t = Some w'
    \<Longrightarrow> rc \<noteq> 0 \<Longrightarrow> git_reason e = command_reason ph args \<Longrightarrow> stops ctx protected_paths ph e t"
| source: "git_reason e = ''baseline_index_failed'' \<Longrightarrow> stops ctx protected_paths BaselinePhase e t"
| listing: "answered ctx [''ls-files'', ''-s'', ''-z''] out t \<Longrightarrow> parse_ls_files_z out object_format = Inl e
    \<Longrightarrow> ph = BaselinePhase \<or> ph = ResultPhase \<Longrightarrow> stops ctx protected_paths ph e t"
| untracked: "answered ctx [''status'', ''--porcelain'', ''-z'', ''--untracked-files=all''] out t
    \<Longrightarrow> r \<in> set (split_on NUL out) \<Longrightarrow> take 2 r = ''??''
    \<Longrightarrow> git_reason e = ''untracked_output'' \<Longrightarrow> stops ctx protected_paths ResultPhase e t"
| unmerged: "answered ctx [''status'', ''--porcelain'', ''-z'', ''--untracked-files=all''] out t
    \<Longrightarrow> r \<in> set (split_on NUL out) \<Longrightarrow> CHR ''U'' \<in> set (take 2 r)
    \<Longrightarrow> git_reason e = ''unmerged_index'' \<Longrightarrow> stops ctx protected_paths ResultPhase e t"
| modified: "answered ctx [''status'', ''--porcelain'', ''-z'', ''--untracked-files=all''] out t
    \<Longrightarrow> r \<in> set (split_on NUL out) \<Longrightarrow> 2 \<le> length r \<Longrightarrow> r ! 1 \<noteq> CHR '' ''
    \<Longrightarrow> git_reason e = ''index_worktree_mismatch'' \<Longrightarrow> stops ctx protected_paths ResultPhase e t"
| raw_diff: "answered ctx [''diff'', ''--raw'', ''-z'', ''--no-renames'', ''--full-index'', old, new] out t
    \<Longrightarrow> parse_raw_z out = Inl e \<Longrightarrow> stops ctx protected_paths ResultPhase e t"
| many_changes: "answered ctx [''diff'', ''--raw'', ''-z'', ''--no-renames'', ''--full-index'', old, new] out t
    \<Longrightarrow> parse_raw_z out = Inr changes \<Longrightarrow> GIT_MAX_CHANGED_FILES < length changes
    \<Longrightarrow> git_reason e = ''git_output_too_large'' \<Longrightarrow> stops ctx protected_paths ResultPhase e t"
| many_files: "answered ctx [''ls-files'', ''-s'', ''-z''] out t \<Longrightarrow> parse_ls_files_z out object_format = Inr index
    \<Longrightarrow> GIT_MAX_CHANGED_FILES < length index
    \<Longrightarrow> git_reason e = ''git_output_too_large'' \<Longrightarrow> stops ctx protected_paths ResultPhase e t"
| policy: "validate_result changes index protected_paths = Inl e \<Longrightarrow> stops ctx protected_paths ResultPhase e t"
| other_bytes: "git_reason e = ''index_worktree_mismatch'' \<Longrightarrow> stops ctx protected_paths ResultPhase e t"
| other_tree: "answered ctx [''write-tree''] out t \<Longrightarrow> git_text ctx out \<noteq> result_tree
    \<Longrightarrow> git_reason e = ''result_tree_verification_failed'' \<Longrightarrow> stops ctx protected_paths ResultPhase e t"
| metadata: "tx_destination t = Some w \<Longrightarrow> remove_git_metadata w = Inl e \<Longrightarrow> stops ctx protected_paths SealPhase e t"
| entry: "tx_destination t = Some w \<Longrightarrow> scan_workspace_files w = Inl e \<Longrightarrow> stops ctx protected_paths SealPhase e t"
| other_files: "tx_destination t = Some w \<Longrightarrow> scan_workspace_files w = Inr found
    \<Longrightarrow> set found \<noteq> entry_path ` set index
    \<Longrightarrow> git_reason e = ''index_worktree_mismatch'' \<Longrightarrow> stops ctx protected_paths SealPhase e t"

text \<open>A path of the index that the worktree does not have: the one \<open>OSError\<close> after the copy.\<close>

definition file_missing :: "git_context \<Rightarrow> node option \<Rightarrow> bool" where
  "file_missing ctx d \<longleftrightarrow>
     (\<exists>w path. d = Some w \<and> lstat_at (cx_beyond_link ctx) (split_on CHR ''/'' path) w = None)"

text \<open>A step that returns leaves the destination there, and one that stops does so for a reason in \<open>S\<close>.\<close>

definition ends_at ::
  "git_context \<Rightarrow> (git_error \<Rightarrow> tx_state \<Rightarrow> bool) \<Rightarrow> 'a tx \<Rightarrow> tx_state \<Rightarrow> bool" where
  "ends_at ctx S m s \<longleftrightarrow>
     (tx_destination s \<noteq> None \<longrightarrow>
        (case m s of
           (Inr _, t) \<Rightarrow> tx_destination t \<noteq> None
         | (Inl (GitFailed e), t) \<Rightarrow> S e t
         | (Inl OsError, t) \<Rightarrow> file_missing ctx (tx_destination t)
         | (Inl ValueError, t) \<Rightarrow> False))"

named_theorems tx_ends \<open>how steps end\<close>

lemma ends_bind [tx_ends]:
  assumes "ends_at ctx S m s" "\<And>x u. m s = (Inr x, u) \<Longrightarrow> ends_at ctx S (f x) u"
  shows "ends_at ctx S (bind_tx m f) s"
proof (cases "m s")
  case (Pair r u)
  then show ?thesis
    using assms by (cases r) (auto simp: ends_at_def bind_tx_def)
qed

lemma ends_basic [tx_ends]:
  "ends_at ctx S (ret x) s" "ends_at ctx S get_destination s" "ends_at ctx S (set_version v) s"
  "ends_at ctx S (set_format v) s" "ends_at ctx S (set_destination (Some n)) s"
  by (auto simp: ends_at_def ret_def get_destination_def set_version_def set_format_def set_destination_def
      split: option.split)

lemma ends_raise: "S (git_run_error reason d) s \<Longrightarrow> ends_at ctx S (raise_git reason d) s"
  by (simp add: ends_at_def raise_git_def raise_def)


lemma reason_git_run_error [simp]: "git_reason (git_run_error reason d) = reason"
  by (simp add: git_run_error_def)

lemma run_git_outcome:
  assumes "tx_destination s = Some w" "cx_git ctx (cx_config ctx @ args) (cx_env ctx) stdin w = (r, w')"
  shows "run_git ctx args stdin s = (case r of
      GitNotFound \<Rightarrow> (Inl (GitFailed (git_run_error ''git_unavailable'' ''git executable not found'')), s)
    | GitTimedOut \<Rightarrow> (Inl (GitFailed (git_run_error ''git_timeout'' ''git command timed out'')),
        s\<lparr>tx_destination := Some w'\<rparr>)
    | GitExit rc out err \<Rightarrow> (if GIT_OUTPUT_BYTES < length out + length err
        then Inl (GitFailed (git_run_error ''git_output_too_large'' ''git produced too much output''))
        else Inr (rc, out, err), s\<lparr>tx_destination := Some w'\<rparr>))"
  using assms by (simp add: run_git_def bind_tx_def get_destination_def set_destination_def raise_git_def raise_def
      ret_def split: git_outcome.split)

lemma ends_run_git [tx_ends]: "ends_at ctx (stops ctx pp ph) (run_git ctx args stdin) s"
proof (cases "tx_destination s")
  case (Some w)
  obtain r w' where run: "cx_git ctx (cx_config ctx @ args) (cx_env ctx) stdin w = (r, w')" by fastforce
  note git = run_git_outcome [OF Some run]
  show ?thesis
  proof (cases r)
    case GitNotFound
    then show ?thesis using stops.absent [OF run [unfolded GitNotFound]] Some by (simp add: ends_at_def git)
  next
    case GitTimedOut
    then show ?thesis using stops.slow [OF run [unfolded GitTimedOut]] by (simp add: ends_at_def git)
  next
    case (GitExit rc out err)
    then show ?thesis using stops.large [OF run [unfolded GitExit]] by (simp add: ends_at_def git)
  qed
qed (simp add: ends_at_def)

lemma run_git_Inr:
  assumes "run_git ctx args stdin s = (Inr (rc, out, err), u)"
  obtains w w' where "cx_git ctx (cx_config ctx @ args) (cx_env ctx) stdin w = (GitExit rc out err, w')"
    "tx_destination u = Some w'"
proof (cases "tx_destination s")
  case None
  then show thesis using assms by (simp add: run_git_def bind_tx_def get_destination_def)
next
  case (Some w)
  obtain r w' where run: "cx_git ctx (cx_config ctx @ args) (cx_env ctx) stdin w = (r, w')" by fastforce
  show thesis
    using assms that run unfolding run_git_outcome [OF Some run] by (cases r) (auto split: if_splits)
qed

lemma ends_git_checked:
  assumes "command_reason ph args = reason"
  shows "ends_at ctx (stops ctx pp ph) (git_checked ctx args reason) s"
  unfolding git_checked_def
proof (rule ends_bind [OF ends_run_git])
  fix x u assume run: "run_git ctx args [] s = (Inr x, u)"
  obtain rc out err where x: "x = (rc, out, err)" by (cases x)
  show "ends_at ctx (stops ctx pp ph) (case x of (rc, out, err) \<Rightarrow> if rc \<noteq> 0
      then raise_git reason (scrub ctx (if git_text ctx err \<noteq> [] then git_text ctx err else git_text ctx out))
      else ret out) u"
  proof -
    obtain w w' where git: "cx_git ctx (cx_config ctx @ args) (cx_env ctx) [] w = (GitExit rc out err, w')"
      "tx_destination u = Some w'" using run_git_Inr [OF run [unfolded x]] by blast
    have "stops ctx pp ph (git_run_error reason d) u" if "rc \<noteq> 0" for d
      by (rule stops.failed [OF git that]) (simp add: assms)
    then show ?thesis by (simp add: x ends_raise ends_basic)
  qed
qed





lemma ends_verify_index [tx_ends]:
  assumes "ph = BaselinePhase \<and> reason = ''baseline_index_failed'' \<or> ph = ResultPhase \<and> reason = ''index_worktree_mismatch''"
  shows "ends_at ctx (stops ctx pp ph) (verify_index_bytes ctx index object_format reason) s"
proof (induction index arbitrary: s)
  case (Cons e index)
  obtain mode sha path where e: "e = (mode, sha, path)" by (cases e)
  have refuse: "ends_at ctx (stops ctx pp ph) (raise_git reason d) u" for d u
    using assms by (auto intro!: ends_raise stops.source stops.other_bytes)
  have blob: "ends_at ctx (stops ctx pp ph) (raw_blob_id ctx path) u" for u
    using assms unfolding raw_blob_id_def
    by (intro ends_bind ends_git_checked ends_basic) (auto simp: command_reason_def)
  have "ends_at ctx (stops ctx pp ph) (verify_entry ctx object_format reason e) s"
  proof (cases "tx_destination s")
    case (Some w)
    have missing: "ends_at ctx (stops ctx pp ph) (raise OsError) s"
      if "lstat_at (cx_beyond_link ctx) (split_on CHR ''/'' path) w = None"
      using that Some by (auto simp: ends_at_def raise_def file_missing_def)
    have "ends_at ctx (stops ctx pp ph) (case lstat_at (cx_beyond_link ctx) (split_on CHR ''/'' path) x of
         None \<Rightarrow> raise OsError
       | Some (File _ executable _) \<Rightarrow>
           if (mode = ''100755'') \<noteq> executable then raise_git reason ''worktree mode disagrees with the index''
           else bind_tx (raw_blob_id ctx path) (\<lambda>blob. if blob \<noteq> sha
             then raise_git reason ''worktree bytes differ from the index blob'' else ret ())
       | Some _ \<Rightarrow> raise_git reason ''index entry is not a regular worktree file'') u"
      if "get_destination s = (Inr x, u)" for x u
      using that missing Some by (auto simp: get_destination_def intro!: refuse blob ends_bind ends_basic
          split: option.split node.split)
    then show ?thesis
      unfolding e verify_entry_def prod.case by (auto intro!: refuse ends_bind [OF ends_basic(2)])
  qed (simp add: ends_at_def)
  then show ?case using Cons by (simp add: ends_bind)
qed (simp add: ends_basic)

lemma ends_if [tx_ends]:
  "(b \<Longrightarrow> ends_at ctx S m s) \<Longrightarrow> (\<not> b \<Longrightarrow> ends_at ctx S n s) \<Longrightarrow> ends_at ctx S (if b then m else n) s"
  by simp






















lemma applied_workspace:
  assumes "git_leaves_trees ctx" "wf_node source"
    and "apply_patch ctx sha256 source patch_text protected_paths prior timeout = (Inr r, d)"
    and "gp_applied r"
  shows "\<exists>w paths. d = Some w \<and> wf_node w
    \<and> (\<forall>p m. p \<noteq> [] \<and> node_at p w = Some m \<longrightarrow> casefold (last p) \<noteq> ''.git'' \<and>
         (case m of Dir _ \<Rightarrow> True
          | File _ _ nlink \<Rightarrow> nlink \<le> 1 \<and> relative_path_error (PyStr (posix_join p)) = None
          | _ \<Rightarrow> False))
    \<and> paths = {posix_join p | p bytes executable nlink.
        p \<noteq> [] \<and> node_at p w = Some (File bytes executable nlink)}
    \<and> inj_on casefold paths
    \<and> list_all (\<lambda>c. list_all (\<lambda>p. relative_path_error (PyStr p) = None \<and> \<not> is_protected p protected_paths)
        (changed_paths c)) (gp_changes r)
    \<and> gp_touched_files r = sorted_set (map gc_new_path (gp_changes r))"
proof -
  obtain t where t: "transaction ctx source (utf8_encode patch_text) (sha256 (utf8_encode patch_text))
      protected_paths \<lparr>tx_destination = prior, tx_version = None, tx_format = None\<rparr> = (Inr r, t)"
    "tx_destination t = d"
    using apply_patch_applied [OF assms(3,4)] by blast
  obtain w found index categories where w: "tx_destination t = Some w" "wf_node w"
    and scan: "scan_workspace_files w = Inr found" "set found = entry_path ` set index"
    and val: "validate_result (gp_changes r) index protected_paths = Inr (categories, gp_touched_files r)"
    using transaction_Inr [OF assms(1,2) t(1)] by metis
  have "list_all (\<lambda>c. mode_ok (gc_old_mode c) \<and> mode_ok (gc_new_mode c)
        \<and> list_all (\<lambda>p. file_safe p \<and> \<not> is_protected p protected_paths) (changed_paths c)) (gp_changes r)
     \<and> list_all (\<lambda>(mode, _, path). mode \<in> set ALLOWED_MODES \<and> file_safe path) index
     \<and> inj_on casefold (entry_path ` set index)"
    using val validate_result_Inr [of "gp_changes r" index protected_paths] by blast
  then have policy: "inj_on casefold (entry_path ` set index)"
    "list_all (\<lambda>c. list_all (\<lambda>p. file_safe p \<and> \<not> is_protected p protected_paths) (changed_paths c))
       (gp_changes r)"
    by (simp_all add: list_all_iff)
  have files: "{posix_join p | p bytes executable nlink. p \<noteq> [] \<and> node_at p w = Some (File bytes executable nlink)}
      = entry_path ` set index"
    using scan_files_found [OF w(2) scan(1)] scan(2) by simp
  have clean: "\<forall>p m. p \<noteq> [] \<and> node_at p w = Some m \<longrightarrow> casefold (last p) \<noteq> ''.git'' \<and>
      (case m of Dir _ \<Rightarrow> True | File _ _ nlink \<Rightarrow> nlink \<le> 1 \<and> file_safe (posix_join p) | _ \<Rightarrow> False)"
    using scan_workspace_exact [OF w(2), THEN conjunct1] scan(1) unfolding file_safe_def by blast
  show ?thesis
    using w t(2) files clean policy validate_result_lists(1) [OF val]
    unfolding file_safe_def by (intro exI [of _ w] exI [of _ "entry_path ` set index"]) auto
qed

text \<open>Documented of \<open>git hash-object\<close>: it prints the object id of the file's bytes and changes nothing.\<close>

definition git_hashes :: "git_context \<Rightarrow> (string \<Rightarrow> string) \<Rightarrow> bool" where
  "git_hashes ctx blob_id \<longleftrightarrow>
     (\<forall>path w bytes executable nlink.
        lstat_at (cx_beyond_link ctx) (split_on CHR ''/'' path) w = Some (File bytes executable nlink) \<longrightarrow>
        (\<exists>out. cx_git ctx (cx_config ctx @ [''hash-object'', ''--no-filters'', ''--'', path]) (cx_env ctx) [] w
             = (GitExit 0 out [], w)
           \<and> length out \<le> GIT_OUTPUT_BYTES \<and> git_text ctx out = blob_id bytes))"

lemma raw_blob_id_hash:
  assumes "git_hashes ctx blob_id" "tx_destination s = Some w"
    and "lstat_at (cx_beyond_link ctx) (split_on CHR ''/'' path) w = Some (File bytes executable nlink)"
  shows "raw_blob_id ctx path s = (Inr (blob_id bytes), s)"
proof -
  obtain out where out: "cx_git ctx (cx_config ctx @ [''hash-object'', ''--no-filters'', ''--'', path])
      (cx_env ctx) [] w = (GitExit 0 out [], w)"
    "length out \<le> GIT_OUTPUT_BYTES" "git_text ctx out = blob_id bytes"
    using assms unfolding git_hashes_def by blast
  have "s\<lparr>tx_destination := Some w\<rparr> = s" using assms(2) by (cases s) simp
  then show ?thesis
    using out assms(2)
    by (simp add: raw_blob_id_def git_checked_def run_git_def bind_tx_def get_destination_def
        set_destination_def ret_def)
qed

definition index_entry_exact :: "git_context \<Rightarrow> (string \<Rightarrow> string) \<Rightarrow> string \<Rightarrow> node \<Rightarrow> index_entry \<Rightarrow> bool" where
  "index_entry_exact ctx blob_id object_format w = (\<lambda>(mode, sha, path).
     mode \<in> set ALLOWED_MODES \<and> file_safe path \<and> is_hex_sha sha (sha_len object_format)
     \<and> (case lstat_at (cx_beyond_link ctx) (split_on CHR ''/'' path) w of
          Some (File bytes executable _) \<Rightarrow> executable = (mode = ''100755'') \<and> sha = blob_id bytes
        | _ \<Rightarrow> False))"

lemma verify_entry_Inr:
  assumes "git_hashes ctx blob_id" "tx_destination s = Some w"
  shows "verify_entry ctx object_format reason e s = (Inr u, t) \<longleftrightarrow>
    index_entry_exact ctx blob_id object_format w e \<and> t = s"
proof -
  obtain mode sha path where e: "e = (mode, sha, path)" by (cases e)
  show ?thesis
  proof (cases "lstat_at (cx_beyond_link ctx) (split_on CHR ''/'' path) w")
    case (Some n)
    then show ?thesis
      using assms raw_blob_id_hash [OF assms]
      by (cases n) (auto simp: e verify_entry_def index_entry_exact_def tx_simps)
  qed (use assms in \<open>auto simp: e verify_entry_def index_entry_exact_def tx_simps\<close>)
qed

lemma verify_index_bytes_Inr:
  assumes "git_hashes ctx blob_id" "tx_destination s = Some w"
  shows "verify_index_bytes ctx index object_format reason s = (Inr u, t) \<longleftrightarrow>
    list_all (index_entry_exact ctx blob_id object_format w) index \<and> t = s"
  by (induction index) (auto simp: tx_simps verify_entry_Inr [OF assms])

text \<open>
  C6: given that \<open>git hash-object\<close> prints the object id of a file's bytes, the byte check accepts an
  index exactly when every entry has a regular-file mode, a safe path and a full object id, and
  names a regular file of the worktree whose executable bit is the one of the mode and whose exact
  bytes have that object id. The check changes nothing.
\<close>

theorem verify_index_bytes_exact:
  assumes "git_hashes ctx blob_id" "tx_destination s = Some w"
  shows "verify_index_bytes ctx index object_format reason s = (Inr (), s) \<longleftrightarrow>
    list_all (\<lambda>(mode, sha, path).
      mode \<in> set ALLOWED_MODES \<and> relative_path_error (PyStr path) = None
      \<and> length sha = sha_len object_format \<and> is_hex sha
      \<and> (case lstat_at (cx_beyond_link ctx) (split_on CHR ''/'' path) w of
           Some (File bytes executable _) \<Rightarrow> executable = (mode = ''100755'') \<and> sha = blob_id bytes
         | _ \<Rightarrow> False)) index"
  using verify_index_bytes_Inr [OF assms]
  by (simp add: index_entry_exact_def [abs_def] file_safe_def is_hex_sha_def conj_assoc)

text \<open>
  C4: if a patch was applied, the destination is a tree without Git metadata, links, special files or
  hardlinks, all of whose files have safe paths, no two equal up to case; every path Git reports
  as changed is safe and unprotected; and the touched files are the changed paths, sorted. The only
  thing asked of Git is that it leaves a tree of the file system.
\<close>

theorem applied_patch_contained:
  assumes "git_leaves_trees ctx" "wf_node source"
    and "apply_patch ctx sha256 source patch_text protected_paths prior timeout = (Inr r, d)"
    and "gp_applied r"
  shows "\<exists>w paths. d = Some w \<and> wf_node w
    \<and> (\<forall>p m. p \<noteq> [] \<and> node_at p w = Some m \<longrightarrow> casefold (last p) \<noteq> ''.git'' \<and>
         (case m of Dir _ \<Rightarrow> True
          | File _ _ nlink \<Rightarrow> nlink \<le> 1 \<and> relative_path_error (PyStr (posix_join p)) = None
          | _ \<Rightarrow> False))
    \<and> paths = {posix_join p | p bytes executable nlink.
        p \<noteq> [] \<and> node_at p w = Some (File bytes executable nlink)}
    \<and> inj_on casefold paths
    \<and> list_all (\<lambda>c. list_all (\<lambda>p. relative_path_error (PyStr p) = None \<and> \<not> is_protected p protected_paths)
        (changed_paths c)) (gp_changes r)
    \<and> gp_touched_files r = sorted_set (map gc_new_path (gp_changes r))"
  using assms by (rule applied_workspace)

section \<open>A concrete run\<close>

text \<open>A stand-in for Git with one file, which it patches from \<open>x\<close> to \<open>y\<close>.\<close>

definition toy_blob :: "string \<Rightarrow> string" where
  "toy_blob bytes = replicate 40 (if bytes = ''x'' then CHR ''a'' else CHR ''b'')"

definition toy_git :: "string list \<Rightarrow> (string \<times> string) list \<Rightarrow> string \<Rightarrow> node \<Rightarrow> git_outcome \<times> node" where
  "toy_git args env stdin w =
     (let patched = (entries_of w \<noteq> [] \<and> snd (last (entries_of w)) = File ''y'' False 1) in
      if args = [''init'', ''-q''] then (GitExit 0 [] [], Dir ((''.git'', Dir []) # filter (\<lambda>e. fst e \<noteq> ''.git'') (entries_of w)))
      else if args = [''rev-parse'', ''--show-object-format''] then (GitExit 0 ''sha1'' [], w)
      else if take 1 args = [''hash-object'']
      then (case lstat_at (\<lambda>_. None) (split_on CHR ''/'' (last args)) w of
              Some (File bytes _ _) \<Rightarrow> (GitExit 0 (toy_blob bytes) [], w) | _ \<Rightarrow> (GitExit 128 [] [], w))
      else if args = [''ls-files'', ''-s'', ''-z'']
      then (GitExit 0 (''100644 '' @ toy_blob (if patched then ''y'' else ''x'') @ '' 0'' @ [CHR 0x09] @ ''a.py'' @ [NUL]) [], w)
      else if args = [''write-tree''] then (GitExit 0 (if patched then ''t2'' else ''t1'') [], w)
      else if args = [''apply'', ''--index'', ''--whitespace=nowarn'', ''-'']
      then (GitExit 0 [] [], Dir [(''.git'', Dir []), (''a.py'', File ''y'' False 1)])
      else if take 1 args = [''diff'']
      then (GitExit 0 ('':100644 100644 '' @ toy_blob ''x'' @ '' '' @ toy_blob ''y'' @ '' M'' @ [NUL] @ ''a.py'' @ [NUL]) [], w)
      else (GitExit 0 [] [], w))"

definition toy_context :: git_context where
  "toy_context = \<lparr>cx_git = toy_git, cx_env = [], cx_config = [], cx_scrub = [], cx_decode_replace = (\<lambda>s. s),
     cx_beyond_link = (\<lambda>_. None)\<rparr>"
definition toy_source :: node where "toy_source = Dir [(''a.py'', File ''x'' False 1)]"

lemma toy_source_wf: "wf_node toy_source"
  by (simp add: toy_source_def wf_node.simps(1))

lemma toy_git_trees: "git_leaves_trees toy_context"
proof -
  have init: "wf_node (Dir ((''.git'', Dir []) # filter (\<lambda>e. fst e \<noteq> ''.git'') (entries_of w)))"
    if "wf_node w" for w
    using that by (cases w) (auto simp: wf_node.simps(1) list_all_iff distinct_map_filter)
  have patched: "wf_node (Dir [(''.git'', Dir []), (''a.py'', File ''y'' False 1)])"
    by (simp add: wf_node.simps(1))
  have if_wf: "wf_node (snd x) \<Longrightarrow> wf_node (snd y) \<Longrightarrow> wf_node (snd (if b then x else y))"
    for b and x y :: "git_outcome \<times> node"
    by simp
  have "wf_node (snd (toy_git args env stdin w))" if "wf_node w" for args env stdin w
    unfolding toy_git_def Let_def
    by (intro if_wf) (use that init patched in \<open>simp_all split: option.split node.split\<close>)
  then show ?thesis by (simp add: git_leaves_trees_def toy_context_def)
qed

lemma applied_patch_contained_witness:
  "\<exists>r w. apply_patch toy_context (\<lambda>_. ''d'') toy_source ''p'' [''t''] None 5 = (Inr r, Some w)
     \<and> gp_applied r \<and> gp_touched_files r = [''a.py'']
     \<and> \<not> is_protected ''a.py'' [''t'']"
proof -
  let ?out = "apply_patch toy_context (\<lambda>_. ''d'') toy_source ''p'' [''t''] None 5"
  have run: "case fst ?out of Inl e \<Rightarrow> False
    | Inr r \<Rightarrow> gp_applied r \<and> map gc_new_path (gp_changes r) = [''a.py'']"
    by code_simp
  then obtain r d where r: "?out = (Inr r, d)" "gp_applied r" "map gc_new_path (gp_changes r) = [''a.py'']"
    by (cases ?out; cases "fst ?out") auto
  obtain w where w: "d = Some w" "gp_touched_files r = sorted_set (map gc_new_path (gp_changes r))"
    "list_all (\<lambda>c. list_all (\<lambda>p. relative_path_error (PyStr p) = None \<and> \<not> is_protected p [''t''])
        (changed_paths c)) (gp_changes r)"
    using applied_patch_contained [OF toy_git_trees toy_source_wf r(1,2)] by blast
  moreover have "sorted_set [''a.py''] = [''a.py'']" by (simp add: sorted_set_def)
  moreover have "\<not> is_protected ''a.py'' [''t'']"
    using w(3) r(3) by (auto simp: changed_paths_def)
  ultimately show ?thesis using r by metis
qed

definition toy_state :: tx_state where
  "toy_state = \<lparr>tx_destination = Some toy_source, tx_version = None, tx_format = None\<rparr>"

lemma toy_git_hashes: "git_hashes toy_context toy_blob"
proof -
  have "git_text toy_context (toy_blob bytes) = toy_blob bytes" for bytes
    by (simp add: git_text_def toy_context_def toy_blob_def py_strip_def is_space_def)
  moreover have "length (toy_blob bytes) \<le> GIT_OUTPUT_BYTES" for bytes
    by (simp add: toy_blob_def GIT_OUTPUT_BYTES_def)
  ultimately show ?thesis
    by (auto simp: git_hashes_def toy_context_def toy_git_def Let_def)
qed

lemma verify_index_bytes_exact_witness:
  "verify_index_bytes toy_context [(''100644'', replicate 40 CHR ''a'', ''a.py'')] ''sha1'' ''r'' toy_state
     = (Inr (), toy_state)
   \<and> verify_index_bytes toy_context [(''100644'', replicate 40 CHR ''b'', ''a.py'')] ''sha1'' ''r'' toy_state
     \<noteq> (Inr (), toy_state)"
proof -
  have state: "tx_destination toy_state = Some toy_source" by (simp add: toy_state_def)
  note exact = verify_index_bytes_exact [OF toy_git_hashes state]
  have "list_all (\<lambda>(mode, sha, path).
      mode \<in> set ALLOWED_MODES \<and> relative_path_error (PyStr path) = None
      \<and> length sha = sha_len ''sha1'' \<and> is_hex sha
      \<and> (case lstat_at (cx_beyond_link toy_context) (split_on CHR ''/'' path) toy_source of
           Some (File bytes executable _) \<Rightarrow> executable = (mode = ''100755'') \<and> sha = toy_blob bytes
         | _ \<Rightarrow> False)) [(''100644'', replicate 40 CHR ''a'', ''a.py'')]"
    by code_simp
  moreover have "\<not> list_all (\<lambda>(mode, sha, path).
      mode \<in> set ALLOWED_MODES \<and> relative_path_error (PyStr path) = None
      \<and> length sha = sha_len ''sha1'' \<and> is_hex sha
      \<and> (case lstat_at (cx_beyond_link toy_context) (split_on CHR ''/'' path) toy_source of
           Some (File bytes executable _) \<Rightarrow> executable = (mode = ''100755'') \<and> sha = toy_blob bytes
         | _ \<Rightarrow> False)) [(''100644'', replicate 40 CHR ''b'', ''a.py'')]"
    by code_simp
  ultimately show ?thesis unfolding exact by blast
qed

end
