(* ===== verification/Matching.thy ===== *)
theory Matching
  imports Numbers
begin

text \<open>
  \<open>arena/scoring/scorer.py\<close>, the assignment of findings to bugs: the Hungarian solver
  \<open>_hungarian_min_cost\<close> and the maximum-weight matching \<open>_max_weight_matching\<close> on top of it.

  The one-dimensional arrays of the solver are functions on their index range, updated in place
  as the code does; \<open>inf\<close> in \<open>minv\<close> and \<open>delta\<close> is \<open>None\<close>. Each \<open>while\<close> loop takes fuel \<open>cols + 1\<close>
  and a scan that finds no free column ends in \<open>None\<close>; \<open>hungarian_optimal\<close> shows that neither
  happens when there are at least as many columns as rows, and that the assignment returned has
  minimum cost, by the dual argument: feasible potentials, tight on the assigned pairs.
\<close>

section \<open>The solver\<close>

definition lt_inf :: "rat option \<Rightarrow> rat option \<Rightarrow> bool" where
  "lt_inf a b = (case a of None \<Rightarrow> False | Some x \<Rightarrow> (case b of None \<Rightarrow> True | Some y \<Rightarrow> x < y))"

definition entry :: "rat list list \<Rightarrow> nat \<Rightarrow> nat \<Rightarrow> rat" where
  "entry cost i j = cost ! (i - 1) ! (j - 1)"

text \<open>One column of the first inner \<open>for\<close>: \<open>best\<close> is \<open>(delta, j1)\<close>.\<close>

definition scan_column ::
  "rat list list \<Rightarrow> (nat \<Rightarrow> bool) \<Rightarrow> (nat \<Rightarrow> rat) \<Rightarrow> (nat \<Rightarrow> rat) \<Rightarrow> nat \<Rightarrow> nat \<Rightarrow> nat
   \<Rightarrow> (nat \<Rightarrow> rat option) \<times> (nat \<Rightarrow> nat) \<times> (rat \<times> nat) option
   \<Rightarrow> (nat \<Rightarrow> rat option) \<times> (nat \<Rightarrow> nat) \<times> (rat \<times> nat) option" where
  "scan_column cost used u v i0 j0 j = (\<lambda>(minv, way, best).
     if used j then (minv, way, best)
     else let cur = entry cost i0 j - u i0 - v j;
              closer = lt_inf (Some cur) (minv j);
              minv' = (if closer then minv(j := Some cur) else minv);
              way' = (if closer then way(j := j0) else way);
              best' = (if lt_inf (minv' j) (map_option fst best)
                       then map_option (\<lambda>d. (d, j)) (minv' j) else best)
          in (minv', way', best'))"

text \<open>One column of the second inner \<open>for\<close>.\<close>

definition shift_column ::
  "(nat \<Rightarrow> bool) \<Rightarrow> (nat \<Rightarrow> nat) \<Rightarrow> rat \<Rightarrow> nat
   \<Rightarrow> (nat \<Rightarrow> rat) \<times> (nat \<Rightarrow> rat) \<times> (nat \<Rightarrow> rat option)
   \<Rightarrow> (nat \<Rightarrow> rat) \<times> (nat \<Rightarrow> rat) \<times> (nat \<Rightarrow> rat option)" where
  "shift_column used p delta j = (\<lambda>(u, v, minv).
     if used j then (u(p j := u (p j) + delta), v(j := v j - delta), minv)
     else (u, v, minv(j := map_option (\<lambda>m. m - delta) (minv j))))"

text \<open>The \<open>while True\<close> loop: it returns the potentials, the tree and the free column reached.\<close>

fun grow_tree ::
  "nat \<Rightarrow> rat list list \<Rightarrow> nat \<Rightarrow> (nat \<Rightarrow> nat) \<Rightarrow> nat \<Rightarrow> (nat \<Rightarrow> bool) \<Rightarrow> (nat \<Rightarrow> rat option)
   \<Rightarrow> (nat \<Rightarrow> nat) \<Rightarrow> (nat \<Rightarrow> rat) \<Rightarrow> (nat \<Rightarrow> rat)
   \<Rightarrow> ((nat \<Rightarrow> rat) \<times> (nat \<Rightarrow> rat) \<times> (nat \<Rightarrow> nat) \<times> nat) option" where
  "grow_tree 0 cost cols p j0 used minv way u v = None"
| "grow_tree (Suc fuel) cost cols p j0 used minv way u v =
     (let used = used(j0 := True);
          i0 = p j0;
          (minv, way, best) =
            fold (scan_column cost used u v i0 j0) [1..<cols + 1] (minv, way, None)
      in case best of
           None \<Rightarrow> None
         | Some (delta, j1) \<Rightarrow>
             (let (u, v, minv) = fold (shift_column used p delta) [0..<cols + 1] (u, v, minv)
              in if p j1 = 0 then Some (u, v, way, j1)
                 else grow_tree fuel cost cols p j1 used minv way u v))"

text \<open>The \<open>while j0\<close> loop.\<close>

fun augment :: "nat \<Rightarrow> (nat \<Rightarrow> nat) \<Rightarrow> nat \<Rightarrow> (nat \<Rightarrow> nat) \<Rightarrow> (nat \<Rightarrow> nat) option" where
  "augment fuel way j0 p =
     (if j0 = 0 then Some p
      else case fuel of
             0 \<Rightarrow> None
           | Suc n \<Rightarrow> (let j1 = way j0 in augment n way j1 (p(j0 := p j1))))"

declare augment.simps [simp del]

text \<open>The body of the row loop, the row loop, and the function.\<close>

definition add_row ::
  "rat list list \<Rightarrow> nat \<Rightarrow> nat \<Rightarrow> (nat \<Rightarrow> rat) \<times> (nat \<Rightarrow> rat) \<times> (nat \<Rightarrow> nat) \<times> (nat \<Rightarrow> nat)
   \<Rightarrow> ((nat \<Rightarrow> rat) \<times> (nat \<Rightarrow> rat) \<times> (nat \<Rightarrow> nat) \<times> (nat \<Rightarrow> nat)) option" where
  "add_row cost cols i = (\<lambda>(u, v, p, way).
     let p = p(0 := i) in
     case grow_tree (cols + 1) cost cols p 0 (\<lambda>_. False) (\<lambda>_. None) way u v of
       None \<Rightarrow> None
     | Some (u, v, way, j0) \<Rightarrow>
         (case augment (cols + 1) way j0 p of
            None \<Rightarrow> None
          | Some p \<Rightarrow> Some (u, v, p, way)))"

fun add_rows ::
  "rat list list \<Rightarrow> nat \<Rightarrow> nat list
   \<Rightarrow> (nat \<Rightarrow> rat) \<times> (nat \<Rightarrow> rat) \<times> (nat \<Rightarrow> nat) \<times> (nat \<Rightarrow> nat)
   \<Rightarrow> ((nat \<Rightarrow> rat) \<times> (nat \<Rightarrow> rat) \<times> (nat \<Rightarrow> nat) \<times> (nat \<Rightarrow> nat)) option" where
  "add_rows cost cols [] s = Some s"
| "add_rows cost cols (i # is) s =
     (case add_row cost cols i s of None \<Rightarrow> None | Some s \<Rightarrow> add_rows cost cols is s)"

definition record_column :: "(nat \<Rightarrow> nat) \<Rightarrow> nat \<Rightarrow> int list \<Rightarrow> int list" where
  "record_column p j assignment =
     (if p j > 0 then assignment[p j - 1 := int j - 1] else assignment)"

definition hungarian_min_cost :: "rat list list \<Rightarrow> nat \<Rightarrow> nat \<Rightarrow> int list option" where
  "hungarian_min_cost cost rows cols =
     (case add_rows cost cols [1..<rows + 1] (\<lambda>_. 0, \<lambda>_. 0, \<lambda>_. 0, \<lambda>_. 0) of
        None \<Rightarrow> None
      | Some (u, v, p, way) \<Rightarrow>
          Some (fold (record_column p) [1..<cols + 1] (replicate rows (- 1))))"

section \<open>Maximum-weight matching\<close>

definition FORBIDDEN_COST :: rat where
  "FORBIDDEN_COST = 1000000000"

text \<open>\<open>weights\<close> is the dictionary from (bug, finding) pairs; the result lists its items in order.\<close>

definition matching_cost ::
  "((nat \<times> nat) \<times> rat) list \<Rightarrow> nat \<Rightarrow> nat list \<Rightarrow> rat list list" where
  "matching_cost weights num_bugs finding_ids =
     map (\<lambda>bug. map (\<lambda>index.
       if index < length finding_ids
       then (case map_of weights (bug, finding_ids ! index) of
               Some weight \<Rightarrow> - weight | None \<Rightarrow> FORBIDDEN_COST)
       else 0) [0..<length finding_ids + num_bugs]) [0..<num_bugs]"

definition max_weight_matching ::
  "((nat \<times> nat) \<times> rat) list \<Rightarrow> nat \<Rightarrow> (nat \<times> nat) list option" where
  "max_weight_matching weights num_bugs =
     (if num_bugs = 0 \<or> weights = [] then Some []
      else let finding_ids = sorted_set (map (snd \<circ> fst) weights);
               real_cols = length finding_ids;
               cost = matching_cost weights num_bugs finding_ids
           in map_option (\<lambda>assignment.
                map (\<lambda>(bug, column). (bug, finding_ids ! nat column))
                  (filter (\<lambda>(bug, column). 0 \<le> column \<and> column < int real_cols
                      \<and> map_of weights (bug, finding_ids ! nat column) \<noteq> None)
                    (enum_list assignment)))
              (hungarian_min_cost cost num_bugs (real_cols + num_bugs)))"

section \<open>The two column loops\<close>

lemma lt_inf_simps [simp]:
  "lt_inf None b = False" "lt_inf (Some x) None = True" "lt_inf (Some x) (Some y) = (x < y)"
  by (simp_all add: lt_inf_def)

lemma shift_column_simps:
  "used j \<Longrightarrow> shift_column used p delta j (u, v, minv)
     = (u(p j := u (p j) + delta), v(j := v j - delta), minv)"
  "\<not> used j \<Longrightarrow> shift_column used p delta j (u, v, minv)
     = (u, v, minv(j := map_option (\<lambda>m. m - delta) (minv j)))"
  by (simp_all add: shift_column_def)

lemma shift_columns:
  assumes "distinct js" "inj_on p {j \<in> set js. used j}"
  shows "fold (shift_column used p delta) js (u, v, minv) =
    (\<lambda>r. if r \<in> p ` {j \<in> set js. used j} then u r + delta else u r,
     \<lambda>j. if j \<in> set js \<and> used j then v j - delta else v j,
     \<lambda>j. if j \<in> set js \<and> \<not> used j then map_option (\<lambda>m. m - delta) (minv j) else minv j)"
  using assms
proof (induction js arbitrary: u v minv)
  case (Cons a js)
  have inj: "inj_on p {j \<in> set js. used j}" using Cons.prems(2) by (auto simp: inj_on_def)
  have new: "used a \<Longrightarrow> p a \<notin> p ` {j \<in> set js. used j}"
    using Cons.prems by (auto simp: inj_on_def)
  have dist: "distinct js" "a \<notin> set js" using Cons.prems(1) by auto
  show ?case
  proof (cases "used a")
    case True
    have "p ` {j \<in> set (a # js). used j} = insert (p a) (p ` {j \<in> set js. used j})"
      using True by auto
    then show ?thesis
      using new [OF True] Cons.IH [OF dist(1) inj] dist(2) True
      by (auto simp: shift_column_simps fun_eq_iff)
  next
    case False
    then have "{j \<in> set (a # js). used j} = {j \<in> set js. used j}" by auto
    then show ?thesis
      using Cons.IH [OF dist(1) inj] dist(2) False
      by (auto simp: shift_column_simps fun_eq_iff)
  qed
qed simp

text \<open>What a scan leaves in \<open>minv\<close>, \<open>way\<close> and \<open>(delta, j1)\<close>.\<close>

definition scanned :: "(nat \<Rightarrow> rat) \<Rightarrow> (nat \<Rightarrow> rat option) \<Rightarrow> nat \<Rightarrow> rat option" where
  "scanned cur minv j = (if lt_inf (Some (cur j)) (minv j) then Some (cur j) else minv j)"

lemma scanned_not_None: "\<exists>x. scanned cur minv j = Some x"
  by (cases "minv j") (simp_all add: scanned_def)

lemma scan_column_simps:
  "used j \<Longrightarrow> scan_column cost used u v i0 j0 j (minv, way, best) = (minv, way, best)"
  "\<not> used j \<Longrightarrow> cur = (\<lambda>j. entry cost i0 j - u i0 - v j) \<Longrightarrow>
   scanned cur minv j = Some x \<Longrightarrow>
   scan_column cost used u v i0 j0 j (minv, way, best) =
     (minv(j := Some x), if lt_inf (Some (cur j)) (minv j) then way(j := j0) else way,
      if lt_inf (Some x) (map_option fst best) then Some (x, j) else best)"
  by (auto simp: scan_column_def Let_def scanned_def fun_eq_iff split: if_splits)

definition scan_result where
  "scan_result cur used j0 js minv way minv' way' best \<longleftrightarrow>
     minv' = (\<lambda>j. if j \<in> set js \<and> \<not> used j then scanned cur minv j else minv j) \<and>
     way' = (\<lambda>j. if j \<in> set js \<and> \<not> used j \<and> lt_inf (Some (cur j)) (minv j) then j0 else way j) \<and>
     (case best of
        None \<Rightarrow> \<forall>j \<in> set js. used j
      | Some (d, j1) \<Rightarrow> j1 \<in> set js \<and> \<not> used j1 \<and> scanned cur minv j1 = Some d
          \<and> (\<forall>j \<in> set js. \<not> used j \<longrightarrow> d \<le> the (scanned cur minv j)))"

lemma scan_columns:
  assumes "distinct js" "cur = (\<lambda>j. entry cost i0 j - u i0 - v j)"
    and "fold (scan_column cost used u v i0 j0) js (minv, way, None) = (minv', way', best)"
  shows "scan_result cur used j0 js minv way minv' way' best"
  using assms(1,3)
proof (induction js arbitrary: minv' way' best rule: rev_induct)
  case Nil
  then show ?case by (simp add: scan_result_def)
next
  case (snoc a js)
  obtain m w b where mwb: "fold (scan_column cost used u v i0 j0) js (minv, way, None) = (m, w, b)"
    by (metis prod_cases3)
  have dist: "distinct js" "a \<notin> set js" using snoc.prems(1) by auto
  have IH: "scan_result cur used j0 js minv way m w b" using snoc.IH dist mwb by blast
  have step: "scan_column cost used u v i0 j0 a (m, w, b) = (minv', way', best)"
    using mwb snoc.prems(2) by simp
  show ?case
  proof (cases "used a")
    case True
    then have "minv' = m" "way' = w" "best = b" using step by (auto simp: scan_column_simps)
    then show ?thesis using IH True
      by (auto simp: scan_result_def fun_eq_iff split: option.splits)
  next
    case False
    have ma: "m a = minv a" using IH dist by (auto simp: scan_result_def)
    obtain x where x: "scanned cur minv a = Some x" using scanned_not_None by blast
    have "scanned cur m a = Some x" using x unfolding scanned_def ma .
    from scan_column_simps(2) [of used a cur cost i0 u v m x, OF False assms(2) this] step
    have eq: "minv' = m(a := Some x)"
      "way' = (if lt_inf (Some (cur a)) (m a) then w(a := j0) else w)"
      "best = (if lt_inf (Some x) (map_option fst b) then Some (x, a) else b)"
      by auto
    have mw: "minv' = (\<lambda>j. if j \<in> set (js @ [a]) \<and> \<not> used j then scanned cur minv j else minv j)"
      "way' = (\<lambda>j. if j \<in> set (js @ [a]) \<and> \<not> used j \<and> lt_inf (Some (cur j)) (minv j)
                   then j0 else way j)"
      using IH x False ma dist by (auto simp: eq(1,2) scan_result_def fun_eq_iff)
    show ?thesis
    proof (cases b)
      case None
      then show ?thesis using IH mw eq(3) x False by (auto simp: scan_result_def)
    next
      case (Some dj)
      then show ?thesis using IH mw eq(3) x False
        by (cases dj) (fastforce simp: scan_result_def)
    qed
  qed
qed

section \<open>Growing the alternating tree\<close>

text \<open>
  The columns marked \<open>used\<close>, latest first: each was reached from an earlier one, \<open>way\<close> names
  which, and the first of all is the pseudo-column 0.
\<close>

fun way_tree :: "(nat \<Rightarrow> nat) \<Rightarrow> nat list \<Rightarrow> bool" where
  "way_tree way [] \<longleftrightarrow> False"
| "way_tree way [j] \<longleftrightarrow> j = 0"
| "way_tree way (j # k # us) \<longleftrightarrow> j \<noteq> 0 \<and> way j \<in> set (k # us) \<and> way_tree way (k # us)"

lemma way_tree_cong: "(\<And>j. j \<in> set us \<Longrightarrow> way j = way' j) \<Longrightarrow> way_tree way us = way_tree way' us"
  by (induction way us rule: way_tree.induct) auto

lemma way_tree_Cons: "us \<noteq> [] \<Longrightarrow> way_tree way (j # us) \<longleftrightarrow> j \<noteq> 0 \<and> way j \<in> set us \<and> way_tree way us"
  by (cases us) auto

lemma way_tree_step: "way_tree way us \<Longrightarrow> j \<in> set us \<Longrightarrow> j \<noteq> 0 \<Longrightarrow> way j \<in> set us"
  by (induction way us rule: way_tree.induct) auto

definition slack where
  "slack cost u v r j = entry cost r j - u r - v (j::nat)"

text \<open>The partial assignment \<open>p\<close> of columns to the rows before \<open>i\<close>.\<close>

definition assigned_rows :: "nat \<Rightarrow> nat \<Rightarrow> (nat \<Rightarrow> nat) \<Rightarrow> bool" where
  "assigned_rows cols i p \<longleftrightarrow>
     (\<forall>j \<in> {1..cols}. p j < i) \<and> inj_on p {j \<in> {1..cols}. p j \<noteq> 0}
     \<and> {1..<i} \<subseteq> p ` {1..cols}"

text \<open>The dual side: feasible on the rows \<open>rs\<close>, tight on assigned pairs, \<open>v\<close> zero on free columns.\<close>

definition dual_ok ::
  "rat list list \<Rightarrow> nat \<Rightarrow> nat set \<Rightarrow> (nat \<Rightarrow> nat) \<Rightarrow> (nat \<Rightarrow> rat) \<Rightarrow> (nat \<Rightarrow> rat) \<Rightarrow> bool" where
  "dual_ok cost cols rs p u v \<longleftrightarrow>
     (\<forall>r \<in> rs. \<forall>j \<in> {1..cols}. 0 \<le> slack cost u v r j)
     \<and> (\<forall>j \<in> {1..cols}. p j \<noteq> 0 \<longrightarrow> slack cost u v (p j) j = 0)
     \<and> (\<forall>j \<in> {1..cols}. v j \<le> 0 \<and> (p j = 0 \<longrightarrow> v j = 0))"

definition tree_ok ::
  "rat list list \<Rightarrow> nat \<Rightarrow> nat \<Rightarrow> (nat \<Rightarrow> nat) \<Rightarrow> (nat \<Rightarrow> rat) \<Rightarrow> (nat \<Rightarrow> rat) \<Rightarrow> (nat \<Rightarrow> nat)
   \<Rightarrow> nat list \<Rightarrow> bool" where
  "tree_ok cost cols i p u v way us \<longleftrightarrow>
     distinct us \<and> set us \<subseteq> {0..cols} \<and> way_tree way us
     \<and> dual_ok cost cols (if length us = 1 then {1..<i} else {1..i}) p u v
     \<and> (\<forall>j \<in> set us. j \<noteq> 0 \<longrightarrow> slack cost u v (p (way j)) j = 0)"

text \<open>The invariant of the growing loop, with \<open>us\<close> the columns marked so far.\<close>

definition grow_inv where
  "grow_inv cost cols i p u v minv way us j0 \<longleftrightarrow>
     tree_ok cost cols i p u v way (j0 # us) \<and> (\<forall>j \<in> set (j0 # us). p j \<noteq> 0)
     \<and> (\<forall>j \<in> {1..cols} - set us.
          if us = [] then minv j = None
          else way j \<in> set us \<and> minv j = Some (slack cost u v (p (way j)) j)
               \<and> (\<forall>k \<in> set us. slack cost u v (p (way j)) j \<le> slack cost u v (p k) j))"

lemma inj_on_used:
  assumes "assigned_rows cols i p" "p 0 = i" "S \<subseteq> {0..cols}" "\<forall>j \<in> S. p j \<noteq> 0"
  shows "inj_on p S"
proof (rule inj_onI)
  fix x y assume xy: "x \<in> S" "y \<in> S" "p x = p y"
  have lt: "j \<in> S \<Longrightarrow> j \<noteq> 0 \<Longrightarrow> p j < i" for j
    using assms(1,3) by (auto simp: assigned_rows_def)
  show "x = y"
  proof (cases "x = 0 \<or> y = 0")
    case True
    then show ?thesis using lt [of x] lt [of y] xy assms(2) by (metis less_irrefl)
  next
    case False
    then have "x \<in> {j \<in> {1..cols}. p j \<noteq> 0}" "y \<in> {j \<in> {1..cols}. p j \<noteq> 0}"
      using xy assms(3,4) by (auto simp: Suc_le_eq)
    then show ?thesis using assms(1) xy(3) unfolding assigned_rows_def inj_on_def by blast
  qed
qed

lemma free_column_exists:
  assumes "assigned_rows cols i p" "p 0 = i" "S \<subseteq> {0..cols}" "0 \<in> S" "\<forall>j \<in> S. p j \<noteq> 0"
    and "1 \<le> i" "i \<le> cols"
  shows "\<exists>j \<in> {1..cols}. j \<notin> S"
proof (rule ccontr)
  assume "\<not> ?thesis"
  then have "j \<in> S" if "j \<le> cols" for j using that assms(4) by (cases j) auto
  then have "{0..cols} \<subseteq> S" by auto
  then have S: "S = {0..cols}" using assms(3) by auto
  have "inj_on p {0..cols}" using inj_on_used [OF assms(1,2,3,5)] S by simp
  moreover have "p ` {0..cols} \<subseteq> {1..i}"
  proof
    fix r assume "r \<in> p ` {0..cols}"
    then obtain j where j: "j \<le> cols" "r = p j" by auto
    moreover have "j \<noteq> 0 \<Longrightarrow> p j < i" using assms(1) j(1) by (simp add: assigned_rows_def)
    moreover have "p j \<noteq> 0" using assms(5) S j(1) by simp
    ultimately show "r \<in> {1..i}" using assms(2,6) by (cases "j = 0") auto
  qed
  ultimately have "card {0..cols} \<le> card {1..i}" by (metis card_inj_on_le finite_atLeastAtMost)
  then show False using assms(7) by simp
qed

lemma way_tree_zero: "way_tree way us \<Longrightarrow> 0 \<in> set us"
  by (induction way us rule: way_tree.induct) auto

lemma way_tree_nonempty: "way_tree way us \<Longrightarrow> us \<noteq> []"
  by auto

lemma tree_ok_dual:
  assumes "tree_ok cost cols i p u v way us"
  shows "dual_ok cost cols (if length us = 1 then {1..<i} else {1..i}) p u v"
  using assms by (simp add: tree_ok_def)

text \<open>What the scan leaves: for every unmarked column its least slack to a marked row, and in
  \<open>(delta, j1)\<close> the least of those.\<close>

lemma scan_slack:
  assumes inv: "grow_inv cost cols i p u v minv way us j0"
    and scan: "scan_result (slack cost u v (p j0)) used j0 [1..<cols + 1] minv way minv1 way1 best"
    and used: "used = (\<lambda>j. j \<in> set (j0 # us))"
    and j: "j \<in> {1..cols}" "j \<notin> set (j0 # us)"
  shows "way1 j \<in> set (j0 # us)" (is ?A)
    and "minv1 j = Some (slack cost u v (p (way1 j)) j)" (is ?B)
    and "\<forall>k \<in> set (j0 # us). slack cost u v (p (way1 j)) j \<le> slack cost u v (p k) j" (is ?C)
proof -
  let ?cur = "slack cost u v (p j0)"
  have jj: "j \<in> set [1..<cols + 1]" "\<not> used j" using j used by auto
  have m: "minv1 j = (if lt_inf (Some (?cur j)) (minv j) then Some (?cur j) else minv j)"
    and w: "way1 j = (if lt_inf (Some (?cur j)) (minv j) then j0 else way j)"
    using scan jj by (simp_all add: scan_result_def scanned_def)
  have "if us = [] then minv j = None
        else way j \<in> set us \<and> minv j = Some (slack cost u v (p (way j)) j)
             \<and> (\<forall>k \<in> set us. slack cost u v (p (way j)) j \<le> slack cost u v (p k) j)"
    using inv j by (auto simp: grow_inv_def)
  then have "?A \<and> ?B \<and> ?C" using m w by (cases "us = []") (auto simp: not_less)
  then show ?A ?B ?C by auto
qed

lemma shift_slack:
  assumes inj: "inj_on p U" and U: "U \<subseteq> {0..cols}"
    and shift: "fold (shift_column (\<lambda>j. j \<in> U) p d) [0..<cols + 1] (u, v, minv1) = (u2, v2, minv2)"
  shows "j \<le> cols \<Longrightarrow> slack cost u2 v2 r j
      = slack cost u v r j - (if r \<in> p ` U then d else 0) + (if j \<in> U then d else 0)"
    and "j \<le> cols \<Longrightarrow> v2 j = v j - (if j \<in> U then d else 0)"
    and "j \<le> cols \<Longrightarrow> j \<notin> U \<Longrightarrow> minv2 j = map_option (\<lambda>m. m - d) (minv1 j)"
proof -
  have eq: "{j \<in> set [0..<cols + 1]. j \<in> U} = U" using U by auto
  have "distinct [0..<cols + 1]" by simp
  from shift_columns [OF this, of p "\<lambda>j. j \<in> U" d u v minv1] inj
  have s: "u2 = (\<lambda>r. if r \<in> p ` U then u r + d else u r)"
    "v2 = (\<lambda>j. if j \<in> set [0..<cols + 1] \<and> j \<in> U then v j - d else v j)"
    "minv2 = (\<lambda>j. if j \<in> set [0..<cols + 1] \<and> j \<notin> U then map_option (\<lambda>m. m - d) (minv1 j)
                  else minv1 j)"
    unfolding eq shift by (auto simp del: upt_Suc)
  show "j \<le> cols \<Longrightarrow> slack cost u2 v2 r j
      = slack cost u v r j - (if r \<in> p ` U then d else 0) + (if j \<in> U then d else 0)"
    by (simp add: slack_def s(1,2))
  show "j \<le> cols \<Longrightarrow> v2 j = v j - (if j \<in> U then d else 0)" by (simp add: s(2))
  show "j \<le> cols \<Longrightarrow> j \<notin> U \<Longrightarrow> minv2 j = map_option (\<lambda>m. m - d) (minv1 j)" by (simp add: s(3))
qed

lemma grow_step:
  assumes inv: "grow_inv cost cols i p u v minv way us j0"
    and p: "assigned_rows cols i p" "p 0 = i" "1 \<le> i"
    and scan: "scan_result (slack cost u v (p j0)) used j0 [1..<cols + 1] minv way minv1 way1
                 (Some (d, j1))"
    and used: "used = (\<lambda>j. j \<in> set (j0 # us))"
    and shift: "fold (shift_column used p d) [0..<cols + 1] (u, v, minv1) = (u2, v2, minv2)"
  shows "tree_ok cost cols i p u2 v2 way1 (j1 # j0 # us)"
    and "j1 \<in> {1..cols}"
    and "\<forall>j \<in> {1..cols} - set (j0 # us).
           way1 j \<in> set (j0 # us) \<and> minv2 j = Some (slack cost u2 v2 (p (way1 j)) j)
           \<and> (\<forall>k \<in> set (j0 # us). slack cost u2 v2 (p (way1 j)) j \<le> slack cost u2 v2 (p k) j)"
proof -
  define U where "U = set (j0 # us)"
  have tree: "tree_ok cost cols i p u v way (j0 # us)" and nz: "\<forall>j \<in> U. p j \<noteq> 0"
    using inv by (auto simp: grow_inv_def U_def)
  have U: "U \<subseteq> {0..cols}" "way_tree way (j0 # us)" "0 \<in> U"
    using tree way_tree_zero [of way "j0 # us"] by (simp_all add: tree_ok_def U_def)
  have inj: "inj_on p U" using inj_on_used [OF p(1,2) U(1) nz] .
  have used_U: "used = (\<lambda>j. j \<in> U)" using used by (simp add: U_def)
  note sl = shift_slack [OF inj U(1) shift [unfolded used_U]]
  note sc = scan_slack [OF inv scan used, folded U_def]
  have j1: "j1 \<in> {1..cols}" "j1 \<notin> U" and d: "minv1 j1 = Some d"
    and least: "\<And>j. j \<in> {1..cols} \<Longrightarrow> j \<notin> U \<Longrightarrow> d \<le> the (minv1 j)"
    using scan used_U by (auto simp: scan_result_def)
  have d_eq: "d = slack cost u v (p (way1 j1)) j1" using sc(2) [OF j1] d by simp
  have d_le: "d \<le> slack cost u v (p k) j" if "j \<in> {1..cols}" "j \<notin> U" "k \<in> U" for j k
    using least [OF that(1,2)] sc(2,3) [OF that(1,2)] that(3) by fastforce
  have rows: "p k \<in> {1..i}" if "k \<in> U" for k
    using that U(1) nz p by (cases "k = 0") (auto simp: assigned_rows_def less_imp_le Suc_le_eq)
  have first: "U = {0}" if "us = []" using that U(2) by (simp add: U_def)
  note dual = tree_ok_dual [OF tree]
  have feas: "0 \<le> slack cost u v r j" if "r \<in> {1..i}" "us \<noteq> [] \<or> r \<noteq> i" "j \<in> {1..cols}" for r j
    using dual that by (auto simp: dual_ok_def split: if_splits)
  have d0: "0 \<le> d" if "us \<noteq> []"
    unfolding d_eq using that rows sc(1) [OF j1] j1(1) by (intro feas) auto
  have d0': "0 \<le> d" if "j \<in> U" "j \<noteq> 0" for j using that d0 first by fastforce
  show "j1 \<in> {1..cols}" by fact
  have feas2: "0 \<le> slack cost u2 v2 r j" if r: "r \<in> {1..i}" and j: "j \<in> {1..cols}" for r j
  proof (cases "r \<in> p ` U")
    case True
    then obtain k where k: "k \<in> U" "r = p k" by blast
    show ?thesis
    proof (cases "j \<in> U")
      case True
      then have "us \<noteq> []" using first j by auto
      then show ?thesis using sl(1) [of j cost r] True k j feas [OF r] by auto
    next
      case False
      then show ?thesis using sl(1) [of j cost r] k j d_le [OF j False k(1)] by auto
    qed
  next
    case False
    then have "r \<noteq> i" using U(3) p(2) by auto
    then show ?thesis using False sl(1) [of j cost r] feas [OF r _ j] j d0' by auto
  qed
  have tight: "slack cost u2 v2 (p j) j = 0" if j: "j \<in> {1..cols}" "p j \<noteq> 0" for j
  proof -
    have old: "slack cost u v (p j) j = 0" using dual j by (auto simp: dual_ok_def)
    have "inj_on p (insert j U)" using inj_on_used [OF p(1,2), of "insert j U"] U(1) nz j by auto
    then have "p j \<in> p ` U \<longleftrightarrow> j \<in> U" by (auto simp: inj_on_def)
    then show ?thesis using sl(1) [of j cost "p j"] old j by auto
  qed
  have vv: "v2 j \<le> 0 \<and> (p j = 0 \<longrightarrow> v2 j = 0)" if j: "j \<in> {1..cols}" for j
  proof -
    have old: "v j \<le> 0 \<and> (p j = 0 \<longrightarrow> v j = 0)" using dual j by (simp add: dual_ok_def)
    show ?thesis
    proof (cases "j \<in> U")
      case True
      then have "p j \<noteq> 0" using nz by blast
      then show ?thesis using old sl(2) [of j] d0' [OF True] True j by auto
    next
      case False
      then show ?thesis using old sl(2) [of j] j by simp
    qed
  qed
  have dual2: "dual_ok cost cols {1..i} p u2 v2"
    using feas2 tight vv by (auto simp: dual_ok_def)
  have keep: "way1 j = way j" if "j \<in> U" for j
    using scan that used_U by (auto simp: scan_result_def)
  have tree1: "way_tree way1 (j0 # us)"
    using U(2) keep way_tree_cong [of "j0 # us" way1 way] by (simp add: U_def)
  have edge: "slack cost u2 v2 (p (way1 j)) j = 0" if "j \<in> insert j1 U" "j \<noteq> 0" for j
  proof (cases "j = j1")
    case True
    then show ?thesis using sl(1) [of j1 cost "p (way1 j1)"] j1 sc(1) [OF j1] d_eq by auto
  next
    case False
    then have jU: "j \<in> U" using that by simp
    have "way j \<in> U" using way_tree_step [OF U(2)] jU that(2) by (simp add: U_def)
    moreover have "slack cost u v (p (way j)) j = 0"
      using tree jU that(2) by (auto simp: tree_ok_def U_def)
    ultimately show ?thesis using sl(1) [of j cost "p (way j)"] keep [OF jU] jU U(1) by auto
  qed
  show "tree_ok cost cols i p u2 v2 way1 (j1 # j0 # us)"
    using tree j1 tree1 sc(1) [OF j1] dual2 edge U(1)
    by (auto simp: tree_ok_def U_def way_tree_Cons)
  have "way1 j \<in> U \<and> minv2 j = Some (slack cost u2 v2 (p (way1 j)) j)
         \<and> (\<forall>k \<in> U. slack cost u2 v2 (p (way1 j)) j \<le> slack cost u2 v2 (p k) j)"
    if j: "j \<in> {1..cols}" "j \<notin> U" for j
    using sc [OF j] sl(3) [of j] sl(1) [of j cost] j by auto
  then show "\<forall>j \<in> {1..cols} - set (j0 # us).
           way1 j \<in> set (j0 # us) \<and> minv2 j = Some (slack cost u2 v2 (p (way1 j)) j)
           \<and> (\<forall>k \<in> set (j0 # us). slack cost u2 v2 (p (way1 j)) j \<le> slack cost u2 v2 (p k) j)"
    by (simp add: U_def)
qed

text \<open>The loop ends within its fuel, at a free column, and keeps the invariant.\<close>

lemma grow_tree_correct:
  assumes "grow_inv cost cols i p u v minv way us j0"
    and "assigned_rows cols i p" "p 0 = i" "1 \<le> i" "i \<le> cols"
    and "used = (\<lambda>j. j \<in> set us)" "cols < fuel + length us"
  shows "\<exists>u' v' way' j1 us'. grow_tree fuel cost cols p j0 used minv way u v = Some (u', v', way', j1)
    \<and> us' \<noteq> [] \<and> tree_ok cost cols i p u' v' way' (j1 # us') \<and> p j1 = 0 \<and> (\<forall>j \<in> set us'. p j \<noteq> 0)"
  using assms
proof (induction fuel arbitrary: j0 used minv way u v us)
  case 0
  have d: "distinct (j0 # us)" "set (j0 # us) \<subseteq> {0..cols}"
    using "0.prems"(1) by (simp_all add: grow_inv_def tree_ok_def)
  have "card (set (j0 # us)) \<le> card {0..cols}" using d(2) by (intro card_mono) auto
  then have "length (j0 # us) \<le> cols + 1" using distinct_card [OF d(1)] by simp
  then show ?case using "0.prems"(7) by simp
next
  case (Suc fuel)
  let ?used = "used(j0 := True)"
  have used: "?used = (\<lambda>j. j \<in> set (j0 # us))" using Suc.prems(6) by (auto simp: fun_eq_iff)
  obtain m w b where mwb:
    "fold (scan_column cost ?used u v (p j0) j0) [1..<cols + 1] (minv, way, None) = (m, w, b)"
    by (metis prod_cases3)
  have cur: "slack cost u v (p j0) = (\<lambda>j. entry cost (p j0) j - u (p j0) - v j)"
    by (rule ext) (simp add: slack_def)
  have scan: "scan_result (slack cost u v (p j0)) ?used j0 [1..<cols + 1] minv way m w b"
    using scan_columns [OF _ cur mwb] by simp
  have "\<exists>j \<in> {1..cols}. j \<notin> set (j0 # us)"
    using Suc.prems(1-5) way_tree_zero [of way "j0 # us"]
    by (intro free_column_exists [of cols i p]) (auto simp: grow_inv_def tree_ok_def)
  then have "b \<noteq> None"
    using scan by (cases b) (auto simp: scan_result_def used simp del: upt_Suc)
  then obtain d j1 where b: "b = Some (d, j1)" by (cases b) auto
  obtain u2 v2 m2 where shift:
    "fold (shift_column ?used p d) [0..<cols + 1] (u, v, m) = (u2, v2, m2)"
    by (metis prod_cases3)
  note step = grow_step [OF Suc.prems(1-4) scan [unfolded b] used shift]
  have unfold_grow: "grow_tree (Suc fuel) cost cols p j0 used minv way u v =
    (if p j1 = 0 then Some (u2, v2, w, j1) else grow_tree fuel cost cols p j1 ?used m2 w u2 v2)"
    using mwb b shift by (simp add: Let_def del: upt_Suc)
  have nz: "\<forall>j \<in> set (j0 # us). p j \<noteq> 0" using Suc.prems(1) by (simp add: grow_inv_def)
  show ?case
  proof (cases "p j1 = 0")
    case True
    then show ?thesis using unfold_grow step(1) nz by (metis list.distinct(1))
  next
    case False
    have inv: "grow_inv cost cols i p u2 v2 m2 w (j0 # us) j1"
      using step(1,3) nz False by (simp add: grow_inv_def)
    have "cols < fuel + length (j0 # us)" using Suc.prems(7) by simp
    from Suc.IH [OF inv Suc.prems(2-5) used this] show ?thesis
      unfolding unfold_grow if_not_P [OF False] .
  qed
qed

section \<open>Augmenting along the tree\<close>

text \<open>
  Column \<open>j0\<close> is the hole: away from it the rows \<open>1..i\<close> are assigned once each, and on the
  columns of the tree still ahead \<open>p\<close> is what it was before the loop.
\<close>

definition hole_ok :: "nat \<Rightarrow> nat \<Rightarrow> (nat \<Rightarrow> nat) \<Rightarrow> nat \<Rightarrow> bool" where
  "hole_ok cols i p j0 \<longleftrightarrow>
     inj_on p {j \<in> {0..cols} - {j0}. p j \<noteq> 0} \<and> {1..i} \<subseteq> p ` ({0..cols} - {j0})
     \<and> (\<forall>j \<in> {0..cols} - {j0}. p j \<le> i)"

lemma hole_step:
  assumes "hole_ok cols i p j0" "j1 \<in> {0..cols}" "j0 \<in> {0..cols}" "j1 \<noteq> j0" "p j1 \<noteq> 0"
  shows "hole_ok cols i (p(j0 := p j1)) j1"
proof -
  let ?q = "p(j0 := p j1)"
  have "inj_on ?q {j \<in> {0..cols} - {j1}. ?q j \<noteq> 0}"
    using assms unfolding hole_ok_def inj_on_def by auto
  moreover have "{1..i} \<subseteq> ?q ` ({0..cols} - {j1})"
  proof
    fix r assume "r \<in> {1..i}"
    then obtain j where j: "j \<in> {0..cols} - {j0}" "r = p j" using assms(1) unfolding hole_ok_def by blast
    show "r \<in> ?q ` ({0..cols} - {j1})"
    proof (cases "j = j1")
      case True
      then show ?thesis using j assms(3,4) by (intro image_eqI [of _ _ j0]) auto
    next
      case False
      then show ?thesis using j by (intro image_eqI [of _ _ j]) auto
    qed
  qed
  moreover have "\<forall>j \<in> {0..cols} - {j1}. ?q j \<le> i" using assms by (auto simp: hole_ok_def)
  ultimately show ?thesis by (simp add: hole_ok_def)
qed

lemma augment_correct:
  assumes "hole_ok cols i p j0" "way_tree way us" "distinct us" "set us \<subseteq> {0..cols}" "j0 \<in> set us"
    and "\<forall>j \<in> set us. j \<noteq> j0 \<longrightarrow> p j = p0 j \<and> p0 j \<noteq> 0"
    and "\<forall>j \<in> set us. j \<noteq> 0 \<longrightarrow> slack cost u v (p0 (way j)) j = 0"
    and "\<forall>j \<in> {1..cols} - {j0}. p j \<noteq> 0 \<longrightarrow> slack cost u v (p j) j = 0"
    and "\<forall>j \<in> {1..cols} - {j0}. p j = 0 \<longrightarrow> v j = 0"
    and "length us \<le> fuel + 1"
  shows "\<exists>q. augment fuel way j0 p = Some q \<and> hole_ok cols i q 0
    \<and> (\<forall>j \<in> {1..cols}. q j \<noteq> 0 \<longrightarrow> slack cost u v (q j) j = 0)
    \<and> (\<forall>j \<in> {1..cols}. q j = 0 \<longrightarrow> v j = 0)"
  using assms
proof (induction us arbitrary: fuel j0 p)
  case Nil
  then show ?case by simp
next
  case (Cons a us)
  show ?case
  proof (cases "j0 = 0")
    case True
    then show ?thesis using Cons.prems by (simp add: augment.simps)
  next
    case False
    have ne: "us \<noteq> []" using Cons.prems(2,5) False by (cases us) auto
    have tree: "way_tree way us" "a \<noteq> 0" "way a \<in> set us"
      using Cons.prems(2) ne by (simp_all add: way_tree_Cons)
    show ?thesis
    proof (cases "a = j0")
      case a: False
      then have j0: "j0 \<in> set us" using Cons.prems(5) by auto
      show ?thesis
        by (rule Cons.IH) (use Cons.prems tree j0 in auto)
    next
      case True
      let ?j1 = "way j0" and ?q = "p(j0 := p (way j0))"
      have j1: "?j1 \<in> set us" "?j1 \<noteq> j0" using tree True Cons.prems(3) by auto
      have pj1: "p ?j1 = p0 ?j1" "p ?j1 \<noteq> 0" using Cons.prems(6) j1 by auto
      obtain n where n: "fuel = Suc n" using Cons.prems(10) ne by (cases us; cases fuel) auto
      have hole: "hole_ok cols i ?q ?j1"
        using Cons.prems(1,4) j1 pj1 True by (intro hole_step) auto
      have edge: "slack cost u v (p ?j1) j0 = 0"
        using Cons.prems(7) pj1 True False by simp
      have "\<exists>q. augment n way ?j1 ?q = Some q \<and> hole_ok cols i q 0
          \<and> (\<forall>j \<in> {1..cols}. q j \<noteq> 0 \<longrightarrow> slack cost u v (q j) j = 0)
          \<and> (\<forall>j \<in> {1..cols}. q j = 0 \<longrightarrow> v j = 0)"
        by (rule Cons.IH [OF hole tree(1)]) (use Cons.prems edge j1 pj1 True n in auto)
      moreover have "augment fuel way j0 p = augment n way ?j1 ?q"
        using n False by (subst augment.simps) (simp add: Let_def)
      ultimately show ?thesis by simp
    qed
  qed
qed

section \<open>The row loop\<close>

text \<open>\<open>i\<close> is the next row: the rows before it are assigned, and the dual side holds for them.\<close>

definition rows_ok where
  "rows_ok cost cols i u v p \<longleftrightarrow> assigned_rows cols i p \<and> dual_ok cost cols {1..<i} p u v"

lemma add_row_correct:
  assumes ok: "rows_ok cost cols i u v p" and i: "1 \<le> i" "i \<le> cols"
  shows "\<exists>u' v' p' way'. add_row cost cols i (u, v, p, way) = Some (u', v', p', way')
    \<and> rows_ok cost cols (i + 1) u' v' p'"
proof -
  let ?p = "p(0 := i)"
  have p: "assigned_rows cols i ?p" "?p 0 = i"
  proof -
    have "p ` {1..cols} = ?p ` {1..cols}" by (intro image_cong) auto
    moreover have "inj_on p {j \<in> {1..cols}. p j \<noteq> 0} \<longleftrightarrow> inj_on ?p {j \<in> {1..cols}. ?p j \<noteq> 0}"
      by (auto simp: inj_on_def)
    ultimately show "assigned_rows cols i ?p"
      using ok unfolding rows_ok_def assigned_rows_def by auto
  qed simp
  have start: "grow_inv cost cols i ?p u v (\<lambda>_. None) way [] 0"
    using ok i unfolding grow_inv_def tree_ok_def rows_ok_def dual_ok_def by auto
  obtain u1 v1 way1 j1 us where g:
    "grow_tree (cols + 1) cost cols ?p 0 (\<lambda>_. False) (\<lambda>_. None) way u v = Some (u1, v1, way1, j1)"
    "us \<noteq> []" "tree_ok cost cols i ?p u1 v1 way1 (j1 # us)" "?p j1 = 0" "\<forall>j \<in> set us. ?p j \<noteq> 0"
    using grow_tree_correct [OF start p i] by fastforce
  have tree: "way_tree way1 (j1 # us)" "distinct (j1 # us)" "set (j1 # us) \<subseteq> {0..cols}"
    and edges: "\<forall>j \<in> set (j1 # us). j \<noteq> 0 \<longrightarrow> slack cost u1 v1 (?p (way1 j)) j = 0"
    and dual: "dual_ok cost cols {1..i} ?p u1 v1"
    using g(2,3) by (simp_all add: tree_ok_def)
  have j1: "j1 \<in> {1..cols}" using tree g(2) by (simp add: way_tree_Cons)
  have hole: "hole_ok cols i ?p j1"
  proof -
    have "inj_on ?p {j \<in> {0..cols} - {j1}. ?p j \<noteq> 0}"
      by (rule inj_on_used [OF p]) auto
    moreover have "r \<in> ?p ` ({0..cols} - {j1})" if r: "r \<in> {1..i}" for r
    proof (cases "r = i")
      case True
      then show ?thesis using j1 by (intro image_eqI [of _ _ 0]) auto
    next
      case False
      then have "r \<in> {1..<i}" using r by simp
      then have "r \<in> ?p ` {1..cols}" using p(1) unfolding assigned_rows_def by blast
      then obtain j where "j \<in> {1..cols}" "?p j = r" by blast
      then show ?thesis using g(4) r by (intro image_eqI [of _ _ j]) auto
    qed
    moreover have "?p j \<le> i" if "j \<le> cols" for j
      using p that by (cases "j = 0") (auto simp: assigned_rows_def less_imp_le)
    ultimately show ?thesis unfolding hole_ok_def by (intro conjI subsetI ballI) auto
  qed
  have len: "length (j1 # us) \<le> cols + 1 + 1"
    using distinct_card [OF tree(2)] card_mono [OF _ tree(3)] by simp
  have "\<exists>q. augment (cols + 1) way1 j1 ?p = Some q \<and> hole_ok cols i q 0
    \<and> (\<forall>j \<in> {1..cols}. q j \<noteq> 0 \<longrightarrow> slack cost u1 v1 (q j) j = 0)
    \<and> (\<forall>j \<in> {1..cols}. q j = 0 \<longrightarrow> v1 j = 0)"
    using dual g(4,5)
    by (intro augment_correct [OF hole tree _ _ edges _ _ len]) (auto simp: dual_ok_def)
  then obtain q where q: "augment (cols + 1) way1 j1 ?p = Some q" "hole_ok cols i q 0"
    "\<forall>j \<in> {1..cols}. q j \<noteq> 0 \<longrightarrow> slack cost u1 v1 (q j) j = 0"
    "\<forall>j \<in> {1..cols}. q j = 0 \<longrightarrow> v1 j = 0" by blast
  have cols: "{0..cols} - {0} = {1..cols}" by auto
  have "assigned_rows cols (i + 1) q"
    using q(2) unfolding hole_ok_def assigned_rows_def cols
    by (auto simp: atLeastLessThanSuc_atLeastAtMost le_imp_less_Suc)
  moreover have "dual_ok cost cols {1..<i + 1} q u1 v1"
    using dual q(3,4) by (auto simp: dual_ok_def)
  moreover have "add_row cost cols i (u, v, p, way) = Some (u1, v1, q, way1)"
    using g(1) q(1) by (simp add: add_row_def Let_def)
  ultimately show ?thesis by (auto simp: rows_ok_def)
qed

lemma add_rows_correct:
  assumes "rows_ok cost cols i u v p" "1 \<le> i" "i + n \<le> cols + 1"
  shows "\<exists>u' v' p' way'. add_rows cost cols [i..<i + n] (u, v, p, way) = Some (u', v', p', way')
    \<and> rows_ok cost cols (i + n) u' v' p'"
  using assms
proof (induction n arbitrary: i u v p way)
  case (Suc n)
  obtain u1 v1 p1 way1 where s: "add_row cost cols i (u, v, p, way) = Some (u1, v1, p1, way1)"
    "rows_ok cost cols (i + 1) u1 v1 p1"
    using add_row_correct [OF Suc.prems(1,2), of way] Suc.prems(3) by auto
  have "[i..<i + Suc n] = i # [i + 1..<i + 1 + n]" by (simp add: upt_conv_Cons)
  then show ?case using s Suc.IH [OF s(2), of way1] Suc.prems by simp
qed auto

section \<open>The assignment returned\<close>

lemma record_columns:
  assumes "distinct js" "inj_on p {j \<in> set js. p j \<noteq> 0}"
    and "fold (record_column p) js a = b"
  shows "length b = length a
    \<and> (\<forall>j \<in> set js. 0 < p j \<longrightarrow> p j \<le> length a \<longrightarrow> b ! (p j - 1) = int j - 1)"
  using assms
proof (induction js arbitrary: b rule: rev_induct)
  case (snoc k js)
  let ?c = "fold (record_column p) js a"
  have "inj_on p {j \<in> set js. p j \<noteq> 0}" using snoc.prems(2) by (auto simp: inj_on_def)
  then have IH: "length ?c = length a"
    "\<forall>j \<in> set js. 0 < p j \<longrightarrow> p j \<le> length a \<longrightarrow> ?c ! (p j - 1) = int j - 1"
    using snoc.IH [of ?c] snoc.prems(1) by auto
  have ne: "p j \<noteq> p k" if "j \<in> set js" "0 < p j" "0 < p k" for j
    using snoc.prems(1,2) that by (auto simp: inj_on_def)
  have b: "b = (if 0 < p k then ?c[p k - 1 := int k - 1] else ?c)"
    using snoc.prems(3) by (simp add: record_column_def [of p k])
  show ?case
  proof (cases "0 < p k")
    case True
    have "p k - 1 \<noteq> p j - 1" if "j \<in> set js" "0 < p j" for j
      using ne [OF that True] that True by simp
    then show ?thesis using b True IH by (auto simp: nth_list_update)
  next
    case False
    then show ?thesis using b IH by auto
  qed
qed auto

lemma assigned_sum_le:
  assumes "finite J" "I \<subseteq> J" "\<forall>j \<in> J. f j \<le> (0::rat)"
  shows "sum f J \<le> sum f I"
proof -
  have "sum f J = sum f I + sum f (J - I)"
    using assms(1,2) by (metis sum.subset_diff add.commute)
  moreover have "sum f (J - I) \<le> 0" using assms(3) by (intro sum_nonpos) auto
  ultimately show ?thesis by simp
qed

text \<open>Weak duality: potentials that are feasible bound every assignment from below.\<close>

lemma dual_bound:
  assumes "dual_ok cost cols {1..<rows + 1} p u v"
    and "inj_on s {..<rows}" "s ` {..<rows} \<subseteq> {..<cols}"
  shows "(\<Sum>i<rows. u (i + 1)) + (\<Sum>j<cols. v (j + 1)) \<le> (\<Sum>i<rows. cost ! i ! s i)"
proof -
  have "u (i + 1) + v (s i + 1) \<le> cost ! i ! s i" if "i < rows" for i
  proof -
    have "s i < cols" using assms(3) that by (auto simp: image_subset_iff)
    then have "i + 1 \<in> {1..<rows + 1}" "s i + 1 \<in> {1..cols}" using that by auto
    then have "0 \<le> slack cost u v (i + 1) (s i + 1)"
      using assms(1) unfolding dual_ok_def by blast
    then show ?thesis by (simp add: slack_def entry_def)
  qed
  then have "(\<Sum>i<rows. u (i + 1)) + (\<Sum>i<rows. v (s i + 1)) \<le> (\<Sum>i<rows. cost ! i ! s i)"
    unfolding sum.distrib [symmetric] by (intro sum_mono) simp
  moreover have "(\<Sum>i<rows. v (s i + 1)) = (\<Sum>j \<in> s ` {..<rows}. v (j + 1))"
    using assms(2) by (simp add: sum.reindex)
  moreover have "(\<Sum>j<cols. v (j + 1)) \<le> (\<Sum>j \<in> s ` {..<rows}. v (j + 1))"
    using assms(1,3) by (intro assigned_sum_le) (auto simp: dual_ok_def)
  ultimately show ?thesis by linarith
qed

lemma rows_ok_start: "rows_ok cost cols 1 (\<lambda>_. 0) (\<lambda>_. 0) (\<lambda>_. 0)"
  by (simp add: rows_ok_def assigned_rows_def dual_ok_def)

lemma hungarian_correct:
  assumes "rows \<le> cols"
  shows "\<exists>a. hungarian_min_cost cost rows cols = Some a \<and> length a = rows \<and> distinct a
    \<and> (\<forall>x \<in> set a. 0 \<le> x \<and> x < int cols)
    \<and> (\<forall>s. inj_on s {..<rows} \<longrightarrow> s ` {..<rows} \<subseteq> {..<cols} \<longrightarrow>
         (\<Sum>i<rows. cost ! i ! nat (a ! i)) \<le> (\<Sum>i<rows. cost ! i ! s i))"
proof -
  obtain u v p way where r: "add_rows cost cols [1..<rows + 1] (\<lambda>_. 0, \<lambda>_. 0, \<lambda>_. 0, \<lambda>_. 0)
      = Some (u, v, p, way)" and ok: "rows_ok cost cols (rows + 1) u v p"
    using add_rows_correct [OF rows_ok_start, of rows cols cost "\<lambda>_. 0"] assms
    by (auto simp: add.commute)
  have asg: "assigned_rows cols (rows + 1) p" and dual: "dual_ok cost cols {1..<rows + 1} p u v"
    using ok by (simp_all add: rows_ok_def)
  define a where "a = fold (record_column p) [1..<cols + 1] (replicate rows (- 1))"
  have "distinct [1..<cols + 1]" by simp
  moreover have "inj_on p {j \<in> set [1..<cols + 1]. p j \<noteq> 0}"
    using asg by (auto simp: assigned_rows_def inj_on_def)
  ultimately have a: "length a = rows"
    "\<And>j. j \<in> {1..cols} \<Longrightarrow> 0 < p j \<Longrightarrow> p j \<le> rows \<Longrightarrow> a ! (p j - 1) = int j - 1"
    using record_columns [OF _ _ a_def [symmetric]] by (auto simp del: upt_Suc)
  have col: "\<exists>k<cols. p (k + 1) = i + 1 \<and> a ! i = int k" if "i < rows" for i
  proof -
    have "i + 1 \<in> p ` {1..cols}" using asg that by (auto simp: assigned_rows_def)
    then obtain j where j: "j \<in> {1..cols}" "p j = i + 1" by force
    then obtain k where k: "j = k + 1" "k < cols" by (cases j) auto
    then show ?thesis using a(2) [of j] that j by auto
  qed
  let ?s = "\<lambda>i. nat (a ! i)"
  have s: "?s i < cols" "p (?s i + 1) = i + 1" "0 \<le> a ! i" "a ! i < int cols" if "i < rows" for i
    using col [OF that] by auto
  have inj: "inj_on ?s {..<rows}"
    by (rule inj_on_inverseI [of _ "\<lambda>j. p (j + 1) - 1"]) (use s in auto)
  have dist: "distinct a"
    unfolding distinct_conv_nth using inj a(1) by (auto simp: inj_on_def)
  have sum_v: "(\<Sum>i<rows. v (?s i + 1)) = (\<Sum>j<cols. v (j + 1))"
  proof -
    have "(\<Sum>i<rows. v (?s i + 1)) = (\<Sum>j \<in> ?s ` {..<rows}. v (j + 1))"
      using inj by (simp add: sum.reindex)
    also have "\<dots> = (\<Sum>j<cols. v (j + 1))"
    proof (rule sum.mono_neutral_left)
      show "\<forall>j \<in> {..<cols} - ?s ` {..<rows}. v (j + 1) = 0"
      proof
        fix j assume j: "j \<in> {..<cols} - ?s ` {..<rows}"
        have "p (j + 1) = 0"
        proof (rule ccontr)
          assume nz: "p (j + 1) \<noteq> 0"
          have "p (j + 1) < rows + 1" using asg j by (auto simp: assigned_rows_def)
          then have "a ! (p (j + 1) - 1) = int j" "p (j + 1) - 1 < rows"
            using a(2) [of "j + 1"] nz j by auto
          then show False using j by (metis DiffD2 imageI lessThan_iff nat_int)
        qed
        then show "v (j + 1) = 0" using dual j by (auto simp: dual_ok_def)
      qed
    qed (use s in auto)
    finally show ?thesis .
  qed
  have "cost ! i ! ?s i = u (i + 1) + v (?s i + 1)" if "i < rows" for i
  proof -
    have "?s i + 1 \<in> {1..cols}" "p (?s i + 1) \<noteq> 0" using s [OF that] by auto
    then have "slack cost u v (p (?s i + 1)) (?s i + 1) = 0"
      using dual unfolding dual_ok_def by blast
    then show ?thesis using s(2) [OF that] by (simp add: slack_def entry_def)
  qed
  then have "(\<Sum>i<rows. cost ! i ! ?s i) = (\<Sum>i<rows. u (i + 1)) + (\<Sum>j<cols. v (j + 1))"
    unfolding sum_v [symmetric] sum.distrib [symmetric] by (intro sum.cong) auto
  moreover have "hungarian_min_cost cost rows cols = Some a"
    using r by (simp add: hungarian_min_cost_def a_def del: upt_Suc)
  moreover have "\<forall>x \<in> set a. 0 \<le> x \<and> x < int cols"
    using s a(1) by (auto simp: in_set_conv_nth)
  ultimately show ?thesis using a(1) dist dual_bound [OF dual] by auto
qed

section \<open>Maximum weight\<close>

text \<open>The weight of a set of (bug, finding) pairs.\<close>

definition total_weight :: "((nat \<times> nat) \<times> rat) list \<Rightarrow> (nat \<times> nat) set \<Rightarrow> rat" where
  "total_weight weights pairs = (\<Sum>x \<in> pairs. the (map_of weights x))"

lemma matching_cost_nth:
  assumes "b < n" "k < length fs + n"
  shows "matching_cost weights n fs ! b ! k =
    (if k < length fs
     then (case map_of weights (b, fs ! k) of Some w \<Rightarrow> - w | None \<Rightarrow> FORBIDDEN_COST) else 0)"
  using assms by (simp add: matching_cost_def nth_append)

text \<open>A one-to-one set of eligible pairs is an assignment of the same total cost.\<close>

lemma matching_as_assignment:
  assumes M: "inj_on fst M" "inj_on snd M" "M \<subseteq> dom (map_of weights)" "\<forall>x \<in> M. fst x < n"
    and fs: "distinct fs" "snd ` dom (map_of weights) \<subseteq> set fs"
  shows "\<exists>s. inj_on s {..<n} \<and> s ` {..<n} \<subseteq> {..<length fs + n}
    \<and> (\<Sum>b<n. matching_cost weights n fs ! b ! s b) = - total_weight weights M"
proof -
  define idx where "idx f = (SOME k. k < length fs \<and> fs ! k = f)" for f
  have idx: "idx f < length fs \<and> fs ! idx f = f" if "f \<in> set fs" for f
    unfolding idx_def by (rule someI_ex) (use that in \<open>simp add: in_set_conv_nth\<close>)
  define h where "h b = snd (the_inv_into M fst b)" for b
  have h: "h (fst x) = snd x" if "x \<in> M" for x
    using M(1) that by (simp add: h_def the_inv_into_f_f)
  have inM: "(b, h b) \<in> M" if "b \<in> fst ` M" for b using that h by force
  have hfs: "h b \<in> set fs" if "b \<in> fst ` M" for b
  proof -
    have "(b, h b) \<in> dom (map_of weights)" using inM [OF that] M(3) by blast
    then have "snd (b, h b) \<in> set fs" using fs(2) by blast
    then show ?thesis by simp
  qed
  define s where "s b = (if b \<in> fst ` M then idx (h b) else length fs + b)" for b
  have "inj_on s {..<n}"
  proof (rule inj_onI)
    fix b c assume bc: "b \<in> {..<n}" "c \<in> {..<n}" "s b = s c"
    have "b = c" if "b \<in> fst ` M" "c \<in> fst ` M"
    proof -
      have "h b = h c" using bc(3) that idx hfs by (metis s_def)
      then show ?thesis
        using inj_onD [OF M(2) _ inM [OF that(1)] inM [OF that(2)]] by simp
    qed
    moreover have "b \<in> fst ` M \<longleftrightarrow> c \<in> fst ` M"
      using bc(3) idx hfs unfolding s_def by (metis (full_types) not_add_less1)
    ultimately show "b = c" using bc(3) by (auto simp: s_def)
  qed
  moreover have "s ` {..<n} \<subseteq> {..<length fs + n}"
    using idx hfs by (fastforce simp: s_def)
  moreover have "(\<Sum>b<n. matching_cost weights n fs ! b ! s b) = - total_weight weights M"
  proof -
    have "(\<Sum>b<n. matching_cost weights n fs ! b ! s b)
        = (\<Sum>b<n. if b \<in> fst ` M then - the (map_of weights (b, h b)) else 0)"
    proof (rule sum.cong)
      fix b assume "b \<in> {..<n}"
      then have b: "b < n" by simp
      show "matching_cost weights n fs ! b ! s b
          = (if b \<in> fst ` M then - the (map_of weights (b, h b)) else 0)"
      proof (cases "b \<in> fst ` M")
        case True
        have "(b, h b) \<in> dom (map_of weights)" using inM [OF True] M(3) by blast
        then show ?thesis
          using matching_cost_nth [OF b, of "s b" fs weights] True idx [OF hfs [OF True]]
          by (auto simp: s_def)
      next
        case False
        then show ?thesis using matching_cost_nth [OF b, of "s b" fs weights] b
          by (auto simp: s_def)
      qed
    qed simp
    also have "\<dots> = (\<Sum>b \<in> fst ` M. - the (map_of weights (b, h b)))"
      using M(4) by (intro sum.mono_neutral_cong_right) auto
    also have "\<dots> = (\<Sum>x \<in> M. - the (map_of weights x))"
      using M(1) h by (subst sum.reindex) (auto intro!: sum.cong)
    finally show ?thesis by (simp add: total_weight_def sum_negf)
  qed
  ultimately show ?thesis by blast
qed

text \<open>The pairs read off an assignment weigh at least its negated cost.\<close>

lemma assignment_as_matching:
  assumes a: "length a = n" "distinct a" "\<forall>x \<in> set a. 0 \<le> x \<and> x < int (length fs + n)"
    and fs: "distinct fs"
    and r: "r = map (\<lambda>(b, k). (b, fs ! nat k)) (filter (\<lambda>(b, k). 0 \<le> k \<and> k < int (length fs)
              \<and> map_of weights (b, fs ! nat k) \<noteq> None) (enum_list a))"
  shows "distinct (map fst r)" "distinct (map snd r)"
    "set r \<subseteq> dom (map_of weights)" "\<forall>x \<in> set r. fst x < n"
    "- (\<Sum>b<n. matching_cost weights n fs ! b ! nat (a ! b)) \<le> total_weight weights (set r)"
proof -
  define B where "B = {b. b < n \<and> nat (a ! b) < length fs
    \<and> map_of weights (b, fs ! nat (a ! b)) \<noteq> None}"
  have a0: "0 \<le> a ! b" "nat (a ! b) < length fs + n" if "b < n" for b
    using a(1,3) that nth_mem [of b a] by (auto simp: nat_less_iff)
  have set_r: "set r = (\<lambda>b. (b, fs ! nat (a ! b))) ` B"
    unfolding r B_def using a(1) a0
    by (force simp: set_enum_list nat_less_iff image_iff split: prod.splits)
  have "map fst r = map fst (filter (\<lambda>(b, k). 0 \<le> k \<and> k < int (length fs)
      \<and> map_of weights (b, fs ! nat k) \<noteq> None) (enum_list a))"
    unfolding r by (simp add: case_prod_unfold comp_def)
  then show dist: "distinct (map fst r)"
    by (simp add: enum_list_def distinct_map_filter)
  have "inj_on snd (set r)"
  proof (rule inj_onI)
    fix x y assume xy: "x \<in> set r" "y \<in> set r" "snd x = snd y"
    then obtain b c where bc: "x = (b, fs ! nat (a ! b))" "y = (c, fs ! nat (a ! c))" "b \<in> B" "c \<in> B"
      using set_r by auto
    then have "nat (a ! b) = nat (a ! c)"
      using xy(3) fs nth_eq_iff_index_eq by (fastforce simp: B_def)
    then have "a ! b = a ! c" using bc(3,4) a0 by (simp add: B_def eq_nat_nat_iff)
    then have "b = c" using bc(3,4) a(1,2) by (simp add: B_def nth_eq_iff_index_eq)
    then show "x = y" using bc(1,2) by simp
  qed
  then show "distinct (map snd r)"
    using dist by (simp add: distinct_map)
  show "set r \<subseteq> dom (map_of weights)" unfolding set_r by (auto simp: B_def)
  show "\<forall>x \<in> set r. fst x < n" unfolding set_r by (auto simp: B_def)
  have "total_weight weights (set r) = (\<Sum>b \<in> B. the (map_of weights (b, fs ! nat (a ! b))))"
    unfolding set_r total_weight_def by (subst sum.reindex) (auto simp: inj_on_def)
  also have "\<dots> = (\<Sum>b<n. if b \<in> B then the (map_of weights (b, fs ! nat (a ! b))) else 0)"
    by (intro sum.mono_neutral_cong_left) (auto simp: B_def)
  also have "\<dots> \<ge> (\<Sum>b<n. - (matching_cost weights n fs ! b ! nat (a ! b)))"
  proof (rule sum_mono)
    fix b assume "b \<in> {..<n}"
    then have b: "b < n" by simp
    show "- (matching_cost weights n fs ! b ! nat (a ! b))
        \<le> (if b \<in> B then the (map_of weights (b, fs ! nat (a ! b))) else 0)"
      using matching_cost_nth [OF b a0(2) [OF b], of weights] b
      by (auto simp: B_def FORBIDDEN_COST_def)
  qed
  finally show "- (\<Sum>b<n. matching_cost weights n fs ! b ! nat (a ! b))
      \<le> total_weight weights (set r)" by (simp add: sum_negf)
qed

lemma max_weight_matching_correct:
  "\<exists>r. max_weight_matching weights n = Some r
    \<and> distinct (map fst r) \<and> distinct (map snd r)
    \<and> set r \<subseteq> dom (map_of weights) \<inter> {..<n} \<times> UNIV
    \<and> (\<forall>M. inj_on fst M \<longrightarrow> inj_on snd M \<longrightarrow> M \<subseteq> dom (map_of weights) \<inter> {..<n} \<times> UNIV
         \<longrightarrow> total_weight weights M \<le> total_weight weights (set r))"
proof (cases "n = 0 \<or> weights = []")
  case True
  then show ?thesis by (auto simp: max_weight_matching_def total_weight_def)
next
  case False
  define fs where "fs = sorted_set (map (snd \<circ> fst) weights)"
  have fs: "distinct fs" "snd ` dom (map_of weights) \<subseteq> set fs"
    by (simp_all add: fs_def dom_map_of_conv_image_fst image_image)
  let ?c = "matching_cost weights n fs"
  obtain a where a: "hungarian_min_cost ?c n (length fs + n) = Some a" "length a = n" "distinct a"
    "\<forall>x \<in> set a. 0 \<le> x \<and> x < int (length fs + n)"
    and best: "\<And>s. inj_on s {..<n} \<Longrightarrow> s ` {..<n} \<subseteq> {..<length fs + n} \<Longrightarrow>
         (\<Sum>i<n. ?c ! i ! nat (a ! i)) \<le> (\<Sum>i<n. ?c ! i ! s i)"
    using hungarian_correct [of n "length fs + n" ?c] by auto
  define r where "r = map (\<lambda>(b, k). (b, fs ! nat k)) (filter (\<lambda>(b, k). 0 \<le> k \<and> k < int (length fs)
              \<and> map_of weights (b, fs ! nat k) \<noteq> None) (enum_list a))"
  note rm = assignment_as_matching [OF a(2-4) fs(1) r_def]
  have "max_weight_matching weights n = Some r"
    using False a(1) by (simp add: max_weight_matching_def Let_def fs_def [symmetric] r_def)
  moreover have "total_weight weights M \<le> total_weight weights (set r)"
    if M: "inj_on fst M" "inj_on snd M" "M \<subseteq> dom (map_of weights) \<inter> {..<n} \<times> UNIV" for M
  proof -
    have "M \<subseteq> dom (map_of weights)" "\<forall>x \<in> M. fst x < n" using M(3) by auto
    then obtain s where "inj_on s {..<n}" "s ` {..<n} \<subseteq> {..<length fs + n}"
      "(\<Sum>b<n. ?c ! b ! s b) = - total_weight weights M"
      using matching_as_assignment [OF M(1,2) _ _ fs] by blast
    then show ?thesis using best [of s] rm(5) by linarith
  qed
  moreover have "set r \<subseteq> dom (map_of weights) \<inter> {..<n} \<times> UNIV" using rm(3,4) by auto
  ultimately show ?thesis using rm(1,2) by blast
qed

text \<open>
  C2: the matching exists for every input, pairs each bug with at most one finding and each finding
  with at most one bug, uses eligible pairs only, and no one-to-one set of eligible pairs weighs
  more.
\<close>

theorem max_weight_matching_optimal:
  "\<exists>r. max_weight_matching weights n = Some r
    \<and> distinct (map fst r) \<and> distinct (map snd r)
    \<and> set r \<subseteq> dom (map_of weights) \<inter> {..<n} \<times> UNIV
    \<and> (\<forall>M. inj_on fst M \<longrightarrow> inj_on snd M \<longrightarrow> M \<subseteq> dom (map_of weights) \<inter> {..<n} \<times> UNIV
         \<longrightarrow> total_weight weights M \<le> total_weight weights (set r))"
  by (rule max_weight_matching_correct)

theorem max_weight_matching_optimal_witness:
  "max_weight_matching [((0, 0), 3), ((0, 1), 2), ((1, 0), 2)] 2 = Some [(0, 1), (1, 0)]
   \<and> total_weight [((0, 0), 3), ((0, 1), 2), ((1, 0), 2)] {(0, 0)}
     \<le> total_weight [((0, 0), 3), ((0, 1), 2), ((1, 0), 2)] {(0, 1), (1, 0)}"
proof -
  let ?w = "[((0, 0), 3), ((0, 1), 2), ((1, 0), 2)] :: ((nat \<times> nat) \<times> rat) list"
  have "max_weight_matching ?w 2 = Some [(0, 1), (1, 0)]" by code_simp
  moreover have "{(0, 0)} \<subseteq> dom (map_of ?w) \<inter> {..<2} \<times> UNIV" by auto
  ultimately show ?thesis
    using max_weight_matching_optimal [of ?w 2] by (auto simp del: map_of.simps)
qed

end
