(* ===== verification/Scoring.thy ===== *)
theory Scoring
  imports Text_Match Matching
begin

text \<open>
  \<open>arena/scoring/scorer.py\<close>: pair components, the assignment of findings to bugs, the score of a
  case, and the override of the fix score by execution evidence. The matching solver is theory
  Matching; its fuel makes these functions return an option, which \<open>score_case_total\<close> shows is
  always \<open>Some\<close>. The schema admits no case without bugs, so \<open>bugs[0]\<close> is the head of the list.
\<close>

section \<open>Pairs\<close>

record pair_components =
  pc_concept :: rat
  pc_file :: rat
  pc_line :: rat
  pc_severity :: rat
  pc_fix :: rat
  pc_line_quality :: line_match_quality

definition weighted_value :: "pair_components \<Rightarrow> score_weights \<Rightarrow> rat" where
  "weighted_value p weights =
     pc_concept p * w_concept_match weights + pc_file p * w_file_match weights
     + pc_line p * w_line_overlap weights + pc_severity p * w_severity_match weights
     + pc_fix p * w_fix_quality weights"

definition better_quality ::
  "finding \<Rightarrow> gt_file \<Rightarrow> bool \<times> line_match_quality \<Rightarrow> bool \<times> line_match_quality" where
  "better_quality finding expected = (\<lambda>(correct_file, best).
     if \<not> path_matches (f_file finding) (gf_path expected) then (correct_file, best)
     else let quality = line_match_quality finding expected in
       (True, if line_match_ratio best < line_match_ratio quality then quality else best))"

definition pair_components ::
  "finding \<Rightarrow> benchmark_case \<Rightarrow> gt_bug \<Rightarrow> pair_components option" where
  "pair_components finding c bug =
     (let (correct_file, best) =
            fold (better_quality finding) (bug_files bug) (False, WrongFile);
          concept = concept_ratio finding bug (case_category c)
      in if \<not> correct_file \<or> concept \<le> 0 then None
         else Some \<lparr>pc_concept = concept, pc_file = 1, pc_line = line_match_ratio best,
                    pc_severity = severity_ratio (f_severity finding) (case_severity c),
                    pc_fix = fix_quality_ratio finding bug, pc_line_quality = best\<rparr>)"

section \<open>The assignment\<close>

definition case_bugs :: "benchmark_case \<Rightarrow> gt_bug list" where
  "case_bugs c = gt_bugs (case_ground_truth c)"

definition eligible_pairs ::
  "finding list \<Rightarrow> benchmark_case \<Rightarrow> ((nat \<times> nat) \<times> pair_components) list" where
  "eligible_pairs findings c =
     concat (map (\<lambda>(finding_index, finding).
       concat (map (\<lambda>(bug_index, bug).
         case pair_components finding c bug of
           None \<Rightarrow> [] | Some pair \<Rightarrow> [((bug_index, finding_index), pair)])
         (enum_list (case_bugs c)))) (enum_list findings))"

definition pair_weights ::
  "benchmark_case \<Rightarrow> ((nat \<times> nat) \<times> pair_components) list \<Rightarrow> ((nat \<times> nat) \<times> rat) list" where
  "pair_weights c components =
     map (\<lambda>(k, pair). (k, weighted_value pair (sc_weights (case_scoring c)))) components"

definition assign_findings_to_bugs ::
  "finding list \<Rightarrow> benchmark_case \<Rightarrow> (nat \<times> nat \<times> pair_components) list option" where
  "assign_findings_to_bugs findings c =
     (let components = eligible_pairs findings c in
      map_option
        (map (\<lambda>(bug_index, finding_index).
           (bug_index, finding_index, the (map_of components (bug_index, finding_index)))))
        (max_weight_matching (pair_weights c components) (length (case_bugs c))))"

section \<open>The score of a case\<close>

definition is_acceptable :: "finding \<Rightarrow> benchmark_case \<Rightarrow> bool" where
  "is_acceptable finding c =
     (let text = finding_text finding in
      list_ex (\<lambda>acceptable.
        \<not> (case acc_path acceptable of
             None \<Rightarrow> False | Some p \<Rightarrow> \<not> path_matches (f_file finding) p)
        \<and> list_ex (mentions text) (acc_concepts acceptable))
        (gt_acceptable_findings (case_ground_truth c)))"

definition primary_file_signal :: "finding list \<Rightarrow> benchmark_case \<Rightarrow> bool \<times> line_match_quality" where
  "primary_file_signal findings c =
     fold (\<lambda>finding. fold (better_quality finding) (bug_files (primary_bug (case_ground_truth c))))
       findings (False, WrongFile)"

fun score_findings ::
  "benchmark_case \<Rightarrow> (nat \<Rightarrow> nat option) \<Rightarrow> string list \<Rightarrow> (nat \<times> finding) list
   \<Rightarrow> scored_finding list \<times> int" where
  "score_findings c finding_to_bug expected_files [] = ([], 0)"
| "score_findings c finding_to_bug expected_files ((index, finding) # rest) =
     (let (scored, false_positives) = score_findings c finding_to_bug expected_files rest;
          item = \<lparr>sf_finding = finding, sf_is_true_positive = False, sf_matched_bug_index = None,
                  sf_is_neutral = False, sf_false_positive_reason = None,
                  sf_evidence_status = None\<rparr>
      in case finding_to_bug index of
           Some bug_index \<Rightarrow>
             (item\<lparr>sf_is_true_positive := True, sf_matched_bug_index := Some bug_index\<rparr> # scored,
              false_positives)
         | None \<Rightarrow>
             if is_acceptable finding c
             then (item\<lparr>sf_is_neutral := True,
                        sf_false_positive_reason := Some ''acceptable_finding''\<rparr> # scored,
                   false_positives)
             else (item\<lparr>sf_false_positive_reason :=
                          Some (classify_false_positive finding expected_files)\<rparr> # scored,
                   false_positives + 1))"

definition component_sum ::
  "(pair_components \<Rightarrow> rat) \<Rightarrow> rat \<Rightarrow> nat \<Rightarrow> (nat \<times> nat \<times> pair_components) list \<Rightarrow> rat" where
  "component_sum part weight bug_count assigned =
     sum_list (map (\<lambda>(_, _, components). part components * weight / of_nat bug_count) assigned)"

definition raw_total :: "score_breakdown \<Rightarrow> rat" where
  "raw_total b = max 0 (bd_concept_match b + bd_file_match b + bd_line_overlap b
     + bd_severity_match b + bd_fix_quality b + bd_no_false_positives b
     - bd_false_positive_penalty b - bd_invalid_json_penalty b)"

text \<open>The unrounded components, and the breakdown the code stores, each rounded to two places.\<close>

definition raw_breakdown ::
  "benchmark_case \<Rightarrow> (nat \<times> nat \<times> pair_components) list \<Rightarrow> int \<Rightarrow> bool \<Rightarrow> score_breakdown" where
  "raw_breakdown c assigned false_positives invalid_output =
     (let weights = sc_weights (case_scoring c);
          bug_count = length (case_bugs c);
          sc = case_scoring c;
          b = \<lparr>bd_concept_match = component_sum pc_concept (w_concept_match weights) bug_count assigned,
               bd_file_match = component_sum pc_file (w_file_match weights) bug_count assigned,
               bd_line_overlap = component_sum pc_line (w_line_overlap weights) bug_count assigned,
               bd_severity_match =
                 component_sum pc_severity (w_severity_match weights) bug_count assigned,
               bd_fix_quality = component_sum pc_fix (w_fix_quality weights) bug_count assigned,
               bd_no_false_positives =
                 (if false_positives = 0 then w_no_false_positives weights else 0),
               bd_false_positive_penalty =
                 min (of_int false_positives * sc_false_positive_penalty sc)
                     (sc_false_positive_penalty_cap sc),
               bd_invalid_json_penalty =
                 (if invalid_output then sc_invalid_json_penalty sc else 0),
               bd_total = 0\<rparr>
      in b\<lparr>bd_total := raw_total b\<rparr>)"

definition round_breakdown :: "score_breakdown \<Rightarrow> score_breakdown" where
  "round_breakdown b =
     \<lparr>bd_concept_match = py_round (bd_concept_match b) 2,
      bd_file_match = py_round (bd_file_match b) 2,
      bd_line_overlap = py_round (bd_line_overlap b) 2,
      bd_severity_match = py_round (bd_severity_match b) 2,
      bd_fix_quality = py_round (bd_fix_quality b) 2,
      bd_no_false_positives = py_round (bd_no_false_positives b) 2,
      bd_false_positive_penalty = py_round (bd_false_positive_penalty b) 2,
      bd_invalid_json_penalty = py_round (bd_invalid_json_penalty b) 2,
      bd_total = py_round (bd_total b) 2\<rparr>"

definition response_findings :: "reviewer_response \<Rightarrow> finding list" where
  "response_findings response =
     (case rr_parsed_response response of None \<Rightarrow> [] | Some parsed \<Rightarrow> rv_findings parsed)"

definition score_assigned ::
  "benchmark_case \<Rightarrow> reviewer_response \<Rightarrow> string \<Rightarrow> (nat \<times> nat \<times> pair_components) list
   \<Rightarrow> review_score" where
  "score_assigned c response test_output assigned =
     (let findings = response_findings response;
          bugs = case_bugs c;
          finding_to_bug = map_of (map (\<lambda>(bug_index, finding_index, _). (finding_index, bug_index)) assigned);
          expected_files = concat (map (\<lambda>bug. map (\<lambda>item. normalize_path (gf_path item)) (bug_files bug)) bugs);
          (scored, false_positives) =
            score_findings c finding_to_bug expected_files (enum_list findings);
          primary = map_of assigned 0;
          (correct_file, primary_quality) =
            (case primary of
               Some (_, components) \<Rightarrow> (True, pc_line_quality components)
             | None \<Rightarrow> primary_file_signal findings c);
          breakdown =
            round_breakdown (raw_breakdown c assigned false_positives (rr_invalid_output response))
      in \<lparr>cr_case_id = case_id c, cr_title = case_title c, cr_category = case_category c,
          cr_severity = case_severity c,
          cr_ground_truth_summary = bug_summary (primary_bug (case_ground_truth c)),
          cr_response = response, cr_scored_findings = scored, cr_breakdown = breakdown,
          cr_score = bd_total breakdown, cr_review_quality_score = Some (bd_total breakdown),
          cr_bug_found = (primary \<noteq> None), cr_correct_file = correct_file,
          cr_correct_line = (primary_quality \<in> set LOCALIZED_QUALITIES),
          cr_line_match = primary_quality, cr_bugs_total = int (length bugs),
          cr_bugs_matched = int (length assigned), cr_false_positive_count = false_positives,
          cr_context_truncated = False, cr_test_output = test_output\<rparr>)"

definition score_case :: "benchmark_case \<Rightarrow> reviewer_response \<Rightarrow> string \<Rightarrow> review_score option" where
  "score_case c response test_output =
     map_option (score_assigned c response test_output)
       (assign_findings_to_bugs (response_findings response) c)"

section \<open>Execution evidence\<close>

definition apply_execution_fix_quality ::
  "benchmark_case \<Rightarrow> review_score \<Rightarrow> bool \<Rightarrow> review_score" where
  "apply_execution_fix_quality c result validated =
     (case find (\<lambda>item. sf_matched_bug_index item = Some 0) (cr_scored_findings result) of
        None \<Rightarrow> result
      | Some primary \<Rightarrow>
          let bug = primary_bug (case_ground_truth c);
              old_ratio = fix_quality_ratio (sf_finding primary) bug;
              new_ratio = (if validated then 1 else min old_ratio WEAK_FIX_CAP)
          in if new_ratio = old_ratio then result
             else let delta = (new_ratio - old_ratio) * w_fix_quality (sc_weights (case_scoring c))
                              / of_int (max (cr_bugs_total result) 1);
                      breakdown = cr_breakdown result;
                      components = bd_concept_match breakdown + bd_file_match breakdown
                        + bd_line_overlap breakdown + bd_severity_match breakdown
                        + (bd_fix_quality breakdown + delta) + bd_no_false_positives breakdown;
                      total = py_round (max 0 (components - bd_false_positive_penalty breakdown
                                - bd_invalid_json_penalty breakdown)) 2;
                      new_breakdown = breakdown\<lparr>bd_fix_quality :=
                          py_round (bd_fix_quality breakdown + delta) 2, bd_total := total\<rparr>
                  in result\<lparr>cr_breakdown := new_breakdown, cr_score := total,
                            cr_review_quality_score := Some total\<rparr>)"

section \<open>The pairs and their ratios\<close>

lemma map_of_functional:
  assumes "\<And>k v. (k, v) \<in> set xs \<longleftrightarrow> g k = Some v"
  shows "map_of xs = g"
proof
  fix k
  show "map_of xs k = g k"
  proof (cases "map_of xs k")
    case None
    then have "(k, v) \<notin> set xs" for v by (metis map_of_eq_None_iff fst_conv image_eqI)
    then show ?thesis using None assms by (metis option.exhaust)
  next
    case (Some v)
    then show ?thesis using assms by (metis map_of_SomeD)
  qed
qed

definition pair_of :: "finding list \<Rightarrow> benchmark_case \<Rightarrow> nat \<times> nat \<Rightarrow> pair_components option" where
  "pair_of findings c = (\<lambda>(b, f).
     if b < length (case_bugs c) \<and> f < length findings
     then pair_components (findings ! f) c (case_bugs c ! b) else None)"

lemma in_eligible_pairs:
  "(k, pair) \<in> set (eligible_pairs findings c) \<longleftrightarrow> pair_of findings c k = Some pair"
proof -
  obtain b f where k: "k = (b, f)" by (cases k)
  have "(k, pair) \<in> set (eligible_pairs findings c) \<longleftrightarrow>
    (\<exists>x \<in> set (enum_list findings). \<exists>y \<in> set (enum_list (case_bugs c)).
       pair_components (snd x) c (snd y) = Some pair \<and> k = (fst y, fst x))"
  proof -
    have "(k, pair) \<in> set (case p of None \<Rightarrow> [] | Some q \<Rightarrow> [(j, q)]) \<longleftrightarrow> p = Some pair \<and> k = j"
      for p j by (cases p) auto
    then show ?thesis
      unfolding eligible_pairs_def case_prod_unfold set_concat set_map by simp
  qed
  also have "\<dots> \<longleftrightarrow> f < length findings \<and> b < length (case_bugs c)
      \<and> pair_components (findings ! f) c (case_bugs c ! b) = Some pair"
    unfolding k Bex_def split_paired_Ex set_enum_list fst_conv snd_conv by auto
  finally show ?thesis by (auto simp: k pair_of_def)
qed

lemma map_of_eligible_pairs [simp]: "map_of (eligible_pairs findings c) = pair_of findings c"
  by (rule map_of_functional) (rule in_eligible_pairs)

lemma map_of_pair_weights [simp]:
  "map_of (pair_weights c (eligible_pairs findings c)) k =
     map_option (\<lambda>pair. weighted_value pair (sc_weights (case_scoring c))) (pair_of findings c k)"
  by (simp add: pair_weights_def map_of_map)

lemma pair_components_ratios:
  assumes "pair_components f c bug = Some p"
  shows "0 < pc_concept p \<and> pc_concept p \<le> 1 \<and> pc_file p = 1 \<and> 0 \<le> pc_line p \<and> pc_line p \<le> 1
    \<and> 0 \<le> pc_severity p \<and> pc_severity p \<le> 1 \<and> 0 \<le> pc_fix p \<and> pc_fix p \<le> 1"
  using assms ratio_bounds
  by (auto simp: pair_components_def Let_def split: prod.splits if_splits)

lemma pair_of_ratios:
  "pair_of findings c k = Some p \<Longrightarrow>
     0 < pc_concept p \<and> pc_concept p \<le> 1 \<and> pc_file p = 1 \<and> 0 \<le> pc_line p \<and> pc_line p \<le> 1
     \<and> 0 \<le> pc_severity p \<and> pc_severity p \<le> 1 \<and> 0 \<le> pc_fix p \<and> pc_fix p \<le> 1"
  using pair_components_ratios
  by (cases k) (simp add: pair_of_def split: if_splits)

section \<open>The assignment\<close>

text \<open>What the solver guarantees, read on findings and bugs.\<close>

lemma assign_findings_correct:
  "\<exists>assigned. assign_findings_to_bugs findings c = Some assigned
    \<and> distinct (map fst assigned) \<and> distinct (map (\<lambda>(_, f, _). f) assigned)
    \<and> (\<forall>(b, f, p) \<in> set assigned. pair_of findings c (b, f) = Some p)
    \<and> (\<forall>M. inj_on fst M \<longrightarrow> inj_on snd M \<longrightarrow> (\<forall>x \<in> M. pair_of findings c x \<noteq> None) \<longrightarrow>
         (\<Sum>x \<in> M. weighted_value (the (pair_of findings c x)) (sc_weights (case_scoring c)))
         \<le> sum_list (map (\<lambda>(_, _, p). weighted_value p (sc_weights (case_scoring c))) assigned))"
proof -
  let ?w = "pair_weights c (eligible_pairs findings c)" and ?n = "length (case_bugs c)"
  let ?val = "\<lambda>x. weighted_value (the (pair_of findings c x)) (sc_weights (case_scoring c))"
  obtain r where r: "max_weight_matching ?w ?n = Some r" "distinct (map fst r)" "distinct (map snd r)"
    "set r \<subseteq> dom (map_of ?w) \<inter> {..<?n} \<times> UNIV"
    and best: "\<And>M. inj_on fst M \<Longrightarrow> inj_on snd M \<Longrightarrow> M \<subseteq> dom (map_of ?w) \<inter> {..<?n} \<times> UNIV
         \<Longrightarrow> total_weight ?w M \<le> total_weight ?w (set r)"
    using max_weight_matching_correct [of ?w ?n] by blast
  have dom: "x \<in> dom (map_of ?w) \<inter> {..<?n} \<times> UNIV \<longleftrightarrow> pair_of findings c x \<noteq> None" for x
    by (cases x) (auto simp: pair_of_def split: if_splits)
  have total: "total_weight ?w M = (\<Sum>x \<in> M. ?val x)"
    if "\<forall>x \<in> M. pair_of findings c x \<noteq> None" for M
    unfolding total_weight_def using that by (intro sum.cong) auto
  define assigned where "assigned = map (\<lambda>(b, f). (b, f, the (pair_of findings c (b, f)))) r"
  have eq: "assign_findings_to_bugs findings c = Some assigned"
    using r(1) by (simp add: assign_findings_to_bugs_def Let_def assigned_def)
  have elig: "\<forall>x \<in> set r. pair_of findings c x \<noteq> None" using r(4) dom by blast
  have keys: "map fst assigned = map fst r" "map (\<lambda>(_, f, _). f) assigned = map snd r"
    by (simp_all add: assigned_def comp_def case_prod_unfold)
  have pairs: "\<forall>(b, f, p) \<in> set assigned. pair_of findings c (b, f) = Some p"
    using elig by (fastforce simp: assigned_def)
  have "sum_list (map (\<lambda>(_, _, p). weighted_value p (sc_weights (case_scoring c))) assigned)
      = sum_list (map ?val r)"
    by (simp add: assigned_def comp_def case_prod_unfold)
  also have "\<dots> = total_weight ?w (set r)"
    unfolding total [OF elig] using r(2)
    by (simp add: sum_list_distinct_conv_sum_set distinct_map)
  finally have sum: "sum_list (map (\<lambda>(_, _, p). weighted_value p (sc_weights (case_scoring c))) assigned)
      = total_weight ?w (set r)" .
  have "(\<Sum>x \<in> M. ?val x) \<le> total_weight ?w (set r)"
    if M: "inj_on fst M" "inj_on snd M" "\<forall>x \<in> M. pair_of findings c x \<noteq> None" for M
  proof -
    have "M \<subseteq> dom (map_of ?w) \<inter> {..<?n} \<times> UNIV" using M(3) dom by blast
    then show ?thesis using best [OF M(1,2)] total [OF M(3)] by simp
  qed
  then show ?thesis using eq keys r(2,3) pairs sum by simp
qed

lemma score_case_assigned:
  obtains assigned where
    "assign_findings_to_bugs (response_findings response) c = Some assigned"
    "score_case c response out = Some (score_assigned c response out assigned)"
    "distinct (map fst assigned)" "distinct (map (\<lambda>(_, f, _). f) assigned)"
    "\<forall>(b, f, p) \<in> set assigned. pair_of (response_findings response) c (b, f) = Some p"
  using assign_findings_correct [of "response_findings response" c]
  by (auto simp: score_case_def)

lemma assigned_length:
  assumes "distinct (map fst assigned)" "\<forall>(b, f, p) \<in> set assigned. pair_of fs c (b, f) = Some p"
  shows "length assigned \<le> length (case_bugs c)"
proof -
  have "set (map fst assigned) \<subseteq> {..<length (case_bugs c)}"
    using assms(2) by (auto simp: pair_of_def split: if_splits)
  then have "card (set (map fst assigned)) \<le> card {..<length (case_bugs c)}"
    by (intro card_mono) auto
  then show ?thesis using distinct_card [OF assms(1)] by simp
qed

section \<open>Every finding is accounted for\<close>

abbreviation is_false_positive :: "scored_finding \<Rightarrow> bool" where
  "is_false_positive s \<equiv> \<not> sf_is_true_positive s \<and> \<not> sf_is_neutral s"

lemma score_findings_spec:
  assumes "score_findings c owner expected xs = (scored, fps)"
  shows "map sf_finding scored = map snd xs"
    and "fps = int (length (filter is_false_positive scored))"
    and "map sf_matched_bug_index (filter sf_is_true_positive scored)
      = filter (\<lambda>o'. o' \<noteq> None) (map (\<lambda>x. owner (fst x)) xs)"
    and "list_all (\<lambda>s. (sf_is_true_positive s \<longleftrightarrow> sf_matched_bug_index s \<noteq> None)
           \<and> \<not> (sf_is_true_positive s \<and> sf_is_neutral s)) scored"
  using assms
proof (induction xs arbitrary: scored fps)
  case (Cons x xs)
  obtain i f where x: "x = (i, f)" by (cases x)
  obtain sc n where rec: "score_findings c owner expected xs = (sc, n)" by (metis prod.exhaust)
  note IH = Cons.IH [OF rec]
  {
    case 1
    then show ?case using IH by (auto simp: x rec Let_def split: option.splits if_splits)
  next
    case 2
    then show ?case using IH by (auto simp: x rec Let_def split: option.splits if_splits)
  next
    case 3
    then show ?case using IH by (auto simp: x rec Let_def split: option.splits if_splits)
  next
    case 4
    then show ?case using IH by (auto simp: x rec Let_def split: option.splits if_splits)
  }
qed auto

lemma filter_owner:
  "filter (\<lambda>o'. o' \<noteq> None) (map g xs) = map g (filter (\<lambda>x. g x \<noteq> None) xs)"
  by (induction xs) auto

lemma filter_owner_some:
  "filter (\<lambda>o'. o' \<noteq> None) (map g xs) = map (\<lambda>x. Some (the (g x))) (filter (\<lambda>x. g x \<noteq> None) xs)"
  by (induction xs) auto

text \<open>The finding-to-bug dictionary inverts the assignment.\<close>

lemma owner_spec:
  assumes "distinct (map fst assigned)" "distinct (map (\<lambda>(_, f, _). f) assigned)"
    and "\<forall>(b, f, p) \<in> set assigned. f < m"
  defines "owner \<equiv> map_of (map (\<lambda>(b, f, _). (f, b)) assigned)"
  shows "distinct (filter (\<lambda>o'. o' \<noteq> None) (map owner [0..<m]))"
    and "length (filter (\<lambda>o'. o' \<noteq> None) (map owner [0..<m])) = length assigned"
    and "Some b \<in> set (filter (\<lambda>o'. o' \<noteq> None) (map owner [0..<m])) \<longleftrightarrow> map_of assigned b \<noteq> None"
proof -
  have owner: "owner f = Some b \<longleftrightarrow> (\<exists>p. (b, f, p) \<in> set assigned)" for f b
  proof -
    have "distinct (map fst (map (\<lambda>(b, f, _). (f, b)) assigned))"
      using assms(2) by (simp add: comp_def case_prod_unfold)
    then show ?thesis by (force simp: owner_def)
  qed
  have inj: "inj_on owner {f. owner f \<noteq> None}"
  proof (rule inj_onI)
    fix x y assume xy: "x \<in> {f. owner f \<noteq> None}" "y \<in> {f. owner f \<noteq> None}" "owner x = owner y"
    then obtain b where "owner x = Some b" "owner y = Some b" by auto
    then obtain p q where "(b, x, p) \<in> set assigned" "(b, y, q) \<in> set assigned" using owner by auto
    then show "x = y" using assms(1) by (metis eq_key_imp_eq_value prod.inject)
  qed
  have "inj_on owner (set (filter (\<lambda>x. owner x \<noteq> None) [0..<m]))"
    using inj by (rule inj_on_subset) auto
  then show "distinct (filter (\<lambda>o'. o' \<noteq> None) (map owner [0..<m]))"
    unfolding filter_owner by (simp add: distinct_map)
  have "set (filter (\<lambda>x. owner x \<noteq> None) [0..<m]) = set (map (\<lambda>(_, f, _). f) assigned)"
    using owner assms(3) by (fastforce simp: image_iff)
  then have "length (filter (\<lambda>x. owner x \<noteq> None) [0..<m]) = length (map (\<lambda>(_, f, _). f) assigned)"
    using assms(2) by (metis distinct_card distinct_filter distinct_upt)
  then show "length (filter (\<lambda>o'. o' \<noteq> None) (map owner [0..<m])) = length assigned"
    unfolding filter_owner by simp
  have "Some b \<in> set (filter (\<lambda>o'. o' \<noteq> None) (map owner [0..<m])) \<longleftrightarrow> (\<exists>f<m. owner f = Some b)"
    by force
  also have "\<dots> \<longleftrightarrow> (\<exists>f p. (b, f, p) \<in> set assigned)" using owner assms(3) by fastforce
  also have "\<dots> \<longleftrightarrow> map_of assigned b \<noteq> None" by (force simp: map_of_eq_None_iff)
  finally show "Some b \<in> set (filter (\<lambda>o'. o' \<noteq> None) (map owner [0..<m]))
    \<longleftrightarrow> map_of assigned b \<noteq> None" .
qed

lemma score_assigned_scored:
  obtains scored fps where
    "score_findings c (map_of (map (\<lambda>(b, f, _). (f, b)) assigned))
       (concat (map (\<lambda>bug. map (\<lambda>item. normalize_path (gf_path item)) (bug_files bug)) (case_bugs c)))
       (enum_list (response_findings response)) = (scored, fps)"
    "cr_scored_findings (score_assigned c response out assigned) = scored"
    "cr_false_positive_count (score_assigned c response out assigned) = fps"
    "cr_bugs_matched (score_assigned c response out assigned) = int (length assigned)"
    "cr_bugs_total (score_assigned c response out assigned) = int (length (case_bugs c))"
    "cr_bug_found (score_assigned c response out assigned) \<longleftrightarrow> map_of assigned 0 \<noteq> None"
    "cr_breakdown (score_assigned c response out assigned)
       = round_breakdown (raw_breakdown c assigned fps (rr_invalid_output response))"
    "cr_score (score_assigned c response out assigned)
       = bd_total (cr_breakdown (score_assigned c response out assigned))"
proof -
  obtain scored fps where sf: "score_findings c (map_of (map (\<lambda>(b, f, _). (f, b)) assigned))
       (concat (map (\<lambda>bug. map (\<lambda>item. normalize_path (gf_path item)) (bug_files bug)) (case_bugs c)))
       (enum_list (response_findings response)) = (scored, fps)" by (metis prod.exhaust)
  then show thesis
    by (rule that) (auto simp: score_assigned_def Let_def sf split: option.splits prod.splits)
qed

text \<open>
  Every case gets a score; its scored findings are the reviewer's findings in order, each a
  true positive (exactly those with a bug), neutral or a false positive; no bug is credited twice;
  and the stored counts are the counts of those findings.
\<close>

theorem score_case_accounting:
  "\<exists>r. score_case c response out = Some r
    \<and> map sf_finding (cr_scored_findings r) = response_findings response
    \<and> list_all (\<lambda>s. (sf_is_true_positive s \<longleftrightarrow> sf_matched_bug_index s \<noteq> None)
        \<and> \<not> (sf_is_true_positive s \<and> sf_is_neutral s)) (cr_scored_findings r)
    \<and> distinct (map sf_matched_bug_index (filter sf_is_true_positive (cr_scored_findings r)))
    \<and> cr_bugs_matched r = int (length (filter sf_is_true_positive (cr_scored_findings r)))
    \<and> cr_bugs_matched r \<le> cr_bugs_total r
    \<and> cr_false_positive_count r = int (length (filter is_false_positive (cr_scored_findings r)))
    \<and> (cr_bug_found r \<longleftrightarrow> Some 0 \<in> set (map sf_matched_bug_index
        (filter sf_is_true_positive (cr_scored_findings r))))"
proof -
  let ?fs = "response_findings response"
  obtain assigned where a: "score_case c response out = Some (score_assigned c response out assigned)"
    "distinct (map fst assigned)" "distinct (map (\<lambda>(_, f, _). f) assigned)"
    "\<forall>(b, f, p) \<in> set assigned. pair_of ?fs c (b, f) = Some p"
    by (rule score_case_assigned)
  have "\<forall>(b, f, p) \<in> set assigned. f < length ?fs"
    using a(4) by (fastforce simp: pair_of_def split: if_splits)
  note owner = owner_spec [OF a(2,3) this]
  obtain scored fps where sf: "score_findings c (map_of (map (\<lambda>(b, f, _). (f, b)) assigned))
       (concat (map (\<lambda>bug. map (\<lambda>item. normalize_path (gf_path item)) (bug_files bug)) (case_bugs c)))
       (enum_list ?fs) = (scored, fps)"
    and r: "cr_scored_findings (score_assigned c response out assigned) = scored"
    "cr_false_positive_count (score_assigned c response out assigned) = fps"
    "cr_bugs_matched (score_assigned c response out assigned) = int (length assigned)"
    "cr_bugs_total (score_assigned c response out assigned) = int (length (case_bugs c))"
    "cr_bug_found (score_assigned c response out assigned) \<longleftrightarrow> map_of assigned 0 \<noteq> None"
    by (rule score_assigned_scored [of c assigned response out])
  note spec = score_findings_spec [OF sf]
  have "map (\<lambda>x. g (fst x)) (enum_list ?fs) = map g [0..<length ?fs]" for g :: "nat \<Rightarrow> nat option"
    unfolding map_fst_enum_list [symmetric] map_map comp_def ..
  note matched = spec(3) [unfolded this]
  have "length (filter sf_is_true_positive scored) = length assigned"
    using owner(2) matched by (metis length_map)
  then show ?thesis
    using a(1) r spec(1,2,4) owner(1) owner(3) [of 0] assigned_length [OF a(2,4)]
    unfolding matched [symmetric] by auto
qed

section \<open>Bounds\<close>

lemma component_sum_bounds:
  assumes "0 \<le> w" "length assigned \<le> n" "\<forall>(b, f, p) \<in> set assigned. 0 \<le> part p \<and> part p \<le> 1"
  shows "0 \<le> component_sum part w n assigned \<and> component_sum part w n assigned \<le> w"
proof
  have part: "0 \<le> part (snd (snd x))" "part (snd (snd x)) \<le> 1" if "x \<in> set assigned" for x
    using assms(3) that by (cases x; auto)+
  show "0 \<le> component_sum part w n assigned"
    unfolding component_sum_def using assms(1) part
    by (intro sum_list_nonneg) (auto simp: case_prod_unfold)
  have "component_sum part w n assigned \<le> sum_list (map (\<lambda>_. w / of_nat n) assigned)"
    unfolding component_sum_def case_prod_unfold using assms(1) part
    by (intro sum_list_mono divide_right_mono) (auto intro: mult_left_le_one_le)
  also have "\<dots> = of_nat (length assigned) * (w / of_nat n)" by (simp add: sum_list_triv)
  also have "\<dots> \<le> w"
  proof (cases "n = 0")
    case False
    have "of_nat (length assigned) * w \<le> of_nat n * w"
      using assms(1,2) by (intro mult_right_mono) auto
    then show ?thesis using False by (simp add: divide_le_eq mult.commute)
  qed (use assms(1) in simp)
  finally show "component_sum part w n assigned \<le> w" .
qed

lemma raw_breakdown_bounds:
  fixes invalid_out :: bool
  assumes valid: "valid_scoring_config (case_scoring c)" and fps: "0 \<le> fps"
    and a: "distinct (map fst assigned)" "\<forall>(b, f, p) \<in> set assigned. pair_of fs c (b, f) = Some p"
  defines "b \<equiv> raw_breakdown c assigned fps invalid_out" and "w \<equiv> sc_weights (case_scoring c)"
  shows "0 \<le> bd_concept_match b" "bd_concept_match b \<le> w_concept_match w"
    and "0 \<le> bd_file_match b" "bd_file_match b \<le> w_file_match w"
    and "0 \<le> bd_line_overlap b" "bd_line_overlap b \<le> w_line_overlap w"
    and "0 \<le> bd_severity_match b" "bd_severity_match b \<le> w_severity_match w"
    and "0 \<le> bd_fix_quality b" "bd_fix_quality b \<le> w_fix_quality w"
    and "0 \<le> bd_no_false_positives b" "bd_no_false_positives b \<le> w_no_false_positives w"
    and "0 \<le> bd_false_positive_penalty b" "0 \<le> bd_invalid_json_penalty b"
    and "bd_total b = raw_total b"
proof -
  have w: "0 \<le> w_concept_match w" "0 \<le> w_file_match w" "0 \<le> w_line_overlap w"
    "0 \<le> w_severity_match w" "0 \<le> w_fix_quality w" "0 \<le> w_no_false_positives w"
    and pen: "0 \<le> sc_false_positive_penalty (case_scoring c)"
    "0 \<le> sc_false_positive_penalty_cap (case_scoring c)"
    "0 \<le> sc_invalid_json_penalty (case_scoring c)"
    using valid by (simp_all add: valid_scoring_config_def valid_score_weights_def num_ok_def w_def)
  have rat: "\<forall>(b, f, p) \<in> set assigned. pc_file p = 1 \<and> 0 \<le> pc_concept p \<and> pc_concept p \<le> 1
      \<and> 0 \<le> pc_line p \<and> pc_line p \<le> 1 \<and> 0 \<le> pc_severity p \<and> pc_severity p \<le> 1
      \<and> 0 \<le> pc_fix p \<and> pc_fix p \<le> 1"
    using a(2) pair_of_ratios by (fastforce intro: less_imp_le)
  note cs = component_sum_bounds [OF _ assigned_length [OF a]]
  have parts: "\<forall>(b, f, p) \<in> set assigned. 0 \<le> pc_concept p \<and> pc_concept p \<le> 1"
    "\<forall>(b, f, p) \<in> set assigned. 0 \<le> pc_file p \<and> pc_file p \<le> 1"
    "\<forall>(b, f, p) \<in> set assigned. 0 \<le> pc_line p \<and> pc_line p \<le> 1"
    "\<forall>(b, f, p) \<in> set assigned. 0 \<le> pc_severity p \<and> pc_severity p \<le> 1"
    "\<forall>(b, f, p) \<in> set assigned. 0 \<le> pc_fix p \<and> pc_fix p \<le> 1"
    using rat by auto
  note bounds = cs [OF w(1) parts(1)] cs [OF w(2) parts(2)] cs [OF w(3) parts(3)]
    cs [OF w(4) parts(4)] cs [OF w(5) parts(5)]
  show "0 \<le> bd_concept_match b" "bd_concept_match b \<le> w_concept_match w"
    "0 \<le> bd_file_match b" "bd_file_match b \<le> w_file_match w"
    "0 \<le> bd_line_overlap b" "bd_line_overlap b \<le> w_line_overlap w"
    "0 \<le> bd_severity_match b" "bd_severity_match b \<le> w_severity_match w"
    "0 \<le> bd_fix_quality b" "bd_fix_quality b \<le> w_fix_quality w"
    "0 \<le> bd_no_false_positives b" "bd_no_false_positives b \<le> w_no_false_positives w"
    "0 \<le> bd_invalid_json_penalty b" "bd_total b = raw_total b"
    using bounds w pen by (auto simp: b_def raw_breakdown_def Let_def w_def raw_total_def)
  have "0 \<le> of_int fps * sc_false_positive_penalty (case_scoring c)" using fps pen(1) by simp
  then show "0 \<le> bd_false_positive_penalty b"
    using pen(2) by (simp add: b_def raw_breakdown_def Let_def)
qed

lemma score_case_breakdown:
  assumes "score_case c response out = Some r"
  obtains assigned fps where
    "cr_breakdown r = round_breakdown (raw_breakdown c assigned fps (rr_invalid_output response))"
    "cr_score r = bd_total (cr_breakdown r)" "0 \<le> fps" "distinct (map fst assigned)"
    "\<forall>(b, f, p) \<in> set assigned. pair_of (response_findings response) c (b, f) = Some p"
proof -
  obtain assigned where a: "score_case c response out = Some (score_assigned c response out assigned)"
    "distinct (map fst assigned)"
    "\<forall>(b, f, p) \<in> set assigned. pair_of (response_findings response) c (b, f) = Some p"
    by (rule score_case_assigned)
  obtain scored fps where sf: "score_findings c (map_of (map (\<lambda>(b, f, _). (f, b)) assigned))
       (concat (map (\<lambda>bug. map (\<lambda>item. normalize_path (gf_path item)) (bug_files bug)) (case_bugs c)))
       (enum_list (response_findings response)) = (scored, fps)"
    and b: "cr_breakdown (score_assigned c response out assigned)
       = round_breakdown (raw_breakdown c assigned fps (rr_invalid_output response))"
    "cr_score (score_assigned c response out assigned)
       = bd_total (cr_breakdown (score_assigned c response out assigned))"
    by (rule score_assigned_scored [of c assigned response out])
  have "0 \<le> fps" using score_findings_spec(2) [OF sf] by simp
  with a b assms show thesis by (intro that [of assigned fps]) auto
qed

text \<open>
  For a schema-valid scoring configuration each stored component lies between 0 and its weight
  (both rounded to two places), and the score between 0 and the sum of the weights: 100 at most
  when they sum to 100.
\<close>

theorem score_bounds:
  assumes "valid_scoring_config (case_scoring c)" "score_case c response out = Some r"
  shows "0 \<le> cr_score r \<and> cr_score r \<le> py_round (weights_total (sc_weights (case_scoring c))) 2
    \<and> list_all (\<lambda>(part, weight). 0 \<le> part (cr_breakdown r)
          \<and> part (cr_breakdown r) \<le> py_round (weight (sc_weights (case_scoring c))) 2)
        [(bd_concept_match, w_concept_match), (bd_file_match, w_file_match),
         (bd_line_overlap, w_line_overlap), (bd_severity_match, w_severity_match),
         (bd_fix_quality, w_fix_quality), (bd_no_false_positives, w_no_false_positives)]"
proof -
  obtain assigned fps where b:
    "cr_breakdown r = round_breakdown (raw_breakdown c assigned fps (rr_invalid_output response))"
    "cr_score r = bd_total (cr_breakdown r)" "0 \<le> fps" "distinct (map fst assigned)"
    "\<forall>(b, f, p) \<in> set assigned. pair_of (response_findings response) c (b, f) = Some p"
    using assms(2) by (rule score_case_breakdown)
  note raw = raw_breakdown_bounds [OF assms(1) b(3-5), of "rr_invalid_output response"]
  have "0 \<le> raw_total (raw_breakdown c assigned fps (rr_invalid_output response))"
    by (simp add: raw_total_def)
  moreover have "raw_total (raw_breakdown c assigned fps (rr_invalid_output response))
      \<le> weights_total (sc_weights (case_scoring c))"
    unfolding raw_total_def weights_total_def using raw by linarith
  ultimately show ?thesis
    unfolding b(1,2) round_breakdown_def using raw
    by (simp add: py_round_nonneg py_round_mono)
qed

text \<open>
  What the assignment is judged by, in terms of the ground truth alone: a way to credit findings to bugs uses each
  bug and each finding at most once and only pairs that have component scores, and it is worth their weighted sum.
\<close>

definition creditable :: "finding list \<Rightarrow> benchmark_case \<Rightarrow> nat \<times> nat \<Rightarrow> bool" where
  "creditable findings c = (\<lambda>(b, f).
     b < length (gt_bugs (case_ground_truth c)) \<and> f < length findings
     \<and> pair_components (findings ! f) c (gt_bugs (case_ground_truth c) ! b) \<noteq> None)"

definition credits :: "finding list \<Rightarrow> benchmark_case \<Rightarrow> (nat \<times> nat) set \<Rightarrow> bool" where
  "credits findings c M \<longleftrightarrow> inj_on fst M \<and> inj_on snd M \<and> (\<forall>x \<in> M. creditable findings c x)"

definition credit_value :: "finding list \<Rightarrow> benchmark_case \<Rightarrow> (nat \<times> nat) set \<Rightarrow> rat" where
  "credit_value findings c M =
     (\<Sum>(b, f) \<in> M. weighted_value (the (pair_components (findings ! f) c (gt_bugs (case_ground_truth c) ! b)))
        (sc_weights (case_scoring c)))"

lemma pair_of_creditable:
  "pair_of findings c x \<noteq> None \<longleftrightarrow> creditable findings c x"
  "creditable findings c (b, f) \<Longrightarrow>
     pair_of findings c (b, f) = pair_components (findings ! f) c (gt_bugs (case_ground_truth c) ! b)"
  by (auto simp: pair_of_def creditable_def case_bugs_def split: prod.splits if_splits)

lemma credit_value_pairs:
  assumes "credits findings c M"
  shows "credit_value findings c M
    = (\<Sum>x \<in> M. weighted_value (the (pair_of findings c x)) (sc_weights (case_scoring c)))"
  unfolding credit_value_def
  by (rule sum.cong [OF refl]) (use assms in \<open>auto simp: credits_def pair_of_creditable(2)\<close>)

lemma one_to_one_pairs:
  assumes "distinct (map fst xs)" "distinct (map (\<lambda>(_, f, _). f) xs)"
  shows "distinct (map (\<lambda>(b, f, _). (b, f)) xs)"
    "inj_on fst (set (map (\<lambda>(b, f, _). (b, f)) xs))" "inj_on snd (set (map (\<lambda>(b, f, _). (b, f)) xs))"
proof -
  let ?ps = "map (\<lambda>(b, f, _). (b, f)) xs"
  have eq: "map fst ?ps = map fst xs" "map snd ?ps = map (\<lambda>(_, f, _). f) xs" by auto
  have "distinct (map fst ?ps)" "distinct (map snd ?ps)" unfolding eq by (rule assms)+
  then show "distinct ?ps" "inj_on fst (set ?ps)" "inj_on snd (set ?ps)" unfolding distinct_map by blast+
qed

text \<open>
  C1: the assignment that is scored credits each bug and each finding at most once, uses only creditable pairs, with the
  component scores of the pair, and is worth at least as much as any other such way to credit findings to bugs.
\<close>

theorem score_is_best_assignment:
  "\<exists>assigned. assign_findings_to_bugs findings c = Some assigned
     \<and> distinct (map (\<lambda>(b, f, _). (b, f)) assigned)
     \<and> credits findings c (set (map (\<lambda>(b, f, _). (b, f)) assigned))
     \<and> (\<forall>(b, f, p) \<in> set assigned.
          pair_components (findings ! f) c (gt_bugs (case_ground_truth c) ! b) = Some p)
     \<and> (\<forall>M. credits findings c M \<longrightarrow>
          credit_value findings c M \<le> credit_value findings c (set (map (\<lambda>(b, f, _). (b, f)) assigned)))"
proof -
  let ?pairs = "map (\<lambda>(b, f, _). (b, f)) :: (nat \<times> nat \<times> pair_components) list \<Rightarrow> _"
  let ?worth = "\<lambda>p. weighted_value p (sc_weights (case_scoring c))"
  obtain assigned where a: "assign_findings_to_bugs findings c = Some assigned"
    "distinct (map fst assigned)" "distinct (map (\<lambda>(_, f, _). f) assigned)"
    and p: "\<forall>(b, f, p) \<in> set assigned. pair_of findings c (b, f) = Some p"
    and best: "\<And>M. inj_on fst M \<Longrightarrow> inj_on snd M \<Longrightarrow> \<forall>x \<in> M. pair_of findings c x \<noteq> None \<Longrightarrow>
      (\<Sum>x \<in> M. ?worth (the (pair_of findings c x))) \<le> sum_list (map (\<lambda>(_, _, p). ?worth p) assigned)"
    using assign_findings_correct [of findings c] by blast
  note one = one_to_one_pairs [OF a(2,3)]
  have components: "creditable findings c (b, f)
      \<and> pair_components (findings ! f) c (gt_bugs (case_ground_truth c) ! b) = Some p"
    if "(b, f, p) \<in> set assigned" for b f p
    using p that pair_of_creditable(1) [of findings c "(b, f)"] pair_of_creditable(2) [of findings c b f] by fastforce
  then have credits: "credits findings c (set (?pairs assigned))" using one by (auto simp: credits_def)
  have "credit_value findings c (set (?pairs assigned))
      = sum_list (map (\<lambda>x. ?worth (the (pair_of findings c x))) (?pairs assigned))"
    unfolding credit_value_pairs [OF credits] by (rule sum.distinct_set_conv_list [OF one(1)])
  also have "\<dots> = sum_list (map (\<lambda>(_, _, p). ?worth p) assigned)"
    using p by (fastforce intro!: arg_cong [of _ _ sum_list])
  finally have total: "credit_value findings c (set (?pairs assigned)) = sum_list (map (\<lambda>(_, _, p). ?worth p) assigned)" .
  have "credit_value findings c M \<le> credit_value findings c (set (?pairs assigned))" if "credits findings c M" for M
    unfolding total credit_value_pairs [OF that] by (rule best) (use that in \<open>auto simp: credits_def pair_of_creditable(1) [symmetric] simp del: not_None_eq\<close>)
  with a(1) one(1) credits components show ?thesis by (intro exI [of _ assigned]) auto
qed

section \<open>A sample case\<close>

text \<open>One case with two bugs and a review that finds the first, for the witnesses.\<close>

definition sample_finding :: finding where
  "sample_finding =
     \<lparr>f_title = ''lock'', f_summary = [], f_category = ''race'', f_severity = High,
      f_file = ''a.py'', f_line_start = 3, f_line_end = 9, f_evidence = [],
      f_suggested_fix = Some ''lock'', f_suggested_patch = None,
      f_replacement_code = None, f_patch_confidence = None, f_confidence = 1\<rparr>"

definition sample_bug :: "string \<Rightarrow> string list \<Rightarrow> gt_bug" where
  "sample_bug path concepts =
     \<lparr>bug_id = ''bug-1'', bug_summary = ''race'',
      bug_files = [\<lparr>gf_path = path, gf_line_ranges = [\<lparr>lr_start = 4, lr_end = 6\<rparr>]\<rparr>],
      bug_concepts = concepts, bug_must_mention = [], bug_fix_keywords = [''lock'']\<rparr>"

definition sample_case :: benchmark_case where
  "sample_case =
     \<lparr>case_id = ''race-001'', case_title = ''Race'', case_category = ''race'',
      case_severity = High, case_stack = [''python''], case_description = [],
      case_input_of = \<lparr>in_diff = ''pr.diff'', in_before_dir = ''before'', in_after_dir = ''after'',
        in_tests_dir = Some ''tests''\<rparr>,
      case_ground_truth = \<lparr>gt_bugs = [sample_bug ''a.py'' [''lock''],
                                     sample_bug ''b.py'' [''index'']],
        gt_acceptable_findings = []\<rparr>,
      case_scoring = \<lparr>sc_weights = \<lparr>w_concept_match = 35, w_file_match = 20, w_line_overlap = 15,
          w_severity_match = 10, w_fix_quality = 15, w_no_false_positives = 5\<rparr>,
        sc_false_positive_penalty = 5, sc_false_positive_penalty_cap = 15,
        sc_invalid_json_penalty = 20\<rparr>,
      case_execution = \<lparr>ex_run_tests = True, ex_test_command = Some (CommandString ''pytest''),
        ex_timeout_seconds = 30, ex_docker_image = None, ex_run_static_analysis = False,
        ex_static_analysis_command = None\<rparr>,
      case_validation = \<lparr>va_patch_required = True, va_tests_required = True,
        va_structural_validators = [], va_max_false_positives = 0, va_protected_paths = [],
        va_detection_requirement = AllBugs\<rparr>,
      case_beta = 1\<rparr>"

definition sample_response :: reviewer_response where
  "sample_response =
     \<lparr>rr_raw_response = [],
      rr_parsed_response = Some \<lparr>rv_findings = [sample_finding], rv_proposed_patch = None,
        rv_overall_risk = RiskHigh, rv_review_summary = []\<rparr>,
      rr_invalid_output = False, rr_parse_attempts = 1, rr_parse_status = Exact,
      rr_parse_actions = [], rr_input_finding_count = Some 1, rr_retained_finding_count = Some 1,
      rr_dropped_finding_count = 0, rr_parse_error_summary = None, rr_latency_ms = 0,
      rr_input_tokens = 0, rr_output_tokens = 0, rr_estimated_cost = 0,
      rr_tool_usage = [], rr_derived_from_legacy = False\<rparr>"

lemma sample_scoring_valid: "valid_scoring_config (case_scoring sample_case)"
  by (simp add: sample_case_def valid_scoring_config_def valid_score_weights_def num_ok_def
      SCORE_WEIGHT_MAX_def PENALTY_MAX_def)

lemma sample_simps:
  "response_findings sample_response = [sample_finding]"
  "rr_invalid_output sample_response = False"
  "case_bugs sample_case = [sample_bug ''a.py'' [''lock''], sample_bug ''b.py'' [''index'']]"
  "length (case_bugs sample_case) = 2"
  "primary_bug (case_ground_truth sample_case) = sample_bug ''a.py'' [''lock'']"
  "sc_weights (case_scoring sample_case) = \<lparr>w_concept_match = 35, w_file_match = 20,
     w_line_overlap = 15, w_severity_match = 10, w_fix_quality = 15, w_no_false_positives = 5\<rparr>"
  "sc_false_positive_penalty (case_scoring sample_case) = 5"
  "sc_false_positive_penalty_cap (case_scoring sample_case) = 15"
  "f_file sample_finding = ''a.py''" "f_line_start sample_finding = 3"
  "f_line_end sample_finding = 9" "f_category sample_finding = ''race''"
  "f_severity sample_finding = High" "case_category sample_case = ''race''"
  "case_severity sample_case = High"
  by (simp_all add: response_findings_def sample_response_def case_bugs_def sample_case_def
      sample_finding_def primary_bug_def)

lemma sample_texts:
  "mentions (finding_text sample_finding) ''lock''"
  "path_matches ''a.py'' ''a.py''" "\<not> path_matches ''a.py'' ''b.py''"
  "fix_quality_ratio sample_finding (sample_bug path concepts) = 8 / 15"
  by code_simp+

lemma sample_pairs:
  "pair_components sample_finding sample_case (sample_bug ''a.py'' [''lock'']) =
     Some \<lparr>pc_concept = 1, pc_file = 1, pc_line = 1, pc_severity = 1, pc_fix = 8 / 15,
           pc_line_quality = Full\<rparr>"
  "pair_components sample_finding sample_case (sample_bug ''b.py'' [''index'']) = None"
proof -
  have c: "concept_ratio sample_finding (sample_bug ''a.py'' [''lock'']) ''race'' = 1"
    using sample_texts(1)
    by (simp add: sample_simps concept_ratio_def mention_share_def sample_bug_def CATEGORY_SHARE_def
        MUST_MENTION_SHARE_def CONCEPTS_SHARE_def TOTAL_SHARE_def)
  show "pair_components sample_finding sample_case (sample_bug ''a.py'' [''lock'']) =
     Some \<lparr>pc_concept = 1, pc_file = 1, pc_line = 1, pc_severity = 1, pc_fix = 8 / 15,
           pc_line_quality = Full\<rparr>"
    using c sample_texts(2,4)
    by (simp add: sample_simps pair_components_def better_quality_def line_match_quality_def severity_ratio_1_iff
        sample_bug_def)
  show "pair_components sample_finding sample_case (sample_bug ''b.py'' [''index'']) = None"
    using sample_texts(3)
    by (simp add: sample_simps pair_components_def better_quality_def sample_bug_def)
qed

lemma sample_assigned:
  "assign_findings_to_bugs [sample_finding] sample_case =
     Some [(0, 0, \<lparr>pc_concept = 1, pc_file = 1, pc_line = 1, pc_severity = 1, pc_fix = 8 / 15,
                   pc_line_quality = Full\<rparr>)]"
proof -
  have e: "eligible_pairs [sample_finding] sample_case =
     [((0, 0), \<lparr>pc_concept = 1, pc_file = 1, pc_line = 1, pc_severity = 1, pc_fix = 8 / 15,
                pc_line_quality = Full\<rparr>)]"
    using sample_pairs by (simp add: eligible_pairs_def enum_list_def sample_simps)
  have "max_weight_matching [((0, 0), 88)] 2 = Some [(0, 0)]" by code_simp
  then show ?thesis
    by (simp add: assign_findings_to_bugs_def Let_def e sample_simps(4) pair_weights_def sample_simps(6) weighted_value_def)
qed

lemma sample_review:
  obtains r where "score_case sample_case sample_response [] = Some r" "cr_score r = 49"
    "cr_bug_found r" "cr_bugs_total r = 2" "cr_bugs_matched r = 1" "cr_false_positive_count r = 0"
    "cr_correct_line r"
    "cr_scored_findings r =
       [\<lparr>sf_finding = sample_finding, sf_is_true_positive = True, sf_matched_bug_index = Some 0,
         sf_is_neutral = False, sf_false_positive_reason = None, sf_evidence_status = None\<rparr>]"
    "cr_breakdown r =
       \<lparr>bd_concept_match = 35 / 2, bd_file_match = 10, bd_line_overlap = 15 / 2,
        bd_severity_match = 5, bd_fix_quality = 4, bd_no_false_positives = 5,
        bd_false_positive_penalty = 0, bd_invalid_json_penalty = 0, bd_total = 49\<rparr>"
proof -
  have py: "py_round (35 / 2 :: rat) 2 = 35 / 2" "py_round (15 / 2 :: rat) 2 = 15 / 2"
    "py_round (49 :: rat) 2 = 49" "py_round (4 :: rat) 2 = 4"
    by (simp_all add: py_round_def round_half_even_def)
  have n: "py_round 10 2 = (10 :: rat)" "py_round 5 2 = (5 :: rat)"
    by (simp_all add: py_round_def round_half_even_def)
  show thesis
    by (rule that [of "score_assigned sample_case sample_response []
              [(0, 0, \<lparr>pc_concept = 1, pc_file = 1, pc_line = 1, pc_severity = 1, pc_fix = 8 / 15,
                   pc_line_quality = Full\<rparr>)]"])
      (simp_all add: sample_assigned LOCALIZED_QUALITIES_def n score_case_def score_assigned_def sample_simps enum_list_def Let_def raw_breakdown_def
        component_sum_def round_breakdown_def raw_total_def py)
qed
theorem score_bounds_witness:
  "\<exists>r. score_case sample_case sample_response [] = Some r \<and> cr_score r = 49 \<and> cr_score r \<le> 100"
proof -
  obtain r where r: "score_case sample_case sample_response [] = Some r" "cr_score r = 49"
    by (rule sample_review)
  have "cr_score r \<le> py_round (weights_total (sc_weights (case_scoring sample_case))) 2"
    using score_bounds [OF sample_scoring_valid r(1)] by blast
  moreover have "py_round (weights_total (sc_weights (case_scoring sample_case))) 2 = 100"
    by (simp add: weights_total_def sample_simps py_round_def round_half_even_def)
  ultimately show ?thesis using r by auto
qed

theorem score_is_best_assignment_witness:
  "\<exists>assigned. assign_findings_to_bugs [sample_finding] sample_case = Some assigned
     \<and> 0 < credit_value [sample_finding] sample_case {(0, 0)}
     \<and> credit_value [sample_finding] sample_case {(0, 0)}
       \<le> credit_value [sample_finding] sample_case (set (map (\<lambda>(b, f, _). (b, f)) assigned))"
proof -
  have "credits [sample_finding] sample_case {(0, 0)}"
    using sample_pairs(1) by (simp add: credits_def creditable_def sample_simps sample_case_def)
  moreover have "0 < credit_value [sample_finding] sample_case {(0, 0)}"
    using sample_pairs(1) by (simp add: credit_value_def sample_simps sample_case_def weighted_value_def)
  ultimately show ?thesis using score_is_best_assignment [of "[sample_finding]" sample_case] by blast
qed

section \<open>Execution evidence\<close>

lemma fix_ratio_cap: "min (fix_quality_ratio f b) WEAK_FIX_CAP \<le> fix_quality_ratio f b"
  by simp

lemma apply_execution_fields:
  fixes c r validated
  defines "r' \<equiv> apply_execution_fix_quality c r validated"
  shows "cr_scored_findings r' = cr_scored_findings r" "cr_bug_found r' = cr_bug_found r"
    "cr_bugs_matched r' = cr_bugs_matched r" "cr_bugs_total r' = cr_bugs_total r"
    "cr_false_positive_count r' = cr_false_positive_count r"
    "cr_response r' = cr_response r" "cr_correct_line r' = cr_correct_line r"
    "bd_concept_match (cr_breakdown r') = bd_concept_match (cr_breakdown r)"
    "bd_file_match (cr_breakdown r') = bd_file_match (cr_breakdown r)"
    "bd_line_overlap (cr_breakdown r') = bd_line_overlap (cr_breakdown r)"
    "bd_severity_match (cr_breakdown r') = bd_severity_match (cr_breakdown r)"
  unfolding r'_def apply_execution_fix_quality_def Let_def by (simp_all split: option.splits)

text \<open>
  Execution evidence moves only the fix component and the total: a validated repair never lowers
  the fix component and a repair that was not validated never raises it; without a finding for the
  primary bug nothing changes.
\<close>

theorem execution_evidence_monotone:
  assumes "valid_scoring_config (case_scoring c)" "score_case c response out = Some r"
  shows "bd_fix_quality (cr_breakdown (apply_execution_fix_quality c r False))
      \<le> bd_fix_quality (cr_breakdown r)
    \<and> bd_fix_quality (cr_breakdown r)
      \<le> bd_fix_quality (cr_breakdown (apply_execution_fix_quality c r True))
    \<and> cr_scored_findings (apply_execution_fix_quality c r v) = cr_scored_findings r
    \<and> cr_bugs_matched (apply_execution_fix_quality c r v) = cr_bugs_matched r
    \<and> (Some 0 \<notin> set (map sf_matched_bug_index (cr_scored_findings r))
        \<longrightarrow> apply_execution_fix_quality c r v = r)"
proof -
  obtain assigned fps where b:
    "cr_breakdown r = round_breakdown (raw_breakdown c assigned fps (rr_invalid_output response))"
    using assms(2) by (rule score_case_breakdown)
  have w: "0 \<le> w_fix_quality (sc_weights (case_scoring c))"
    using assms(1) by (simp add: valid_scoring_config_def valid_score_weights_def num_ok_def)
  have idem: "py_round (bd_fix_quality (cr_breakdown r)) 2 = bd_fix_quality (cr_breakdown r)"
    by (simp add: b round_breakdown_def)
  have up: "bd_fix_quality (cr_breakdown r) \<le> py_round (bd_fix_quality (cr_breakdown r) + d) 2"
    if "0 \<le> d" for d
    using py_round_mono [of "bd_fix_quality (cr_breakdown r)" "bd_fix_quality (cr_breakdown r) + d" 2]
      that idem by simp
  have down: "py_round (bd_fix_quality (cr_breakdown r) + d) 2 \<le> bd_fix_quality (cr_breakdown r)"
    if "d \<le> 0" for d
    using py_round_mono [of "bd_fix_quality (cr_breakdown r) + d" "bd_fix_quality (cr_breakdown r)" 2]
      that idem by simp
  have "bd_fix_quality (cr_breakdown (apply_execution_fix_quality c r False))
      \<le> bd_fix_quality (cr_breakdown r)"
    unfolding apply_execution_fix_quality_def Let_def using w
    by (auto split: option.splits
        intro!: down divide_nonpos_pos mult_nonpos_nonneg)
  moreover have "bd_fix_quality (cr_breakdown r)
      \<le> bd_fix_quality (cr_breakdown (apply_execution_fix_quality c r True))"
    unfolding apply_execution_fix_quality_def Let_def using w fix_quality_ratio_bounds
    by (auto split: option.splits intro!: up divide_nonneg_pos mult_nonneg_nonneg)
  moreover have "apply_execution_fix_quality c r v = r"
    if "Some 0 \<notin> set (map sf_matched_bug_index (cr_scored_findings r))"
  proof -
    have "find (\<lambda>item. sf_matched_bug_index item = Some 0) (cr_scored_findings r) = None"
      using that by (force simp: find_None_iff)
    then show ?thesis by (simp add: apply_execution_fix_quality_def)
  qed
  ultimately show ?thesis by (simp add: apply_execution_fields)
qed

theorem execution_evidence_monotone_witness:
  "\<exists>r. score_case sample_case sample_response [] = Some r \<and> bd_fix_quality (cr_breakdown r) = 4
    \<and> bd_fix_quality (cr_breakdown (apply_execution_fix_quality sample_case r True)) = 15 / 2
    \<and> bd_fix_quality (cr_breakdown r)
      \<le> bd_fix_quality (cr_breakdown (apply_execution_fix_quality sample_case r True))"
proof -
  obtain r where r: "score_case sample_case sample_response [] = Some r" "cr_bugs_total r = 2"
    and s: "cr_scored_findings r =
       [\<lparr>sf_finding = sample_finding, sf_is_true_positive = True, sf_matched_bug_index = Some 0,
         sf_is_neutral = False, sf_false_positive_reason = None, sf_evidence_status = None\<rparr>]"
    and b: "cr_breakdown r =
       \<lparr>bd_concept_match = 35 / 2, bd_file_match = 10, bd_line_overlap = 15 / 2,
        bd_severity_match = 5, bd_fix_quality = 4, bd_no_false_positives = 5,
        bd_false_positive_penalty = 0, bd_invalid_json_penalty = 0, bd_total = 49\<rparr>"
    by (rule sample_review)
  have py: "py_round (15 / 2 :: rat) 2 = 15 / 2" by (simp add: py_round_def round_half_even_def)
  have "bd_fix_quality (cr_breakdown (apply_execution_fix_quality sample_case r True)) = 15 / 2"
    by (simp add: apply_execution_fix_quality_def Let_def s b sample_simps r(2) sample_texts(4) py)
  then show ?thesis
    using r(1) b execution_evidence_monotone [OF sample_scoring_valid r(1)] by simp
qed

end
