(* ===== verification/Metrics.thy ===== *)
theory Metrics
  imports Numbers
begin

text \<open>
  \<open>arena/scoring/metrics.py\<close>: precision, recall, F-beta, rates and the Wilson interval. A
  \<open>ZeroDivisionError\<close> of the source is \<open>None\<close>.
\<close>

section \<open>Definitions\<close>

definition precision :: "int \<Rightarrow> int \<Rightarrow> rat" where
  "precision true_positives false_positives =
     (let denominator = true_positives + false_positives in
      if denominator \<noteq> 0 then of_int true_positives / of_int denominator else 0)"

definition recall :: "int \<Rightarrow> int \<Rightarrow> rat" where
  "recall true_positives false_negatives =
     (let denominator = true_positives + false_negatives in
      if denominator \<noteq> 0 then of_int true_positives / of_int denominator else 0)"

definition f_beta_score :: "rat \<Rightarrow> rat \<Rightarrow> rat \<Rightarrow> rat option" where
  "f_beta_score value_precision value_recall beta =
     (if value_precision = 0 \<and> value_recall = 0 then Some 0
      else let beta_squared = beta ^ 2;
               denominator = beta_squared * value_precision + value_recall
           in if denominator = 0 then None
              else Some ((1 + beta_squared) * value_precision * value_recall / denominator))"

definition rate :: "int \<Rightarrow> int \<Rightarrow> rat option" where
  "rate numerator denominator =
     (if denominator \<noteq> 0 then Some (of_int numerator / of_int denominator) else None)"

definition wilson_interval :: "int \<Rightarrow> int \<Rightarrow> real \<Rightarrow> (real \<times> real) option" where
  "wilson_interval successes total_count z =
     (if total_count \<le> 0 then None
      else let n = real_of_int total_count;
               p_hat = real_of_int successes / n;
               z2 = z * z;
               denominator = 1 + z2 / n;
               center = (p_hat + z2 / (2 * n)) / denominator;
               margin = z * sqrt (p_hat * (1 - p_hat) / n + z2 / (4 * n * n)) / denominator
           in Some (py_round (max 0 (center - margin)) 6, py_round (min 1 (center + margin)) 6))"

section \<open>Bounds\<close>

lemma precision_bounds: "0 \<le> tp \<Longrightarrow> 0 \<le> fp \<Longrightarrow> 0 \<le> precision tp fp \<and> precision tp fp \<le> 1"
  by (auto simp: precision_def Let_def divide_le_eq)

lemma recall_bounds: "0 \<le> tp \<Longrightarrow> 0 \<le> fn \<Longrightarrow> 0 \<le> recall tp fn \<and> recall tp fn \<le> 1"
  by (auto simp: recall_def Let_def divide_le_eq)

lemma precision_eq_1: "0 < tp \<Longrightarrow> precision tp 0 = 1"
  by (simp add: precision_def)

lemma f_beta_denominator:
  assumes "0 \<le> p" "0 \<le> r" "0 < (b::rat)" "\<not> (p = 0 \<and> r = 0)"
  shows "0 < b ^ 2 * p + r"
proof -
  have "0 < b ^ 2" using assms(3) by simp
  then have "0 < b ^ 2 * p \<or> 0 < r" using assms by (metis less_eq_rat_def mult_pos_pos)
  moreover have "0 \<le> b ^ 2 * p" using assms by simp
  ultimately show ?thesis using assms(2) by linarith
qed

text \<open>
  For scores in range and a positive beta (the schema's bound), F-beta never divides by zero
  and lies between precision and recall, so it is at most 1 and reaches 1 only if both do.
\<close>

theorem f_beta_between:
  assumes "0 \<le> p" "0 \<le> r" "0 < b"
  shows "\<exists>f. f_beta_score p r b = Some f \<and> min p r \<le> f \<and> f \<le> max p r"
proof (cases "p = 0 \<and> r = 0")
  case True
  then show ?thesis by (simp add: f_beta_score_def)
next
  case False
  define d where "d = b ^ 2 * p + r"
  have d: "0 < d" unfolding d_def using assms False by (rule f_beta_denominator)
  have f: "f_beta_score p r b = Some ((1 + b ^ 2) * p * r / d)"
    using False d by (auto simp: f_beta_score_def Let_def d_def)
  have b2: "0 \<le> b ^ 2" by simp
  have lo: "min p r * d \<le> (1 + b ^ 2) * p * r"
  proof (cases "p \<le> r")
    case True
    have "0 \<le> b ^ 2 * p * (r - p)" using assms True b2 by (intro mult_nonneg_nonneg) auto
    then show ?thesis using True by (simp add: d_def algebra_simps)
  next
    case False
    have "0 \<le> r * (p - r)" using assms False by (intro mult_nonneg_nonneg) auto
    then show ?thesis using False by (simp add: d_def algebra_simps)
  qed
  have hi: "(1 + b ^ 2) * p * r \<le> max p r * d"
  proof (cases "p \<le> r")
    case True
    have "0 \<le> r * (r - p)" using assms True by (intro mult_nonneg_nonneg) auto
    then show ?thesis using True by (simp add: d_def algebra_simps)
  next
    case False
    have "0 \<le> b ^ 2 * p * (p - r)" using assms False b2 by (intro mult_nonneg_nonneg) auto
    then show ?thesis using False by (simp add: d_def algebra_simps)
  qed
  have "min p r \<le> (1 + b ^ 2) * p * r / d" using lo d by (simp add: pos_le_divide_eq)
  moreover have "(1 + b ^ 2) * p * r / d \<le> max p r" using hi d by (simp add: pos_divide_le_eq)
  ultimately show ?thesis using f by blast
qed

theorem f_beta_between_witness:
  "f_beta_score 1 (1/2) 1 = Some (2/3) \<and> f_beta_score 1 0 0 = None
   \<and> (\<exists>f. f_beta_score 1 (1/2) 1 = Some f \<and> min 1 (1/2) \<le> f \<and> f \<le> max 1 (1/2))"
proof -
  have "f_beta_score 1 (1/2) 1 = Some (2/3)" "f_beta_score 1 0 0 = None"
    by (simp_all add: f_beta_score_def)
  moreover have "\<exists>f. f_beta_score 1 (1/2) 1 = Some f \<and> min 1 (1/2) \<le> f \<and> f \<le> max 1 (1/2)"
    by (rule f_beta_between) simp_all
  ultimately show ?thesis by blast
qed

lemma f_beta_bounds:
  assumes "0 \<le> p" "p \<le> 1" "0 \<le> r" "r \<le> 1" "0 < b"
  obtains f where "f_beta_score p r b = Some f" "0 \<le> f" "f \<le> 1"
  using f_beta_score_def assms
proof -
  have "\<exists>f. f_beta_score p r b = Some f \<and> 0 \<le> f \<and> f \<le> 1"
  proof (cases "p = 0 \<and> r = 0")
    case False
    define d where "d = b ^ 2 * p + r"
    have d: "0 < d" unfolding d_def using assms False by (intro f_beta_denominator) auto
    have "0 \<le> b ^ 2 * (p * (1 - r)) + r * (1 - p)" using assms by simp
    then have "(1 + b ^ 2) * p * r \<le> d" by (simp add: d_def algebra_simps)
    moreover have "0 \<le> (1 + b ^ 2) * p * r" using assms by simp
    ultimately show ?thesis using False d
      by (auto simp: f_beta_score_def Let_def d_def [symmetric] divide_le_eq)
  qed (simp add: f_beta_score_def)
  then show ?thesis using that by blast
qed

section \<open>The Wilson interval\<close>

lemma wilson_margin:
  fixes p z n :: real
  assumes "0 \<le> p" "p \<le> 1" "0 \<le> z" "0 < n"
  shows "\<bar>z * z * (1 - 2 * p) / (2 * n)\<bar> \<le> z * sqrt (p * (1 - p) / n + z * z / (4 * n * n))"
proof -
  let ?s = "p * (1 - p) / n + z * z / (4 * n * n)"
  have "z ^ 2 * ?s - (z * z * (1 - 2 * p) / (2 * n)) ^ 2
      = z * z * (p * (1 - p) / n) + z * z * z * z * (p * (1 - p)) / (n * n)"
    using assms(4) by (simp add: power2_eq_square field_simps)
  moreover have "0 \<le> z * z * (p * (1 - p) / n) + z * z * z * z * (p * (1 - p)) / (n * n)"
    using assms by simp
  ultimately have "(z * z * (1 - 2 * p) / (2 * n)) ^ 2 \<le> z ^ 2 * ?s" by linarith
  then have "\<bar>z * z * (1 - 2 * p) / (2 * n)\<bar> \<le> sqrt (z ^ 2 * ?s)"
    by (metis real_sqrt_abs real_sqrt_le_iff)
  also have "\<dots> = z * sqrt ?s" using assms(3) by (simp add: real_sqrt_mult)
  finally show ?thesis .
qed

lemma wilson_correct:
  assumes "0 \<le> s" "s \<le> n" "0 < n" "0 \<le> z"
  shows "\<exists>lo hi. wilson_interval s n z = Some (lo, hi) \<and> 0 \<le> lo
    \<and> lo \<le> py_round (real_of_int s / real_of_int n) 6
    \<and> py_round (real_of_int s / real_of_int n) 6 \<le> hi \<and> hi \<le> 1"
proof -
  define m where "m = real_of_int n"
  define p where "p = real_of_int s / m"
  define D where "D = 1 + z * z / m"
  define c where "c = (p + z * z / (2 * m)) / D"
  define e where "e = z * sqrt (p * (1 - p) / m + z * z / (4 * m * m)) / D"
  have m: "0 < m" using assms by (simp add: m_def)
  have p: "0 \<le> p" "p \<le> 1" using assms by (simp_all add: p_def m_def)
  have D: "0 < D" using m by (simp add: D_def add_pos_nonneg)
  have w: "wilson_interval s n z = Some (py_round (max 0 (c - e)) 6, py_round (min 1 (c + e)) 6)"
    using assms by (simp add: wilson_interval_def Let_def c_def e_def p_def m_def D_def)
  have cp: "(c - p) * D = z * z * (1 - 2 * p) / (2 * m)"
    using D m by (simp add: c_def left_diff_distrib) (simp add: D_def field_simps)
  have eD: "e * D = z * sqrt (p * (1 - p) / m + z * z / (4 * m * m))"
    using D by (simp add: e_def)
  have "\<bar>(c - p) * D\<bar> \<le> e * D"
    unfolding cp eD using p assms(4) m by (rule wilson_margin)
  then have "\<bar>c - p\<bar> \<le> e" using D by (simp add: abs_mult)
  then have lo: "max 0 (c - e) \<le> p" and hi: "p \<le> min 1 (c + e)" using p by auto
  have "py_round (max 0 (c - e)) 6 \<le> py_round p 6" "py_round p 6 \<le> py_round (min 1 (c + e)) 6"
    using lo hi by (simp_all add: py_round_mono)
  moreover have "0 \<le> py_round (max 0 (c - e)) 6" by (simp add: py_round_nonneg)
  moreover have "py_round (min 1 (c + e)) 6 \<le> 1" by (simp add: py_round_le_1)
  ultimately show ?thesis using w by (simp add: p_def m_def)
qed

text \<open>
  For \<open>0 \<le> successes \<le> total\<close>, a positive total and a nonnegative z the Wilson interval exists,
  lies within [0, 1] and contains the observed rate (rounded to the same six places).
\<close>

theorem wilson_contains_rate:
  assumes "0 \<le> s" "s \<le> n" "0 < n" "0 \<le> z"
  shows "\<exists>lo hi. wilson_interval s n z = Some (lo, hi) \<and> 0 \<le> lo
    \<and> lo \<le> py_round (real_of_int s / real_of_int n) 6
    \<and> py_round (real_of_int s / real_of_int n) 6 \<le> hi \<and> hi \<le> 1"
  using assms by (rule wilson_correct)

theorem wilson_contains_rate_witness:
  "\<exists>lo hi. wilson_interval 7 10 (49/25) = Some (lo, hi) \<and> 0 \<le> lo
    \<and> lo \<le> py_round (7 / 10) 6 \<and> py_round (7 / 10) 6 \<le> hi \<and> hi \<le> 1"
  using wilson_contains_rate [of 7 10 "49/25"] by simp

end
