(* ===== verification/Det_Scorer.thy ===== *)
theory Det_Scorer
  imports Scoring Metrics
begin

text \<open>
  \<open>arena/scoring/deterministic_scorer.py\<close>: the execution-backed verdict on a case and the metrics of
  a run. Dividing by zero in the F-beta formula raises in the source; here it makes the result
  \<open>None\<close>, which cannot happen for a schema-valid beta (\<open>det_score_total\<close>).
\<close>

section \<open>The verdict on a case\<close>

definition failure_reasons ::
  "benchmark_case \<Rightarrow> review_score \<Rightarrow> patch_apply_result \<Rightarrow> bool option \<Rightarrow> bool option \<Rightarrow> string list" where
  "failure_reasons c review patch tests_passed structural_passed =
     (let v = case_validation c;
          all_bugs_detected = (cr_bugs_total review > 0 \<and> cr_bugs_matched review \<ge> cr_bugs_total review);
          patch_provided = (py_strip (pa_patch_text patch) \<noteq> []);
          tests_required = (ex_run_tests (case_execution c) \<or> va_tests_required v);
          validation_eligible = (tests_required \<or> va_structural_validators v \<noteq> [])
      in (if \<not> cr_bug_found review then [''detection_failed'']
          else if va_detection_requirement v = AllBugs \<and> \<not> all_bugs_detected
               then [''incomplete_bug_detection''] else [])
       @ (if pa_unsafe_paths patch \<noteq> [] then [''patch_unsafe_paths''] else [])
       @ (if pa_touched_protected patch \<noteq> [] then [''patch_touched_protected_files''] else [])
       @ (if va_patch_required v \<and> \<not> patch_provided then [''patch_required_but_missing''] else [])
       @ (if va_patch_required v \<and> \<not> pa_applied patch then [''patch_apply_failed''] else [])
       @ (if tests_required \<and> tests_passed \<noteq> Some True then [''tests_failed''] else [])
       @ (if va_structural_validators v \<noteq> [] \<and> structural_passed \<noteq> Some True
          then [''structural_validation_failed''] else [])
       @ (if cr_false_positive_count review > va_max_false_positives v then [''false_positive''] else [])
       @ (if va_patch_required v \<and> \<not> validation_eligible then [''no_execution_evidence''] else []))"

definition score_deterministic_case ::
  "benchmark_case \<Rightarrow> review_score \<Rightarrow> patch_apply_result \<Rightarrow> test_execution_result option
   \<Rightarrow> validator_result list \<Rightarrow> rat \<Rightarrow> deterministic_case_score option" where
  "score_deterministic_case c review patch tests validators beta =
     (let true_positives = cr_bugs_matched review;
          false_negatives = max (cr_bugs_total review - cr_bugs_matched review) 0;
          false_positives = cr_false_positive_count review;
          value_precision = precision true_positives false_positives;
          value_recall = recall true_positives false_negatives;
          structural_ran = (validators \<noteq> []);
          structural_passed = (if validators = [] then None else Some (list_all vr_passed validators));
          tests_ran = (case tests of None \<Rightarrow> False | Some t \<Rightarrow> te_ran t);
          tests_passed = (case tests of None \<Rightarrow> None | Some t \<Rightarrow> if te_ran t then Some (te_passed t) else None);
          patch_provided = (py_strip (pa_patch_text patch) \<noteq> []);
          tests_required = (ex_run_tests (case_execution c) \<or> va_tests_required (case_validation c));
          validation_eligible = (tests_required \<or> va_structural_validators (case_validation c) \<noteq> []);
          reasons = failure_reasons c review patch tests_passed structural_passed
      in case f_beta_score value_precision value_recall 1 of
           None \<Rightarrow> None
         | Some f1 \<Rightarrow>
        (case f_beta_score value_precision value_recall beta of
           None \<Rightarrow> None
         | Some f_beta \<Rightarrow> Some
             \<lparr>ds_case_id = case_id c, ds_detected_bug = cr_bug_found review,
              ds_localized_correctly = cr_correct_line review, ds_patch_provided = patch_provided,
              ds_patch_applied = pa_applied patch, ds_tests_ran = tests_ran,
              ds_tests_passed = tests_passed, ds_structural_validation_ran = structural_ran,
              ds_structural_validation_passed = structural_passed,
              ds_true_positive_count = true_positives, ds_false_positive_count = false_positives,
              ds_false_negative_count = false_negatives, ds_precision = py_round value_precision 6,
              ds_recall = py_round value_recall 6, ds_f1 = py_round f1 6,
              ds_f_beta = py_round f_beta 6,
              ds_patch_apply_score = (if pa_applied patch then 1 else 0),
              ds_execution_score = (if \<not> tests_required \<or> tests_passed = Some True then 1 else 0),
              ds_structural_score = (if validators = [] \<or> structural_passed = Some True then 1 else 0),
              ds_deterministic_pass = (reasons = []), ds_validation_eligible = validation_eligible,
              ds_failure_reasons = reasons\<rparr>))"

section \<open>The metrics of a run\<close>

definition count_if :: "('a \<Rightarrow> bool) \<Rightarrow> 'a list \<Rightarrow> int" where
  "count_if P xs = int (length (filter P xs))"

definition case_scores :: "case_result list \<Rightarrow> deterministic_case_score list" where
  "case_scores cases = List.map_filter (\<lambda>c. ce_deterministic_case_score (res_evidence c)) cases"

definition validatable_cases :: "case_result list \<Rightarrow> (case_result \<times> deterministic_case_score) list" where
  "validatable_cases cases = List.map_filter (\<lambda>c.
     case ce_deterministic_case_score (res_evidence c) of
       None \<Rightarrow> None | Some s \<Rightarrow> if ds_validation_eligible s then Some (c, s) else None) cases"

definition ratio_or_0 :: "int \<Rightarrow> int \<Rightarrow> rat" where
  "ratio_or_0 n d = (if d \<noteq> 0 then py_round (of_int n / of_int d) 6 else 0)"

definition aggregate_deterministic_metrics ::
  "case_result list \<Rightarrow> rat \<Rightarrow> rat \<Rightarrow> int \<Rightarrow> deterministic_metrics option" where
  "aggregate_deterministic_metrics cases beta total_cost total_latency_ms =
     (let eligible = filter (\<lambda>c. ce_deterministic_case_score (res_evidence c) \<noteq> None) cases;
          scores = case_scores cases;
          detection_tp = sum_list (map ds_true_positive_count scores);
          detection_fn = sum_list (map ds_false_negative_count scores);
          fp = sum_list (map ds_false_positive_count scores);
          case_count = int (length scores);
          detection_precision = precision detection_tp fp;
          detection_recall = recall detection_tp detection_fn;
          detected_cases = count_if ds_detected_bug scores;
          localized_cases = count_if (\<lambda>s. ds_detected_bug s \<and> ds_localized_correctly s) scores;
          validatable = validatable_cases cases;
          validatable_count = int (length validatable);
          validated_tp = count_if (\<lambda>(_, s). ds_deterministic_pass s) validatable;
          validated_fn = validatable_count - validated_tp;
          validated_precision = precision validated_tp fp;
          validated_recall = recall validated_tp validated_fn;
          complete_repairs = count_if (\<lambda>(c, _).
            ce_case_status (res_evidence c) = Some CompleteRepair) validatable;
          bug_complete = count_if (\<lambda>c. ce_bug_repairs (res_evidence c) \<noteq> []
            \<and> list_all br_detected (ce_bug_repairs (res_evidence c))) eligible;
          judged_findings = filter (\<lambda>f. \<not> sf_is_neutral f)
            (concat (map (\<lambda>c. cr_scored_findings (res_review c)) eligible));
          supported = count_if sf_is_true_positive judged_findings
      in case (f_beta_score detection_precision detection_recall 1,
               f_beta_score detection_precision detection_recall beta,
               f_beta_score validated_precision validated_recall 1,
               f_beta_score validated_precision validated_recall beta) of
           (Some df1, Some dfb, Some vf1, Some vfb) \<Rightarrow> Some
             \<lparr>dm_detection_precision = py_round detection_precision 6,
              dm_detection_recall = py_round detection_recall 6,
              dm_detection_f1 = py_round df1 6, dm_detection_f_beta = py_round dfb 6,
              dm_validated_precision = py_round validated_precision 6,
              dm_validated_recall = py_round validated_recall 6,
              dm_validated_f1 = py_round vf1 6, dm_validated_f_beta = py_round vfb 6,
              dm_beta = beta,
              dm_deterministic_pass_rate = ratio_or_0 validated_tp validatable_count,
              dm_validated_case_rate = ratio_or_0 validated_tp validatable_count,
              dm_validated_case_rate_ci = wilson_interval validated_tp validatable_count (49 / 25),
              dm_complete_repair_rate = ratio_or_0 complete_repairs validatable_count,
              dm_bug_completeness_rate = ratio_or_0 bug_complete case_count,
              dm_supported_claim_rate =
                (if judged_findings = [] then None
                 else Some (py_round (of_int supported / of_nat (length judged_findings)) 6)),
              dm_localization_rate = rate localized_cases detected_cases,
              dm_patch_apply_rate =
                rate (count_if ds_patch_applied scores) (count_if ds_patch_provided scores),
              dm_test_pass_rate =
                rate (count_if (\<lambda>s. ds_tests_passed s = Some True) scores) (count_if ds_tests_ran scores),
              dm_structural_pass_rate =
                rate (count_if (\<lambda>s. ds_structural_validation_passed s = Some True) scores)
                  (count_if ds_structural_validation_ran scores),
              dm_false_positives_per_case =
                (if scores = [] then 0 else py_round (of_int fp / of_int case_count) 6),
              dm_cost_per_validated_fix =
                (if validated_tp \<noteq> 0 then Some (py_round (total_cost / of_int validated_tp) 6) else None),
              dm_latency_per_case_ms =
                (if scores = [] then 0
                 else py_round (of_int total_latency_ms / of_int case_count) 2)\<rparr>
         | _ \<Rightarrow> None)"

section \<open>The gates of a deterministic pass\<close>

lemma f_beta_total:
  assumes "0 \<le> p" "0 \<le> r" "0 < b"
  shows "\<exists>f. f_beta_score p r b = Some f"
proof (cases "p = 0 \<and> r = 0")
  case False
  then have "0 < b ^ 2 * p + r" using assms by (intro f_beta_denominator)
  then show ?thesis by (auto simp: f_beta_score_def Let_def)
qed (simp add: f_beta_score_def)

lemma failure_reasons_empty:
  "failure_reasons c review patch tests_passed structural_passed = [] \<longleftrightarrow>
    (let v = case_validation c in
     cr_bug_found review
     \<and> (va_detection_requirement v = AllBugs \<longrightarrow>
          cr_bugs_total review > 0 \<and> cr_bugs_matched review \<ge> cr_bugs_total review)
     \<and> pa_unsafe_paths patch = [] \<and> pa_touched_protected patch = []
     \<and> (va_patch_required v \<longrightarrow> py_strip (pa_patch_text patch) \<noteq> [] \<and> pa_applied patch)
     \<and> (ex_run_tests (case_execution c) \<or> va_tests_required v \<longrightarrow> tests_passed = Some True)
     \<and> (va_structural_validators v \<noteq> [] \<longrightarrow> structural_passed = Some True)
     \<and> cr_false_positive_count review \<le> va_max_false_positives v
     \<and> (va_patch_required v \<longrightarrow>
          ex_run_tests (case_execution c) \<or> va_tests_required v \<or> va_structural_validators v \<noteq> []))"
  by (auto simp: failure_reasons_def Let_def not_less)

lemma score_deterministic_case_Some:
  assumes "score_deterministic_case c review patch tests validators beta = Some s"
  shows "ds_failure_reasons s = failure_reasons c review patch
      (case tests of None \<Rightarrow> None | Some t \<Rightarrow> if te_ran t then Some (te_passed t) else None)
      (if validators = [] then None else Some (list_all vr_passed validators))"
    and "ds_deterministic_pass s \<longleftrightarrow> ds_failure_reasons s = []"
    and "ds_patch_applied s = pa_applied patch"
    and "ds_tests_ran s \<longleftrightarrow> (\<exists>t. tests = Some t \<and> te_ran t)"
    and "ds_structural_validation_ran s \<longleftrightarrow> validators \<noteq> []"
    and "ds_detected_bug s = cr_bug_found review"
    and "ds_tests_passed s =
      (case tests of None \<Rightarrow> None | Some t \<Rightarrow> if te_ran t then Some (te_passed t) else None)"
    and "ds_structural_validation_passed s =
      (if validators = [] then None else Some (list_all vr_passed validators))"
    and "ds_patch_provided s \<longleftrightarrow> py_strip (pa_patch_text patch) \<noteq> []"
    and "ds_true_positive_count s = cr_bugs_matched review"
    and "ds_false_positive_count s = cr_false_positive_count review"
    and "ds_false_negative_count s = max (cr_bugs_total review - cr_bugs_matched review) 0"
  using assms unfolding score_deterministic_case_def Let_def
  by (auto split: option.splits)

text \<open>
  A case passes deterministically exactly when the primary bug (every bug, if the case asks for
  all) was detected, the patch touched nothing unsafe or protected, a required patch was given and
  applied, required tests ran and passed, configured validators ran and passed, false positives stay
  within the allowance, and a case that requires a patch has an executable gate. In particular a
  clean apply alone never passes a case that requires a patch.
\<close>

theorem deterministic_pass_iff:
  assumes "score_deterministic_case c review patch tests validators beta = Some s"
  defines "v \<equiv> case_validation c"
  shows "ds_deterministic_pass s \<longleftrightarrow>
    cr_bug_found review
    \<and> (va_detection_requirement v = AllBugs \<longrightarrow>
         cr_bugs_total review > 0 \<and> cr_bugs_matched review \<ge> cr_bugs_total review)
    \<and> pa_unsafe_paths patch = [] \<and> pa_touched_protected patch = []
    \<and> (va_patch_required v \<longrightarrow> py_strip (pa_patch_text patch) \<noteq> [] \<and> pa_applied patch)
    \<and> (ex_run_tests (case_execution c) \<or> va_tests_required v \<longrightarrow>
         (\<exists>t. tests = Some t \<and> te_ran t \<and> te_passed t))
    \<and> (va_structural_validators v \<noteq> [] \<longrightarrow> validators \<noteq> [] \<and> list_all vr_passed validators)
    \<and> cr_false_positive_count review \<le> va_max_false_positives v
    \<and> (va_patch_required v \<longrightarrow>
         ex_run_tests (case_execution c) \<or> va_tests_required v \<or> va_structural_validators v \<noteq> [])"
  unfolding score_deterministic_case_Some(1,2) [OF assms(1)] failure_reasons_empty Let_def v_def
  by (auto split: option.splits if_splits)

theorem deterministic_pass_iff_witness:
  "\<exists>r s. score_case sample_case sample_response [] = Some r
    \<and> score_deterministic_case sample_case r
        \<lparr>pa_case_id = [], pa_finding_id = None, pa_applied = True, pa_error = None, pa_touched_files = [],
         pa_touched_protected = [], pa_unsafe_paths = [], pa_workspace_path = [],
         pa_patch_text = ''p'', pa_duration_ms = 0, pa_reason = None, pa_git_diagnostic = None, pa_patch_sha256 = None, pa_git_version = None,
         pa_object_format = None, pa_baseline_tree = None, pa_result_tree = None, pa_added = [],
         pa_modified = [], pa_deleted = [], pa_mode_changes = []\<rparr> None [] 1 = Some s
    \<and> \<not> ds_deterministic_pass s"
proof -
  let ?patch = "\<lparr>pa_case_id = [], pa_finding_id = None, pa_applied = True, pa_error = None, pa_touched_files = [],
         pa_touched_protected = [], pa_unsafe_paths = [], pa_workspace_path = [],
         pa_patch_text = ''p'', pa_duration_ms = 0, pa_reason = None, pa_git_diagnostic = None, pa_patch_sha256 = None, pa_git_version = None,
         pa_object_format = None, pa_baseline_tree = None, pa_result_tree = None, pa_added = [],
         pa_modified = [], pa_deleted = [], pa_mode_changes = []\<rparr>"
  obtain r where r: "score_case sample_case sample_response [] = Some r" "cr_bugs_total r = 2"
    "cr_bugs_matched r = 1" "cr_false_positive_count r = 0"
    by (rule sample_review)
  have "f_beta_score (precision 1 0) (recall 1 1) 1 = Some (2 / 3)"
    by (simp add: precision_def recall_def f_beta_score_def)
  then obtain s where s:
    "score_deterministic_case sample_case r ?patch None [] 1 = Some s"
    by (simp add: score_deterministic_case_def Let_def r(2-4))
  have "va_detection_requirement (case_validation sample_case) = AllBugs"
    by (simp add: sample_case_def)
  then have "\<not> ds_deterministic_pass s"
    unfolding deterministic_pass_iff [OF s] using r(2,3) by simp
  then show ?thesis using r(1) s by blast
qed

lemma score_case_counts:
  assumes "score_case c response out = Some review"
  shows "0 \<le> cr_bugs_matched review" "0 \<le> cr_false_positive_count review"
proof -
  obtain assigned where a: "score_case c response out = Some (score_assigned c response out assigned)"
    "distinct (map fst assigned)"
    "\<forall>(b, f, p) \<in> set assigned. pair_of (response_findings response) c (b, f) = Some p"
    by (rule score_case_assigned)
  obtain scored fps where sf: "score_findings c (map_of (map (\<lambda>(b, f, _). (f, b)) assigned))
       (concat (map (\<lambda>bug. map (\<lambda>item. normalize_path (gf_path item)) (bug_files bug)) (case_bugs c)))
       (enum_list (response_findings response)) = (scored, fps)"
    and r: "cr_false_positive_count (score_assigned c response out assigned) = fps"
    "cr_bugs_matched (score_assigned c response out assigned) = int (length assigned)"
    by (rule score_assigned_scored [of c assigned response out])
  show "0 \<le> cr_bugs_matched review" "0 \<le> cr_false_positive_count review"
    using r a(1) assms score_findings_spec(2) [OF sf] by auto
qed

lemma det_score_total:
  assumes "score_case c response out = Some review" "0 < beta"
  shows "\<exists>s. score_deterministic_case c review patch tests validators beta = Some s"
proof -
  have "0 \<le> cr_bugs_matched review" "0 \<le> cr_false_positive_count review"
    using score_case_counts [OF assms(1)] by simp_all
  then have "0 \<le> precision (cr_bugs_matched review) (cr_false_positive_count review)"
    "0 \<le> recall (cr_bugs_matched review) (max (cr_bugs_total review - cr_bugs_matched review) 0)"
    using precision_bounds recall_bounds by auto
  then obtain f1 fb where
    "f_beta_score (precision (cr_bugs_matched review) (cr_false_positive_count review))
       (recall (cr_bugs_matched review) (max (cr_bugs_total review - cr_bugs_matched review) 0)) 1
       = Some f1"
    "f_beta_score (precision (cr_bugs_matched review) (cr_false_positive_count review))
       (recall (cr_bugs_matched review) (max (cr_bugs_total review - cr_bugs_matched review) 0)) beta
       = Some fb"
    using f_beta_total assms(2) by (metis zero_less_one)
  then show ?thesis by (simp add: score_deterministic_case_def Let_def)
qed

section \<open>The metrics lie in their ranges\<close>

lemma floor_of_rat [simp]: "\<lfloor>of_rat x :: real\<rfloor> = \<lfloor>x\<rfloor>"
proof (rule floor_unique)
  have "of_rat (of_int \<lfloor>x\<rfloor>) \<le> (of_rat x :: real)" unfolding of_rat_less_eq by simp
  then show "real_of_int \<lfloor>x\<rfloor> \<le> of_rat x" by simp
  have "(of_rat x :: real) < of_rat (of_int \<lfloor>x\<rfloor> + 1)" unfolding of_rat_less by linarith
  then show "of_rat x < real_of_int \<lfloor>x\<rfloor> + 1" by (simp add: of_rat_add)
qed

lemma round_half_even_of_rat: "round_half_even (of_rat x :: real) = round_half_even x"
proof -
  have r: "2 * (of_rat x - real_of_int \<lfloor>x\<rfloor>) = of_rat (2 * (x - of_int \<lfloor>x\<rfloor>))"
    by (simp add: of_rat_mult of_rat_diff)
  have "2 * (of_rat x - real_of_int \<lfloor>x\<rfloor>) < 1 \<longleftrightarrow> 2 * (x - of_int \<lfloor>x\<rfloor>) < 1"
    "2 * (of_rat x - real_of_int \<lfloor>x\<rfloor>) > 1 \<longleftrightarrow> 2 * (x - of_int \<lfloor>x\<rfloor>) > 1"
    unfolding r by (metis of_rat_1 of_rat_less)+
  then show ?thesis by (simp add: round_half_even_def Let_def)
qed

lemma py_round_of_rat: "of_rat (py_round x n) = py_round (of_rat x :: real) n"
proof -
  have "of_rat x * 10 ^ n = (of_rat (x * 10 ^ n) :: real)" by (simp add: of_rat_mult of_rat_power)
  then show ?thesis
    by (simp add: py_round_def round_half_even_of_rat of_rat_divide of_rat_power)
qed

lemma ratio_or_0_bounds: "0 \<le> n \<Longrightarrow> n \<le> d \<Longrightarrow> 0 \<le> ratio_or_0 n d \<and> ratio_or_0 n d \<le> 1"
  by (auto simp: ratio_or_0_def divide_le_eq intro!: py_round_nonneg py_round_le_1)

lemma count_if_bounds: "0 \<le> count_if P xs" "count_if P xs \<le> int (length xs)"
  by (simp_all add: count_if_def)

lemma map_filter_length: "length (List.map_filter f xs) = length (filter (\<lambda>x. f x \<noteq> None) xs)"
  by (simp add: List.map_filter_def comp_def)

lemma aggregate_fields:
  fixes cases :: "case_result list"
  defines "scores \<equiv> case_scores cases" and "v \<equiv> validatable_cases cases"
  defines "tp \<equiv> sum_list (map ds_true_positive_count scores)"
    and "fn \<equiv> sum_list (map ds_false_negative_count scores)"
    and "fp \<equiv> sum_list (map ds_false_positive_count scores)"
    and "vtp \<equiv> count_if (\<lambda>(_, s). ds_deterministic_pass s) v" and "n \<equiv> int (length v)"
  assumes "0 < beta" "list_all (\<lambda>s. 0 \<le> ds_true_positive_count s \<and> 0 \<le> ds_false_positive_count s
      \<and> 0 \<le> ds_false_negative_count s) scores"
  obtains m where "aggregate_deterministic_metrics cases beta cost latency = Some m"
    "dm_deterministic_pass_rate m = ratio_or_0 vtp n" "dm_validated_case_rate m = ratio_or_0 vtp n"
    "dm_validated_case_rate_ci m = wilson_interval vtp n (49 / 25)"
    "dm_complete_repair_rate m = ratio_or_0 (count_if (\<lambda>(c, _).
        ce_case_status (res_evidence c) = Some CompleteRepair) v) n"
    "dm_bug_completeness_rate m = ratio_or_0 (count_if (\<lambda>c. ce_bug_repairs (res_evidence c) \<noteq> []
        \<and> list_all br_detected (ce_bug_repairs (res_evidence c)))
        (filter (\<lambda>c. ce_deterministic_case_score (res_evidence c) \<noteq> None) cases))
        (int (length scores))"
    "dm_detection_precision m = py_round (precision tp fp) 6"
    "dm_detection_recall m = py_round (recall tp fn) 6"
    "0 \<le> precision tp fp" "precision tp fp \<le> 1" "0 \<le> recall tp fn" "recall tp fn \<le> 1"
proof -
  have nn: "0 \<le> tp" "0 \<le> fn" "0 \<le> fp"
    using assms(9) by (auto simp: tp_def fn_def fp_def list_all_iff intro!: sum_list_nonneg)
  have v: "0 \<le> vtp" "vtp \<le> n" by (simp_all add: vtp_def n_def count_if_bounds)
  note pr = precision_bounds [OF nn(1,3)] recall_bounds [OF nn(1,2)]
    precision_bounds [OF v(1) nn(3)] recall_bounds [OF v(1), of "n - vtp"]
  obtain df1 dfb vf1 vfb where f:
    "f_beta_score (precision tp fp) (recall tp fn) 1 = Some df1"
    "f_beta_score (precision tp fp) (recall tp fn) beta = Some dfb"
    "f_beta_score (precision vtp fp) (recall vtp (n - vtp)) 1 = Some vf1"
    "f_beta_score (precision vtp fp) (recall vtp (n - vtp)) beta = Some vfb"
    using f_beta_total pr v assms(8) by (metis diff_ge_0_iff_ge zero_less_one)
  then show thesis
    using pr that unfolding assms(1-7) by (simp add: aggregate_deterministic_metrics_def Let_def)
qed

lemma rate_interval:
  assumes "0 \<le> vtp" "vtp \<le> int (length v)"
  shows "case wilson_interval vtp (int (length v)) (49 / 25) of
         None \<Rightarrow> v = []
       | Some (lo, hi) \<Rightarrow> v \<noteq> [] \<and> 0 \<le> lo \<and> lo \<le> of_rat (ratio_or_0 vtp (int (length v)))
           \<and> of_rat (ratio_or_0 vtp (int (length v))) \<le> hi \<and> hi \<le> 1"
proof (cases "v = []")
  case False
  then have n0: "0 < int (length v)" by simp
  have "(0 :: real) \<le> 49 / 25" by simp
  from wilson_correct [OF assms n0 this] obtain lo hi where
    w: "wilson_interval vtp (int (length v)) (49 / 25) = Some (lo, hi)" "0 \<le> lo" "hi \<le> 1"
    "lo \<le> py_round (real_of_int vtp / real_of_int (int (length v))) 6"
    "py_round (real_of_int vtp / real_of_int (int (length v))) 6 \<le> hi" by blast
  have "of_rat (ratio_or_0 vtp (int (length v))) = py_round (real_of_int vtp / real_of_int (int (length v))) 6"
    using n0 by (simp add: ratio_or_0_def py_round_of_rat of_rat_divide)
  then show ?thesis using w False by simp
qed (simp add: wilson_interval_def)

lemma aggregate_rates:
  assumes "0 < beta" "list_all (\<lambda>s. 0 \<le> ds_true_positive_count s \<and> 0 \<le> ds_false_positive_count s
      \<and> 0 \<le> ds_false_negative_count s) (case_scores cases)"
  obtains m vtp where "aggregate_deterministic_metrics cases beta cost latency = Some m"
    "0 \<le> vtp" "vtp \<le> int (length (validatable_cases cases))"
    "dm_deterministic_pass_rate m = ratio_or_0 vtp (int (length (validatable_cases cases)))"
    "dm_validated_case_rate m = ratio_or_0 vtp (int (length (validatable_cases cases)))"
    "dm_validated_case_rate_ci m = wilson_interval vtp (int (length (validatable_cases cases))) (49 / 25)"
    "list_all (\<lambda>x. 0 \<le> x \<and> x \<le> 1) [dm_validated_case_rate m, dm_complete_repair_rate m,
        dm_bug_completeness_rate m, dm_detection_precision m, dm_detection_recall m]"
proof (rule aggregate_fields [OF assms, of cost latency])
  fix m
  let ?v = "validatable_cases cases" and ?s = "case_scores cases"
  let ?vtp = "count_if (\<lambda>(_, s). ds_deterministic_pass s) ?v"
  let ?p = "precision (sum_list (map ds_true_positive_count ?s)) (sum_list (map ds_false_positive_count ?s))"
  let ?r = "recall (sum_list (map ds_true_positive_count ?s)) (sum_list (map ds_false_negative_count ?s))"
  have v: "0 \<le> ?vtp" "?vtp \<le> int (length ?v)" by (simp_all add: count_if_bounds)
  have len: "int (length ?s)
      = int (length (filter (\<lambda>c. ce_deterministic_case_score (res_evidence c) \<noteq> None) cases))"
    by (simp add: case_scores_def map_filter_length)
  assume m: "aggregate_deterministic_metrics cases beta cost latency = Some m"
    and rates: "dm_deterministic_pass_rate m = ratio_or_0 ?vtp (int (length ?v))"
      "dm_validated_case_rate m = ratio_or_0 ?vtp (int (length ?v))"
      "dm_validated_case_rate_ci m = wilson_interval ?vtp (int (length ?v)) (49 / 25)"
    and fields: "dm_complete_repair_rate m = ratio_or_0 (count_if (\<lambda>(c, _).
        ce_case_status (res_evidence c) = Some CompleteRepair) ?v) (int (length ?v))"
      "dm_bug_completeness_rate m = ratio_or_0 (count_if (\<lambda>c. ce_bug_repairs (res_evidence c) \<noteq> []
        \<and> list_all br_detected (ce_bug_repairs (res_evidence c)))
        (filter (\<lambda>c. ce_deterministic_case_score (res_evidence c) \<noteq> None) cases)) (int (length ?s))"
      "dm_detection_precision m = py_round ?p 6" "dm_detection_recall m = py_round ?r 6"
    and pr: "0 \<le> ?p" "?p \<le> 1" "0 \<le> ?r" "?r \<le> 1"
  have "list_all (\<lambda>x. 0 \<le> x \<and> x \<le> 1) [dm_validated_case_rate m, dm_complete_repair_rate m,
        dm_bug_completeness_rate m, dm_detection_precision m, dm_detection_recall m]"
    unfolding rates fields len using pr ratio_or_0_bounds [OF v]
      ratio_or_0_bounds [OF count_if_bounds [of _ ?v]] ratio_or_0_bounds [OF count_if_bounds]
    by (simp add: py_round_nonneg py_round_le_1 del: not_None_eq)
  then show thesis using that [OF m v] rates by blast
qed

text \<open>
  With nonnegative counts and a positive beta the metrics of a run exist; the two names of the
  repair rate agree; repair and completeness rates lie in [0, 1]; and the confidence interval is
  present exactly when some case can be validated, lies in [0, 1] and contains the reported rate.
\<close>

theorem aggregate_metrics_sound:
  assumes "0 < beta" "list_all (\<lambda>s. 0 \<le> ds_true_positive_count s \<and> 0 \<le> ds_false_positive_count s
      \<and> 0 \<le> ds_false_negative_count s) (case_scores cases)"
  shows "\<exists>m. aggregate_deterministic_metrics cases beta cost latency = Some m
    \<and> dm_deterministic_pass_rate m = dm_validated_case_rate m
    \<and> list_all (\<lambda>x. 0 \<le> x \<and> x \<le> 1) [dm_validated_case_rate m, dm_complete_repair_rate m,
        dm_bug_completeness_rate m, dm_detection_precision m, dm_detection_recall m]
    \<and> (case dm_validated_case_rate_ci m of
         None \<Rightarrow> validatable_cases cases = []
       | Some (lo, hi) \<Rightarrow> validatable_cases cases \<noteq> [] \<and> 0 \<le> lo
           \<and> lo \<le> of_rat (dm_validated_case_rate m) \<and> of_rat (dm_validated_case_rate m) \<le> hi \<and> hi \<le> 1)"
proof -
  obtain m vtp where m: "aggregate_deterministic_metrics cases beta cost latency = Some m"
    and vtp: "0 \<le> vtp" "vtp \<le> int (length (validatable_cases cases))"
    and rates: "dm_deterministic_pass_rate m = ratio_or_0 vtp (int (length (validatable_cases cases)))"
    "dm_validated_case_rate m = ratio_or_0 vtp (int (length (validatable_cases cases)))"
    and interval: "dm_validated_case_rate_ci m
      = wilson_interval vtp (int (length (validatable_cases cases))) (49 / 25)"
    and bounds: "list_all (\<lambda>x. 0 \<le> x \<and> x \<le> 1) [dm_validated_case_rate m, dm_complete_repair_rate m,
        dm_bug_completeness_rate m, dm_detection_precision m, dm_detection_recall m]"
    using aggregate_rates [OF assms] by blast
  from rate_interval [OF vtp, folded rates(2) interval] m bounds rates show ?thesis
    by (intro exI [of _ m] conjI) simp_all
qed

theorem aggregate_metrics_sound_witness:
  "\<exists>m. aggregate_deterministic_metrics [] 1 0 0 = Some m
    \<and> dm_deterministic_pass_rate m = dm_validated_case_rate m \<and> dm_validated_case_rate_ci m = None"
proof -
  have "list_all (\<lambda>s. 0 \<le> ds_true_positive_count s \<and> 0 \<le> ds_false_positive_count s
      \<and> 0 \<le> ds_false_negative_count s) (case_scores [])"
    by (simp add: case_scores_def List.map_filter_def)
  from aggregate_metrics_sound [OF zero_less_one this] obtain m where m:
    "aggregate_deterministic_metrics [] 1 0 0 = Some m"
    "dm_deterministic_pass_rate m = dm_validated_case_rate m" by blast
  moreover have "dm_validated_case_rate_ci m = None"
    using m(1) by (auto simp: aggregate_deterministic_metrics_def Let_def validatable_cases_def
        List.map_filter_def count_if_def wilson_interval_def split: option.splits)
  ultimately show ?thesis by blast
qed

end
