(* ===== verification/Case_Run.thy ===== *)
theory Case_Run
  imports Validators Git_Transaction Det_Scorer
begin

text \<open>
  One case of a run, from the materialised workspace to its stored result: \<open>arena/execution/sandbox.py\<close>,
  \<open>arena/execution/subprocess_runner.py\<close>, \<open>arena/tools/static_analyzer.py\<close> and the per-case half of
  \<open>arena/benchmark/benchmark_runner.py\<close>. It composes the stages of the other theories in the order the
  code does: tests and analysis before the review, the context, the review, its score, the patch, the
  hidden tests between two manifests, the validators, the deterministic score, the evidence.
\<close>

section \<open>Copying trees\<close>

text \<open>
  \<open>shutil.copytree\<close> onto a tree that may already have entries: files are overwritten, directories
  merged, and anything else in the way is an error. A link in the destination would be written
  through; the trees copied to have none (an admitted case, or the result of a patch transaction).
\<close>

datatype copy_error = MissingSource | InTheWay string

lemma fold_res_cong [fundef_cong]:
  "xs = ys \<Longrightarrow> s = t \<Longrightarrow> (\<And>x u. x \<in> set ys \<Longrightarrow> f x u = g x u) \<Longrightarrow> fold_res f xs s = fold_res g ys t"
proof (induction ys arbitrary: xs s t)
  case (Cons y ys)
  then show ?case by (cases "g y t") auto
qed simp

function overlay :: "node \<Rightarrow> node option \<Rightarrow> (copy_error, node) res" where
  "overlay (Dir es) d =
     (case d of
        Some (Dir fs) \<Rightarrow>
          and_then (fold_res (\<lambda>e acc. and_then (overlay (snd e) (map_of acc (fst e)))
              (\<lambda>n. Inr (alist_put (fst e) n acc))) es fs) (\<lambda>r. Inr (Dir r))
      | None \<Rightarrow>
          and_then (fold_res (\<lambda>e acc. and_then (overlay (snd e) (map_of acc (fst e)))
              (\<lambda>n. Inr (alist_put (fst e) n acc))) es []) (\<lambda>r. Inr (Dir r))
      | Some _ \<Rightarrow> Inl (InTheWay ''directory''))"
| "overlay (File bytes x links) d =
     (case d of
        None \<Rightarrow> Inr (File bytes x 1)
      | Some (File _ _ n) \<Rightarrow> Inr (File bytes x n)
      | Some _ \<Rightarrow> Inl (InTheWay ''file''))"
| "overlay (Link target) d = (if d = None then Inr (Link target) else Inl (InTheWay ''link''))"
| "overlay Special d = Inl (InTheWay ''special'')"
  by pat_completeness auto
termination
  by (relation "measure (\<lambda>(n, _). size n)") (auto simp: node_size_entry)

fun overlay_at :: "string list \<Rightarrow> node \<Rightarrow> node \<Rightarrow> (copy_error, node) res" where
  "overlay_at [] src n = overlay src (Some n)"
| "overlay_at (c # cs) src (Dir es) =
     and_then (overlay_at cs src (case map_of es c of None \<Rightarrow> Dir [] | Some n \<Rightarrow> n))
       (\<lambda>n. Inr (Dir (alist_put c n es)))"
| "overlay_at (c # cs) src _ = Inl (InTheWay ''directory'')"

definition path_parts :: "string \<Rightarrow> string list" where
  "path_parts path = split_on CHR ''/'' path"

text \<open>The interrupted copies that \<open>_copytree_resilient\<close> retries are signals of the host.\<close>

datatype case_error =
    CopyFailed copy_error | UnsafeEntries "string list" | CommandNotRun run_error
  | CommandNotLexed lex_error | NoCommand | ContextFailed input_error | ReviewFailed review_error
  | NoAssignment | ZeroDivision | PatchFailed "arena_error + tx_error" | ValidatorsFailed input_error

definition tests_tree :: "benchmark_case \<Rightarrow> node \<Rightarrow> (string \<times> node) option" where
  "tests_tree c tree =
     (case in_tests_dir (case_input_of c) of
        None \<Rightarrow> None
      | Some dir \<Rightarrow>
          (if dir = [] then None
           else case node_path dir tree of
             Some (Dir es) \<Rightarrow> Some (dir, Dir es)
           | _ \<Rightarrow> None))"

definition materialized_case :: "benchmark_case \<Rightarrow> node \<Rightarrow> (case_error, node) res" where
  "materialized_case c tree =
     and_then (raise_as CopyFailed
        (case node_path (in_after_dir (case_input_of c)) tree of
           Some (Dir es) \<Rightarrow> overlay (Dir es) (Some (Dir []))
         | _ \<Rightarrow> Inl MissingSource)) (\<lambda>copied.
     and_then (raise_as CopyFailed
        (case tests_tree c tree of
           None \<Rightarrow> Inr copied
         | Some (dir, tests) \<Rightarrow> overlay_at (path_parts dir) tests copied)) (\<lambda>materialized.
     let unsafe = find_unsafe_files (Some materialized) in
     if unsafe \<noteq> [] then Inl (UnsafeEntries unsafe) else Inr materialized))"

section \<open>Commands of a pack\<close>

record command_result =
  cm_command :: string
  cm_return_code :: int
  cm_output :: string
  cm_duration_ms :: int
  cm_timed_out :: bool

text \<open>
  \<open>run_command\<close>. An empty command line makes the process module raise; a program that is not found is
  the result 127, \<open>missing\<close> being that error's text and the time it took for a command line that has it.
\<close>

definition run_command ::
  "executor_env \<Rightarrow> (string list \<Rightarrow> (string \<times> int) option) \<Rightarrow> string \<Rightarrow> int \<Rightarrow> node
   \<Rightarrow> (case_error, command_result) res" where
  "run_command xe missing command timeout workspace =
     (case shlex_split command of
        Inl e \<Rightarrow> Inl (CommandNotLexed e)
      | Inr arguments \<Rightarrow>
          (let arguments = (if arguments \<noteq> [] \<and> hd arguments = ''pytest''
                then [xe_sys_executable xe, ''-m'', ''pytest''] @ tl arguments else arguments) in
           if xe_win32 xe then Inl (CommandNotRun UnsupportedPlatform)
           else if arguments = [] then Inl NoCommand
           else case missing arguments of
             Some (message, duration_ms) \<Rightarrow> Inr
               \<lparr>cm_command = command, cm_return_code = 127,
                cm_output = ''Command unavailable: '' @ message, cm_duration_ms = duration_ms, cm_timed_out = False\<rparr>
           | None \<Rightarrow>
               (case supervise xe arguments (sandboxed_home_env (xe_environ xe) (xe_home xe) [])
                       timeout workspace of
                  (Inl e, _) \<Rightarrow> Inl (CommandNotRun e)
                | (Inr (r, duration_ms), _) \<Rightarrow> Inr
                    \<lparr>cm_command = command,
                     cm_return_code = (if sv_timed_out r then 124
                       else case sv_returncode r of None \<Rightarrow> 0 | Some n \<Rightarrow> n),
                     cm_output = py_strip (sv_stdout r @ [CHR 0x0A] @ sv_stderr r),
                     cm_duration_ms = duration_ms, cm_timed_out = sv_timed_out r\<rparr>)))"

definition run_static_analysis ::
  "executor_env \<Rightarrow> (string list \<Rightarrow> (string \<times> int) option) \<Rightarrow> node \<Rightarrow> string \<Rightarrow> int \<Rightarrow> (case_error, string) res" where
  "run_static_analysis xe missing workspace command timeout =
     and_then (run_command xe missing command timeout workspace) (\<lambda>r. Inr (cm_output r))"

section \<open>The repair and its evidence\<close>

datatype patch_source = NoPatch | ProposedPatch | SingleFinding | Ambiguous

definition nonblank :: "string option \<Rightarrow> bool" where
  "nonblank x = (case x of None \<Rightarrow> False | Some s \<Rightarrow> py_strip s \<noteq> [])"

definition select_case_patch :: "review_result option \<Rightarrow> string option \<times> patch_source" where
  "select_case_patch parsed =
     (case parsed of
        None \<Rightarrow> (None, NoPatch)
      | Some review \<Rightarrow>
          if nonblank (rv_proposed_patch review) then (rv_proposed_patch review, ProposedPatch)
          else (case filter nonblank (map f_suggested_patch (rv_findings review)) of
                  [] \<Rightarrow> (None, NoPatch)
                | [patch] \<Rightarrow> (patch, SingleFinding)
                | _ \<Rightarrow> (None, Ambiguous)))"

text \<open>\<open>remaining\<close> is \<open>int(deadline - monotonic())\<close>, \<open>None\<close> without a deadline.\<close>

definition effective_timeout :: "int \<Rightarrow> int option \<Rightarrow> int" where
  "effective_timeout base_seconds remaining =
     (case remaining of None \<Rightarrow> base_seconds | Some r \<Rightarrow> max 1 (min base_seconds r))"

definition finding_status :: "bool \<Rightarrow> scored_finding \<Rightarrow> finding_evidence" where
  "finding_status execution_validated item =
     (if sf_is_neutral item then Neutral
      else if \<not> sf_is_true_positive item then Unsupported
      else if execution_validated then RepairValidated
      else FindingUnrepaired)"

definition attribute_evidence ::
  "benchmark_case \<Rightarrow> review_score \<Rightarrow> deterministic_case_score \<Rightarrow> bool \<Rightarrow> bool
   \<Rightarrow> bug_repair list \<times> scored_finding list \<times> case_status" where
  "attribute_evidence c review deterministic execution_validated integrity_violated =
     (let matched = map sf_matched_bug_index (filter sf_is_true_positive (cr_scored_findings review));
          bug_repairs = map (\<lambda>(index, bug).
              \<lparr>br_bug_id = bug_id bug, br_detected = (Some index \<in> set matched),
               br_repaired = execution_validated\<rparr>) (enum_list (gt_bugs (case_ground_truth c)));
          findings = map (\<lambda>item.
              item\<lparr>sf_evidence_status := Some (finding_status execution_validated item)\<rparr>)
              (cr_scored_findings review);
          total_bugs = length bug_repairs;
          detected_count = length (filter br_detected bug_repairs);
          ran_anything = (ds_tests_ran deterministic \<or> ds_structural_validation_ran deterministic);
          status =
            (if integrity_violated then Tampering
             else if \<not> ran_anything then Inconclusive
             else if execution_validated \<and> detected_count = total_bugs then CompleteRepair
             else if execution_validated then PartialRepair
             else if detected_count > 0 then DetectedButUnrepaired
             else NoDetection)
      in (bug_repairs, findings, status))"

definition repair_confidence_of :: "bool \<Rightarrow> deterministic_case_score \<Rightarrow> repair_confidence" where
  "repair_confidence_of execution_validated deterministic =
     (if \<not> execution_validated then Unvalidated
      else if ds_structural_validation_ran deterministic
           \<and> ds_structural_validation_passed deterministic = Some True
      then Strong else Basic)"

definition BLOCKING :: "string list" where
  "BLOCKING =
     [''patch_required_but_missing'', ''patch_apply_failed'', ''tests_failed'',
      ''structural_validation_failed'', ''test_integrity_violation'', ''no_execution_evidence'']"

definition execution_validates :: "deterministic_case_score \<Rightarrow> bool" where
  "execution_validates deterministic \<longleftrightarrow>
     ds_patch_applied deterministic \<and> set BLOCKING \<inter> set (ds_failure_reasons deterministic) = {}"

definition mark_tampering :: "deterministic_case_score \<Rightarrow> deterministic_case_score" where
  "mark_tampering deterministic =
     deterministic\<lparr>ds_deterministic_pass := False,
       ds_failure_reasons := ds_failure_reasons deterministic @ [''test_integrity_violation'']\<rparr>"

definition UNAVAILABLE_ERRORS :: "string list" where
  "UNAVAILABLE_ERRORS =
     [''docker_required_but_unavailable'', ''docker_image_not_present'', ''local_execution_disabled'']"

definition backend_of :: "test_execution_result option \<Rightarrow> execution_backend" where
  "backend_of executed =
     (case executed of
        None \<Rightarrow> NoBackend
      | Some t \<Rightarrow>
          (case te_execution_mode t of
             ModeDocker \<Rightarrow> Docker | ModeLocal \<Rightarrow> TrustedLocal | ModeSkipped \<Rightarrow> NoBackend))"

definition execution_unavailable_of :: "test_execution_result option \<Rightarrow> bool" where
  "execution_unavailable_of executed =
     (case executed of
        None \<Rightarrow> False
      | Some t \<Rightarrow> (case te_error t of None \<Rightarrow> False | Some e \<Rightarrow> e \<in> set UNAVAILABLE_ERRORS))"

section \<open>The stages of a case\<close>

text \<open>
  What a case runs against: the codec and Python's parser, Git, the digest, the supervisor of each of
  the three executions (tests before the review, static analysis, hidden tests), the seconds left
  before each, the reviewer, where the workspaces are, and what a link in the workspace leads to: on the way to the
  tests directory, before (0) and after (1) the hidden tests, and on the way to the file the validators read.
\<close>

record case_world =
  cw_codec :: text_codec
  cw_tools :: py_tools
  cw_git :: git_context
  cw_sha256 :: "string \<Rightarrow> string"
  cw_executor :: "nat \<Rightarrow> executor_env"
  cw_missing :: "string list \<Rightarrow> (string \<times> int) option"
  cw_remaining :: "nat \<Rightarrow> int option"
  cw_reviewer :: "case_context \<Rightarrow> (review_error, reviewer_response) res"
  cw_case_dir :: string
  cw_temp_dir :: string
  cw_runs_root :: string
  cw_run_id :: string
  cw_patch_ms :: int
  cw_prior :: "node option"
  cw_behind_tests :: "nat \<Rightarrow> node option"
  cw_behind_link :: "(input_error, node option) res"

definition APPLY_TIMEOUT :: rat where "APPLY_TIMEOUT = 15"

definition test_request_for ::
  "case_world \<Rightarrow> benchmark_case \<Rightarrow> string \<Rightarrow> test_command \<Rightarrow> nat \<Rightarrow> bool \<Rightarrow> string list \<Rightarrow> test_request" where
  "test_request_for w c workspace command stage allow_local readonly_paths =
     \<lparr>tq_case_id = case_id c, tq_workspace_path = workspace, tq_test_command = command,
      tq_timeout_seconds = effective_timeout (ex_timeout_seconds (case_execution c)) (cw_remaining w stage),
      tq_docker_image = ex_docker_image (case_execution c), tq_allow_local_execution = allow_local,
      tq_readonly_paths = readonly_paths\<rparr>"

definition show_exit :: "int option \<Rightarrow> string" where
  "show_exit e = (case e of None \<Rightarrow> ''None'' | Some n \<Rightarrow> int_str n)"

text \<open>The test and analysis output a reviewer may be shown, from the unpatched case.\<close>

definition preview_tests :: "case_world \<Rightarrow> bool \<Rightarrow> benchmark_case \<Rightarrow> node \<Rightarrow> (case_error, string \<times> node) res" where
  "preview_tests w allow_local c materialized =
     (let e = case_execution c in
      if allow_local \<and> ex_run_tests e \<and> command_given (ex_test_command e) then
        (case execute (cw_executor w 0)
                (test_request_for w c (cw_temp_dir w) (the (ex_test_command e)) 0 allow_local [])
                (Some materialized) of
           (Inl err, _) \<Rightarrow> Inl (CommandNotRun err)
         | (Inr r, left) \<Rightarrow> Inr
             (''exit_code='' @ show_exit (te_exit_code r) @ [CHR 0x0A] @ ''duration_ms=''
                @ int_str (te_duration_ms r) @ [CHR 0x0A] @ te_stdout r @ te_stderr r,
              case left of None \<Rightarrow> materialized | Some n \<Rightarrow> n))
      else Inr ([], materialized))"

definition preview_analysis :: "case_world \<Rightarrow> bool \<Rightarrow> benchmark_case \<Rightarrow> node \<Rightarrow> (case_error, string) res" where
  "preview_analysis w allow_local c materialized =
     (let e = case_execution c in
      if allow_local \<and> ex_run_static_analysis e \<and> given (ex_static_analysis_command e) then
        run_static_analysis (cw_executor w 1) (cw_missing w) materialized
          (the (ex_static_analysis_command e)) (effective_timeout (ex_timeout_seconds e) (cw_remaining w 1))
      else Inr [])"

definition review_case ::
  "case_world \<Rightarrow> bool \<Rightarrow> benchmark_case \<Rightarrow> node \<Rightarrow> (case_error, review_score) res" where
  "review_case w allow_local c tree =
     and_then (materialized_case c tree) (\<lambda>materialized.
     and_then (preview_tests w allow_local c materialized) (\<lambda>(test_output, left).
     and_then (preview_analysis w allow_local c left) (\<lambda>static_output.
     and_then (raise_as ContextFailed
        (build_context (cw_codec w) default_limits (cw_case_dir w) c tree test_output static_output))
      (\<lambda>context.
     and_then (raise_as ReviewFailed (cw_reviewer w context)) (\<lambda>response.
       case score_case c response test_output of
         None \<Rightarrow> Inl NoAssignment
       | Some r \<Rightarrow> Inr (r\<lparr>cr_context_truncated := cc_context_truncated context\<rparr>))))))"

definition protected_of :: "benchmark_case \<Rightarrow> string list" where
  "protected_of c =
     va_protected_paths (case_validation c)
     @ (case in_tests_dir (case_input_of c) of None \<Rightarrow> [] | Some dir \<Rightarrow> if dir = [] then [] else [dir])"

definition apply_case_patch ::
  "case_world \<Rightarrow> benchmark_case \<Rightarrow> node \<Rightarrow> string option
   \<Rightarrow> (case_error, patch_apply_result \<times> node option) res" where
  "apply_case_patch w c tree patch_text =
     (case node_path (in_after_dir (case_input_of c)) tree of
        None \<Rightarrow> Inl (CopyFailed MissingSource)
      | Some source \<Rightarrow>
          (case applier_apply (cw_git w) (cw_sha256 w) (cw_patch_ms w) (cw_runs_root w) APPLY_TIMEOUT
                  (cw_run_id w) (case_id c) None source (case patch_text of None \<Rightarrow> [] | Some s \<Rightarrow> s)
                  (protected_of c) (cw_prior w) of
             (Inl e, _) \<Rightarrow> Inl (PatchFailed e)
           | (Inr patch, workspace) \<Rightarrow> Inr (patch, workspace)))"

text \<open>The hidden tests, run between two manifests of their directory.\<close>

definition tests_root :: "benchmark_case \<Rightarrow> node option \<Rightarrow> node option" where
  "tests_root c workspace =
     (case in_tests_dir (case_input_of c) of
        None \<Rightarrow> None
      | Some dir \<Rightarrow>
          (if dir = [] then None
           else case workspace of None \<Rightarrow> None | Some n \<Rightarrow> reach (split_on CHR ''/'' dir) n))"

definition place_tests :: "benchmark_case \<Rightarrow> node \<Rightarrow> node option \<Rightarrow> (case_error, node option) res" where
  "place_tests c tree workspace =
     (case (tests_tree c tree, workspace) of
        (Some (dir, tests), Some n) \<Rightarrow>
          and_then (raise_as CopyFailed (overlay_at (path_parts dir) tests n)) (\<lambda>m. Inr (Some m))
      | _ \<Rightarrow> Inr workspace)"

definition run_hidden_tests ::
  "case_world \<Rightarrow> bool \<Rightarrow> benchmark_case \<Rightarrow> node \<Rightarrow> patch_apply_result \<Rightarrow> node option
   \<Rightarrow> (case_error, test_execution_result option \<times> string list \<times> node option) res" where
  "run_hidden_tests w allow_local c tree patch workspace =
     (let e = case_execution c in
      if pa_applied patch \<and> ex_run_tests e \<and> command_given (ex_test_command e) then
        and_then (place_tests c tree workspace) (\<lambda>ready.
        let before = file_manifest (cw_sha256 w) (cw_behind_tests w 0) (tests_root c ready) in
        case execute (cw_executor w 2)
               (test_request_for w c (pa_workspace_path patch) (the (ex_test_command e)) 2 allow_local
                  (case in_tests_dir (case_input_of c) of None \<Rightarrow> [] | Some d \<Rightarrow> if d = [] then [] else [d]))
               ready of
          (Inl err, _) \<Rightarrow> Inl (CommandNotRun err)
        | (Inr executed, left) \<Rightarrow> Inr
            (Some executed,
             manifest_changes before (file_manifest (cw_sha256 w) (cw_behind_tests w 1) (tests_root c left)), left))
      else Inr (None, [], workspace))"

definition run_case_validators ::
  "case_world \<Rightarrow> benchmark_case \<Rightarrow> review_score \<Rightarrow> patch_apply_result \<Rightarrow> node option
   \<Rightarrow> (case_error, validator_result list) res" where
  "run_case_validators w c review patch workspace =
     (let items = cr_scored_findings review;
          matching = (case find (\<lambda>i. sf_matched_bug_index i = Some 0) items of
              Some i \<Rightarrow> Some (sf_finding i)
            | None \<Rightarrow> map_option sf_finding (find sf_is_true_positive items))
      in if pa_applied patch \<and> va_structural_validators (case_validation c) \<noteq> [] then
        raise_as ValidatorsFailed
          (run_validators (cw_codec w) (cw_tools w) (va_structural_validators (case_validation c))
             \<lparr>vc_case_id = case_id c,
              vc_workspace = (case workspace of None \<Rightarrow> Dir [] | Some n \<Rightarrow> n),
              vc_behind_link = cw_behind_link w,
              vc_changed_files = pa_touched_files patch, vc_finding = matching, vc_case = c\<rparr>)
      else Inr [])"

definition OUTPUT_TAIL :: nat where "OUTPUT_TAIL = 2000"

definition first_given :: "string \<Rightarrow> string option \<Rightarrow> string" where
  "first_given s other = (if s \<noteq> [] then s else case other of None \<Rightarrow> [] | Some t \<Rightarrow> t)"

text \<open>The stored result of a case, from what each stage returned.\<close>

definition evidence_of ::
  "benchmark_case \<Rightarrow> review_score \<Rightarrow> string option \<times> patch_source \<Rightarrow> patch_apply_result
   \<Rightarrow> test_execution_result option \<Rightarrow> string list \<Rightarrow> validator_result list \<Rightarrow> deterministic_case_score
   \<Rightarrow> case_result" where
  "evidence_of c review chosen patch executed integrity_changes validators scored =
     (let integrity_violated = (integrity_changes \<noteq> []);
          deterministic = (if integrity_violated then mark_tampering scored else scored);
          validated = execution_validates deterministic;
          review = apply_execution_fix_quality c review validated;
          (bug_repairs, findings, status) =
            attribute_evidence c review deterministic validated integrity_violated
      in \<lparr>res_review = review\<lparr>cr_scored_findings := findings\<rparr>,
          res_evidence =
            \<lparr>ce_deterministic_case_score = Some deterministic,
             ce_patch_provided = ds_patch_provided deterministic,
             ce_patch_applied = ds_patch_applied deterministic, ce_patch_error = pa_error patch,
             ce_touched_files = pa_touched_files patch, ce_patch_sha256 = pa_patch_sha256 patch,
             ce_patch_object_format = pa_object_format patch,
             ce_patch_baseline_tree = pa_baseline_tree patch, ce_patch_result_tree = pa_result_tree patch,
             ce_git_diagnostic = pa_git_diagnostic patch, ce_patch_added = pa_added patch,
             ce_patch_deleted = pa_deleted patch, ce_patch_mode_changes = pa_mode_changes patch,
             ce_tests_ran = ds_tests_ran deterministic, ce_tests_passed = ds_tests_passed deterministic,
             ce_test_stdout_tail =
               tail_chars OUTPUT_TAIL (case executed of None \<Rightarrow> [] | Some t \<Rightarrow> te_stdout t),
             ce_test_stderr_tail = tail_chars OUTPUT_TAIL
               (case executed of None \<Rightarrow> [] | Some t \<Rightarrow> first_given (te_stderr t) (te_error t)),
             ce_validators_run = map vr_name validators,
             ce_validators_passed = ds_structural_validation_passed deterministic,
             ce_validator_results = validators,
             ce_deterministic_pass = Some (ds_deterministic_pass deterministic),
             ce_failure_reasons = ds_failure_reasons deterministic
               @ (if snd chosen = Ambiguous then [''ambiguous_patch_source''] else []),
             ce_raw_suggested_patch = fst chosen, ce_case_status = Some status,
             ce_bug_repairs = bug_repairs,
             ce_repair_confidence = Some (repair_confidence_of validated deterministic),
             ce_execution_backend = backend_of executed,
             ce_execution_unavailable = execution_unavailable_of executed\<rparr>\<rparr>)"

definition evaluate_case ::
  "case_world \<Rightarrow> run_mode \<Rightarrow> rat \<Rightarrow> bool \<Rightarrow> benchmark_case \<Rightarrow> node \<Rightarrow> (case_error, case_result) res" where
  "evaluate_case w mode beta allow_local c tree =
     and_then (review_case w allow_local c tree) (\<lambda>review.
       if mode = ReviewMode then Inr \<lparr>res_review = review, res_evidence = no_evidence\<rparr>
       else let chosen = select_case_patch (rr_parsed_response (cr_response review)) in
     and_then (apply_case_patch w c tree (fst chosen)) (\<lambda>(patch, workspace).
     and_then (run_hidden_tests w allow_local c tree patch workspace)
       (\<lambda>(executed, integrity_changes, left).
     and_then (run_case_validators w c review patch left) (\<lambda>validators.
       case score_deterministic_case c review patch executed validators beta of
         None \<Rightarrow> Inl ZeroDivision
       | Some scored \<Rightarrow>
           Inr (evidence_of c review chosen patch executed integrity_changes validators scored)))))"

section \<open>What a result says\<close>

lemma evaluate_case_Inr:
  assumes "evaluate_case w mode beta allow_local c tree = Inr r" "mode \<noteq> ReviewMode"
  obtains review patch workspace executed changes left validators scored
  where "review_case w allow_local c tree = Inr review"
    and "apply_case_patch w c tree (fst (select_case_patch (rr_parsed_response (cr_response review))))
      = Inr (patch, workspace)"
    and "run_hidden_tests w allow_local c tree patch workspace = Inr (executed, changes, left)"
    and "run_case_validators w c review patch left = Inr validators"
    and "score_deterministic_case c review patch executed validators beta = Some scored"
    and "r = evidence_of c review (select_case_patch (rr_parsed_response (cr_response review))) patch
      executed changes validators scored"
  using assms by (auto simp: evaluate_case_def Let_def res_simps split: option.splits)

definition tampered :: "case_evidence \<Rightarrow> bool" where
  "tampered e \<longleftrightarrow> ''test_integrity_violation'' \<in> set (ce_failure_reasons e)"

lemma mark_tampering_simps [simp]:
  "ds_deterministic_pass (mark_tampering d) = False"
  "ds_failure_reasons (mark_tampering d) = ds_failure_reasons d @ [''test_integrity_violation'']"
  "ds_patch_applied (mark_tampering d) = ds_patch_applied d"
  "ds_tests_ran (mark_tampering d) = ds_tests_ran d"
  "ds_tests_passed (mark_tampering d) = ds_tests_passed d"
  "ds_structural_validation_ran (mark_tampering d) = ds_structural_validation_ran d"
  "ds_structural_validation_passed (mark_tampering d) = ds_structural_validation_passed d"
  by (simp_all add: mark_tampering_def)

lemma tampering_not_validated: "\<not> execution_validates (mark_tampering d)"
  by (simp add: execution_validates_def BLOCKING_def)

lemma no_integrity_reason: "''test_integrity_violation'' \<notin> set (failure_reasons c review patch t v)"
  by (simp add: failure_reasons_def Let_def)

lemma execution_validates_scored:
  assumes "score_deterministic_case c review patch executed validators beta = Some d"
  shows "execution_validates d \<longleftrightarrow>
    pa_applied patch
    \<and> (va_patch_required (case_validation c) \<longrightarrow> py_strip (pa_patch_text patch) \<noteq> []
         \<and> (ex_run_tests (case_execution c) \<or> va_tests_required (case_validation c)
            \<or> va_structural_validators (case_validation c) \<noteq> []))
    \<and> (ex_run_tests (case_execution c) \<or> va_tests_required (case_validation c) \<longrightarrow> ds_tests_passed d = Some True)
    \<and> (va_structural_validators (case_validation c) \<noteq> [] \<longrightarrow> ds_structural_validation_passed d = Some True)"
  using score_deterministic_case_Some [OF assms]
  by (auto simp: execution_validates_def BLOCKING_def failure_reasons_def Let_def)

lemma length_filter_all: "length (filter P xs) = length xs \<longleftrightarrow> list_all P xs"
  by (metis filter_True length_filter_less list_all_iff nat_neq_iff)

definition final_score :: "string list \<Rightarrow> deterministic_case_score \<Rightarrow> deterministic_case_score" where
  "final_score integrity_changes scored =
     (if integrity_changes \<noteq> [] then mark_tampering scored else scored)"

lemma final_score_simps [simp]:
  "ds_patch_applied (final_score ch d) = ds_patch_applied d"
  "ds_tests_ran (final_score ch d) = ds_tests_ran d"
  "ds_tests_passed (final_score ch d) = ds_tests_passed d"
  "ds_structural_validation_ran (final_score ch d) = ds_structural_validation_ran d"
  "ds_structural_validation_passed (final_score ch d) = ds_structural_validation_passed d"
  by (simp_all add: final_score_def)

lemma evidence_simps:
  fixes c review chosen patch executed ch validators scored
  defines "e \<equiv> res_evidence (evidence_of c review chosen patch executed ch validators scored)"
    and "r \<equiv> res_review (evidence_of c review chosen patch executed ch validators scored)"
    and "d \<equiv> final_score ch scored"
  shows "ce_deterministic_case_score e = Some d" "ce_patch_applied e = ds_patch_applied scored"
    "ce_tests_ran e = ds_tests_ran scored" "ce_tests_passed e = ds_tests_passed scored"
    "ce_validators_run e = map vr_name validators"
    "ce_validators_passed e = ds_structural_validation_passed scored"
    "ce_deterministic_pass e = Some (ds_deterministic_pass d)"
    "ce_failure_reasons e = ds_failure_reasons d
       @ (if snd chosen = Ambiguous then [''ambiguous_patch_source''] else [])"
    "ce_repair_confidence e = Some (repair_confidence_of (execution_validates d) d)"
    "ce_execution_backend e = backend_of executed"
    "ce_execution_unavailable e = execution_unavailable_of executed"
    "ce_bug_repairs e = fst (attribute_evidence c (apply_execution_fix_quality c review (execution_validates d))
       d (execution_validates d) (ch \<noteq> []))"
    "cr_scored_findings r = fst (snd (attribute_evidence c
       (apply_execution_fix_quality c review (execution_validates d)) d (execution_validates d) (ch \<noteq> [])))"
    "ce_case_status e = Some (snd (snd (attribute_evidence c
       (apply_execution_fix_quality c review (execution_validates d)) d (execution_validates d) (ch \<noteq> []))))"
    "cr_response r = cr_response review"
  unfolding e_def r_def d_def final_score_def evidence_of_def Let_def
  by (simp_all add: apply_execution_fields split: prod.split)

lemma attribute_evidence_simps:
  "fst (attribute_evidence c r d v t) = map (\<lambda>(index, bug).
     \<lparr>br_bug_id = bug_id bug,
      br_detected = (Some index \<in> set (map sf_matched_bug_index (filter sf_is_true_positive (cr_scored_findings r)))),
      br_repaired = v\<rparr>) (enum_list (gt_bugs (case_ground_truth c)))"
  "fst (snd (attribute_evidence c r d v t)) =
     map (\<lambda>item. item\<lparr>sf_evidence_status := Some (finding_status v item)\<rparr>) (cr_scored_findings r)"
  by (simp_all add: attribute_evidence_def Let_def)

lemma attribute_status:
  "snd (snd (attribute_evidence c r d v t)) =
     (if t then Tampering
      else if \<not> (ds_tests_ran d \<or> ds_structural_validation_ran d) then Inconclusive
      else if v \<and> list_all br_detected (fst (attribute_evidence c r d v t)) then CompleteRepair
      else if v then PartialRepair
      else if list_ex br_detected (fst (attribute_evidence c r d v t)) then DetectedButUnrepaired
      else NoDetection)"
  unfolding length_filter_all [symmetric]
  by (simp add: attribute_evidence_def Let_def filter_empty_conv list_ex_iff)

lemma applied_patch_text:
  assumes "apply_case_patch w c tree chosen = Inr (patch, workspace)" "pa_applied patch"
  shows "py_strip (pa_patch_text patch) \<noteq> []"
proof -
  let ?t = "case chosen of None \<Rightarrow> [] | Some s \<Rightarrow> s"
  have "pa_patch_text patch = ?t \<and> (pa_applied patch \<longrightarrow> py_strip ?t \<noteq> [])"
    using assms(1) unfolding apply_case_patch_def applier_apply_def
    by (auto simp: applier_result_def apply_patch_def patch_not_applied_def split: option.splits sum.splits prod.splits if_splits)
  then show ?thesis using assms(2) by simp
qed

definition hidden_request :: "case_world \<Rightarrow> bool \<Rightarrow> benchmark_case \<Rightarrow> patch_apply_result \<Rightarrow> test_request" where
  "hidden_request w allow_local c patch =
     test_request_for w c (pa_workspace_path patch) (the (ex_test_command (case_execution c))) 2 allow_local
       (case in_tests_dir (case_input_of c) of None \<Rightarrow> [] | Some d \<Rightarrow> if d = [] then [] else [d])"

lemma run_hidden_tests_unfold:
  "run_hidden_tests w allow_local c tree patch workspace =
     (if pa_applied patch \<and> ex_run_tests (case_execution c) \<and> command_given (ex_test_command (case_execution c))
      then and_then (place_tests c tree workspace) (\<lambda>ready.
        case execute (cw_executor w 2) (hidden_request w allow_local c patch) ready of
          (Inl err, _) \<Rightarrow> Inl (CommandNotRun err)
        | (Inr t, left) \<Rightarrow> Inr (Some t,
            manifest_changes (file_manifest (cw_sha256 w) (cw_behind_tests w 0) (tests_root c ready))
              (file_manifest (cw_sha256 w) (cw_behind_tests w 1) (tests_root c left)), left))
      else Inr (None, [], workspace))"
  by (simp add: run_hidden_tests_def hidden_request_def Let_def)

lemma hidden_tests_cases:
  assumes "run_hidden_tests w allow_local c tree patch workspace = Inr (executed, changes, left)"
  obtains "executed = None" "changes = []" "left = workspace"
  | t ready where "executed = Some t" "pa_applied patch" "ex_run_tests (case_execution c)"
    "place_tests c tree workspace = Inr ready"
    "execute (cw_executor w 2) (hidden_request w allow_local c patch) ready = (Inr t, left)"
    "changes = manifest_changes (file_manifest (cw_sha256 w) (cw_behind_tests w 0) (tests_root c ready))
       (file_manifest (cw_sha256 w) (cw_behind_tests w 1) (tests_root c left))"
proof (cases "pa_applied patch \<and> ex_run_tests (case_execution c) \<and> command_given (ex_test_command (case_execution c))")
  case False
  show ?thesis using assms that(1) unfolding run_hidden_tests_unfold if_not_P [OF False] by simp
next
  case True
  then obtain ready where ready: "place_tests c tree workspace = Inr ready"
    using assms by (auto simp: run_hidden_tests_unfold and_then_Inr)
  obtain e l where ex: "execute (cw_executor w 2) (hidden_request w allow_local c patch) ready = (e, l)"
    by fastforce
  show ?thesis
    using assms True that(2) [OF _ _ _ ready] ex by (cases e) (auto simp: run_hidden_tests_unfold ready)
qed

lemma case_validators_run:
  assumes "run_case_validators w c review patch left = Inr validators" "validators \<noteq> []"
  shows "va_structural_validators (case_validation c) \<noteq> []"
  using assms by (auto simp: run_case_validators_def Let_def split: if_splits)

text \<open>
  C12: full credit for a repair. A case outside review mode is recorded as completely repaired exactly when
  the hidden tests were not tampered with, tests or validators ran, the patch was applied, required
  tests passed, configured validators passed, and every seeded bug was detected.
\<close>

theorem complete_repair_iff:
  assumes "evaluate_case w mode beta allow_local c tree = Inr r" "mode \<noteq> ReviewMode"
  shows "ce_case_status (res_evidence r) = Some CompleteRepair \<longleftrightarrow>
    \<not> tampered (res_evidence r)
    \<and> (ce_tests_ran (res_evidence r) \<or> ce_validators_run (res_evidence r) \<noteq> [])
    \<and> ce_patch_applied (res_evidence r)
    \<and> (ex_run_tests (case_execution c) \<or> va_tests_required (case_validation c)
         \<longrightarrow> ce_tests_passed (res_evidence r) = Some True)
    \<and> (va_structural_validators (case_validation c) \<noteq> [] \<longrightarrow> ce_validators_passed (res_evidence r) = Some True)
    \<and> list_all br_detected (ce_bug_repairs (res_evidence r))"
proof -
  obtain review patch workspace executed changes left validators scored
    where patch: "apply_case_patch w c tree (fst (select_case_patch (rr_parsed_response (cr_response review))))
        = Inr (patch, workspace)"
      and tests: "run_hidden_tests w allow_local c tree patch workspace = Inr (executed, changes, left)"
      and vals: "run_case_validators w c review patch left = Inr validators"
      and scored: "score_deterministic_case c review patch executed validators beta = Some scored"
      and r: "r = evidence_of c review (select_case_patch (rr_parsed_response (cr_response review))) patch
        executed changes validators scored"
    using evaluate_case_Inr [OF assms] by metis
  note s = score_deterministic_case_Some [OF scored]
  have t: "tampered (res_evidence r) \<longleftrightarrow> changes \<noteq> []"
    using no_integrity_reason by (auto simp: tampered_def r evidence_simps final_score_def s(1))
  have ran: "ds_tests_ran scored \<or> validators \<noteq> [] \<Longrightarrow> ex_run_tests (case_execution c)
      \<or> va_tests_required (case_validation c) \<or> va_structural_validators (case_validation c) \<noteq> []"
    using case_validators_run [OF vals] s(4) by (cases rule: hidden_tests_cases [OF tests]) auto
  show ?thesis
  proof (cases "changes = []")
    case True
    then show ?thesis
      using t ran applied_patch_text [OF patch] s(3,5)
      by (auto simp: r evidence_simps attribute_status final_score_def execution_validates_scored [OF scored])
  next
    case False
    then show ?thesis using t by (simp add: r evidence_simps attribute_status)
  qed
qed

text \<open>
  C13: tampering with the hidden tests never pays. A case is marked as tampering exactly when the manifest of
  the hidden tests after the run differs from the one before it; then the case fails, no bug counts
  as repaired, no finding as validated and the repair has no confidence. And when tests ran and the case is not
  so marked, every tracked file that the tests directory leads to is after the run what it was before.
\<close>

theorem tampering_never_validates:
  assumes "evaluate_case w mode beta allow_local c tree = Inr r" "mode \<noteq> ReviewMode"
  shows "(ce_case_status (res_evidence r) = Some Tampering \<longleftrightarrow> tampered (res_evidence r))
    \<and> (tampered (res_evidence r) \<longrightarrow>
         ce_deterministic_pass (res_evidence r) = Some False
         \<and> ce_repair_confidence (res_evidence r) = Some Unvalidated
         \<and> list_all (\<lambda>b. \<not> br_repaired b) (ce_bug_repairs (res_evidence r))
         \<and> list_all (\<lambda>i. sf_evidence_status i \<noteq> Some RepairValidated) (cr_scored_findings (res_review r)))
    \<and> (ce_tests_ran (res_evidence r) \<longrightarrow>
         (\<exists>patch ready t left.
            execute (cw_executor w 2) (hidden_request w allow_local c patch) ready = (Inr t, left) \<and> te_ran t
            \<and> (tampered (res_evidence r) \<longleftrightarrow>
                 map_of (file_manifest (cw_sha256 w) (cw_behind_tests w 0) (tests_root c ready))
                 \<noteq> map_of (file_manifest (cw_sha256 w) (cw_behind_tests w 1) (tests_root c left)))))"
proof -
  obtain review patch workspace executed changes left validators scored
    where tests: "run_hidden_tests w allow_local c tree patch workspace = Inr (executed, changes, left)"
      and scored: "score_deterministic_case c review patch executed validators beta = Some scored"
      and r: "r = evidence_of c review (select_case_patch (rr_parsed_response (cr_response review))) patch
        executed changes validators scored"
    using evaluate_case_Inr [OF assms] by metis
  note s = score_deterministic_case_Some [OF scored]
  have t: "tampered (res_evidence r) \<longleftrightarrow> changes \<noteq> []"
    using no_integrity_reason by (auto simp: tampered_def r evidence_simps final_score_def s(1))
  have "ce_case_status (res_evidence r) = Some Tampering \<longleftrightarrow> changes \<noteq> []"
    by (simp add: r evidence_simps attribute_status)
  moreover have "ce_deterministic_pass (res_evidence r) = Some False
      \<and> ce_repair_confidence (res_evidence r) = Some Unvalidated
      \<and> list_all (\<lambda>b. \<not> br_repaired b) (ce_bug_repairs (res_evidence r))
      \<and> list_all (\<lambda>i. sf_evidence_status i \<noteq> Some RepairValidated) (cr_scored_findings (res_review r))"
    if "changes \<noteq> []"
    using that by (auto simp: r evidence_simps attribute_evidence_simps final_score_def repair_confidence_of_def
        tampering_not_validated list_all_iff finding_status_def)
  moreover have "\<exists>patch ready t left.
      execute (cw_executor w 2) (hidden_request w allow_local c patch) ready = (Inr t, left) \<and> te_ran t
      \<and> (changes \<noteq> [] \<longleftrightarrow> map_of (file_manifest (cw_sha256 w) (cw_behind_tests w 0) (tests_root c ready))
           \<noteq> map_of (file_manifest (cw_sha256 w) (cw_behind_tests w 1) (tests_root c left)))"
    if "ce_tests_ran (res_evidence r)"
  proof -
    have ran: "\<exists>t. executed = Some t \<and> te_ran t" using that s(4) by (simp add: r evidence_simps)
    show ?thesis
    proof (cases rule: hidden_tests_cases [OF tests])
      case 1
      then show ?thesis using ran by simp
    next
      case (2 t ready)
      then show ?thesis using ran by (intro exI conjI) (assumption, simp_all add: tests.quiet_iff)
    qed
  qed
  ultimately show ?thesis using t by blast
qed

section \<open>A case that runs\<close>

text \<open>One seeded bug, found and repaired; the hidden tests pass, and may be rewritten while they run.\<close>

definition single_case :: benchmark_case where
  "single_case = sample_case\<lparr>case_ground_truth :=
     \<lparr>gt_bugs = [sample_bug ''a.py'' [''lock'']], gt_acceptable_findings = []\<rparr>\<rparr>"

definition single_response :: reviewer_response where
  "single_response = sample_response\<lparr>rr_parsed_response := Some
     \<lparr>rv_findings = [sample_finding], rv_proposed_patch = Some ''p'', rv_overall_risk = RiskHigh,
      rv_review_summary = []\<rparr>\<rparr>"

definition single_tree :: node where
  "single_tree = Dir [(''pr.diff'', File ''+++ b/a.py'' False 1), (''before'', Dir []),
     (''after'', toy_source), (''tests'', Dir [(''t.py'', File ''t'' False 1)])]"

definition child_ok :: supervised_result where
  "child_ok = \<lparr>sv_returncode = Some 0, sv_stdout = ''ok'', sv_stderr = [], sv_timed_out = False,
     sv_output_limit_exceeded = False\<rparr>"

definition local_executor :: "(node \<Rightarrow> node) \<Rightarrow> executor_env" where
  "local_executor leave =
     \<lparr>xe_win32 = False, xe_sys_executable = ''python'', xe_environ = (\<lambda>_. None), xe_environ_list = [],
      xe_home = ''h'', xe_uid = 1, xe_gid = 1, xe_has_docker = False, xe_docker = (\<lambda>_. (1, [])),
      xe_remove_hangs = (\<lambda>_. False), xe_uuid = (\<lambda>_. ''u''), xe_mount_source = (\<lambda>_. None),
      xe_describe = (\<lambda>_. []), xe_run = (\<lambda>args env timeout n. Some (child_ok, 5, leave n))\<rparr>"

definition rewrite_tests :: "node \<Rightarrow> node" where
  "rewrite_tests n = Dir (alist_put ''tests'' (Dir [(''t.py'', File ''pass'' False 1)]) (entries_of n))"

definition toy_world :: "(node \<Rightarrow> node) \<Rightarrow> case_world" where
  "toy_world leave =
     \<lparr>cw_codec = latin,
      cw_tools = \<lparr>pt_uncommented = Some, pt_parse = (\<lambda>_. None), pt_unparse = (\<lambda>_. []), pt_dump = (\<lambda>_. []),
        pt_repr = (\<lambda>s. s), pt_value_error = (\<lambda>_ _. None), pt_not_directory = (\<lambda>s. s)\<rparr>,
      cw_git = toy_context, cw_sha256 = (\<lambda>s. s),
      cw_executor = (\<lambda>stage. local_executor (if stage = 2 then leave else (\<lambda>n. n))),
      cw_missing = (\<lambda>_. None), cw_remaining = (\<lambda>_. None), cw_reviewer = (\<lambda>_. Inr single_response),
      cw_case_dir = ''c'', cw_temp_dir = ''m'', cw_runs_root = ''r'', cw_run_id = ''run-1'', cw_patch_ms = 3,
      cw_prior = None, cw_behind_tests = (\<lambda>_. None), cw_behind_link = Inr None\<rparr>"

definition is_Inr :: "('e, 'a) res \<Rightarrow> bool" where
  "is_Inr r = (case r of Inl _ \<Rightarrow> False | Inr _ \<Rightarrow> True)"

lemma is_InrE: "is_Inr r \<Longrightarrow> \<exists>x. r = Inr x"
  by (auto simp: is_Inr_def split: sum.splits)

definition toy_preview :: "(node \<Rightarrow> node) \<Rightarrow> (case_error, case_context \<times> string) res" where
  "toy_preview leave =
     and_then (materialized_case single_case single_tree) (\<lambda>materialized.
     and_then (preview_tests (toy_world leave) True single_case materialized) (\<lambda>(test_output, left).
     and_then (preview_analysis (toy_world leave) True single_case left) (\<lambda>static_output.
     and_then (raise_as ContextFailed (build_context latin default_limits ''c'' single_case single_tree test_output
         static_output)) (\<lambda>context. Inr (context, test_output)))))"

lemma toy_preview_ok: "is_Inr (toy_preview id)" "is_Inr (toy_preview rewrite_tests)"
  by code_simp+

definition toy_stages :: "(node \<Rightarrow> node) \<Rightarrow> (case_error, bool \<times> bool \<times> bool option \<times> string list) res" where
  "toy_stages leave =
     and_then (apply_case_patch (toy_world leave) single_case single_tree (Some ''p'')) (\<lambda>(patch, workspace).
     and_then (run_hidden_tests (toy_world leave) True single_case single_tree patch workspace)
       (\<lambda>(executed, changes, left).
       Inr (pa_applied patch, pa_unsafe_paths patch @ pa_touched_protected patch = [],
            (case executed of None \<Rightarrow> None | Some t \<Rightarrow> if te_ran t then Some (te_passed t) else None), changes)))"

lemma toy_stages_run:
  "toy_stages id = Inr (True, True, Some True, [])"
  "toy_stages rewrite_tests = Inr (True, True, Some True, [''modified:t.py''])"
  by code_simp+

lemma single_review:
  "\<exists>review. score_case single_case single_response out = Some review
     \<and> map sf_matched_bug_index (filter sf_is_true_positive (cr_scored_findings review)) = [Some 0]
     \<and> cr_response review = single_response"
proof -
  let ?p = "\<lparr>pc_concept = 1, pc_file = 1, pc_line = 1, pc_severity = 1, pc_fix = 8 / 15, pc_line_quality = Full\<rparr>"
  have simps: "response_findings single_response = [sample_finding]"
    "case_bugs single_case = [sample_bug ''a.py'' [''lock'']]"
    "sc_weights (case_scoring single_case) = sc_weights (case_scoring sample_case)"
    by (simp_all add: response_findings_def single_response_def case_bugs_def single_case_def)
  have same: "case_category single_case = case_category sample_case"
    "benchmark_case.case_severity single_case = benchmark_case.case_severity sample_case"
    by (simp_all add: single_case_def)
  have "pair_components sample_finding single_case (sample_bug ''a.py'' [''lock'']) = Some ?p"
    using sample_pairs(1) unfolding pair_components_def same .
  then have e: "eligible_pairs [sample_finding] single_case = [((0, 0), ?p)]"
    by (simp add: eligible_pairs_def enum_list_def simps)
  have "max_weight_matching [((0, 0), 88)] 1 = Some [(0, 0)]" by code_simp
  then have "assign_findings_to_bugs [sample_finding] single_case = Some [(0, 0, ?p)]"
    by (simp add: assign_findings_to_bugs_def Let_def e simps pair_weights_def sample_simps(6) weighted_value_def)
  then show ?thesis
    by (simp add: score_case_def simps score_assigned_def Let_def enum_list_def)
qed

lemma toy_review:
  assumes "is_Inr (toy_preview leave)"
  obtains review out k where
    "review_case (toy_world leave) True single_case single_tree = Inr (review\<lparr>cr_context_truncated := k\<rparr>)"
    "score_case single_case single_response out = Some review"
    "map sf_matched_bug_index (filter sf_is_true_positive (cr_scored_findings review)) = [Some 0]"
    "cr_response review = single_response"
proof -
  obtain context' out where p: "toy_preview leave = Inr (context', out)" using is_InrE [OF assms] by auto
  obtain review where r: "score_case single_case single_response out = Some review"
    "map sf_matched_bug_index (filter sf_is_true_positive (cr_scored_findings review)) = [Some 0]"
    "cr_response review = single_response" using single_review [of out] by (elim exE conjE) (rule that)
  have w: "cw_codec (toy_world leave) = latin" "cw_case_dir (toy_world leave) = ''c''"
    "cw_reviewer (toy_world leave) = (\<lambda>_. Inr single_response)" by (simp_all add: toy_world_def)
  have "review_case (toy_world leave) True single_case single_tree
      = Inr (review\<lparr>cr_context_truncated := cc_context_truncated context'\<rparr>)"
    using p r(1) by (auto simp: review_case_def toy_preview_def w res_simps)
  then show thesis using r by (rule that)
qed

lemma truncation_not_scored:
  "score_deterministic_case c (review\<lparr>cr_context_truncated := k\<rparr>) patch tests validators beta
   = score_deterministic_case c review patch tests validators beta"
proof -
  let ?r = "review\<lparr>cr_context_truncated := k\<rparr>"
  have f: "cr_bugs_matched ?r = cr_bugs_matched review" "cr_bugs_total ?r = cr_bugs_total review"
    "cr_bug_found ?r = cr_bug_found review" "cr_correct_line ?r = cr_correct_line review"
    "cr_false_positive_count ?r = cr_false_positive_count review" by simp_all
  show ?thesis unfolding score_deterministic_case_def failure_reasons_def f ..
qed

lemma toy_case:
  assumes "is_Inr (toy_preview leave)" "toy_stages leave = Inr (True, True, Some True, changes)"
  obtains r where "evaluate_case (toy_world leave) FullMode 1 True single_case single_tree = Inr r"
    "tampered (res_evidence r) \<longleftrightarrow> changes \<noteq> []" "ce_tests_ran (res_evidence r)"
    "ce_patch_applied (res_evidence r)" "ce_tests_passed (res_evidence r) = Some True"
    "list_all br_detected (ce_bug_repairs (res_evidence r))"
proof -
  obtain review out k where review:
    "review_case (toy_world leave) True single_case single_tree = Inr (review\<lparr>cr_context_truncated := k\<rparr>)"
    and score: "score_case single_case single_response out = Some review"
    and found: "map sf_matched_bug_index (filter sf_is_true_positive (cr_scored_findings review)) = [Some 0]"
    and response: "cr_response review = single_response"
    by (rule toy_review [OF assms(1)])
  have chosen: "fst (select_case_patch (rr_parsed_response single_response)) = Some ''p''"
    by code_simp
  have no_validators: "va_structural_validators (case_validation single_case) = []"
    by (simp add: single_case_def sample_case_def)
  obtain patch workspace executed left where stages:
    "apply_case_patch (toy_world leave) single_case single_tree (Some ''p'') = Inr (patch, workspace)"
    "run_hidden_tests (toy_world leave) True single_case single_tree patch workspace
       = Inr (executed, changes, left)"
    and patch: "pa_applied patch"
    and passed: "(case executed of None \<Rightarrow> None | Some t \<Rightarrow> if te_ran t then Some (te_passed t) else None) = Some True"
    using assms(2) by (auto simp: toy_stages_def res_simps)
  obtain scored where scored:
    "score_deterministic_case single_case (review\<lparr>cr_context_truncated := k\<rparr>) patch executed [] 1 = Some scored"
    unfolding truncation_not_scored 
    using det_score_total [OF score, where beta = 1 and patch = patch and tests = executed and validators = "[]"]
    by auto
  have "evaluate_case (toy_world leave) FullMode 1 True single_case single_tree
      = Inr (evidence_of single_case (review\<lparr>cr_context_truncated := k\<rparr>)
          (select_case_patch (rr_parsed_response single_response)) patch executed changes [] scored)"
    (is "_ = Inr ?r")
    using review stages scored
    by (simp add: evaluate_case_def Let_def response chosen run_case_validators_def no_validators)
  moreover note s = score_deterministic_case_Some [OF scored]
  have "tampered (res_evidence ?r) \<longleftrightarrow> changes \<noteq> []"
    using no_integrity_reason by (auto simp: tampered_def evidence_simps final_score_def s(1))
  moreover have "ce_tests_ran (res_evidence ?r)"
    using passed s(4) by (auto simp: evidence_simps split: option.splits if_splits)
  moreover have "ce_patch_applied (res_evidence ?r)" using patch s(3) by (simp add: evidence_simps)
  moreover have "ce_tests_passed (res_evidence ?r) = Some True" using passed s(7) by (simp add: evidence_simps)
  moreover have "list_all br_detected (ce_bug_repairs (res_evidence ?r))"
    using found by (simp add: evidence_simps attribute_evidence_simps apply_execution_fields single_case_def
        enum_list_def)
  ultimately show thesis by (rule that)
qed

theorem complete_repair_iff_witness:
  "\<exists>r. evaluate_case (toy_world id) FullMode 1 True single_case single_tree = Inr r
     \<and> ce_case_status (res_evidence r) = Some CompleteRepair"
proof -
  obtain r where r: "evaluate_case (toy_world id) FullMode 1 True single_case single_tree = Inr r"
    "tampered (res_evidence r) \<longleftrightarrow> [] \<noteq> ([] :: string list)" "ce_tests_ran (res_evidence r)"
    "ce_patch_applied (res_evidence r)" "ce_tests_passed (res_evidence r) = Some True"
    "list_all br_detected (ce_bug_repairs (res_evidence r))"
    using toy_case [OF toy_preview_ok(1) toy_stages_run(1)] by metis
  have "va_structural_validators (case_validation single_case) = []"
    by (simp add: single_case_def sample_case_def)
  then show ?thesis using complete_repair_iff [OF r(1)] r by (intro exI [of _ r]) simp
qed

theorem tampering_never_validates_witness:
  "\<exists>r. evaluate_case (toy_world rewrite_tests) FullMode 1 True single_case single_tree = Inr r
     \<and> ce_tests_passed (res_evidence r) = Some True \<and> ce_case_status (res_evidence r) = Some Tampering
     \<and> ce_deterministic_pass (res_evidence r) = Some False"
proof -
  obtain r where r: "evaluate_case (toy_world rewrite_tests) FullMode 1 True single_case single_tree = Inr r"
    "tampered (res_evidence r) \<longleftrightarrow> [''modified:t.py''] \<noteq> []"
    "ce_tests_passed (res_evidence r) = Some True"
    using toy_case [OF toy_preview_ok(2) toy_stages_run(2)] by metis
  then show ?thesis using tampering_never_validates [OF r(1)] by (intro exI [of _ r]) simp
qed

end
