(* ===== verification/Bundle.thy ===== *)
theory Bundle
  imports Reviewers
begin

text \<open>
  \<open>arena/reports/bundle.py\<close>: sealing the artifacts of a run and verifying them later.

  A run directory is its listing of top-level entries. The text of \<open>checksums.json\<close> is written and read
  by the standard library's \<open>json\<close>; what it holds is the value \<open>recorded\<close>, and a file that cannot be read
  as one is \<open>Unreadable\<close>. Bytes that are not UTF-8 are among these here: the code does not catch the
  \<open>UnicodeDecodeError\<close> they raise, so such a directory is not verified in the code either, but with an exception
  in the place of a report. SHA-256 is a parameter.
\<close>

section \<open>Definitions\<close>

type_synonym file_hashes = "(string \<times> string) list"

record recorded =
  rc_bundle_id :: "string option"
  rc_files :: file_hashes

datatype artifact = Artifact string | Folder | Checksums recorded | Unreadable string

type_synonym run_dir = "(string \<times> artifact) list"

definition CHECKSUMS_FILENAME :: string where "CHECKSUMS_FILENAME = ''checksums.json''"

fun artifact_bytes :: "(recorded \<Rightarrow> string) \<Rightarrow> artifact \<Rightarrow> string option" where
  "artifact_bytes dump (Artifact bytes) = Some bytes"
| "artifact_bytes dump Folder = None"
| "artifact_bytes dump (Checksums r) = Some (dump r)"
| "artifact_bytes dump (Unreadable bytes) = Some bytes"

text \<open>\<open>_file_hashes\<close>: \<open>dump\<close> is the text a recorded value is stored as.\<close>

definition hash_entry ::
  "(string \<Rightarrow> string) \<Rightarrow> (recorded \<Rightarrow> string) \<Rightarrow> string \<times> artifact \<Rightarrow> file_hashes" where
  "hash_entry sha256 dump = (\<lambda>(name, a).
     case artifact_bytes dump a of
       None \<Rightarrow> []
     | Some bytes \<Rightarrow> if name = CHECKSUMS_FILENAME then [] else [(name, sha256 bytes)])"

definition compute_hashes :: "(string \<Rightarrow> string) \<Rightarrow> (recorded \<Rightarrow> string) \<Rightarrow> run_dir \<Rightarrow> file_hashes" where
  "compute_hashes sha256 dump d = concat (map (hash_entry sha256 dump) (sort_key fst d))"

text \<open>\<open>json.dumps(file_hashes, sort_keys=True, separators=(",", ":"))\<close>.\<close>

definition dump_pair :: "string \<times> string \<Rightarrow> string" where
  "dump_pair = (\<lambda>(k, v). dump_string k @ '':'' @ dump_string v)"

definition canonical :: "file_hashes \<Rightarrow> string" where
  "canonical hashes = ''{'' @ join_with '','' (map dump_pair (sort_key fst hashes)) @ ''}''"

definition bundle_id :: "(string \<Rightarrow> string) \<Rightarrow> file_hashes \<Rightarrow> string" where
  "bundle_id sha256 hashes = sha256 (canonical hashes)"

text \<open>Writing over a directory of that name raises \<open>IsADirectoryError\<close>: \<open>None\<close>.\<close>

definition write_bundle_checksums ::
  "(string \<Rightarrow> string) \<Rightarrow> (recorded \<Rightarrow> string) \<Rightarrow> run_dir \<Rightarrow> (string \<times> run_dir) option" where
  "write_bundle_checksums sha256 dump d =
     (let hashes = compute_hashes sha256 dump d; identifier = bundle_id sha256 hashes in
      if map_of d CHECKSUMS_FILENAME = Some Folder then None
      else Some (identifier, alist_put CHECKSUMS_FILENAME
         (Checksums \<lparr>rc_bundle_id = Some identifier, rc_files = hashes\<rparr>) d))"

record bundle_verification =
  bv_ok :: bool
  bv_bundle_id :: "string option"
  bv_bundle_id_ok :: bool
  bv_missing :: "string list"
  bv_modified :: "string list"
  bv_added :: "string list"
  bv_expected_id_ok :: bool
  bv_error :: "string option"

definition failed_verification :: "string \<Rightarrow> bundle_verification" where
  "failed_verification error =
     \<lparr>bv_ok = False, bv_bundle_id = None, bv_bundle_id_ok = True, bv_missing = [], bv_modified = [],
      bv_added = [], bv_expected_id_ok = True, bv_error = Some error\<rparr>"

definition missing_names :: "file_hashes \<Rightarrow> file_hashes \<Rightarrow> string list" where
  "missing_names recorded_files current =
     sorted_set (filter (\<lambda>n. n \<notin> set (map fst current)) (map fst recorded_files))"

definition modified_names :: "file_hashes \<Rightarrow> file_hashes \<Rightarrow> string list" where
  "modified_names recorded_files current =
     sorted_set (filter (\<lambda>n. n \<in> set (map fst current) \<and> map_of recorded_files n \<noteq> map_of current n)
       (map fst recorded_files))"

definition compare_bundle ::
  "(string \<Rightarrow> string) \<Rightarrow> recorded \<Rightarrow> file_hashes \<Rightarrow> string option \<Rightarrow> bundle_verification" where
  "compare_bundle sha256 r current expected_id =
     (let missing = missing_names (rc_files r) current;
          added = missing_names current (rc_files r);
          modified = modified_names (rc_files r) current;
          bundle_id_ok = (rc_bundle_id r = Some (bundle_id sha256 (rc_files r)));
          expected_id_ok = (expected_id = None \<or> rc_bundle_id r = expected_id)
      in \<lparr>bv_ok = (missing = [] \<and> added = [] \<and> modified = [] \<and> bundle_id_ok \<and> expected_id_ok),
          bv_bundle_id = rc_bundle_id r, bv_bundle_id_ok = bundle_id_ok, bv_missing = missing,
          bv_modified = modified, bv_added = added, bv_expected_id_ok = expected_id_ok,
          bv_error = None\<rparr>)"

definition verify_bundle ::
  "(string \<Rightarrow> string) \<Rightarrow> (recorded \<Rightarrow> string) \<Rightarrow> run_dir \<Rightarrow> string option \<Rightarrow> bundle_verification" where
  "verify_bundle sha256 dump d expected_id =
     (case map_of d CHECKSUMS_FILENAME of
        None \<Rightarrow> failed_verification ''no checksums.json (not a v2 evidence bundle)''
      | Some Folder \<Rightarrow> failed_verification ''no checksums.json (not a v2 evidence bundle)''
      | Some (Artifact _) \<Rightarrow> failed_verification ''unreadable checksums.json''
      | Some (Unreadable _) \<Rightarrow> failed_verification ''unreadable checksums.json''
      | Some (Checksums r) \<Rightarrow> compare_bundle sha256 r (compute_hashes sha256 dump d) expected_id)"

section \<open>The canonical text determines the hashes\<close>

definition hex_value :: "char \<Rightarrow> nat" where
  "hex_value c = (let n = (of_char c :: nat) in if n < 58 then n - 48 else n - 87)"

fun undump :: "string \<Rightarrow> (char \<times> string) option" where
  "undump [] = None"
| "undump (c # s) =
     (if c \<noteq> CHR 0x5C then Some (c, s)
      else case s of
        [] \<Rightarrow> None
      | e # t \<Rightarrow>
          if e = CHR ''n'' then Some (CHR 0x0A, t)
          else if e = CHR ''r'' then Some (CHR 0x0D, t)
          else if e = CHR ''t'' then Some (CHR 0x09, t)
          else if e = CHR ''f'' then Some (CHR 0x0C, t)
          else if e = CHR ''b'' then Some (CHR 0x08, t)
          else if e = CHR ''u'' then Some (char_of (16 * hex_value (t ! 2) + hex_value (t ! 3)), drop 4 t)
          else Some (e, t))"

lemma hex_value_digit: "n < 16 \<Longrightarrow> hex_value (hex_digit n) = n"
proof -
  have "\<forall>n \<in> set [0..<16]. hex_value (hex_digit n) = n" by code_simp
  then show "n < 16 \<Longrightarrow> hex_value (hex_digit n) = n" by simp
qed

lemma of_char_less_256: "(of_char c :: nat) < 256"
  using nat_of_char_less_256 by simp

lemma char_eqI: "(of_char c :: nat) = n \<Longrightarrow> of_char d = n \<Longrightarrow> c = d"
  using of_char_eq_iff [of c d, where 'a = nat] by simp

lemma undump_dump_char: "undump (dump_char c @ s) = Some (c, s)"
proof -
  let ?n = "of_char c :: nat"
  consider "c = CHR 0x22" | "c = CHR 0x5C" | "?n = 10" | "?n = 13" | "?n = 9" | "?n = 12" | "?n = 8"
    | "c \<noteq> CHR 0x22" "c \<noteq> CHR 0x5C" "?n \<noteq> 10" "?n \<noteq> 13" "?n \<noteq> 9" "?n \<noteq> 12" "?n \<noteq> 8" "?n < 32 \<or> 126 < ?n"
    | "c \<noteq> CHR 0x22" "c \<noteq> CHR 0x5C" "\<not> (?n < 32 \<or> 126 < ?n)" by blast
  then show ?thesis
  proof cases
    case 3
    then have "c = CHR 0x0A" by (rule char_eqI) simp
    then show ?thesis by (simp add: dump_char_def)
  next
    case 4
    then have "c = CHR 0x0D" by (rule char_eqI) simp
    then show ?thesis by (simp add: dump_char_def)
  next
    case 5
    then have "c = CHR 0x09" by (rule char_eqI) simp
    then show ?thesis by (simp add: dump_char_def)
  next
    case 6
    then have "c = CHR 0x0C" by (rule char_eqI) simp
    then show ?thesis by (simp add: dump_char_def)
  next
    case 7
    then have "c = CHR 0x08" by (rule char_eqI) simp
    then show ?thesis by (simp add: dump_char_def)
  next
    case 8
    have "?n div 16 < 16" "?n mod 16 < 16" using of_char_less_256 [of c] by linarith+
    then have "char_of (16 * hex_value (hex_digit (?n div 16)) + hex_value (hex_digit (?n mod 16))) = c"
      by (simp add: hex_value_digit)
    then show ?thesis using 8 by (simp add: dump_char_def Let_def)
  next
    case 9
    then have "dump_char c = [c]" by (auto simp: dump_char_def Let_def)
    then show ?thesis using 9 by simp
  qed (simp_all add: dump_char_def)
qed

lemma dump_char_neq: "hd (dump_char c) \<noteq> CHR 0x22" "dump_char c \<noteq> []"
  by (auto simp: dump_char_def Let_def)

text \<open>A dumped string is self-delimiting: two texts that start with one split at the same place.\<close>

lemma dump_body_inject:
  "concat (map dump_char s) @ CHR 0x22 # x = concat (map dump_char t) @ CHR 0x22 # y \<Longrightarrow> s = t \<and> x = y"
proof (induction s arbitrary: t)
  case Nil
  then show ?case
    using dump_char_neq [of "hd t"] by (cases t) (auto simp: Cons_eq_append_conv neq_Nil_conv)
next
  case (Cons a s)
  show ?case
  proof (cases t)
    case Nil
    then show ?thesis
      using Cons.prems dump_char_neq [of a] by (auto simp: append_eq_Cons_conv neq_Nil_conv)
  next
    case (Cons b t')
    have "undump (dump_char a @ concat (map dump_char s) @ CHR 0x22 # x)
        = undump (dump_char b @ concat (map dump_char t') @ CHR 0x22 # y)"
      using Cons.prems local.Cons by simp
    then show ?thesis using Cons.IH local.Cons by (simp add: undump_dump_char)
  qed
qed

lemma dump_string_inject: "dump_string s @ x = dump_string t @ y \<longleftrightarrow> s = t \<and> x = y"
  using dump_body_inject [of s x t y] by (auto simp: dump_string_def)

lemma dump_pair_inject: "dump_pair p @ x = dump_pair q @ y \<longleftrightarrow> p = q \<and> x = y"
  by (cases p; cases q) (auto simp: dump_pair_def dump_string_inject)

lemma dump_pair_Cons: "\<exists>rest. dump_pair p = CHR 0x22 # rest"
  by (cases p) (simp add: dump_pair_def dump_string_def)

lemma join_pairs_Cons:
  "join_with '','' (map dump_pair (p # ps)) = dump_pair p @ concat (map (\<lambda>q. CHR '','' # dump_pair q) ps)"
  by (induction ps arbitrary: p) simp_all

lemma pairs_tail_inject:
  "concat (map (\<lambda>q. CHR '','' # dump_pair q) ps) @ ''}'' = concat (map (\<lambda>q. CHR '','' # dump_pair q) qs) @ ''}''
    \<Longrightarrow> ps = qs"
proof (induction ps arbitrary: qs)
  case Nil
  then show ?case by (cases qs) simp_all
next
  case (Cons p ps)
  then show ?case by (cases qs) (auto simp: dump_pair_inject)
qed

lemma join_pairs_inject:
  assumes "join_with '','' (map dump_pair ps) @ ''}'' = join_with '','' (map dump_pair qs) @ ''}''"
  shows "ps = qs"
proof (cases ps)
  case Nil
  then show ?thesis
    using assms dump_pair_Cons [of "hd qs"] by (cases qs) (auto simp del: list.map simp: join_pairs_Cons, auto)
next
  case (Cons p ps')
  then show ?thesis
    using assms dump_pair_Cons [of p] pairs_tail_inject [of ps']
    by (cases qs) (auto simp del: list.map simp: join_pairs_Cons dump_pair_inject, auto)
qed

lemma canonical_inject: "canonical xs = canonical ys \<Longrightarrow> map_of xs = map_of ys"
proof -
  assume "canonical xs = canonical ys"
  then have "sort_key fst xs = sort_key fst ys"
    by (intro join_pairs_inject) (simp add: canonical_def)
  then have "map_of (sort_key fst xs) = map_of (sort_key fst ys)" by (rule arg_cong)
  then show ?thesis by (simp only: map_of_sort_key)
qed

section \<open>The comparison is a manifest difference\<close>

datatype bundle_change = Missing string | Modified string | Added string

fun change_name :: "bundle_change \<Rightarrow> string" where
  "change_name (Missing n) = n"
| "change_name (Modified n) = n"
| "change_name (Added n) = n"

definition bundle_changes :: "file_hashes \<Rightarrow> file_hashes \<Rightarrow> bundle_change list" where
  "bundle_changes recorded_files current =
     map Missing (missing_names recorded_files current)
     @ map Modified (modified_names recorded_files current)
     @ map Added (missing_names current recorded_files)"

lemma set_missing_names: "set (missing_names r c) = {n. map_of r n \<noteq> None \<and> map_of c n = None}"
  by (auto simp: missing_names_def map_of_eq_None_iff)

lemma set_modified_names:
  "set (modified_names r c) = {n. map_of r n \<noteq> None \<and> map_of c n \<noteq> None \<and> map_of r n \<noteq> map_of c n}"
  by (auto simp: modified_names_def map_of_eq_None_iff)

interpretation sealed: manifest_diff bundle_changes change_name
proof
  fix r c :: file_hashes
  show "change_name ` set (bundle_changes r c) = {n. map_of r n \<noteq> map_of c n}"
    by (auto simp: bundle_changes_def image_Un image_image set_missing_names set_modified_names)
qed

lemma bundle_changes_Nil:
  "bundle_changes r c = [] \<longleftrightarrow> missing_names r c = [] \<and> modified_names r c = [] \<and> missing_names c r = []"
  by (simp add: bundle_changes_def)

lemma compare_bundle_ok:
  "bv_ok (compare_bundle sha256 r current expected_id) \<longleftrightarrow>
     map_of (rc_files r) = map_of current \<and> rc_bundle_id r = Some (bundle_id sha256 (rc_files r))
     \<and> (expected_id = None \<or> rc_bundle_id r = expected_id)"
  using sealed.quiet_iff [of "rc_files r" current]
  by (auto simp: compare_bundle_def Let_def bundle_changes_Nil)

section \<open>The artifacts of a run directory\<close>

definition artifact_text :: "(recorded \<Rightarrow> string) \<Rightarrow> run_dir \<Rightarrow> string \<rightharpoonup> string" where
  "artifact_text dump d name =
     (if name = CHECKSUMS_FILENAME then None else Option.bind (map_of d name) (artifact_bytes dump))"

lemma hash_entry_map:
  "map_of (hash_entry sha256 dump (m, a)) n =
     (if m = n \<and> n \<noteq> CHECKSUMS_FILENAME then map_option sha256 (artifact_bytes dump a) else None)"
  by (simp add: hash_entry_def split: option.splits)

lemma hash_entries_map:
  "distinct (map fst d) \<Longrightarrow>
   map_of (concat (map (hash_entry sha256 dump) d)) n = map_option sha256 (artifact_text dump d n)"
proof (induction d arbitrary: n)
  case Nil
  then show ?case by (simp add: artifact_text_def)
next
  case (Cons e d)
  obtain m a where e: "e = (m, a)" by fastforce
  have IH: "map_of (concat (map (hash_entry sha256 dump) d)) n = map_option sha256 (artifact_text dump d n)" for n
    using Cons by simp
  have "artifact_text dump d n = None" if "m = n"
    using Cons.prems e that by (simp add: artifact_text_def map_of_eq_None_iff [THEN iffD2])
  then show ?case
    by (auto simp: e IH map_of_append map_add_def hash_entry_map artifact_text_def split: option.splits)
qed

lemma compute_hashes_map:
  assumes "distinct (map fst d)"
  shows "map_of (compute_hashes sha256 dump d) n = map_option sha256 (artifact_text dump d n)"
proof -
  have "distinct (map fst (sort_key fst d))"
    using assms by (simp add: distinct_map)
  then show ?thesis
    by (simp add: compute_hashes_def hash_entries_map artifact_text_def map_of_sort_key)
qed

lemma alist_put_filter: "filter (\<lambda>p. fst p \<noteq> k) (alist_put k v d) = filter (\<lambda>p. fst p \<noteq> k) d"
  by (induction k v d rule: alist_put.induct) auto

lemma hash_entries_filter:
  "concat (map (hash_entry sha256 dump) d)
   = concat (map (hash_entry sha256 dump) (filter (\<lambda>p. fst p \<noteq> CHECKSUMS_FILENAME) d))"
  by (induction d) (auto simp: hash_entry_def split: option.splits)

lemma compute_hashes_put:
  "compute_hashes sha256 dump (alist_put CHECKSUMS_FILENAME v d) = compute_hashes sha256 dump d"
  unfolding compute_hashes_def
  by (subst (1 2) hash_entries_filter) (simp add: filter_sort alist_put_filter)

lemma artifact_text_put [simp]: "artifact_text dump (alist_put CHECKSUMS_FILENAME v d) = artifact_text dump d"
  by (simp add: artifact_text_def fun_eq_iff)

lemma verify_written:
  assumes "write_bundle_checksums sha256 dump d = Some (identifier, d')" "pin = None \<or> pin = Some identifier"
  shows "bv_ok (verify_bundle sha256 dump d' pin)"
proof -
  have d': "d' = alist_put CHECKSUMS_FILENAME
      (Checksums \<lparr>rc_bundle_id = Some identifier, rc_files = compute_hashes sha256 dump d\<rparr>) d"
    and i: "identifier = bundle_id sha256 (compute_hashes sha256 dump d)"
    using assms(1) by (auto simp: write_bundle_checksums_def Let_def split: if_splits)
  show ?thesis
    using assms(2) i by (auto simp: verify_bundle_def d' compute_hashes_put compare_bundle_ok)
qed

lemma verify_bundle_cases:
  "bv_ok (verify_bundle sha256 dump d pin) \<longleftrightarrow>
     (\<exists>r. map_of d CHECKSUMS_FILENAME = Some (Checksums r)
        \<and> map_of (rc_files r) = map_of (compute_hashes sha256 dump d)
        \<and> rc_bundle_id r = Some (bundle_id sha256 (rc_files r)) \<and> (pin = None \<or> rc_bundle_id r = pin))"
  by (auto simp: verify_bundle_def compare_bundle_ok failed_verification_def split: option.splits artifact.splits)

text \<open>A function collides on no two of the texts in \<open>T\<close>.\<close>

definition collision_free :: "(string \<Rightarrow> string) \<Rightarrow> string set \<Rightarrow> bool" where
  "collision_free sha256 T = inj_on sha256 T"

definition hashed_texts :: "(string \<Rightarrow> string) \<Rightarrow> (recorded \<Rightarrow> string) \<Rightarrow> run_dir \<Rightarrow> string set" where
  "hashed_texts sha256 dump d =
     ran (artifact_text dump d) \<union> {canonical (compute_hashes sha256 dump d)}
     \<union> {canonical (rc_files r) | r. map_of d CHECKSUMS_FILENAME = Some (Checksums r)}"

lemma equal_hashes_equal_texts:
  assumes "inj_on sha256 T" "ran f \<subseteq> T" "ran g \<subseteq> T" "\<And>n. map_option sha256 (f n) = map_option sha256 (g n)"
  shows "f = g"
proof
  fix n
  show "f n = g n"
    using assms(1-3) assms(4) [of n]
    by (cases "f n"; cases "g n") (auto simp: inj_on_def ran_def subset_iff, blast)
qed

lemma pinned_bundle_artifacts:
  assumes d: "distinct (map fst d)" and e: "distinct (map fst e)"
    and w: "write_bundle_checksums sha256 dump d = Some (identifier, d')"
    and ok: "bv_ok (verify_bundle sha256 dump e (Some identifier))"
    and free: "collision_free sha256 (hashed_texts sha256 dump d \<union> hashed_texts sha256 dump e)"
  shows "artifact_text dump e = artifact_text dump d"
proof -
  have i: "identifier = sha256 (canonical (compute_hashes sha256 dump d))"
    using w by (auto simp: write_bundle_checksums_def bundle_id_def Let_def split: if_splits)
  obtain r where r: "map_of e CHECKSUMS_FILENAME = Some (Checksums r)"
    and files: "map_of (rc_files r) = map_of (compute_hashes sha256 dump e)"
    and id: "identifier = sha256 (canonical (rc_files r))"
    using ok by (auto simp: verify_bundle_cases bundle_id_def)
  have "canonical (rc_files r) = canonical (compute_hashes sha256 dump d)"
    using free i id r by (auto simp: collision_free_def hashed_texts_def dest!: inj_onD)
  then have "map_of (compute_hashes sha256 dump e) = map_of (compute_hashes sha256 dump d)"
    using files canonical_inject by metis
  then have "map_option sha256 (artifact_text dump e n) = map_option sha256 (artifact_text dump d n)" for n
    using compute_hashes_map [OF d] compute_hashes_map [OF e] by metis
  then show ?thesis
    using free by (intro equal_hashes_equal_texts) (auto simp: collision_free_def hashed_texts_def)
qed

section \<open>Properties\<close>

text \<open>
  C26: sealing a run directory and verifying it is a round trip: the artifacts are untouched, the
  sealed directory verifies without a pinned identifier and with the identifier that was returned,
  and with no other pin. Sealing fails only where a directory already has the name of the checksums file.
\<close>

theorem sealed_bundle_verifies:
  "case write_bundle_checksums sha256 dump d of
     None \<Rightarrow> map_of d CHECKSUMS_FILENAME = Some Folder
   | Some (identifier, d') \<Rightarrow>
       artifact_text dump d' = artifact_text dump d
       \<and> (\<forall>pin. bv_ok (verify_bundle sha256 dump d' pin) \<longleftrightarrow> pin = None \<or> pin = Some identifier)"
proof (cases "write_bundle_checksums sha256 dump d")
  case None
  then show ?thesis by (simp add: write_bundle_checksums_def Let_def split: if_splits)
next
  case (Some w)
  obtain ident d' where w: "w = (ident, d')" by fastforce
  have d': "d' = alist_put CHECKSUMS_FILENAME
      (Checksums \<lparr>rc_bundle_id = Some ident, rc_files = compute_hashes sha256 dump d\<rparr>) d"
    using Some w by (auto simp: write_bundle_checksums_def Let_def split: if_splits)
  have "bv_ok (verify_bundle sha256 dump d' pin) \<longleftrightarrow> pin = None \<or> pin = Some ident" for pin
    using verify_written [OF Some [unfolded w]] by (auto simp: verify_bundle_cases d')
  then show ?thesis by (simp add: Some w d' artifact_text_put)
qed

text \<open>
  C25: an evidence bundle is tamper-evident against its pinned identifier: when the hash collides on
  none of the texts involved, any later directory that verifies with the pin holds exactly the
  artifacts that were sealed, with their contents, however the checksums file was rewritten.
\<close>

theorem pinned_bundle_is_original:
  assumes "distinct (map fst d)" "distinct (map fst e)"
    and "write_bundle_checksums sha256 dump d = Some (ident, d')"
    and "bv_ok (verify_bundle sha256 dump e (Some ident))"
    and "collision_free sha256 (hashed_texts sha256 dump d \<union> hashed_texts sha256 dump e)"
  shows "artifact_text dump e = artifact_text dump d"
  using assms by (rule pinned_bundle_artifacts)

definition sample_run_dir :: run_dir where
  "sample_run_dir = [(''run.json'', Artifact ''{}''), (''patches'', Folder), (''report.md'', Artifact ''ok'')]"

definition sample_sealed_dir :: run_dir where
  "sample_sealed_dir = rev (snd (the (write_bundle_checksums id (\<lambda>_. ''sums'') sample_run_dir)))"

theorem pinned_bundle_is_original_witness:
  "artifact_text (\<lambda>_. ''sums'') sample_sealed_dir = artifact_text (\<lambda>_. ''sums'') sample_run_dir"
proof (rule pinned_bundle_is_original [where ?sha256.0 = id
    and ident = "fst (the (write_bundle_checksums id (\<lambda>_. ''sums'') sample_run_dir))"
    and d' = "snd (the (write_bundle_checksums id (\<lambda>_. ''sums'') sample_run_dir))"])
  show "distinct (map fst sample_run_dir)" by code_simp
  show "distinct (map fst sample_sealed_dir)" by code_simp
  show "write_bundle_checksums id (\<lambda>_. ''sums'') sample_run_dir
      = Some (fst (the (write_bundle_checksums id (\<lambda>_. ''sums'') sample_run_dir)),
          snd (the (write_bundle_checksums id (\<lambda>_. ''sums'') sample_run_dir)))"
    by code_simp
  show "bv_ok (verify_bundle id (\<lambda>_. ''sums'') sample_sealed_dir
      (Some (fst (the (write_bundle_checksums id (\<lambda>_. ''sums'') sample_run_dir)))))"
    by code_simp
  show "collision_free id (hashed_texts id (\<lambda>_. ''sums'') sample_run_dir
      \<union> hashed_texts id (\<lambda>_. ''sums'') sample_sealed_dir)"
    by (simp add: collision_free_def)
qed

end
