(* ===== verification/Runner.thy ===== *)
theory Runner
  imports Case_Run Bundle
begin

text \<open>
  A whole run: the rest of \<open>arena/benchmark/benchmark_runner.py\<close>. The cases come from a validated
  snapshot; the loop runs each one or skips it once a budget is spent, a case that raises is recorded as
  failed, and the results become one run record, checked against the snapshot before it is published.

  The clock is a parameter (seconds elapsed before each case); evaluating a case is an argument of the
  loop, \<open>evaluate_case\<close> in \<open>run_on_snapshot\<close>. How errors and numbers read as text is a parameter.
\<close>

section \<open>Reserving a run directory\<close>

fun reserve :: "nat \<Rightarrow> string list \<Rightarrow> string \<Rightarrow> string \<Rightarrow> nat \<Rightarrow> string option" where
  "reserve 0 existing base candidate number = None"
| "reserve (Suc fuel) existing base candidate number =
     (if candidate \<notin> set existing then Some candidate
      else reserve fuel existing base (base @ ''_'' @ nat_str number) (number + 1))"

text \<open>One more try than there are names is enough (theorem \<open>run_dir_reserved\<close>).\<close>

definition reserve_run_dir :: "string list \<Rightarrow> string \<Rightarrow> string option" where
  "reserve_run_dir existing base = reserve (Suc (length existing)) existing base base 1"

section \<open>Trust\<close>

definition run_status_of :: "nat \<Rightarrow> bool \<Rightarrow> bool option \<Rightarrow> bool \<Rightarrow> nat \<Rightarrow> nat \<Rightarrow> run_status" where
  "run_status_of results skipping checksum_verified execution_required executed unavailable =
     (if checksum_verified = Some False then RunInvalid
      else if skipping \<and> results = 0 then RunPartial
      else if results = 0 then RunFailed
      else if execution_required \<and> unavailable > 0 \<and> executed = 0 then RunInvalid
      else if skipping \<or> (execution_required \<and> unavailable > 0) then RunPartial
      else RunComplete)"

definition effective_allow_local :: "bool \<Rightarrow> string \<Rightarrow> string list \<Rightarrow> bool" where
  "effective_allow_local allow_local checksum trusted \<longleftrightarrow>
     allow_local \<and> (trusted = [] \<or> checksum \<in> set trusted)"

section \<open>A case that raised\<close>

definition empty_breakdown :: score_breakdown where
  "empty_breakdown =
     \<lparr>bd_concept_match = 0, bd_file_match = 0, bd_line_overlap = 0, bd_severity_match = 0,
      bd_fix_quality = 0, bd_no_false_positives = 0, bd_false_positive_penalty = 0,
      bd_invalid_json_penalty = 0, bd_total = 0\<rparr>"

definition empty_response :: reviewer_response where
  "empty_response =
     \<lparr>rr_raw_response = [], rr_parsed_response = None, rr_invalid_output = True, rr_parse_attempts = 1,
      rr_parse_status = Invalid, rr_parse_actions = [], rr_input_finding_count = None,
      rr_retained_finding_count = None, rr_dropped_finding_count = 0, rr_parse_error_summary = None,
      rr_latency_ms = 0, rr_input_tokens = 0, rr_output_tokens = 0, rr_estimated_cost = 0,
      rr_tool_usage = [], rr_derived_from_legacy = False\<rparr>"

definition failed_score :: "benchmark_case \<Rightarrow> string list \<Rightarrow> deterministic_case_score" where
  "failed_score c reasons =
     \<lparr>ds_case_id = case_id c, ds_detected_bug = False, ds_localized_correctly = False,
      ds_patch_provided = False, ds_patch_applied = False, ds_tests_ran = False, ds_tests_passed = None,
      ds_structural_validation_ran = False, ds_structural_validation_passed = None,
      ds_true_positive_count = 0, ds_false_positive_count = 0,
      ds_false_negative_count = int (length (gt_bugs (case_ground_truth c))),
      ds_precision = 0, ds_recall = 0, ds_f1 = 0, ds_f_beta = 0, ds_patch_apply_score = 0,
      ds_execution_score = 0, ds_structural_score = 0, ds_deterministic_pass = False,
      ds_validation_eligible = (ex_run_tests (case_execution c) \<or> va_tests_required (case_validation c)
        \<or> va_structural_validators (case_validation c) \<noteq> []),
      ds_failure_reasons = reasons\<rparr>"

definition failed_case_result :: "benchmark_case \<Rightarrow> string \<Rightarrow> run_mode \<Rightarrow> case_result" where
  "failed_case_result c error mode =
     (let reasons = [''case_execution_error: '' @ error] in
      \<lparr>res_review =
         \<lparr>cr_case_id = case_id c, cr_title = case_title c, cr_category = case_category c,
          cr_severity = benchmark_case.case_severity c,
          cr_ground_truth_summary = bug_summary (primary_bug (case_ground_truth c)),
          cr_response = empty_response, cr_scored_findings = [], cr_breakdown = empty_breakdown,
          cr_score = 0, cr_review_quality_score = Some 0, cr_bug_found = False, cr_correct_file = False,
          cr_correct_line = False, cr_line_match = WrongFile,
          cr_bugs_total = int (length (gt_bugs (case_ground_truth c))), cr_bugs_matched = 0,
          cr_false_positive_count = 0, cr_context_truncated = False, cr_test_output = []\<rparr>,
       res_evidence = no_evidence
         \<lparr>ce_deterministic_case_score := (if mode = ReviewMode then None else Some (failed_score c reasons)),
          ce_deterministic_pass := (if mode = ReviewMode then None else Some False),
          ce_failure_reasons := reasons\<rparr>\<rparr>)"

section \<open>The loop over the cases\<close>

record run_budget =
  bu_max_wall :: "rat option"
  bu_max_cost :: "rat option"
  bu_elapsed :: "nat \<Rightarrow> rat"
  bu_wall_text :: "rat \<Rightarrow> rat \<Rightarrow> string"
  bu_cost_text :: "rat \<Rightarrow> rat \<Rightarrow> string"

record run_progress =
  rp_results :: "case_result list"
  rp_skipped :: "string list"
  rp_stopped :: "string option"
  rp_cost :: rat
  rp_errored :: nat
  rp_beta :: rat

definition check_budget :: "run_budget \<Rightarrow> nat \<Rightarrow> run_progress \<Rightarrow> run_progress" where
  "check_budget bu i p =
     (if rp_stopped p \<noteq> None then p
      else case bu_max_wall bu of
        Some limit \<Rightarrow>
          (if bu_elapsed bu i \<ge> limit then p\<lparr>rp_stopped := Some (bu_wall_text bu limit (bu_elapsed bu i))\<rparr>
           else case bu_max_cost bu of
             Some cost \<Rightarrow> if rp_cost p \<ge> cost then p\<lparr>rp_stopped := Some (bu_cost_text bu cost (rp_cost p))\<rparr> else p
           | None \<Rightarrow> p)
      | None \<Rightarrow>
          (case bu_max_cost bu of
             Some cost \<Rightarrow> if rp_cost p \<ge> cost then p\<lparr>rp_stopped := Some (bu_cost_text bu cost (rp_cost p))\<rparr> else p
           | None \<Rightarrow> p))"

definition run_one ::
  "(nat \<Rightarrow> rat \<Rightarrow> benchmark_case \<Rightarrow> node \<Rightarrow> ('e, case_result) res) \<Rightarrow> ('e \<Rightarrow> string) \<Rightarrow> run_mode
   \<Rightarrow> rat option \<Rightarrow> run_budget \<Rightarrow> nat \<times> benchmark_case \<times> node \<Rightarrow> run_progress \<Rightarrow> run_progress" where
  "run_one evaluate describe mode beta bu = (\<lambda>(i, c, tree) before.
     let p = check_budget bu i before in
     if rp_stopped p \<noteq> None then p\<lparr>rp_skipped := rp_skipped p @ [case_id c]\<rparr>
     else let selected = (if beta = None then case_beta c else rp_beta p);
              (result, errored) = (case evaluate i selected c tree of
                  Inr r \<Rightarrow> (r, 0)
                | Inl e \<Rightarrow> (failed_case_result c (describe e) mode, 1))
          in p\<lparr>rp_results := rp_results p @ [result], rp_errored := rp_errored p + errored,
               rp_cost := rp_cost p + rr_estimated_cost (cr_response (res_review result)),
               rp_beta := selected\<rparr>)"

definition default_beta :: "rat option \<Rightarrow> rat" where
  "default_beta beta = (case beta of None \<Rightarrow> 1 | Some b \<Rightarrow> if b = 0 then 1 else b)"

definition run_cases ::
  "(nat \<Rightarrow> rat \<Rightarrow> benchmark_case \<Rightarrow> node \<Rightarrow> ('e, case_result) res) \<Rightarrow> ('e \<Rightarrow> string) \<Rightarrow> run_mode
   \<Rightarrow> rat option \<Rightarrow> run_budget \<Rightarrow> (benchmark_case \<times> node) list \<Rightarrow> run_progress" where
  "run_cases evaluate describe mode beta bu cases =
     fold (run_one evaluate describe mode beta bu) (enum_list cases)
       \<lparr>rp_results = [], rp_skipped = [], rp_stopped = None, rp_cost = 0, rp_errored = 0,
        rp_beta = default_beta beta\<rparr>"

section \<open>The run record\<close>

record snapshot_info =
  si_version :: string
  si_checksum :: string
  si_stored :: "string option"
  si_file_count :: int
  si_total_bytes :: int
  si_manifest_version :: int
  si_manifest_digest :: string

record run_request =
  rq_mode :: run_mode
  rq_beta :: "rat option"
  rq_allow_local :: bool
  rq_budget :: run_budget
  rq_expected_sha256 :: "string option"
  rq_trusted :: "string list"
  rq_reviewer :: string
  rq_model :: "string option"
  rq_test_assisted :: bool
  rq_prompt_version :: string
  rq_git_commit :: "string option"
  rq_git_dirty :: "bool option"
  rq_started_at :: int
  rq_completed_at :: int

definition run_backend :: "case_result list \<Rightarrow> execution_backend" where
  "run_backend results =
     (let backends = set (map (\<lambda>c. ce_execution_backend (res_evidence c)) results) in
      if TrustedLocal \<in> backends then TrustedLocal
      else if Docker \<in> backends then Docker else NoBackend)"

definition case_statuses :: "case_result list \<Rightarrow> parse_status list" where
  "case_statuses results = map (\<lambda>c. rr_parse_status (cr_response (res_review c))) results"

definition sum_of :: "(case_result \<Rightarrow> 'a::comm_monoid_add) \<Rightarrow> case_result list \<Rightarrow> 'a" where
  "sum_of f results = sum_list (map f results)"

definition sum_if :: "(review_score \<Rightarrow> bool) \<Rightarrow> case_result list \<Rightarrow> int" where
  "sum_if P results = sum_of (\<lambda>c. if P (res_review c) then 1 else 0) results"

datatype runner_error =
    PackMismatch string string | SnapshotChanged | NoMetrics | NoRunDirectory
  | RunInconsistent consistency_error

definition run_metadata_of :: "snapshot_info \<Rightarrow> run_request \<Rightarrow> case_result list \<Rightarrow> run_metadata" where
  "run_metadata_of si q results =
     \<lparr>md_prompt_version = rq_prompt_version q, md_benchmark_version = si_version si, md_temperature = 0,
      md_git_commit = rq_git_commit q, md_git_dirty = rq_git_dirty q,
      md_test_assisted = rq_test_assisted q, md_pack_checksum = Some (si_checksum si),
      md_pack_checksum_verified = map_option (\<lambda>pinned. pinned = si_checksum si) (si_stored si),
      md_pack_digest_externally_verified = (rq_expected_sha256 q \<noteq> None),
      md_snapshot_file_count = Some (si_file_count si), md_snapshot_total_bytes = Some (si_total_bytes si),
      md_snapshot_manifest_version = Some (si_manifest_version si),
      md_snapshot_integrity_verified = Some True,
      md_snapshot_manifest_digest = Some (si_manifest_digest si),
      md_reviewer_parse_status_counts = status_counts (case_statuses results),
      md_non_exact_output_used = Some (list_ex (\<lambda>s. s = Tolerant \<or> s = Repaired) (case_statuses results))\<rparr>"

definition executed_cases :: "case_result list \<Rightarrow> nat" where
  "executed_cases results = length (filter (\<lambda>c. ce_execution_backend (res_evidence c) \<noteq> NoBackend) results)"

definition unavailable_cases :: "case_result list \<Rightarrow> nat" where
  "unavailable_cases results = length (filter (\<lambda>c. ce_execution_unavailable (res_evidence c)) results)"

definition run_metrics :: "run_request \<Rightarrow> run_progress \<Rightarrow> deterministic_metrics option option" where
  "run_metrics q p =
     (let results = rp_results p in
      if rq_mode q = ReviewMode then Some None
      else map_option Some (aggregate_deterministic_metrics results (rp_beta p)
        (py_round (sum_of (\<lambda>c. rr_estimated_cost (cr_response (res_review c))) results) 6)
        (sum_of (\<lambda>c. rr_latency_ms (cr_response (res_review c))) results)))"

definition run_record ::
  "snapshot_info \<Rightarrow> run_request \<Rightarrow> string \<Rightarrow> run_progress \<Rightarrow> deterministic_metrics option \<Rightarrow> run_result" where
  "run_record si q run_id p deterministic =
     (let results = rp_results p; skipping = rp_skipped p;
          produced = length results;
          eligible = produced + length skipping;
          metadata = run_metadata_of si q results
      in \<lparr>rn_run_id = run_id, rn_benchmark_set = si_version si, rn_reviewer = rq_reviewer q,
          rn_model = rq_model q, rn_started_at = rq_started_at q, rn_completed_at = rq_completed_at q,
          rn_metadata = metadata, rn_case_results = results,
          rn_total_score = (if results = [] then 0
            else py_round (sum_of (\<lambda>c. cr_score (res_review c)) results / of_nat produced) 2),
          rn_budget_stopped_reason = rp_stopped p, rn_skipped_case_ids = skipping,
          rn_schema_version = RUN_SCHEMA_VERSION,
          rn_run_status = run_status_of produced (skipping \<noteq> []) (md_pack_checksum_verified metadata)
            (rq_mode q \<noteq> ReviewMode) (executed_cases results) (unavailable_cases results),
          rn_execution_backend = run_backend results, rn_eligible_case_count = int eligible,
          rn_completed_case_count = int produced - int (rp_errored p),
          rn_failed_case_count = int (rp_errored p), rn_skipped_case_count = int (length skipping),
          rn_coverage_rate = (if eligible = 0 then 0
            else py_round (of_nat produced / of_nat eligible) 6),
          rn_mode = rq_mode q, rn_beta = rp_beta p, rn_deterministic_metrics = deterministic,
          rn_bugs_found = sum_if cr_bug_found results, rn_correct_files = sum_if cr_correct_file results,
          rn_correct_lines = sum_if cr_correct_line results,
          rn_false_positives = sum_of (\<lambda>c. cr_false_positive_count (res_review c)) results,
          rn_total_cost = py_round (sum_of (\<lambda>c. rr_estimated_cost (cr_response (res_review c))) results) 6,
          rn_total_latency_ms = sum_of (\<lambda>c. rr_latency_ms (cr_response (res_review c))) results\<rparr>)"

definition assemble_run ::
  "snapshot_info \<Rightarrow> run_request \<Rightarrow> string \<Rightarrow> run_progress \<Rightarrow> (runner_error, run_result) res" where
  "assemble_run si q run_id p =
     (case run_metrics q p of
        None \<Rightarrow> Inl NoMetrics
      | Some deterministic \<Rightarrow>
          let run = run_record si q run_id p deterministic in
          case validate_run_result run of
            Some e \<Rightarrow> Inl (RunInconsistent e)
          | None \<Rightarrow> Inr run)"

text \<open>
  \<open>_run_on_snapshot\<close>: \<open>case_worlds\<close> gives each case what it runs against, \<open>unchanged\<close> is the final
  check of the snapshot. Reports, checksums and the database follow it.
\<close>

definition snapshot_progress ::
  "(nat \<Rightarrow> case_world) \<Rightarrow> (case_error \<Rightarrow> string) \<Rightarrow> snapshot_info \<Rightarrow> (benchmark_case \<times> node) list \<Rightarrow> run_request
   \<Rightarrow> string \<Rightarrow> run_progress" where
  "snapshot_progress case_worlds describe si cases q run_id =
     (let allow = effective_allow_local (rq_allow_local q) (si_checksum si) (rq_trusted q) in
      run_cases (\<lambda>i beta c tree.
          evaluate_case ((case_worlds i)\<lparr>cw_run_id := run_id\<rparr>) (rq_mode q) beta allow c tree)
        describe (rq_mode q) (rq_beta q) (rq_budget q) cases)"

definition run_on_snapshot ::
  "(nat \<Rightarrow> case_world) \<Rightarrow> (case_error \<Rightarrow> string) \<Rightarrow> snapshot_info \<Rightarrow> (benchmark_case \<times> node) list \<Rightarrow> run_request
   \<Rightarrow> string list \<Rightarrow> string \<Rightarrow> bool \<Rightarrow> (runner_error, run_result) res" where
  "run_on_snapshot case_worlds describe si cases q existing base unchanged =
     and_then (case rq_expected_sha256 q of
        Some expected \<Rightarrow> check (si_checksum si = expected) (PackMismatch (si_checksum si) expected)
      | None \<Rightarrow> Inr ()) (\<lambda>_.
      case reserve_run_dir existing base of
        None \<Rightarrow> Inl NoRunDirectory
      | Some run_id \<Rightarrow>
          and_then (assemble_run si q run_id (snapshot_progress case_worlds describe si cases q run_id))
            (\<lambda>run. if unchanged then Inr run else Inl SnapshotChanged))"

section \<open>The directory is fresh\<close>

lemma digits_value_snoc: "digits_value (s @ [c]) = 10 * digits_value s + (of_char c - 48)"
  by (simp add: digits_value_def)

lemma digits_nat_str: "digits_value (nat_str n) = n"
proof (induction n rule: nat_str.induct)
  case (1 n)
  have d: "(of_char (char_of (48 + k) :: char) :: nat) = 48 + k" if "k < 10" for k :: nat
    using that by simp
  show ?case
  proof (cases "n < 10")
    case True
    then show ?thesis using d [of n] digits_value_snoc [of "[]"] by (simp add: nat_str.simps [of n] digits_value_def)
  next
    case False
    then show ?thesis using 1 d [of "n mod 10"] by (simp add: nat_str.simps [of n] digits_value_snoc)
  qed
qed

lemma nat_str_inject [simp]: "nat_str m = nat_str n \<longleftrightarrow> m = n"
  by (metis digits_nat_str)

definition candidates :: "nat \<Rightarrow> string \<Rightarrow> string \<Rightarrow> nat \<Rightarrow> string list" where
  "candidates fuel base candidate number =
     candidate # map (\<lambda>k. base @ ''_'' @ nat_str k) [number..<number + fuel]"

lemma reserve_find:
  "reserve (Suc fuel) existing base candidate number = find (\<lambda>c. c \<notin> set existing) (candidates fuel base candidate number)"
proof (induction fuel arbitrary: candidate number)
  case 0
  then show ?case by (simp add: candidates_def)
next
  case (Suc fuel)
  have "candidates fuel base (base @ ''_'' @ nat_str number) (number + 1)
      = map (\<lambda>k. base @ ''_'' @ nat_str k) [number..<number + Suc fuel]"
    by (simp add: candidates_def upt_conv_Cons del: upt_Suc)
  then show ?case
    by (simp only: reserve.simps(2) [of "Suc fuel"] Suc) (simp add: candidates_def del: upt_Suc)
qed

lemma distinct_candidates: "distinct (candidates fuel base base number)"
  by (auto simp: candidates_def distinct_map inj_on_def)

lemma reserve_total: "\<exists>name. reserve_run_dir existing base = Some name"
proof (rule ccontr)
  assume "\<not> ?thesis"
  then have "find (\<lambda>c. c \<notin> set existing) (candidates (length existing) base base 1) = None"
    by (simp add: reserve_run_dir_def reserve_find del: reserve.simps)
  then have "set (candidates (length existing) base base 1) \<subseteq> set existing"
    by (auto simp: find_None_iff)
  then have "card (set (candidates (length existing) base base 1)) \<le> length existing"
    by (meson List.finite_set card_length card_mono order_trans)
  then show False by (simp add: distinct_card [OF distinct_candidates]) (simp add: candidates_def del: upt_Suc)
qed

lemma reserved_fresh: "reserve_run_dir existing base = Some name \<Longrightarrow> name \<notin> set existing"
  by (auto simp: reserve_run_dir_def reserve_find find_Some_iff simp del: reserve.simps)

text \<open>
  C22: the loop that reserves a run directory ends, whatever directories exist: the name it returns is
  not one of them, and is the time stamp itself if that is free, else the time stamp with the
  smallest number from 1 that is.
\<close>

theorem run_dir_reserved:
  "\<exists>name. reserve_run_dir existing base = Some name \<and> name \<notin> set existing
     \<and> (name = base
        \<or> base \<in> set existing
          \<and> (\<exists>k \<ge> 1. name = base @ ''_'' @ nat_str k
               \<and> list_all (\<lambda>j. base @ ''_'' @ nat_str j \<in> set existing) [1..<k]))"
proof -
  obtain name where n: "reserve_run_dir existing base = Some name" using reserve_total by blast
  then have "find (\<lambda>c. c \<notin> set existing) (candidates (length existing) base base 1) = Some name"
    by (simp add: reserve_run_dir_def reserve_find del: reserve.simps)
  then obtain i where i: "i < length (candidates (length existing) base base 1)"
    "name = candidates (length existing) base base 1 ! i" "name \<notin> set existing"
    "\<forall>j<i. candidates (length existing) base base 1 ! j \<in> set existing"
    by (auto simp: find_Some_iff)
  show ?thesis
  proof (cases i)
    case 0
    then show ?thesis using n i by (intro exI [of _ name]) (simp add: candidates_def)
  next
    case (Suc k)
    have name: "name = base @ ''_'' @ nat_str (Suc k)" using i(1,2) Suc by (simp add: candidates_def del: upt_Suc)
    have "base \<in> set existing" using i(4) Suc by (auto simp: candidates_def dest: spec [of _ 0])
    moreover have "base @ ''_'' @ nat_str j \<in> set existing" if "1 \<le> j" "j < Suc k" for j
      using i(1) i(4) [rule_format, of j] that Suc by (cases j) (auto simp: candidates_def simp del: upt_Suc)
    ultimately show ?thesis
      using n i(3) name by (intro exI [of _ name] conjI disjI2 exI [of _ "Suc k"]) (auto simp: list_all_iff)
  qed
qed

section \<open>The loop\<close>

text \<open>
  What the loop relies on of an evaluator: a result it returns is about the case it was given. Then
  every case is accounted for, in order: first those with a result, then those skipped.
\<close>

definition result_id :: "case_result \<Rightarrow> string" where
  "result_id r = cr_case_id (res_review r)"

definition ids_of :: "(benchmark_case \<times> node) list \<Rightarrow> string list" where
  "ids_of cases = map (\<lambda>(c, _). case_id c) cases"

definition progress_ok :: "string list \<Rightarrow> run_progress \<Rightarrow> bool" where
  "progress_ok ids p \<longleftrightarrow>
     map result_id (rp_results p) @ rp_skipped p = ids
     \<and> (rp_skipped p \<noteq> [] \<longleftrightarrow> rp_stopped p \<noteq> None)
     \<and> rp_errored p \<le> length (rp_results p)"

lemma check_budget_simps [simp]:
  "rp_results (check_budget bu i p) = rp_results p" "rp_skipped (check_budget bu i p) = rp_skipped p"
  "rp_errored (check_budget bu i p) = rp_errored p" "rp_beta (check_budget bu i p) = rp_beta p"
  "rp_cost (check_budget bu i p) = rp_cost p"
  "rp_stopped p \<noteq> None \<Longrightarrow> check_budget bu i p = p"
  by (auto simp: check_budget_def split: option.split)

lemma failed_case_id [simp]: "result_id (failed_case_result c e mode) = case_id c"
  by (simp add: result_id_def failed_case_result_def Let_def)

locale case_evaluator =
  fixes evaluate :: "nat \<Rightarrow> rat \<Rightarrow> benchmark_case \<Rightarrow> node \<Rightarrow> ('e, case_result) res"
  assumes about_case: "evaluate i beta c tree = Inr r \<Longrightarrow> result_id r = case_id c"
begin

lemma run_one_ok:
  assumes "progress_ok ids p"
  shows "progress_ok (ids @ [case_id c]) (run_one evaluate describe mode beta bu (i, c, tree) p)"
proof (cases "rp_stopped (check_budget bu i p)")
  case (Some reason)
  then show ?thesis using assms by (auto simp: run_one_def progress_ok_def)
next
  case None
  then have s: "rp_stopped p = None" by (metis check_budget_simps(6))
  show ?thesis
  proof (cases "evaluate i (if beta = None then case_beta c else rp_beta p) c tree")
    case (Inl e)
    then show ?thesis using assms None s by (auto simp: run_one_def progress_ok_def Let_def)
  next
    case (Inr r)
    then show ?thesis using assms None s about_case [OF Inr] by (auto simp: run_one_def progress_ok_def Let_def)
  qed
qed

lemma fold_run_one_ok:
  "progress_ok ids p \<Longrightarrow>
   progress_ok (ids @ map (\<lambda>(_, c, _). case_id c) xs) (fold (run_one evaluate describe mode beta bu) xs p)"
proof (induction xs arbitrary: ids p)
  case (Cons x xs)
  obtain i c tree where x: "x = (i, c, tree)" by (metis prod.exhaust)
  show ?case using Cons.IH [OF run_one_ok [OF Cons.prems]] by (simp add: x)
qed simp

lemma run_cases_ok: "progress_ok (ids_of cases) (run_cases evaluate describe mode beta bu cases)"
proof -
  have "map (\<lambda>(_, c, _). case_id c) (enum_list cases) = ids_of cases"
    by (rule nth_equalityI) (simp_all add: ids_of_def case_prod_unfold)
  then show ?thesis
    unfolding run_cases_def
    by (metis (no_types, lifting) append_Nil fold_run_one_ok [of "[]"] progress_ok_def run_progress.select_convs
        list.simps(8) length_0_conv le_refl)
qed

text \<open>A property of every evaluated result and of the failed ones is one of every result of the loop.\<close>

lemma run_cases_all:
  assumes "\<And>i beta c tree r. evaluate i beta c tree = Inr r \<Longrightarrow> P r" "\<And>c e. P (failed_case_result c e mode)"
  shows "list_all P (rp_results (run_cases evaluate describe mode beta bu cases))"
proof -
  have step: "list_all P (rp_results p) \<Longrightarrow> list_all P (rp_results (run_one evaluate describe mode beta bu x p))" for x p
    using assms by (cases x) (auto simp: run_one_def Let_def split: sum.split prod.split)
  have "list_all P (rp_results p) \<Longrightarrow> list_all P (rp_results (fold (run_one evaluate describe mode beta bu) xs p))" for xs p
    by (induction xs arbitrary: p) (simp_all add: step)
  then show ?thesis by (simp add: run_cases_def)
qed

end

lemma score_case_id:
  assumes "score_case c response out = Some r" shows "cr_case_id r = case_id c"
proof -
  obtain assigned where "r = score_assigned c response out assigned"
    using assms by (auto simp: score_case_def)
  then show ?thesis by (simp only: score_assigned_def Let_def) (simp split: prod.split)
qed

lemma review_case_id: "review_case w allow_local c tree = Inr r \<Longrightarrow> cr_case_id r = case_id c"
  by (auto simp: review_case_def res_simps score_case_id split: option.splits)

lemma evidence_case_id: "result_id (evidence_of c review chosen patch executed ch vals scored) = cr_case_id review"
proof -
  have "cr_case_id (apply_execution_fix_quality c review v) = cr_case_id review" for v
    by (simp add: apply_execution_fix_quality_def Let_def split: option.split)
  then show ?thesis by (simp add: result_id_def evidence_of_def Let_def split: prod.split)
qed

lemma evaluate_case_review:
  "evaluate_case w ReviewMode beta allow_local c tree = Inr r \<longleftrightarrow>
     (\<exists>review. review_case w allow_local c tree = Inr review
        \<and> r = \<lparr>res_review = review, res_evidence = no_evidence\<rparr>)"
  by (auto simp: evaluate_case_def res_simps)

interpretation evaluated: case_evaluator
  "\<lambda>i beta c tree. evaluate_case ((worlds i)\<lparr>cw_run_id := run_id\<rparr>) mode beta allow_local c tree"
  for worlds run_id mode allow_local
proof
  fix i beta c tree r
  assume e: "evaluate_case ((worlds i)\<lparr>cw_run_id := run_id\<rparr>) mode beta allow_local c tree = Inr r"
  show "result_id r = case_id c"
  proof (cases "mode = ReviewMode")
    case True
    then show ?thesis using e by (auto simp: evaluate_case_review result_id_def review_case_id)
  next
    case False
    show ?thesis by (rule evaluate_case_Inr [OF e False]) (simp add: evidence_case_id review_case_id)
  qed
qed

lemma execute_local:
  assumes "execute xe q workspace = (Inr t, left)" "te_execution_mode t = ModeLocal"
  shows "tq_allow_local_execution q"
proof (rule ccontr)
  assume no: "\<not> tq_allow_local_execution q"
  have "te_execution_mode t \<noteq> ModeLocal"
  proof (cases "plan xe q")
    case (Inl e)
    then show ?thesis using assms(1) by (auto simp: execute_plan split: option.splits if_splits)
  next
    case (Inr x)
    obtain m commands where x: "x = (m, commands)" by fastforce
    then have "m = ModeDocker" using Inr no by (auto simp: plan_Inr split: if_splits)
    then show ?thesis
      using assms(1) Inr x finish_mode [OF Inr [unfolded x]]
      by (auto simp: execute_plan split: option.splits if_splits prod.splits sum.splits)
  qed
  then show False using assms(2) by simp
qed

text \<open>
  Two runs of the same world that differ only in what pack commands do on the host. A command line of the docker
  client does the same in both; what any other command line does, whether it can be started included, is free.
\<close>

definition host_variant_env :: "executor_env \<Rightarrow> executor_env \<Rightarrow> bool" where
  "host_variant_env xe xe' \<longleftrightarrow>
     (\<exists>run. xe' = xe\<lparr>xe_run := run\<rparr>
        \<and> (\<forall>q img argv name env timeout workspace.
             run (docker_args xe q img argv name) env timeout workspace
             = xe_run xe (docker_args xe q img argv name) env timeout workspace))"

definition host_variant :: "case_world \<Rightarrow> case_world \<Rightarrow> bool" where
  "host_variant w w' \<longleftrightarrow>
     (\<exists>executor missing. w' = w\<lparr>cw_executor := executor, cw_missing := missing\<rparr>
        \<and> (\<forall>stage. host_variant_env (cw_executor w stage) (executor stage)))"

lemma run_independent [simp]:
  "docker_available (xe\<lparr>xe_run := run\<rparr>) = docker_available xe"
  "image_present (xe\<lparr>xe_run := run\<rparr>) img = image_present xe img"
  "image_digest (xe\<lparr>xe_run := run\<rparr>) ref = image_digest xe ref"
  "container_name (xe\<lparr>xe_run := run\<rparr>) slug i = container_name xe slug i"
  "docker_args (xe\<lparr>xe_run := run\<rparr>) q img argv name = docker_args xe q img argv name"
  by (simp_all add: docker_available_def image_present_def image_digest_def container_name_def docker_args_def
      container_options_def getenv_def readonly_mount_def [abs_def] Let_def split: option.split)

lemma run_fields:
  "xe_run (xe\<lparr>xe_run := run\<rparr>) = run" "xe_win32 (xe\<lparr>xe_run := run\<rparr>) = xe_win32 xe"
  "xe_environ_list (xe\<lparr>xe_run := run\<rparr>) = xe_environ_list xe"
  "xe_remove_hangs (xe\<lparr>xe_run := run\<rparr>) = xe_remove_hangs xe" "xe_describe (xe\<lparr>xe_run := run\<rparr>) = xe_describe xe"
  by simp_all

lemma execute_host_variant:
  assumes "host_variant_env xe xe'" "\<not> tq_allow_local_execution q"
  shows "execute xe' q workspace = execute xe q workspace"
proof -
  obtain run where xe': "xe' = xe\<lparr>xe_run := run\<rparr>"
    and same: "\<And>q img argv name env timeout workspace.
      run (docker_args xe q img argv name) env timeout workspace
      = xe_run xe (docker_args xe q img argv name) env timeout workspace"
    using assms(1) unfolding host_variant_env_def by blast
  have docker: "run_docker xe' q img = run_docker xe q img" for img
    unfolding run_docker_def supervise_def xe' run_independent run_fields same ..
  show ?thesis
    unfolding execute_def iffD2 [OF eq_False assms(2)] if_False xe' docker [unfolded xe'] run_independent run_fields ..
qed

text \<open>Without the opt-in, nothing runs before the review, and only docker runs the hidden tests.\<close>

lemma no_preview: "preview_tests w False c n = Inr ([], n)" "preview_analysis w False c n = Inr []"
  by (simp_all add: preview_tests_def preview_analysis_def)

lemma review_without_execution:
  "review_case (w\<lparr>cw_executor := executor, cw_missing := missing\<rparr>) False c tree = review_case w False c tree"
  by (simp add: review_case_def no_preview)

lemma hidden_tests_host_variant:
  assumes "host_variant w w'"
  shows "run_hidden_tests w' False c tree patch workspace = run_hidden_tests w False c tree patch workspace"
proof -
  obtain executor missing where w': "w' = w\<lparr>cw_executor := executor, cw_missing := missing\<rparr>"
    and env: "host_variant_env (cw_executor w 2) (executor 2)"
    using assms unfolding host_variant_def by blast
  have fields: "cw_sha256 w' = cw_sha256 w" "cw_behind_tests w' = cw_behind_tests w" "cw_executor w' = executor"
    by (simp_all add: w')
  have request: "hidden_request w' False c patch = hidden_request w False c patch"
    by (simp add: hidden_request_def test_request_for_def w')
  have "\<not> tq_allow_local_execution (hidden_request w False c patch)"
    by (simp add: hidden_request_def test_request_for_def)
  from execute_host_variant [OF env this]
  show ?thesis unfolding run_hidden_tests_unfold request fields by simp
qed

lemma evaluate_host_variant:
  assumes "host_variant w w'"
  shows "evaluate_case w' mode beta False c tree = evaluate_case w mode beta False c tree"
proof -
  obtain executor missing where w': "w' = w\<lparr>cw_executor := executor, cw_missing := missing\<rparr>"
    using assms unfolding host_variant_def by blast
  have fields: "cw_git w' = cw_git w" "cw_sha256 w' = cw_sha256 w" "cw_patch_ms w' = cw_patch_ms w"
    "cw_runs_root w' = cw_runs_root w" "cw_run_id w' = cw_run_id w" "cw_prior w' = cw_prior w"
    "cw_codec w' = cw_codec w" "cw_tools w' = cw_tools w" "cw_behind_link w' = cw_behind_link w"
    by (simp_all add: w')
  have review: "review_case w' False c tree = review_case w False c tree" by (simp add: w' review_without_execution)
  have patch: "apply_case_patch w' c tree chosen = apply_case_patch w c tree chosen" for chosen
    unfolding apply_case_patch_def fields ..
  have validators: "run_case_validators w' c review patch left = run_case_validators w c review patch left"
    for review patch left
    unfolding run_case_validators_def fields ..
  show ?thesis
    unfolding evaluate_case_def hidden_tests_host_variant [OF assms] review patch validators ..
qed

lemma review_mode_without_execution:
  "evaluate_case (w\<lparr>cw_executor := executor, cw_missing := missing\<rparr>) ReviewMode beta False c tree
   = evaluate_case w ReviewMode beta False c tree"
  by (simp add: evaluate_case_def review_without_execution)

lemma host_variant_run_id: "host_variant w w' \<Longrightarrow> host_variant (w\<lparr>cw_run_id := run_id\<rparr>) (w'\<lparr>cw_run_id := run_id\<rparr>)"
proof -
  assume "host_variant w w'"
  then obtain executor missing where "w' = w\<lparr>cw_executor := executor, cw_missing := missing\<rparr>"
    and env: "\<forall>stage. host_variant_env (cw_executor w stage) (executor stage)"
    unfolding host_variant_def by blast
  then have "w'\<lparr>cw_run_id := run_id\<rparr> = w\<lparr>cw_run_id := run_id\<rparr>\<lparr>cw_executor := executor, cw_missing := missing\<rparr>"
    by simp
  then show ?thesis unfolding host_variant_def using env by auto
qed

text \<open>The hidden tests of a case are recorded as run on the host.\<close>

definition tests_ran_locally :: "case_result \<Rightarrow> bool" where
  "tests_ran_locally r \<longleftrightarrow> ce_execution_backend (res_evidence r) = TrustedLocal"

lemma evaluate_case_local:
  assumes e: "evaluate_case w mode beta allow_local c tree = Inr r" and local: "tests_ran_locally r"
  shows "allow_local"
proof (cases "mode = ReviewMode")
  case True
  then show ?thesis using assms by (auto simp: evaluate_case_review tests_ran_locally_def no_evidence_def)
next
  case False
  obtain review patch workspace executed changes left validators scored
    where tests: "run_hidden_tests w allow_local c tree patch workspace = Inr (executed, changes, left)"
      and r: "r = evidence_of c review (select_case_patch (rr_parsed_response (cr_response review))) patch
        executed changes validators scored"
    using evaluate_case_Inr [OF e False] by metis
  have b: "backend_of executed = TrustedLocal" using local by (simp add: tests_ran_locally_def r evidence_simps)
  show ?thesis
  proof (cases rule: hidden_tests_cases [OF tests])
    case 1
    then show ?thesis using b by (simp add: backend_of_def)
  next
    case (2 t ready)
    then have "te_execution_mode t = ModeLocal" using b by (auto simp: backend_of_def split: execution_mode.splits)
    from execute_local [OF 2(5) this] show ?thesis by (simp add: hidden_request_def test_request_for_def)
  qed
qed

lemma failed_case_local [simp]: "\<not> tests_ran_locally (failed_case_result c e mode)"
  by (simp add: tests_ran_locally_def failed_case_result_def Let_def no_evidence_def)


section \<open>The published run\<close>

lemma run_record_simps:
  fixes si q run_id p d
  defines "r \<equiv> run_record si q run_id p d"
  shows "rn_run_id r = run_id" "rn_case_results r = rp_results p" "rn_skipped_case_ids r = rp_skipped p"
    "rn_budget_stopped_reason r = rp_stopped p" "rn_mode r = rq_mode q"
    "rn_metadata r = run_metadata_of si q (rp_results p)"
    "rn_execution_backend r = run_backend (rp_results p)"
    "rn_eligible_case_count r = int (length (rp_results p) + length (rp_skipped p))"
    "rn_completed_case_count r = int (length (rp_results p)) - int (rp_errored p)"
    "rn_failed_case_count r = int (rp_errored p)" "rn_skipped_case_count r = int (length (rp_skipped p))"
    "rn_run_status r = run_status_of (length (rp_results p)) (rp_skipped p \<noteq> [])
      (md_pack_checksum_verified (rn_metadata r)) (rq_mode q \<noteq> ReviewMode)
      (executed_cases (rp_results p)) (unavailable_cases (rp_results p))"
    "rn_coverage_rate r = (if length (rp_results p) + length (rp_skipped p) = 0 then 0
      else py_round (of_nat (length (rp_results p)) / of_nat (length (rp_results p) + length (rp_skipped p))) 6)"
    "rn_schema_version r = RUN_SCHEMA_VERSION" "rn_completed_at r = rq_completed_at q"
    "rn_deterministic_metrics r = d" "rn_beta r = rp_beta p"
  by (simp_all add: r_def run_record_def Let_def)

lemma run_record_consistent: "validate_run_result (run_record si q run_id p d) = None"
  by (simp add: validate_run_result_def run_record_simps run_metadata_of_def case_statuses_def [symmetric]
      status_counts_accepted)

lemma run_on_snapshot_Inr:
  "run_on_snapshot worlds describe si cases q existing base unchanged = Inr run \<longleftrightarrow>
     (case rq_expected_sha256 q of None \<Rightarrow> True | Some expected \<Rightarrow> si_checksum si = expected) \<and> unchanged
     \<and> (\<exists>run_id d. reserve_run_dir existing base = Some run_id
          \<and> run_metrics q (snapshot_progress worlds describe si cases q run_id) = Some d
          \<and> run = run_record si q run_id (snapshot_progress worlds describe si cases q run_id) d)"
  by (auto simp: run_on_snapshot_def assemble_run_def res_simps Let_def run_record_consistent split: option.splits)

lemma snapshot_progress_ok: "progress_ok (ids_of cases) (snapshot_progress worlds describe si cases q run_id)"
  by (simp add: snapshot_progress_def Let_def evaluated.run_cases_ok)


text \<open>
  C14: every case of a published run is accounted for: the cases with a result followed by the skipped ones
  are the cases of the pack, in order and once each; the counts add up to their number; cases are skipped exactly
  when the run records why it stopped; the directory was free; and the recorded evidence agrees with
  the results.
\<close>

theorem run_accounting:
  assumes "run_on_snapshot worlds describe si cases q existing base unchanged = Inr run"
  shows "map result_id (rn_case_results run) @ rn_skipped_case_ids run = map (\<lambda>(c, _). case_id c) cases
     \<and> rn_eligible_case_count run = int (length cases)
     \<and> rn_completed_case_count run + rn_failed_case_count run + rn_skipped_case_count run = int (length cases)
     \<and> 0 \<le> rn_completed_case_count run
     \<and> (rn_skipped_case_ids run = [] \<longleftrightarrow> rn_budget_stopped_reason run = None)
     \<and> rn_run_id run \<notin> set existing
     \<and> validate_run_result run = None"
proof -
  obtain run_id d where r: "reserve_run_dir existing base = Some run_id"
    "run = run_record si q run_id (snapshot_progress worlds describe si cases q run_id) d"
    using assms by (auto simp: run_on_snapshot_Inr)
  define p where "p = snapshot_progress worlds describe si cases q run_id"
  have ok: "progress_ok (ids_of cases) p" unfolding p_def by (rule snapshot_progress_ok)
  then have ids: "map result_id (rp_results p) @ rp_skipped p = map (\<lambda>(c, _). case_id c) cases"
    by (simp add: progress_ok_def ids_of_def)
  from arg_cong [OF ids, of length] have len: "length (rp_results p) + length (rp_skipped p) = length cases"
    by simp
  show ?thesis
    using ok ids len reserved_fresh [OF r(1)]
    unfolding r(2) p_def [symmetric]
    by (auto simp: run_record_simps progress_ok_def run_record_consistent simp del: of_nat_add)
qed

text \<open>
  C17: a published run is complete exactly when the pack's own checksum did not contradict it, some case has a result,
  none was skipped and, outside the review mode, no case lacked its execution backend. Then its coverage is 1.
\<close>

theorem run_complete_iff:
  assumes "run_on_snapshot worlds describe si cases q existing base unchanged = Inr run"
  shows "(rn_run_status run = RunComplete \<longleftrightarrow>
       si_stored si \<in> {None, Some (si_checksum si)} \<and> rn_case_results run \<noteq> [] \<and> rn_skipped_case_ids run = []
       \<and> (rq_mode q = ReviewMode \<or>
            list_all (\<lambda>r. \<not> ce_execution_unavailable (res_evidence r)) (rn_case_results run)))
     \<and> (rn_run_status run = RunComplete \<longrightarrow> rn_coverage_rate run = 1)"
proof -
  obtain run_id d where r: "run = run_record si q run_id (snapshot_progress worlds describe si cases q run_id) d"
    using assms by (auto simp: run_on_snapshot_Inr)
  have none: "unavailable_cases rs = 0 \<longleftrightarrow> list_all (\<lambda>r. \<not> ce_execution_unavailable (res_evidence r)) rs" for rs
    by (simp add: unavailable_cases_def filter_empty_conv list_all_iff)
  have one: "py_round (of_nat n / of_nat n) 6 = (1 :: rat)" if "0 < n" for n
    using that py_round_int [of 1 6] by simp
  have pinned: "map_option (\<lambda>pinned. pinned = si_checksum si) (si_stored si) = Some False
      \<longleftrightarrow> si_stored si \<notin> {None, Some (si_checksum si)}"
    by (cases "si_stored si") auto
  show ?thesis
    unfolding r run_record_simps none [symmetric] run_status_of_def run_metadata_of_def run_metadata.simps pinned
    by (auto simp: one)
qed

text \<open>
  C16: unless the caller asked for it and the pack is not kept out by the list of trusted digests, a run does not depend on what
  pack commands do on the host: whatever they do, in the preview of the tests, the static analysis, the hidden tests and
  in cases that raise, the outcome and the record are the same; and in review mode it depends on no execution at all, docker included.
  The hidden tests of a case are recorded as run on the host only with that opt-in, and the run
  reports the host as its backend exactly when those of some case are.
\<close>

theorem untrusted_pack_never_local:
  assumes "\<forall>i. host_variant (worlds i) (worlds' i)"
  shows "(\<not> (rq_allow_local q \<and> (rq_trusted q = [] \<or> si_checksum si \<in> set (rq_trusted q))) \<longrightarrow>
        run_on_snapshot worlds' describe si cases q existing base unchanged
        = run_on_snapshot worlds describe si cases q existing base unchanged
        \<and> (rq_mode q = ReviewMode \<longrightarrow>
            (\<forall>executor missing.
               run_on_snapshot (\<lambda>i. (worlds i)\<lparr>cw_executor := executor i, cw_missing := missing i\<rparr>)
                 describe si cases q existing base unchanged
               = run_on_snapshot worlds describe si cases q existing base unchanged)))
     \<and> (\<forall>run. run_on_snapshot worlds describe si cases q existing base unchanged = Inr run \<longrightarrow>
          ((\<exists>r \<in> set (rn_case_results run). tests_ran_locally r)
             \<longrightarrow> rq_allow_local q \<and> (rq_trusted q = [] \<or> si_checksum si \<in> set (rq_trusted q)))
          \<and> (rn_execution_backend run = TrustedLocal
             \<longleftrightarrow> (\<exists>r \<in> set (rn_case_results run). tests_ran_locally r)))"
proof -
  let ?allow = "effective_allow_local (rq_allow_local q) (si_checksum si) (rq_trusted q)"
  have same: "run_on_snapshot w' describe si cases q existing base unchanged
      = run_on_snapshot w describe si cases q existing base unchanged"
    if "\<And>i run_id beta. evaluate_case ((w' i)\<lparr>cw_run_id := run_id\<rparr>) (rq_mode q) beta ?allow
      = evaluate_case ((w i)\<lparr>cw_run_id := run_id\<rparr>) (rq_mode q) beta ?allow" for w w'
    by (simp only: run_on_snapshot_def snapshot_progress_def Let_def that)
  have host: "run_on_snapshot worlds' describe si cases q existing base unchanged
      = run_on_snapshot worlds describe si cases q existing base unchanged" if "\<not> ?allow"
    by (rule same, intro ext) (simp add: that evaluate_host_variant [OF host_variant_run_id] assms)
  have review: "run_on_snapshot (\<lambda>i. (worlds i)\<lparr>cw_executor := executor i, cw_missing := missing i\<rparr>)
        describe si cases q existing base unchanged
      = run_on_snapshot worlds describe si cases q existing base unchanged"
    if "\<not> ?allow" "rq_mode q = ReviewMode" for executor missing
  proof (rule same, intro ext)
    fix i run_id beta c tree
    have order: "(worlds i)\<lparr>cw_executor := executor i, cw_missing := missing i\<rparr>\<lparr>cw_run_id := run_id\<rparr>
        = (worlds i)\<lparr>cw_run_id := run_id\<rparr>\<lparr>cw_executor := executor i, cw_missing := missing i\<rparr>" by simp
    show "evaluate_case ((worlds i)\<lparr>cw_executor := executor i, cw_missing := missing i\<rparr>\<lparr>cw_run_id := run_id\<rparr>)
        (rq_mode q) beta ?allow c tree
      = evaluate_case ((worlds i)\<lparr>cw_run_id := run_id\<rparr>) (rq_mode q) beta ?allow c tree"
      unfolding order using that review_mode_without_execution
        [where w = "(worlds i)\<lparr>cw_run_id := run_id\<rparr>" and executor = "executor i" and missing = "missing i"] by simp
  qed
  have "((\<exists>r \<in> set (rn_case_results run). tests_ran_locally r) \<longrightarrow> ?allow)
      \<and> (rn_execution_backend run = TrustedLocal \<longleftrightarrow> (\<exists>r \<in> set (rn_case_results run). tests_ran_locally r))"
    if run: "run_on_snapshot worlds describe si cases q existing base unchanged = Inr run" for run
  proof -
    obtain run_id d where r: "run = run_record si q run_id (snapshot_progress worlds describe si cases q run_id) d"
      using run by (auto simp: run_on_snapshot_Inr)
    have "list_all (\<lambda>r. tests_ran_locally r \<longrightarrow> ?allow) (rn_case_results run)"
      unfolding r run_record_simps snapshot_progress_def Let_def
      by (rule evaluated.run_cases_all) (auto dest: evaluate_case_local)
    moreover have "run_backend rs = TrustedLocal \<longleftrightarrow> (\<exists>r \<in> set rs. tests_ran_locally r)" for rs
      by (force simp: run_backend_def tests_ran_locally_def Let_def)
    ultimately show ?thesis unfolding r run_record_simps by (auto simp: list_all_iff)
  qed
  then show ?thesis using host review unfolding effective_allow_local_def by blast
qed

section \<open>A run always ends with a record\<close>

text \<open>What the aggregate metrics need of every result: counts that are not negative.\<close>

definition counts_ok :: "case_result \<Rightarrow> bool" where
  "counts_ok r \<longleftrightarrow> (case ce_deterministic_case_score (res_evidence r) of
     None \<Rightarrow> True
   | Some d \<Rightarrow> 0 \<le> ds_true_positive_count d \<and> 0 \<le> ds_false_positive_count d \<and> 0 \<le> ds_false_negative_count d)"

lemma failed_case_counts: "counts_ok (failed_case_result c e mode)"
  by (simp add: counts_ok_def failed_case_result_def Let_def no_evidence_def failed_score_def)

lemma evaluate_case_counts:
  assumes e: "evaluate_case w mode beta allow_local c tree = Inr r"
  shows "counts_ok r"
proof (cases "mode = ReviewMode")
  case True
  then show ?thesis using e by (auto simp: evaluate_case_review counts_ok_def no_evidence_def)
next
  case False
  obtain review patch executed changes validators scored
    where review: "review_case w allow_local c tree = Inr review"
      and scored: "score_deterministic_case c review patch executed validators beta = Some scored"
      and r: "r = evidence_of c review (select_case_patch (rr_parsed_response (cr_response review))) patch
        executed changes validators scored"
    using evaluate_case_Inr [OF e False] by metis
  obtain base response out k where "score_case c response out = Some base" "review = base\<lparr>cr_context_truncated := k\<rparr>"
    using review by (auto simp: review_case_def res_simps split: option.splits)
  from score_case_counts [OF this(1)] this(2) have "0 \<le> cr_bugs_matched review" "0 \<le> cr_false_positive_count review"
    by simp_all
  then show ?thesis using score_deterministic_case_Some [OF scored]
    by (simp add: counts_ok_def r evidence_simps final_score_def mark_tampering_def)
qed

lemma case_scores_ok:
  "list_all counts_ok rs \<Longrightarrow> list_all (\<lambda>s. 0 \<le> ds_true_positive_count s \<and> 0 \<le> ds_false_positive_count s
      \<and> 0 \<le> ds_false_negative_count s) (case_scores rs)"
  by (induction rs) (auto simp: case_scores_def List.map_filter_def counts_ok_def)

definition positive_betas :: "rat option \<Rightarrow> (benchmark_case \<times> node) list \<Rightarrow> bool" where
  "positive_betas beta cases \<longleftrightarrow>
     (case beta of Some b \<Rightarrow> 0 < b | None \<Rightarrow> list_all (\<lambda>(c, _). 0 < case_beta c) cases)"

lemma run_one_beta:
  assumes "0 < rp_beta p" "beta = None \<longrightarrow> 0 < case_beta c"
  shows "0 < rp_beta (run_one evaluate describe mode beta bu (i, c, tree) p)"
  using assms by (auto simp: run_one_def Let_def split: prod.split)

lemma run_cases_beta:
  assumes "positive_betas beta cases"
  shows "0 < rp_beta (run_cases evaluate describe mode beta bu cases)"
proof -
  have "0 < rp_beta p \<Longrightarrow> \<forall>(i, c, tree) \<in> set xs. beta = None \<longrightarrow> 0 < case_beta c \<Longrightarrow>
      0 < rp_beta (fold (run_one evaluate describe mode beta bu) xs p)" for xs p
    by (induction xs arbitrary: p) (auto simp: run_one_beta)
  moreover have "\<forall>(i, c, tree) \<in> set (enum_list cases). beta = None \<longrightarrow> 0 < case_beta c"
    using assms by (auto simp: positive_betas_def enum_list_def list_all_iff dest!: set_zip_rightD)
  ultimately show ?thesis
    using assms by (auto simp: run_cases_def positive_betas_def default_beta_def split: option.splits)
qed

lemma run_cases_no_budget:
  assumes "bu_max_wall bu = None" "bu_max_cost bu = None"
  shows "rp_stopped (run_cases evaluate describe mode beta bu cases) = None"
proof -
  have "rp_stopped p = None \<Longrightarrow> rp_stopped (fold (run_one evaluate describe mode beta bu) xs p) = None" for xs p
    by (induction xs arbitrary: p) (auto simp: run_one_def check_budget_def assms Let_def split: prod.split)
  then show ?thesis by (simp add: run_cases_def)
qed

lemma run_metrics_total:
  assumes "rq_mode q = ReviewMode \<or> positive_betas (rq_beta q) cases"
  shows "\<exists>d. run_metrics q (snapshot_progress worlds describe si cases q run_id) = Some d"
proof (cases "rq_mode q = ReviewMode")
  case False
  let ?p = "snapshot_progress worlds describe si cases q run_id"
  have "list_all counts_ok (rp_results ?p)"
    unfolding snapshot_progress_def Let_def
    by (rule evaluated.run_cases_all) (rule evaluate_case_counts, assumption, rule failed_case_counts)
  moreover have "0 < rp_beta ?p"
    using assms False by (simp add: snapshot_progress_def Let_def run_cases_beta)
  ultimately show ?thesis
    using False by (auto simp: run_metrics_def Let_def intro: aggregate_rates [OF _ case_scores_ok])
qed (simp add: run_metrics_def)

lemma published:
  assumes "rq_mode q = ReviewMode \<or> positive_betas (rq_beta q) cases"
  shows "(\<exists>run. run_on_snapshot worlds describe si cases q existing base unchanged = Inr run)
    \<longleftrightarrow> (case rq_expected_sha256 q of None \<Rightarrow> True | Some expected \<Rightarrow> si_checksum si = expected) \<and> unchanged"
  using reserve_total [of existing base] run_metrics_total [OF assms]
  unfolding run_on_snapshot_Inr by blast

text \<open>
  C15: a run ends with a published record whatever the reviewer, the patch or the tests of a case do, raising
  included: with positive betas it fails only if the pack is not the pinned one, before a directory is made,
  or if the snapshot changed under it. Without a budget every case of the pack then has a result.
\<close>

theorem run_always_published:
  assumes "rq_mode q = ReviewMode \<or> positive_betas (rq_beta q) cases"
  shows "((\<exists>run. run_on_snapshot worlds describe si cases q existing base unchanged = Inr run)
       \<longleftrightarrow> (case rq_expected_sha256 q of None \<Rightarrow> True | Some expected \<Rightarrow> si_checksum si = expected) \<and> unchanged)
     \<and> (bu_max_wall (rq_budget q) = None \<and> bu_max_cost (rq_budget q) = None \<longrightarrow>
         (\<forall>run. run_on_snapshot worlds describe si cases q existing base unchanged = Inr run \<longrightarrow>
            map result_id (rn_case_results run) = map (\<lambda>(c, _). case_id c) cases))"
proof -
  have "map result_id (rn_case_results run) = map (\<lambda>(c, _). case_id c) cases"
    if budget: "bu_max_wall (rq_budget q) = None" "bu_max_cost (rq_budget q) = None"
      and run: "run_on_snapshot worlds describe si cases q existing base unchanged = Inr run" for run
  proof -
    obtain run_id d where r: "run = run_record si q run_id (snapshot_progress worlds describe si cases q run_id) d"
      using run by (auto simp: run_on_snapshot_Inr)
    have "rp_stopped (snapshot_progress worlds describe si cases q run_id) = None"
      using budget by (simp add: snapshot_progress_def Let_def run_cases_no_budget)
    then show ?thesis
      using snapshot_progress_ok [of cases worlds describe si q run_id]
      by (auto simp: r run_record_simps progress_ok_def ids_of_def)
  qed
  then show ?thesis using published [OF assms] by blast
qed

section \<open>Concrete runs\<close>

definition toy_snapshot :: snapshot_info where
  "toy_snapshot = \<lparr>si_version = ''v1'', si_checksum = ''abc'', si_stored = Some ''abc'', si_file_count = 3,
     si_total_bytes = 10, si_manifest_version = 1, si_manifest_digest = ''d''\<rparr>"

definition toy_request :: "run_mode \<Rightarrow> rat option \<Rightarrow> string list \<Rightarrow> run_request" where
  "toy_request mode max_wall trusted =
     \<lparr>rq_mode = mode, rq_beta = None, rq_allow_local = True,
      rq_budget = \<lparr>bu_max_wall = max_wall, bu_max_cost = None, bu_elapsed = of_nat,
        bu_wall_text = (\<lambda>_ _. ''time''), bu_cost_text = (\<lambda>_ _. ''cost'')\<rparr>,
      rq_expected_sha256 = Some ''abc'', rq_trusted = trusted, rq_reviewer = ''toy'', rq_model = None,
      rq_test_assisted = False, rq_prompt_version = ''p1'', rq_git_commit = None, rq_git_dirty = None,
      rq_started_at = 0, rq_completed_at = 1\<rparr>"

definition two_cases :: "(benchmark_case \<times> node) list" where
  "two_cases = [(single_case, single_tree), (single_case\<lparr>case_id := ''second''\<rparr>, single_tree)]"

definition toy_run :: "run_mode \<Rightarrow> rat option \<Rightarrow> string list \<Rightarrow> (runner_error, run_result) res" where
  "toy_run mode max_wall trusted =
     run_on_snapshot (\<lambda>_. toy_world id) (\<lambda>_. ''error'') toy_snapshot two_cases (toy_request mode max_wall trusted)
       [''t''] ''t'' True"

lemma toy_published: obtains run where "toy_run mode max_wall trusted = Inr run"
proof -
  have "positive_betas (rq_beta (toy_request mode max_wall trusted)) two_cases"
    by (simp add: toy_request_def positive_betas_def two_cases_def single_case_def sample_case_def)
  from published [OF disjI2 [OF this], of "\<lambda>_. toy_world id" "\<lambda>_. ''error''" toy_snapshot "[''t'']" "''t''" True]
  show thesis using that by (auto simp: toy_run_def toy_request_def toy_snapshot_def)
qed

lemma toy_budget:
  fixes evaluate and describe and mode max_wall trusted
  defines "p \<equiv> run_cases evaluate describe mode None (rq_budget (toy_request mode max_wall trusted)) two_cases"
  shows "max_wall = Some 1 \<Longrightarrow> rp_skipped p = [''second'']"
    and "max_wall = None \<Longrightarrow> rp_skipped p = [] \<and> rp_results p \<noteq> []"
  by (simp_all add: p_def run_cases_def two_cases_def enum_list_def toy_request_def run_one_def check_budget_def
      Let_def case_prod_unfold)

lemma toy_progress:
  assumes "toy_run mode max_wall trusted = Inr run"
  shows "max_wall = Some 1 \<Longrightarrow> rn_skipped_case_ids run = [''second'']"
    and "max_wall = None \<Longrightarrow> rn_skipped_case_ids run = [] \<and> rn_case_results run \<noteq> []"
proof -
  have q: "rq_mode (toy_request mode max_wall trusted) = mode" "rq_beta (toy_request mode max_wall trusted) = None"
    by (simp_all add: toy_request_def)
  obtain run_id d where "run = run_record toy_snapshot (toy_request mode max_wall trusted) run_id
      (snapshot_progress (\<lambda>_. toy_world id) (\<lambda>_. ''error'') toy_snapshot two_cases
        (toy_request mode max_wall trusted) run_id) d"
    using assms unfolding toy_run_def run_on_snapshot_Inr by blast
  then show "max_wall = Some 1 \<Longrightarrow> rn_skipped_case_ids run = [''second'']"
    "max_wall = None \<Longrightarrow> rn_skipped_case_ids run = [] \<and> rn_case_results run \<noteq> []"
    unfolding snapshot_progress_def Let_def q by (simp_all only: run_record_simps toy_budget not_False_eq_True)
qed

theorem run_accounting_witness:
  "\<exists>run. toy_run FullMode (Some 1) [] = Inr run \<and> rn_skipped_case_ids run = [''second'']
     \<and> length (rn_case_results run) = 1 \<and> rn_eligible_case_count run = 2 \<and> rn_budget_stopped_reason run \<noteq> None
     \<and> rn_completed_case_count run + rn_failed_case_count run + rn_skipped_case_count run = 2
     \<and> rn_run_id run \<noteq> ''t''"
proof -
  obtain run where run: "toy_run FullMode (Some 1) [] = Inr run" by (rule toy_published)
  note a = run_accounting [OF run [unfolded toy_run_def]]
  from a have "length (map result_id (rn_case_results run) @ rn_skipped_case_ids run) = length two_cases" by simp
  with run a toy_progress(1) [OF run refl] show ?thesis by (intro exI [of _ run]) (auto simp: two_cases_def)
qed

theorem run_complete_iff_witness:
  "(\<exists>run. toy_run ReviewMode None [] = Inr run \<and> rn_run_status run = RunComplete \<and> rn_coverage_rate run = 1)
   \<and> (\<exists>run. toy_run ReviewMode (Some 1) [] = Inr run \<and> rn_run_status run \<noteq> RunComplete)"
proof -
  obtain run where run: "toy_run ReviewMode None [] = Inr run" by (rule toy_published)
  have "rn_case_results run \<noteq> []" "rn_skipped_case_ids run = []" using toy_progress(2) [OF run refl] by simp_all
  then have "rn_run_status run = RunComplete \<and> rn_coverage_rate run = 1"
    using run_complete_iff [OF run [unfolded toy_run_def]] by (simp add: toy_snapshot_def toy_request_def)
  moreover obtain run' where run': "toy_run ReviewMode (Some 1) [] = Inr run'" by (rule toy_published)
  then have "rn_run_status run' \<noteq> RunComplete"
    using run_complete_iff [OF run' [unfolded toy_run_def]] toy_progress(1) [OF run' refl] by simp
  ultimately show ?thesis using run run' by blast
qed

text \<open>On one host every command passes, on the other none can be started.\<close>

lemma toy_host_variant: "host_variant (toy_world id) ((toy_world id)\<lparr>
    cw_executor := \<lambda>stage. (cw_executor (toy_world id) stage)\<lparr>xe_run := \<lambda>args env timeout n.
      if hd args = ''docker'' then xe_run (cw_executor (toy_world id) stage) args env timeout n else None\<rparr>\<rparr>)"
  unfolding host_variant_def
  by (intro exI [of _ "\<lambda>stage. (cw_executor (toy_world id) stage)\<lparr>xe_run := \<lambda>args env timeout n.
      if hd args = ''docker'' then xe_run (cw_executor (toy_world id) stage) args env timeout n else None\<rparr>"]
      exI [of _ "cw_missing (toy_world id)"] conjI allI)
    (auto simp: host_variant_env_def docker_args_def container_options_def
      intro!: exI [of _ "\<lambda>args env timeout n. if hd args = ''docker''
        then xe_run (cw_executor (toy_world id) stage) args env timeout n else None" for stage])

theorem untrusted_pack_never_local_witness:
  "\<exists>run. toy_run FullMode None [''other''] = Inr run
     \<and> run_on_snapshot (\<lambda>_. (toy_world id)\<lparr>
           cw_executor := \<lambda>stage. (cw_executor (toy_world id) stage)\<lparr>xe_run := \<lambda>args env timeout n.
             if hd args = ''docker'' then xe_run (cw_executor (toy_world id) stage) args env timeout n else None\<rparr>\<rparr>)
         (\<lambda>_. ''error'') toy_snapshot two_cases (toy_request FullMode None [''other'']) [''t''] ''t'' True = Inr run
     \<and> list_all (\<lambda>r. \<not> tests_ran_locally r) (rn_case_results run) \<and> rn_execution_backend run \<noteq> TrustedLocal"
proof -
  obtain run where run: "toy_run FullMode None [''other''] = Inr run" by (rule toy_published)
  show ?thesis
    using untrusted_pack_never_local [OF allI [OF toy_host_variant], of "toy_request FullMode None [''other'']"
        toy_snapshot "\<lambda>_. ''error''" two_cases "[''t'']" "''t''" True] run
    by (intro exI [of _ run]) (simp add: toy_run_def toy_request_def toy_snapshot_def list_all_iff)
qed

theorem run_always_published_witness:
  "\<exists>run. toy_run FullMode None [] = Inr run \<and> map result_id (rn_case_results run) = map (\<lambda>(c, _). case_id c) two_cases"
proof -
  have "rq_mode (toy_request FullMode None []) = ReviewMode
      \<or> positive_betas (rq_beta (toy_request FullMode None [])) two_cases"
    by (simp add: toy_request_def positive_betas_def two_cases_def single_case_def sample_case_def)
  from run_always_published [OF this, of "\<lambda>_. toy_world id" "\<lambda>_. ''error''" toy_snapshot "[''t'']" "''t''" True]
  show ?thesis by (auto simp: toy_run_def toy_request_def toy_snapshot_def)
qed

end
