(* ===== verification/Leaderboard.thy ===== *)
theory Leaderboard
  imports Runner "HOL-Library.Product_Lexorder" "HOL-Library.Multiset"
begin

text \<open>
  \<open>arena/reports/leaderboard.py\<close>: which runs are comparable, the latest of each identity and the ranking by a
  metric. The runs read from disk are an argument, in the order of their paths. A time stamp is an integer; how it
  reads (\<open>isoformat\<close>) is a parameter.
\<close>

section \<open>Eligibility\<close>

definition eligibility_from_fields ::
  "int \<Rightarrow> run_status \<Rightarrow> execution_backend \<Rightarrow> rat \<Rightarrow> bool \<Rightarrow> bool option \<Rightarrow> bool \<Rightarrow> bool" where
  "eligibility_from_fields schema_version status backend coverage_rate digest_verified non_exact include_unverified =
     (if schema_version < 2 \<or> status \<noteq> RunComplete then False
      else if include_unverified then True
      else backend = Docker \<and> coverage_rate = 1 \<and> digest_verified \<and> non_exact = Some False)"

definition leaderboard_eligible :: "bool \<Rightarrow> run_result \<Rightarrow> bool" where
  "leaderboard_eligible include_unverified run =
     eligibility_from_fields (rn_schema_version run) (rn_run_status run) (rn_execution_backend run)
       (rn_coverage_rate run) (md_pack_digest_externally_verified (rn_metadata run))
       (md_non_exact_output_used (rn_metadata run)) include_unverified"

section \<open>The latest run of each identity\<close>

type_synonym rank_key = "string \<times> string \<times> string option \<times> run_mode"

definition run_key :: "run_result \<Rightarrow> rank_key" where
  "run_key run = (rn_benchmark_set run, rn_reviewer run, rn_model run, rn_mode run)"

definition offer :: "bool \<Rightarrow> run_result \<Rightarrow> (rank_key \<times> run_result) list \<Rightarrow> (rank_key \<times> run_result) list" where
  "offer include_unverified run latest =
     (if \<not> leaderboard_eligible include_unverified run then latest
      else case map_of latest (run_key run) of
        None \<Rightarrow> alist_put (run_key run) run latest
      | Some previous \<Rightarrow>
          if rn_completed_at run > rn_completed_at previous then alist_put (run_key run) run latest else latest)"

definition latest_runs :: "bool \<Rightarrow> run_result list \<Rightarrow> (rank_key \<times> run_result) list" where
  "latest_runs include_unverified runs = fold (offer include_unverified) runs []"

section \<open>The metric of a run\<close>

definition METRIC_VALUES :: "(string \<times> (deterministic_metrics \<Rightarrow> rat option)) list" where
  "METRIC_VALUES =
     [(''detection_f_beta'', \<lambda>m. Some (dm_detection_f_beta m)),
      (''detection_f1'', \<lambda>m. Some (dm_detection_f1 m)),
      (''detection_precision'', \<lambda>m. Some (dm_detection_precision m)),
      (''detection_recall'', \<lambda>m. Some (dm_detection_recall m)),
      (''validated_f_beta'', \<lambda>m. Some (dm_validated_f_beta m)),
      (''validated_f1'', \<lambda>m. Some (dm_validated_f1 m)),
      (''validated_precision'', \<lambda>m. Some (dm_validated_precision m)),
      (''validated_recall'', \<lambda>m. Some (dm_validated_recall m)),
      (''validated_case_rate'', \<lambda>m. Some (dm_validated_case_rate m)),
      (''complete_repair_rate'', \<lambda>m. Some (dm_complete_repair_rate m)),
      (''bug_completeness_rate'', \<lambda>m. Some (dm_bug_completeness_rate m)),
      (''supported_claim_rate'', dm_supported_claim_rate),
      (''deterministic_pass_rate'', \<lambda>m. Some (dm_deterministic_pass_rate m)),
      (''patch_apply_rate'', dm_patch_apply_rate),
      (''test_pass_rate'', dm_test_pass_rate),
      (''structural_pass_rate'', dm_structural_pass_rate),
      (''false_positives_per_case'', \<lambda>m. Some (dm_false_positives_per_case m)),
      (''cost_per_validated_fix'', dm_cost_per_validated_fix),
      (''latency_per_case_ms'', \<lambda>m. Some (dm_latency_per_case_ms m))]"

datatype board_error = UnsupportedMetric string | MetricZeroDivision

definition metric_of :: "string \<Rightarrow> rat \<Rightarrow> run_result \<Rightarrow> (board_error, rat option) res" where
  "metric_of metric beta run =
     (if metric \<in> {''score'', ''review_quality_score''} then Inr (Some (rn_total_score run))
      else case rn_deterministic_metrics run of
        None \<Rightarrow> Inr None
      | Some recorded \<Rightarrow>
          let metric = (if metric = ''f_beta'' then ''detection_f_beta'' else metric);
              metrics = (if metric \<in> {''detection_f_beta'', ''validated_f_beta''}
                then aggregate_deterministic_metrics (rn_case_results run) beta (rn_total_cost run)
                  (rn_total_latency_ms run)
                else Some recorded)
          in case metrics of
               None \<Rightarrow> Inl MetricZeroDivision
             | Some m \<Rightarrow>
                 (case map_of METRIC_VALUES metric of
                    None \<Rightarrow> Inl (UnsupportedMetric metric)
                  | Some value \<Rightarrow> Inr (value m)))"

definition metric_ci :: "string \<Rightarrow> run_result \<Rightarrow> (real \<times> real) option" where
  "metric_ci metric run =
     (case rn_deterministic_metrics run of
        None \<Rightarrow> None
      | Some m \<Rightarrow>
          if metric \<notin> {''validated_case_rate'', ''deterministic_pass_rate''} then None
          else dm_validated_case_rate_ci m)"

definition pack_label :: "run_result \<Rightarrow> string" where
  "pack_label run =
     (case md_pack_checksum (rn_metadata run) of
        None \<Rightarrow> rn_benchmark_set run
      | Some checksum \<Rightarrow>
          if checksum = [] then rn_benchmark_set run
          else rn_benchmark_set run @ ''@'' @ take 10 checksum
            @ (if md_pack_checksum_verified (rn_metadata run) = Some False then '' (tampered!)'' else []))"

section \<open>The rows\<close>

record board_row =
  lr_reviewer :: string
  lr_model :: string
  lr_score :: rat
  lr_bugs_found :: string
  lr_false_positives :: int
  lr_cost :: rat
  lr_latency_ms :: int
  lr_run_id :: string
  lr_mode :: run_mode
  lr_completed_at :: string
  lr_metric_value :: "rat option"
  lr_metric_ci :: "(real \<times> real) option"
  lr_pack :: string

definition row_of ::
  "(int \<Rightarrow> string) \<Rightarrow> string \<Rightarrow> rat \<Rightarrow> run_result \<Rightarrow> (board_error, board_row) res" where
  "row_of isoformat metric beta run =
     and_then (metric_of metric beta run) (\<lambda>value. Inr
       \<lparr>lr_reviewer = rn_reviewer run, lr_model = (case rn_model run of None \<Rightarrow> [] | Some m \<Rightarrow> m),
        lr_score = rn_total_score run,
        lr_bugs_found = int_str (rn_bugs_found run) @ ''/'' @ nat_str (length (rn_case_results run)),
        lr_false_positives = rn_false_positives run, lr_cost = rn_total_cost run,
        lr_latency_ms = rn_total_latency_ms run, lr_run_id = rn_run_id run, lr_mode = rn_mode run,
        lr_completed_at = isoformat (rn_completed_at run), lr_metric_value = value,
        lr_metric_ci = metric_ci metric run, lr_pack = pack_label run\<rparr>)"

definition descending_metric :: "string \<Rightarrow> bool" where
  "descending_metric metric \<longleftrightarrow>
     metric \<notin> {''cost_per_validated_fix'', ''false_positives_per_case'', ''latency_per_case_ms''}"

definition board_key :: "bool \<Rightarrow> rat option \<Rightarrow> bool \<times> rat" where
  "board_key descending v = (case v of None \<Rightarrow> (True, 0) | Some x \<Rightarrow> (False, if descending then - x else x))"

fun rows_of ::
  "(int \<Rightarrow> string) \<Rightarrow> string \<Rightarrow> rat \<Rightarrow> run_result list \<Rightarrow> (board_error, board_row list) res" where
  "rows_of isoformat metric beta [] = Inr []"
| "rows_of isoformat metric beta (run # runs) =
     and_then (row_of isoformat metric beta run) (\<lambda>row.
     and_then (rows_of isoformat metric beta runs) (\<lambda>rows. Inr (row # rows)))"

definition leaderboard_rows ::
  "(int \<Rightarrow> string) \<Rightarrow> run_result list \<Rightarrow> string \<Rightarrow> rat \<Rightarrow> bool \<Rightarrow> (board_error, board_row list) res" where
  "leaderboard_rows isoformat runs metric beta include_unverified =
     and_then (rows_of isoformat metric beta (map snd (latest_runs include_unverified runs))) (\<lambda>rows.
       Inr (sort_key (\<lambda>row. board_key (descending_metric metric) (lr_metric_value row)) rows))"

section \<open>One run per identity\<close>

text \<open>
  What a table of the latest runs promises, whichever way it is built: one entry per identity, the latest
  eligible run of it.
\<close>

locale latest_table =
  fixes eligible :: "'r \<Rightarrow> bool" and key :: "'r \<Rightarrow> 'k" and completed :: "'r \<Rightarrow> int"
    and build :: "'r list \<Rightarrow> ('k \<times> 'r) list"
  assumes one_each: "distinct (map fst (build runs))"
    and entry: "map_of (build runs) k = Some r \<Longrightarrow>
      r \<in> set runs \<and> eligible r \<and> key r = k
      \<and> (\<forall>r' \<in> set runs. eligible r' \<and> key r' = k \<longrightarrow> completed r' \<le> completed r)"
    and present: "r \<in> set runs \<Longrightarrow> eligible r \<Longrightarrow> key r \<in> set (map fst (build runs))"
begin

lemma determined:
  assumes "inj_on completed (set runs)"
  shows "map_of (build runs) k = Some r \<longleftrightarrow>
    r \<in> set runs \<and> eligible r \<and> key r = k
    \<and> (\<forall>r' \<in> set runs. eligible r' \<and> key r' = k \<longrightarrow> completed r' \<le> completed r)" (is "_ \<longleftrightarrow> ?R")
proof
  assume R: ?R
  then have "k \<in> dom (map_of (build runs))" using present by (metis dom_map_of_conv_image_fst set_map)
  then obtain r' where r': "map_of (build runs) k = Some r'" by blast
  with entry [OF r'] R have "completed r' = completed r" by (simp add: order_antisym)
  then show "map_of (build runs) k = Some r" using r' entry [OF r'] R assms by (metis inj_onD)
qed (rule entry)

lemma in_build: "(k, r) \<in> set (build runs) \<longleftrightarrow> map_of (build runs) k = Some r"
  using one_each [of runs] by simp

lemma keys_of_entries: "map key (map snd (build runs)) = map fst (build runs)"
  using entry in_build by (auto intro!: map_cong)

lemma distinct_identities: "distinct (map key (map snd (build runs)))"
  unfolding keys_of_entries by (rule one_each)

lemma ranked:
  assumes "r \<in> set (map snd (build runs))"
  shows "r \<in> set runs \<and> eligible r \<and> (\<forall>r' \<in> set runs. eligible r' \<and> key r' = key r \<longrightarrow> completed r' \<le> completed r)"
proof -
  obtain k where "(k, r) \<in> set (build runs)" using assms by auto
  then have "map_of (build runs) k = Some r" by (simp only: in_build)
  from entry [OF this] show ?thesis by blast
qed

lemma identities: "key ` set (map snd (build runs)) = key ` {r \<in> set runs. eligible r}"
proof -
  have "key ` set (map snd (build runs)) = set (map fst (build runs))"
    using keys_of_entries [of runs] by (metis set_map)
  then show ?thesis using ranked [of _ runs] present [of _ runs] by blast
qed

end

text \<open>The fold keeps, at each step, the latest of the runs read so far.\<close>

definition latest_of ::
  "('r \<Rightarrow> bool) \<Rightarrow> ('r \<Rightarrow> 'k) \<Rightarrow> ('r \<Rightarrow> int) \<Rightarrow> 'r list \<Rightarrow> ('k \<times> 'r) list \<Rightarrow> bool" where
  "latest_of eligible key completed runs d \<longleftrightarrow>
     distinct (map fst d)
     \<and> (\<forall>k r. map_of d k = Some r \<longrightarrow> r \<in> set runs \<and> eligible r \<and> key r = k
          \<and> (\<forall>r' \<in> set runs. eligible r' \<and> key r' = k
               \<longrightarrow> completed r' \<le> completed r))
     \<and> (\<forall>r \<in> set runs. eligible r \<longrightarrow> key r \<in> set (map fst d))"

lemma latest_of_put:
  assumes d: "latest_of eligible key completed runs d" and run: "eligible run"
    and newer: "\<forall>r \<in> set runs. eligible r \<and> key r = key run
      \<longrightarrow> completed r \<le> completed run"
  shows "latest_of eligible key completed (runs @ [run]) (alist_put (key run) run d)"
  unfolding latest_of_def keys_alist_put map_of_alist_put
proof (intro conjI allI impI ballI)
  show "distinct (map fst (alist_put (key run) run d))"
    using d by (simp add: latest_of_def distinct_alist_put)
next
  fix k r assume r: "((map_of d)(key run \<mapsto> run)) k = Some r"
  show "r \<in> set (runs @ [run])" "eligible r" "key r = k"
    using r d run by (auto simp: latest_of_def split: if_splits)
  fix r' assume "r' \<in> set (runs @ [run])" "eligible r' \<and> key r' = k"
  then show "completed r' \<le> completed r"
    using r d newer by (cases "k = key run") (auto simp: latest_of_def)
next
  fix r assume "r \<in> set (runs @ [run])" "eligible r"
  then show "key r \<in> insert (key run) (set (map fst d))"
    using d unfolding latest_of_def by auto
qed

lemma latest_of_skip:
  assumes d: "latest_of eligible key completed runs d"
    and old: "eligible run \<Longrightarrow>
      \<exists>previous. map_of d (key run) = Some previous \<and> completed run \<le> completed previous"
  shows "latest_of eligible key completed (runs @ [run]) d"
  unfolding latest_of_def
proof (intro conjI allI impI ballI)
  show "distinct (map fst d)" using d by (simp add: latest_of_def)
next
  fix k r assume r: "map_of d k = Some r"
  show "r \<in> set (runs @ [run])" "eligible r" "key r = k"
    using r d by (auto simp: latest_of_def)
  fix r' assume "r' \<in> set (runs @ [run])" "eligible r' \<and> key r' = k"
  moreover have "completed run \<le> completed r" if "eligible run" "key run = k"
    using old [OF that(1)] r that(2) by auto
  ultimately show "completed r' \<le> completed r" using r d by (auto simp: latest_of_def)
next
  fix r assume "r \<in> set (runs @ [run])" "eligible r"
  then show "key r \<in> set (map fst d)"
    using d old unfolding latest_of_def by (force dest: map_of_SomeD)
qed

lemma latest_of_none:
  assumes "latest_of eligible key completed runs d" "map_of d k = None"
  shows "\<not> (\<exists>r \<in> set runs. eligible r \<and> key r = k)"
  using assms unfolding latest_of_def map_of_eq_None_iff set_map by blast

lemma latest_of_newest:
  assumes "latest_of eligible key completed runs d" "map_of d k = Some previous"
  shows "\<forall>r \<in> set runs. eligible r \<and> key r = k \<longrightarrow> completed r \<le> completed previous"
  using assms by (auto simp: latest_of_def)

lemma latest_of_offer:
  assumes d: "latest_of (leaderboard_eligible u) run_key rn_completed_at runs d"
  shows "latest_of (leaderboard_eligible u) run_key rn_completed_at (runs @ [run]) (offer u run d)"
proof (cases "map_of d (run_key run)")
  case None
  note none = latest_of_none [OF d None]
  show ?thesis
  proof (cases "leaderboard_eligible u run")
    case True
    have "latest_of (leaderboard_eligible u) run_key rn_completed_at (runs @ [run]) (alist_put (run_key run) run d)"
      by (rule latest_of_put [OF d True]) (use none in blast)
    then show ?thesis by (simp add: offer_def True None)
  next
    case False
    have "latest_of (leaderboard_eligible u) run_key rn_completed_at (runs @ [run]) d"
      by (rule latest_of_skip [OF d]) (use False in blast)
    then show ?thesis by (simp add: offer_def False)
  qed
next
  case (Some previous)
  note newest = latest_of_newest [OF d Some]
  show ?thesis
  proof (cases "leaderboard_eligible u run \<and> rn_completed_at run > rn_completed_at previous")
    case True
    have "latest_of (leaderboard_eligible u) run_key rn_completed_at (runs @ [run]) (alist_put (run_key run) run d)"
      using True newest by (intro latest_of_put [OF d]) auto
    then show ?thesis by (simp add: offer_def True Some)
  next
    case False
    have "latest_of (leaderboard_eligible u) run_key rn_completed_at (runs @ [run]) d"
      using False Some by (intro latest_of_skip [OF d]) auto
    then show ?thesis using False by (auto simp: offer_def Some)
  qed
qed

lemma latest_of_fold:
  "latest_of (leaderboard_eligible u) run_key rn_completed_at runs d \<Longrightarrow>
   latest_of (leaderboard_eligible u) run_key rn_completed_at (runs @ rest) (fold (offer u) rest d)"
proof (induction rest arbitrary: runs d)
  case (Cons run rest)
  show ?case using Cons.IH [OF latest_of_offer [OF Cons.prems]] by simp
qed simp

lemma latest_of_Nil: "latest_of eligible key completed [] []"
  by (simp add: latest_of_def)

lemma latest_of_latest_runs: "latest_of (leaderboard_eligible u) run_key rn_completed_at runs (latest_runs u runs)"
  unfolding latest_runs_def using latest_of_fold [OF latest_of_Nil] by simp

lemma latest_table_of:
  "(\<And>runs. latest_of eligible key completed runs (build runs)) \<Longrightarrow> latest_table eligible key completed build"
  unfolding latest_of_def by unfold_locales blast+

interpretation on_disk: latest_table "leaderboard_eligible u" run_key rn_completed_at "latest_runs u" for u
  by (rule latest_table_of) (rule latest_of_latest_runs)

section \<open>The ranking\<close>

lemma rows_of_Inr:
  "rows_of isoformat metric beta runs = Inr rows \<Longrightarrow> map (row_of isoformat metric beta) runs = map Inr rows"
  by (induction runs arbitrary: rows) (auto simp: res_simps)

lemma row_identity: "row_of isoformat metric beta run = Inr row \<Longrightarrow> lr_run_id row = rn_run_id run"
  by (auto simp: row_of_def res_simps)

text \<open>
  C19: the leaderboard has one row for each identity (pack, reviewer, model, mode) with an eligible run, made from
  the latest of them, and its rows are in the order of the metric: best first, rows without a value last.
\<close>

theorem leaderboard_ranks_latest:
  assumes "leaderboard_rows isoformat runs metric beta include_unverified = Inr rows"
  shows "sorted (map (\<lambda>row. board_key (descending_metric metric) (lr_metric_value row)) rows)
     \<and> (\<exists>ranked. mset (map Inr rows) = mset (map (row_of isoformat metric beta) ranked)
          \<and> distinct (map run_key ranked)
          \<and> run_key ` set ranked = run_key ` {r \<in> set runs. leaderboard_eligible include_unverified r}
          \<and> (\<forall>r \<in> set ranked. r \<in> set runs \<and> leaderboard_eligible include_unverified r
               \<and> (\<forall>r' \<in> set runs. leaderboard_eligible include_unverified r' \<and> run_key r' = run_key r
                    \<longrightarrow> rn_completed_at r' \<le> rn_completed_at r)))"
proof -
  let ?table = "latest_runs include_unverified runs"
  let ?ranked = "map snd ?table"
  obtain unsorted where u: "rows_of isoformat metric beta ?ranked = Inr unsorted"
    and rows: "rows = sort_key (\<lambda>row. board_key (descending_metric metric) (lr_metric_value row)) unsorted"
    using assms by (auto simp: leaderboard_rows_def res_simps)
  have "mset rows = mset unsorted" by (simp add: rows)
  then have rows_mset: "mset (map Inr rows) = mset (map (row_of isoformat metric beta) ?ranked)"
    unfolding rows_of_Inr [OF u] mset_map by simp
  show ?thesis
    using on_disk.distinct_identities [of include_unverified runs] on_disk.identities [of include_unverified runs]
      on_disk.ranked [of _ include_unverified runs] rows_mset
    by (intro conjI exI [of _ ?ranked]) (simp_all only: rows sorted_sort_key, blast?)
qed

section \<open>What the default leaderboard ranks\<close>

text \<open>
  C18: a run that the default leaderboard ranks is one whose pack matched a digest pinned by the caller, in which every
  case of the pack has a result and none was skipped, no case records that its hidden tests ran on the host, some case
  records that they ran in Docker and, outside the review mode, none lacked its backend, and no reviewer output was
  reinterpreted. It says nothing of executions that leave no record: with the opt-in, the preview of the tests, the static
  analysis and the tests of a case that raises afterwards run on the host, and the run can still be ranked.
\<close>

theorem ranked_run_is_trustworthy:
  assumes "run_on_snapshot worlds describe si cases q existing base unchanged = Inr run"
    and "leaderboard_eligible False run"
  shows "rq_expected_sha256 q = Some (si_checksum si) \<and> si_stored si \<in> {None, Some (si_checksum si)}
     \<and> map result_id (rn_case_results run) = map (\<lambda>(c, _). case_id c) cases
     \<and> list_all (\<lambda>r. ce_execution_backend (res_evidence r) \<noteq> TrustedLocal
          \<and> (rq_mode q = ReviewMode \<or> \<not> ce_execution_unavailable (res_evidence r))
          \<and> rr_parse_status (cr_response (res_review r)) \<in> {Exact, Invalid}) (rn_case_results run)
     \<and> list_ex (\<lambda>r. ce_execution_backend (res_evidence r) = Docker) (rn_case_results run)"
proof -
  obtain run_id d where r: "run = run_record si q run_id (snapshot_progress worlds describe si cases q run_id) d"
    and pinned: "case rq_expected_sha256 q of None \<Rightarrow> True | Some expected \<Rightarrow> si_checksum si = expected"
    using assms(1) by (auto simp: run_on_snapshot_Inr)
  define p where "p = snapshot_progress worlds describe si cases q run_id"
  have run: "run = run_record si q run_id p d" by (simp add: r p_def)
  have e: "rn_run_status run = RunComplete" "rn_execution_backend run = Docker"
    "md_pack_digest_externally_verified (rn_metadata run)" "md_non_exact_output_used (rn_metadata run) = Some False"
    using assms(2) by (auto simp: leaderboard_eligible_def eligibility_from_fields_def split: if_splits)
  have digest: "rq_expected_sha256 q = Some (si_checksum si)"
    using e(3) pinned by (auto simp: run run_record_simps run_metadata_of_def)
  have complete: "rp_skipped p = []" "map_option (\<lambda>x. x = si_checksum si) (si_stored si) \<noteq> Some False"
    "rq_mode q = ReviewMode \<or> unavailable_cases (rp_results p) = 0"
    using e(1) by (auto simp: run run_record_simps run_status_of_def run_metadata_of_def split: if_splits)
  have ids: "map result_id (rp_results p) = map (\<lambda>(c, _). case_id c) cases"
    using snapshot_progress_ok [of cases worlds describe si q run_id] complete(1)
    by (simp add: progress_ok_def ids_of_def p_def)
  have backend: "\<forall>r \<in> set (rp_results p). ce_execution_backend (res_evidence r) \<noteq> TrustedLocal"
    "\<exists>r \<in> set (rp_results p). ce_execution_backend (res_evidence r) = Docker"
    using e(2) by (force simp: run run_record_simps run_backend_def Let_def split: if_splits)+
  have exact: "\<forall>r \<in> set (rp_results p). rr_parse_status (cr_response (res_review r)) \<in> {Exact, Invalid}"
  proof
    fix r assume "r \<in> set (rp_results p)"
    then show "rr_parse_status (cr_response (res_review r)) \<in> {Exact, Invalid}"
      using e(4) by (cases "rr_parse_status (cr_response (res_review r))")
        (auto simp: run run_record_simps run_metadata_of_def case_statuses_def list_ex_iff)
  qed
  have "si_stored si \<in> {None, Some (si_checksum si)}" using complete(2) by (cases "si_stored si") auto
  moreover have "rq_mode q = ReviewMode \<or> (\<forall>r \<in> set (rp_results p). \<not> ce_execution_unavailable (res_evidence r))"
    using complete(3) by (auto simp: unavailable_cases_def filter_empty_conv)
  ultimately show ?thesis
    using digest ids backend exact
    unfolding run run_record_simps list_all_iff list_ex_iff by blast
qed

section \<open>A run in Docker\<close>

definition docker_case :: benchmark_case where
  "docker_case = single_case\<lparr>case_execution := (case_execution single_case)\<lparr>ex_docker_image := Some ''img''\<rparr>\<rparr>"

definition docker_world :: case_world where
  "docker_world = (toy_world id)\<lparr>cw_executor := (\<lambda>_. (local_executor id)\<lparr>xe_has_docker := True,
     xe_docker := (\<lambda>_. (0, ''sha256:1'')), xe_mount_source := Some\<rparr>)\<rparr>"

definition docker_preview :: "(case_error, case_context \<times> string) res" where
  "docker_preview =
     and_then (materialized_case docker_case single_tree) (\<lambda>materialized.
     and_then (preview_tests docker_world False docker_case materialized) (\<lambda>(test_output, left).
     and_then (preview_analysis docker_world False docker_case left) (\<lambda>static_output.
     and_then (raise_as ContextFailed (build_context latin default_limits ''c'' docker_case single_tree test_output
         static_output)) (\<lambda>context. Inr (context, test_output)))))"

definition docker_stages :: "(case_error, execution_backend \<times> bool) res" where
  "docker_stages =
     and_then (apply_case_patch docker_world docker_case single_tree (Some ''p'')) (\<lambda>(patch, workspace).
     and_then (run_hidden_tests docker_world False docker_case single_tree patch workspace)
       (\<lambda>(executed, changes, left). Inr (backend_of executed, execution_unavailable_of executed)))"

lemma docker_runs: "is_Inr docker_preview" "docker_stages = Inr (Docker, False)"
  by code_simp+

lemma docker_review:
  obtains review out k where
    "review_case docker_world False docker_case single_tree = Inr (review\<lparr>cr_context_truncated := k\<rparr>)"
    "score_case docker_case single_response out = Some review" "cr_response review = single_response"
proof -
  obtain context' out where p: "docker_preview = Inr (context', out)" using is_InrE [OF docker_runs(1)] by auto
  obtain assigned where a: "score_case docker_case single_response out
      = Some (score_assigned docker_case single_response out assigned)" by (rule score_case_assigned)
  let ?review = "score_assigned docker_case single_response out assigned"
  have w: "cw_codec docker_world = latin" "cw_case_dir docker_world = ''c''"
    "cw_reviewer docker_world = (\<lambda>_. Inr single_response)" by (simp_all add: docker_world_def toy_world_def)
  have "review_case docker_world False docker_case single_tree
      = Inr (?review\<lparr>cr_context_truncated := cc_context_truncated context'\<rparr>)"
    using p a by (auto simp: review_case_def docker_preview_def w res_simps)
  moreover have "cr_response ?review = single_response"
    by (simp only: score_assigned_def Let_def) (simp split: prod.split)
  ultimately show thesis using a that by blast
qed

lemma docker_evaluated:
  obtains r where "evaluate_case docker_world FullMode 1 False docker_case single_tree = Inr r"
    "ce_execution_backend (res_evidence r) = Docker" "\<not> ce_execution_unavailable (res_evidence r)"
    "rr_parse_status (cr_response (res_review r)) = Exact"
proof -
  obtain review out k where review:
    "review_case docker_world False docker_case single_tree = Inr (review\<lparr>cr_context_truncated := k\<rparr>)"
    and score: "score_case docker_case single_response out = Some review"
    and response: "cr_response review = single_response" by (rule docker_review)
  obtain patch workspace executed changes left where stages:
    "apply_case_patch docker_world docker_case single_tree (Some ''p'') = Inr (patch, workspace)"
    "run_hidden_tests docker_world False docker_case single_tree patch workspace = Inr (executed, changes, left)"
    and backend: "backend_of executed = Docker" "\<not> execution_unavailable_of executed"
    using docker_runs(2) by (auto simp: docker_stages_def res_simps)
  obtain scored where scored:
    "score_deterministic_case docker_case (review\<lparr>cr_context_truncated := k\<rparr>) patch executed [] 1 = Some scored"
    unfolding truncation_not_scored
    using det_score_total [OF score, where beta = 1 and patch = patch and tests = executed and validators = "[]"]
    by auto
  have chosen: "fst (select_case_patch (rr_parsed_response single_response)) = Some ''p''" by code_simp
  have none: "va_structural_validators (case_validation docker_case) = []"
    by (simp add: docker_case_def single_case_def sample_case_def)
  let ?r = "evidence_of docker_case (review\<lparr>cr_context_truncated := k\<rparr>)
      (select_case_patch (rr_parsed_response single_response)) patch executed changes [] scored"
  have "evaluate_case docker_world FullMode 1 False docker_case single_tree = Inr ?r"
    using review stages scored
    by (simp add: evaluate_case_def Let_def response chosen run_case_validators_def none)
  moreover have "cr_response (res_review ?r) = single_response"
    using response by (simp add: evidence_of_def Let_def apply_execution_fields split: prod.split)
  ultimately show thesis
    using that backend by (simp add: evidence_simps single_response_def sample_response_def)
qed

definition docker_run :: "(runner_error, run_result) res" where
  "docker_run = run_on_snapshot (\<lambda>_. docker_world) (\<lambda>_. ''error'') toy_snapshot [(docker_case, single_tree)]
     (toy_request FullMode None [''other'']) [] ''run-1'' True"

lemma docker_ranked:
  obtains run where "docker_run = Inr run" "leaderboard_eligible False run"
proof -
  let ?q = "toy_request FullMode None [''other'']"
  have q: "rq_mode ?q = FullMode" "rq_beta ?q = None" by (simp_all add: toy_request_def)
  have "case_beta docker_case = 1" by (simp add: docker_case_def single_case_def sample_case_def)
  then have "positive_betas (rq_beta ?q) [(docker_case, single_tree)]" by (simp add: q positive_betas_def)
  from published [OF disjI2 [OF this], of "\<lambda>_. docker_world" "\<lambda>_. ''error''" toy_snapshot "[]" "''run-1''" True]
  obtain run where run: "docker_run = Inr run" by (auto simp: docker_run_def toy_request_def toy_snapshot_def)
  have name: "reserve_run_dir [] ''run-1'' = Some ''run-1''" by (simp add: reserve_run_dir_def)
  obtain d where made: "run = run_record toy_snapshot ?q ''run-1''
      (snapshot_progress (\<lambda>_. docker_world) (\<lambda>_. ''error'') toy_snapshot [(docker_case, single_tree)] ?q ''run-1'') d"
    using run unfolding docker_run_def run_on_snapshot_Inr name by blast
  obtain r where r: "evaluate_case docker_world FullMode 1 False docker_case single_tree = Inr r"
    "ce_execution_backend (res_evidence r) = Docker" "\<not> ce_execution_unavailable (res_evidence r)"
    "rr_parse_status (cr_response (res_review r)) = Exact" by (rule docker_evaluated)
  have same: "docker_world\<lparr>cw_run_id := ''run-1''\<rparr> = docker_world" by (simp add: docker_world_def toy_world_def)
  have "rp_results (snapshot_progress (\<lambda>_. docker_world) (\<lambda>_. ''error'') toy_snapshot [(docker_case, single_tree)] ?q
      ''run-1'') = [r]"
    and "rp_skipped (snapshot_progress (\<lambda>_. docker_world) (\<lambda>_. ''error'') toy_snapshot [(docker_case, single_tree)] ?q
      ''run-1'') = []"
    using r(1) unfolding snapshot_progress_def Let_def q same
    by (simp_all add: run_cases_def enum_list_def run_one_def check_budget_def toy_request_def Let_def
        effective_allow_local_def toy_snapshot_def \<open>case_beta docker_case = 1\<close>)
  then have "leaderboard_eligible False run"
    using r(2-4) py_round_int [of 1 6]
    by (simp add: made run_record_simps leaderboard_eligible_def eligibility_from_fields_def run_backend_def
        run_status_of_def run_metadata_of_def unavailable_cases_def case_statuses_def toy_snapshot_def
        RUN_SCHEMA_VERSION_def) (simp add: toy_request_def)
  with run show thesis by (rule that)
qed

theorem ranked_run_is_trustworthy_witness:
  "\<exists>run. docker_run = Inr run \<and> leaderboard_eligible False run
     \<and> map result_id (rn_case_results run) = [''race-001'']
     \<and> list_ex (\<lambda>r. ce_execution_backend (res_evidence r) = Docker) (rn_case_results run)"
proof -
  obtain run where run: "docker_run = Inr run" "leaderboard_eligible False run" by (rule docker_ranked)
  from ranked_run_is_trustworthy [OF run(1) [unfolded docker_run_def] run(2)] run show ?thesis
    by (intro exI [of _ run]) (simp add: docker_case_def single_case_def sample_case_def)
qed

theorem leaderboard_ranks_latest_witness:
  "\<exists>run rows. docker_run = Inr run
     \<and> leaderboard_rows (\<lambda>_. ''now'') [run, run\<lparr>rn_completed_at := 9\<rparr>] ''score'' 1 False = Inr rows \<and> length rows = 1"
proof -
  obtain run where run: "docker_run = Inr run" "leaderboard_eligible False run" by (rule docker_ranked)
  let ?runs = "[run, run\<lparr>rn_completed_at := 9\<rparr>]"
  have "rows_of (\<lambda>_. ''now'') ''score'' 1 rs \<noteq> Inl e" for rs e
    by (induction rs arbitrary: e) (auto simp: and_then_Inl row_of_def metric_of_def)
  then obtain rows where rows: "leaderboard_rows (\<lambda>_. ''now'') ?runs ''score'' 1 False = Inr rows"
    by (cases "leaderboard_rows (\<lambda>_. ''now'') ?runs ''score'' 1 False") (auto simp: leaderboard_rows_def and_then_Inl)
  from leaderboard_ranks_latest [OF rows] obtain ranked where ranked:
    "mset (map Inr rows) = mset (map (row_of (\<lambda>_. ''now'') ''score'' 1) ranked)" "distinct (map run_key ranked)"
    "run_key ` set ranked = run_key ` {r \<in> set ?runs. leaderboard_eligible False r}" by blast
  have "run_key ` set ranked = {run_key run}"
    using ranked(3) run(2) by (auto simp: leaderboard_eligible_def run_key_def image_def)
  then have "length ranked = 1" using distinct_card [OF ranked(2)] by simp
  moreover have "length rows = length ranked" using arg_cong [OF ranked(1), of size] by simp
  ultimately show ?thesis using run rows by auto
qed

end
