(* ===== verification/Storage.thy ===== *)
theory Storage
  imports Leaderboard
begin

text \<open>
  The SQLite storage of runs: the versioned schema of \<open>arena/storage/db.py\<close> and the repository of
  \<open>arena/storage/repository.py\<close>.

  A database is its schema version, the columns of its tables and their rows. A statement that SQLite refuses is an
  error; a connection that is interrupted leaves what the statements before that point did. The document stored with a
  run is the run and the names of the optional fields that an older document lacks.
\<close>

section \<open>Rows\<close>

record run_document =
  doc_run :: run_result
  doc_absent :: "string list"

record run_line =
  rl_id :: string
  rl_reviewer :: string
  rl_model :: "string option"
  rl_benchmark_set :: string
  rl_started_at :: int
  rl_completed_at :: int
  rl_total_score :: rat
  rl_total_cost :: rat
  rl_total_latency_ms :: int
  rl_beta :: rat
  rl_metrics :: "deterministic_metrics option"
  rl_schema_version :: "int option"
  rl_run_status :: "run_status option"
  rl_execution_backend :: "execution_backend option"
  rl_eligible_case_count :: "int option"
  rl_completed_case_count :: "int option"
  rl_failed_case_count :: "int option"
  rl_skipped_case_count :: "int option"
  rl_coverage_rate :: "rat option"
  rl_run_json :: run_document

record case_line =
  cl_id :: string
  cl_run_id :: string
  cl_case_id :: string
  cl_score :: rat
  cl_bug_found :: bool
  cl_correct_file :: bool
  cl_correct_line :: bool
  cl_false_positive_count :: int
  cl_deterministic_pass :: "bool option"
  cl_patch_provided :: bool
  cl_patch_applied :: bool
  cl_tests_ran :: bool
  cl_tests_passed :: "bool option"
  cl_structural_validation_ran :: bool
  cl_structural_validation_passed :: "bool option"
  cl_failure_reasons :: "string list"
  cl_patch_error :: "string option"
  cl_raw_response :: string
  cl_parsed_response :: "review_result option"

record finding_line =
  fl_id :: string
  fl_case_result_id :: string
  fl_title :: string
  fl_category :: string
  fl_severity :: severity
  fl_file :: string
  fl_line_start :: int
  fl_line_end :: int
  fl_summary :: string
  fl_suggested_fix :: string
  fl_confidence :: rat
  fl_is_true_positive :: bool

record validator_line =
  vl_id :: string
  vl_case_result_id :: string
  vl_validator_name :: string
  vl_passed :: bool
  vl_confidence :: rat
  vl_message :: string
  vl_evidence :: "string list"
  vl_error :: "string option"

record arena_db =
  db_version :: nat
  db_columns :: "(string \<times> string list) list"
  db_runs :: "run_line list"
  db_cases :: "case_line list"
  db_findings :: "finding_line list"
  db_validators :: "validator_line list"

section \<open>Migrations\<close>

definition SCHEMA_VERSION :: nat where "SCHEMA_VERSION = 2"

datatype statement = CreateTable string "string list" | AddColumn string string | MarkLegacy

datatype storage_error = NoSuchTable string | NewerSchema nat

definition SCHEMA :: "(string \<times> string list) list" where
  "SCHEMA =
     [(''runs'',
       [''id'', ''reviewer'', ''model'', ''benchmark_set'', ''started_at'', ''completed_at'', ''total_score'',
        ''total_cost'', ''total_latency_ms'', ''beta'', ''deterministic_precision'', ''deterministic_recall'',
        ''deterministic_f1'', ''deterministic_f_beta'', ''detection_precision'', ''detection_recall'',
        ''detection_f1'', ''detection_f_beta'', ''validated_precision'', ''validated_recall'', ''validated_f1'',
        ''validated_f_beta'', ''deterministic_pass_rate'', ''patch_apply_rate'', ''test_pass_rate'',
        ''structural_pass_rate'', ''false_positives_per_case'', ''cost_per_true_positive'',
        ''cost_per_validated_fix'', ''latency_per_case_ms'', ''run_json'']),
      (''case_results'',
       [''id'', ''run_id'', ''case_id'', ''score'', ''bug_found'', ''correct_file'', ''correct_line'',
        ''false_positive_count'', ''deterministic_pass'', ''patch_provided'', ''patch_applied'', ''tests_ran'',
        ''tests_passed'', ''structural_validation_ran'', ''structural_validation_passed'',
        ''failure_reasons_json'', ''patch_error'', ''raw_response'', ''parsed_response'']),
      (''findings'',
       [''id'', ''case_result_id'', ''title'', ''category'', ''severity'', ''file'', ''line_start'', ''line_end'',
        ''summary'', ''suggested_fix'', ''confidence'', ''is_true_positive'']),
      (''validator_results'',
       [''id'', ''case_result_id'', ''validator_name'', ''passed'', ''confidence'', ''message'',
        ''evidence_json'', ''error''])]"

definition V1_RUN_COLUMNS :: "string list" where
  "V1_RUN_COLUMNS =
     [''beta'', ''deterministic_precision'', ''deterministic_recall'', ''deterministic_f1'',
      ''deterministic_f_beta'', ''patch_apply_rate'', ''test_pass_rate'', ''structural_pass_rate'',
      ''false_positives_per_case'', ''cost_per_true_positive'', ''detection_precision'', ''detection_recall'',
      ''detection_f1'', ''detection_f_beta'', ''validated_precision'', ''validated_recall'', ''validated_f1'',
      ''validated_f_beta'', ''deterministic_pass_rate'', ''cost_per_validated_fix'', ''latency_per_case_ms'']"

definition V1_CASE_COLUMNS :: "string list" where
  "V1_CASE_COLUMNS =
     [''deterministic_pass'', ''patch_provided'', ''patch_applied'', ''tests_ran'', ''tests_passed'',
      ''structural_validation_ran'', ''structural_validation_passed'', ''failure_reasons_json'', ''patch_error'']"

definition V2_RUN_COLUMNS :: "string list" where
  "V2_RUN_COLUMNS =
     [''schema_version'', ''run_status'', ''execution_backend'', ''eligible_case_count'',
      ''completed_case_count'', ''failed_case_count'', ''skipped_case_count'', ''coverage_rate'',
      ''validated_case_rate'']"

definition MIGRATIONS :: "statement list list" where
  "MIGRATIONS =
     [map (\<lambda>(t, columns). CreateTable t columns) SCHEMA
        @ map (AddColumn ''runs'') V1_RUN_COLUMNS @ map (AddColumn ''case_results'') V1_CASE_COLUMNS,
      map (AddColumn ''runs'') V2_RUN_COLUMNS @ [MarkLegacy]]"

text \<open>\<open>CREATE TABLE IF NOT EXISTS\<close>, \<open>ALTER TABLE\<close> for a missing column, and the update of unmarked rows.\<close>

fun perform :: "statement \<Rightarrow> arena_db \<Rightarrow> (storage_error, arena_db) res" where
  "perform (CreateTable t columns) db =
     Inr (if map_of (db_columns db) t = None then db\<lparr>db_columns := db_columns db @ [(t, columns)]\<rparr> else db)"
| "perform (AddColumn t c) db =
     (case map_of (db_columns db) t of
        None \<Rightarrow> Inl (NoSuchTable t)
      | Some columns \<Rightarrow>
          Inr (if c \<in> set columns then db
               else db\<lparr>db_columns := alist_put t (columns @ [c]) (db_columns db)\<rparr>))"
| "perform MarkLegacy db =
     Inr (db\<lparr>db_runs := map (\<lambda>r. if rl_run_status r = None
       then r\<lparr>rl_run_status := Some RunLegacy, rl_schema_version := Some 1\<rparr> else r) (db_runs db)\<rparr>)"

definition pending :: "nat \<Rightarrow> statement list" where
  "pending version = concat (drop version MIGRATIONS)"

definition migrate :: "arena_db \<Rightarrow> (storage_error, arena_db) res" where
  "migrate db =
     (if db_version db = SCHEMA_VERSION then Inr db
      else if db_version db > SCHEMA_VERSION then Inl (NewerSchema (db_version db))
      else and_then (fold_res perform (pending (db_version db)) db)
             (\<lambda>db'. Inr (db'\<lparr>db_version := SCHEMA_VERSION\<rparr>)))"

section \<open>Saving a run\<close>

definition dump_run :: "run_result \<Rightarrow> run_document" where
  "dump_run run = \<lparr>doc_run = run, doc_absent = []\<rparr>"

definition run_line_of :: "run_result \<Rightarrow> run_line" where
  "run_line_of run =
     \<lparr>rl_id = rn_run_id run, rl_reviewer = rn_reviewer run, rl_model = rn_model run,
      rl_benchmark_set = rn_benchmark_set run, rl_started_at = rn_started_at run,
      rl_completed_at = rn_completed_at run, rl_total_score = rn_total_score run,
      rl_total_cost = rn_total_cost run, rl_total_latency_ms = rn_total_latency_ms run, rl_beta = rn_beta run,
      rl_metrics = rn_deterministic_metrics run, rl_schema_version = Some (rn_schema_version run),
      rl_run_status = Some (rn_run_status run), rl_execution_backend = Some (rn_execution_backend run),
      rl_eligible_case_count = Some (rn_eligible_case_count run),
      rl_completed_case_count = Some (rn_completed_case_count run),
      rl_failed_case_count = Some (rn_failed_case_count run),
      rl_skipped_case_count = Some (rn_skipped_case_count run),
      rl_coverage_rate = Some (rn_coverage_rate run), rl_run_json = dump_run run\<rparr>"

definition case_line_of :: "string \<Rightarrow> string \<Rightarrow> case_result \<Rightarrow> case_line" where
  "case_line_of key run_id c =
     (let r = res_review c; e = res_evidence c in
      \<lparr>cl_id = key, cl_run_id = run_id, cl_case_id = cr_case_id r, cl_score = cr_score r,
       cl_bug_found = cr_bug_found r, cl_correct_file = cr_correct_file r, cl_correct_line = cr_correct_line r,
       cl_false_positive_count = cr_false_positive_count r, cl_deterministic_pass = ce_deterministic_pass e,
       cl_patch_provided = ce_patch_provided e, cl_patch_applied = ce_patch_applied e,
       cl_tests_ran = ce_tests_ran e, cl_tests_passed = ce_tests_passed e,
       cl_structural_validation_ran = (ce_validators_run e \<noteq> []),
       cl_structural_validation_passed = ce_validators_passed e, cl_failure_reasons = ce_failure_reasons e,
       cl_patch_error = ce_patch_error e, cl_raw_response = rr_raw_response (cr_response r),
       cl_parsed_response = rr_parsed_response (cr_response r)\<rparr>)"

definition finding_line_of :: "string \<Rightarrow> string \<Rightarrow> scored_finding \<Rightarrow> finding_line" where
  "finding_line_of case_key key item =
     (let f = sf_finding item in
      \<lparr>fl_id = key, fl_case_result_id = case_key, fl_title = f_title f, fl_category = f_category f,
       fl_severity = f_severity f, fl_file = f_file f, fl_line_start = f_line_start f, fl_line_end = f_line_end f,
       fl_summary = f_summary f, fl_suggested_fix = (case f_suggested_fix f of None \<Rightarrow> [] | Some s \<Rightarrow> s),
       fl_confidence = f_confidence f, fl_is_true_positive = sf_is_true_positive item\<rparr>)"

definition validator_line_of :: "string \<Rightarrow> string \<Rightarrow> validator_result \<Rightarrow> validator_line" where
  "validator_line_of case_key key v =
     \<lparr>vl_id = key, vl_case_result_id = case_key, vl_validator_name = vr_name v, vl_passed = vr_passed v,
      vl_confidence = vr_confidence v, vl_message = vr_message v, vl_evidence = vr_evidence v,
      vl_error = vr_error v\<rparr>"

text \<open>\<open>fresh\<close> is the sequence of the random row ids drawn while a run is saved.\<close>

definition insert_case :: "(nat \<Rightarrow> string) \<Rightarrow> string \<Rightarrow> case_result \<Rightarrow> nat \<times> arena_db \<Rightarrow> nat \<times> arena_db" where
  "insert_case fresh run_id c = (\<lambda>(n, db).
     let findings = cr_scored_findings (res_review c);
         validators = ce_validator_results (res_evidence c);
         f = n + 1; v = f + length findings
     in (v + length validators,
         db\<lparr>db_cases := db_cases db @ [case_line_of (fresh n) run_id c],
            db_findings := db_findings db
              @ map (\<lambda>(i, item). finding_line_of (fresh n) (fresh (f + i)) item) (enum_list findings),
            db_validators := db_validators db
              @ map (\<lambda>(i, r). validator_line_of (fresh n) (fresh (v + i)) r) (enum_list validators)\<rparr>))"

text \<open>Deleting the rows of a run deletes the rows that refer to them.\<close>

definition delete_cases :: "string \<Rightarrow> arena_db \<Rightarrow> arena_db" where
  "delete_cases run_id db =
     (let gone = map cl_id (filter (\<lambda>c. cl_run_id c = run_id) (db_cases db)) in
      db\<lparr>db_cases := filter (\<lambda>c. cl_run_id c \<noteq> run_id) (db_cases db),
         db_findings := filter (\<lambda>f. fl_case_result_id f \<notin> set gone) (db_findings db),
         db_validators := filter (\<lambda>v. vl_case_result_id v \<notin> set gone) (db_validators db)\<rparr>)"

definition save_run :: "(nat \<Rightarrow> string) \<Rightarrow> run_result \<Rightarrow> arena_db \<Rightarrow> arena_db" where
  "save_run fresh run db =
     (let replaced = delete_cases (rn_run_id run)
            (db\<lparr>db_runs := filter (\<lambda>l. rl_id l \<noteq> rn_run_id run) (db_runs db) @ [run_line_of run]\<rparr>)
      in snd (fold (insert_case fresh (rn_run_id run)) (rn_case_results run) (0, replaced)))"

section \<open>Reading runs\<close>

datatype document_error = MissingField string | Inconsistent consistency_error

definition absent :: "string \<Rightarrow> run_document \<Rightarrow> bool" where
  "absent field doc \<longleftrightarrow> field \<in> set (doc_absent doc)"

text \<open>\<open>RunResult.model_validate_json\<close>: the defaults of the fields that older documents lack.\<close>

definition loaded_run :: "run_document \<Rightarrow> run_result" where
  "loaded_run doc =
     (let run = doc_run doc; md = rn_metadata run in
      run\<lparr>rn_schema_version := (if absent ''schema_version'' doc then 1 else rn_schema_version run),
          rn_run_status := (if absent ''run_status'' doc then RunComplete else rn_run_status run),
          rn_execution_backend := (if absent ''execution_backend'' doc then NoBackend else rn_execution_backend run),
          rn_coverage_rate := (if absent ''coverage_rate'' doc then 1 else rn_coverage_rate run),
          rn_mode := (if absent ''mode'' doc then ReviewMode else rn_mode run),
          rn_deterministic_metrics :=
            (if absent ''deterministic_metrics'' doc then None else rn_deterministic_metrics run),
          rn_metadata := md\<lparr>
            md_pack_digest_externally_verified :=
              (if absent ''pack_digest_externally_verified'' doc then False else md_pack_digest_externally_verified md),
            md_non_exact_output_used :=
              (if absent ''non_exact_output_used'' doc then None else md_non_exact_output_used md)\<rparr>\<rparr>)"

definition load_document :: "run_document \<Rightarrow> (document_error, run_result) res" where
  "load_document doc =
     (if absent ''model'' doc then Inl (MissingField ''model'')
      else if absent ''metadata'' doc then Inl (MissingField ''metadata'')
      else case validate_run_result (loaded_run doc) of
        Some e \<Rightarrow> Inl (Inconsistent e)
      | None \<Rightarrow> Inr (loaded_run doc))"

definition get_run :: "string \<Rightarrow> arena_db \<Rightarrow> (document_error, run_result option) res" where
  "get_run run_id db =
     (case find (\<lambda>l. rl_id l = run_id) (db_runs db) of
        None \<Rightarrow> Inr None
      | Some l \<Rightarrow> and_then (load_document (rl_run_json l)) (\<lambda>run. Inr (Some run)))"

text \<open>\<open>ORDER BY completed_at DESC\<close>; runs that completed together come in the order of their rows.\<close>

definition newest_first :: "run_line list \<Rightarrow> run_line list" where
  "newest_first = sort_key (\<lambda>l. - rl_completed_at l)"

definition list_runs :: "arena_db \<Rightarrow> run_line list" where
  "list_runs db = newest_first (db_runs db)"

section \<open>The leaderboard of the database\<close>

definition document_eligible :: "bool \<Rightarrow> run_document \<Rightarrow> bool" where
  "document_eligible include_unverified doc =
     (let run = doc_run doc; md = rn_metadata run; no_md = absent ''metadata'' doc in
      eligibility_from_fields
        (if absent ''schema_version'' doc then 1 else rn_schema_version run)
        (if absent ''run_status'' doc then RunComplete else rn_run_status run)
        (if absent ''execution_backend'' doc then NoBackend else rn_execution_backend run)
        (if absent ''coverage_rate'' doc then 1 else rn_coverage_rate run)
        (\<not> no_md \<and> \<not> absent ''pack_digest_externally_verified'' doc \<and> md_pack_digest_externally_verified md)
        (if no_md \<or> absent ''non_exact_output_used'' doc then None else md_non_exact_output_used md)
        include_unverified)"

definition document_mode :: "run_document \<Rightarrow> run_mode" where
  "document_mode doc = (if absent ''mode'' doc then ReviewMode else rn_mode (doc_run doc))"

definition document_model :: "run_document \<Rightarrow> string option" where
  "document_model doc = (if absent ''model'' doc then None else rn_model (doc_run doc))"

definition document_key :: "run_document \<Rightarrow> rank_key" where
  "document_key doc =
     (rn_benchmark_set (doc_run doc), rn_reviewer (doc_run doc), document_model doc, document_mode doc)"

definition document_metrics :: "run_document \<Rightarrow> deterministic_metrics option" where
  "document_metrics doc =
     (if absent ''deterministic_metrics'' doc then None else rn_deterministic_metrics (doc_run doc))"

type_synonym standings = "(rank_key \<times> run_document) list \<times> (rank_key \<times> nat) list"

definition tally :: "bool \<Rightarrow> run_document \<Rightarrow> standings \<Rightarrow> standings" where
  "tally include_unverified doc = (\<lambda>(latest, history).
     if \<not> document_eligible include_unverified doc then (latest, history)
     else let key = document_key doc in
       (if map_of latest key = None then alist_put key doc latest else latest,
        alist_put key ((case map_of history key of None \<Rightarrow> 0 | Some n \<Rightarrow> n) + 1) history))"

definition standings_of :: "bool \<Rightarrow> run_document list \<Rightarrow> standings" where
  "standings_of include_unverified docs = fold (tally include_unverified) docs ([], [])"

record run_summary =
  sm_reviewer :: string
  sm_model :: string
  sm_mode :: run_mode
  sm_benchmark_set :: string
  sm_score :: rat
  sm_bugs_found :: int
  sm_case_count :: nat
  sm_false_positives :: int
  sm_cost :: rat
  sm_latency_ms :: int
  sm_run_id :: string
  sm_history_count :: nat
  sm_completed_at :: int
  sm_deterministic_passes :: nat
  sm_deterministic_metrics :: "deterministic_metrics option"

definition summary_of :: "(rank_key \<times> nat) list \<Rightarrow> rank_key \<times> run_document \<Rightarrow> run_summary" where
  "summary_of history = (\<lambda>(key, doc).
     let run = doc_run doc in
     \<lparr>sm_reviewer = rn_reviewer run,
      sm_model = (case document_model doc of None \<Rightarrow> [] | Some m \<Rightarrow> m), sm_mode = document_mode doc,
      sm_benchmark_set = rn_benchmark_set run, sm_score = rn_total_score run, sm_bugs_found = rn_bugs_found run,
      sm_case_count = length (rn_case_results run), sm_false_positives = rn_false_positives run,
      sm_cost = rn_total_cost run, sm_latency_ms = rn_total_latency_ms run, sm_run_id = rn_run_id run,
      sm_history_count = the (map_of history key), sm_completed_at = rn_completed_at run,
      sm_deterministic_passes =
        length (filter (\<lambda>c. ce_deterministic_pass (res_evidence c) = Some True) (rn_case_results run)),
      sm_deterministic_metrics = document_metrics doc\<rparr>)"

definition validated_rate :: "run_summary \<Rightarrow> rat" where
  "validated_rate s =
     (case sm_deterministic_metrics s of None \<Rightarrow> -1 | Some m \<Rightarrow> dm_validated_case_rate m)"

text \<open>A reversed stable sort keeps the order of equal elements.\<close>

definition repository_leaderboard :: "bool \<Rightarrow> arena_db \<Rightarrow> run_summary list" where
  "repository_leaderboard include_unverified db =
     (let (latest, history) =
        standings_of include_unverified (map rl_run_json (newest_first (db_runs db)))
      in sort_key (\<lambda>s. - validated_rate s) (map (summary_of history) latest))"

section \<open>Migrations can be interrupted\<close>

text \<open>What a statement leaves behind: once it holds the statement does nothing, and no other one undoes it.\<close>

fun performed :: "statement \<Rightarrow> arena_db \<Rightarrow> bool" where
  "performed (CreateTable t columns) db \<longleftrightarrow> map_of (db_columns db) t \<noteq> None"
| "performed (AddColumn t c) db \<longleftrightarrow>
     (case map_of (db_columns db) t of None \<Rightarrow> False | Some columns \<Rightarrow> c \<in> set columns)"
| "performed MarkLegacy db \<longleftrightarrow> list_all (\<lambda>r. rl_run_status r \<noteq> None) (db_runs db)"

lemma perform_performed: "perform s db = Inr db' \<Longrightarrow> performed s db'"
  by (cases s) (auto simp: list_all_iff map_add_def split: option.splits if_splits)

lemma performed_noop: "performed s db \<Longrightarrow> perform s db = Inr db"
proof (cases s)
  case MarkLegacy
  assume "performed s db"
  then have "map (\<lambda>r. if rl_run_status r = None then r\<lparr>rl_run_status := Some RunLegacy, rl_schema_version := Some 1\<rparr>
      else r) (db_runs db) = db_runs db"
    by (intro map_idI) (auto simp: MarkLegacy list_all_iff)
  then show ?thesis by (simp add: MarkLegacy)
qed (auto split: option.splits)

lemma performed_kept: "performed s db \<Longrightarrow> perform s' db = Inr db' \<Longrightarrow> performed s db'"
  by (cases s; cases s') (auto simp: list_all_iff split: option.splits if_splits)

lemma perform_keeps:
  assumes "perform s db = Inr db'"
  shows "db_version db' = db_version db" "map rl_run_json (db_runs db') = map rl_run_json (db_runs db)"
    "db_cases db' = db_cases db" "db_findings db' = db_findings db" "db_validators db' = db_validators db"
    "dom (map_of (db_columns db)) \<subseteq> dom (map_of (db_columns db'))"
  using assms by (cases s; auto split: option.splits if_splits)+

text \<open>The five facts above hold of a whole script, one statement at a time.\<close>

lemma script_induct:
  assumes "fold_res perform ss db = Inr db'" "P db"
    "\<And>s d d'. s \<in> set ss \<Longrightarrow> perform s d = Inr d' \<Longrightarrow> P d \<Longrightarrow> P d'"
  shows "P db'"
  using assms by (rule fold_res_invariant)

lemma script_performed:
  "fold_res perform ss db = Inr db' \<Longrightarrow> s \<in> set ss \<Longrightarrow> performed s db'"
proof (induction ss arbitrary: db)
  case (Cons a ss)
  obtain d where d: "perform a db = Inr d" "fold_res perform ss d = Inr db'"
    using Cons.prems(1) by (auto simp: res_simps)
  show ?case
  proof (cases "s \<in> set ss")
    case True
    then show ?thesis using Cons.IH d(2) by blast
  next
    case False
    then have "performed s d" using Cons.prems(2) perform_performed [OF d(1)] by simp
    with d(2) show ?thesis by (rule script_induct) (rule performed_kept)
  qed
qed simp

lemma script_noop: "\<forall>s \<in> set ss. performed s db \<Longrightarrow> fold_res perform ss db = Inr db"
  by (induction ss) (auto simp: performed_noop)

lemma script_rerun:
  assumes "fold_res perform (take n ss) db = Inr half"
  shows "fold_res perform ss half = fold_res perform ss db"
proof -
  have "fold_res perform (take n ss) half = Inr half"
    using script_performed [OF assms] by (intro script_noop) blast
  then show ?thesis
    using assms fold_res_append [of perform "take n ss" "drop n ss"] by simp
qed

lemma script_keeps:
  assumes "fold_res perform ss db = Inr db'"
  shows "db_version db' = db_version db \<and> map rl_run_json (db_runs db') = map rl_run_json (db_runs db)
    \<and> db_cases db' = db_cases db \<and> db_findings db' = db_findings db \<and> db_validators db' = db_validators db"
  using assms by (rule script_induct) (auto dest: perform_keeps)

lemma columns_total:
  assumes "\<forall>s \<in> set ss. \<forall>t c. s = AddColumn t c \<longrightarrow> t \<in> dom (map_of (db_columns db))"
  shows "\<exists>db'. fold_res perform ss db = Inr db'"
  using assms
proof (induction ss arbitrary: db)
  case (Cons s ss)
  obtain d where d: "perform s db = Inr d" using Cons.prems by (cases s) auto
  then have "\<exists>db'. fold_res perform ss d = Inr db'"
    using Cons.prems perform_keeps(6) [OF d] by (intro Cons.IH) (meson in_mono list.set_intros(2))
  then show ?case by (simp add: d)
qed simp

lemma creates_total: "\<exists>db'. fold_res perform (map (\<lambda>(t, columns). CreateTable t columns) ts) db = Inr db'"
  by (induction ts arbitrary: db) auto

lemma fresh_migrates:
  assumes "db_version db = 0" shows "\<exists>db'. migrate db = Inr db'"
proof -
  let ?creates = "map (\<lambda>(t, columns). CreateTable t columns) SCHEMA"
  let ?rest = "map (AddColumn ''runs'') V1_RUN_COLUMNS @ map (AddColumn ''case_results'') V1_CASE_COLUMNS
    @ map (AddColumn ''runs'') V2_RUN_COLUMNS @ [MarkLegacy]"
  have p: "pending (db_version db) = ?creates @ ?rest" by (simp add: assms pending_def MIGRATIONS_def)
  obtain d where d: "fold_res perform ?creates db = Inr d" using creates_total by blast
  have "{''runs'', ''case_results''} \<subseteq> dom (map_of (db_columns d))"
    using script_performed [OF d, of "CreateTable ''runs'' c" for c] script_performed [OF d, of "CreateTable ''case_results'' c" for c]
    by (auto simp: SCHEMA_def)
  then obtain d' where "fold_res perform ?rest d = Inr d'"
    using columns_total [of ?rest d] by auto
  then have "fold_res perform (pending (db_version db)) db = Inr d'"
    unfolding p fold_res_append d by simp
  then show ?thesis by (simp add: migrate_def assms SCHEMA_VERSION_def)
qed

text \<open>
  C30: opening a database after an interrupted upgrade ends where an uninterrupted one ends, whichever statement it
  stopped after. An upgrade leaves every change of its script in place, the version current, the documents and the
  rows of cases as they were, and opening the database again changes nothing; a new database can always be opened.
\<close>

theorem migration_recovers:
  assumes "fold_res perform (take n (pending (db_version db))) db = Inr half"
  shows "migrate half = migrate db
     \<and> (db_version db = 0 \<longrightarrow> (\<exists>db'. migrate db = Inr db'))
     \<and> (\<forall>db'. migrate db = Inr db' \<longrightarrow>
          db_version db' = SCHEMA_VERSION \<and> migrate db' = Inr db'
          \<and> list_all (\<lambda>s. performed s db') (pending (db_version db))
          \<and> map rl_run_json (db_runs db') = map rl_run_json (db_runs db) \<and> db_cases db' = db_cases db
          \<and> db_findings db' = db_findings db \<and> db_validators db' = db_validators db)"
proof -
  have "db_version half = db_version db" using script_keeps [OF assms] by simp
  then have "migrate half = migrate db" if "db_version db < SCHEMA_VERSION"
    using that script_rerun [OF assms] by (simp add: migrate_def)
  moreover have "half = db" if "\<not> db_version db < SCHEMA_VERSION"
    using assms that by (simp add: pending_def MIGRATIONS_def SCHEMA_VERSION_def)
  moreover have "db_version db' = SCHEMA_VERSION \<and> migrate db' = Inr db'
      \<and> list_all (\<lambda>s. performed s db') (pending (db_version db))
      \<and> map rl_run_json (db_runs db') = map rl_run_json (db_runs db) \<and> db_cases db' = db_cases db
      \<and> db_findings db' = db_findings db \<and> db_validators db' = db_validators db"
    if m: "migrate db = Inr db'" for db'
  proof (cases "db_version db = SCHEMA_VERSION")
    case True
    then show ?thesis using m by (auto simp: migrate_def pending_def MIGRATIONS_def SCHEMA_VERSION_def)
  next
    case False
    then obtain d where d: "fold_res perform (pending (db_version db)) db = Inr d"
      and db': "db' = d\<lparr>db_version := SCHEMA_VERSION\<rparr>"
      using m by (auto simp: migrate_def res_simps split: if_splits)
    have same: "performed s db' \<longleftrightarrow> performed s d" for s
      by (cases s) (simp_all add: db')
    show ?thesis
      using script_keeps [OF d] script_performed [OF d] unfolding same list_all_iff
      by (simp add: db' migrate_def)
  qed
  ultimately show ?thesis using fresh_migrates [of db] by blast
qed

definition empty_db :: arena_db where
  "empty_db = \<lparr>db_version = 0, db_columns = [], db_runs = [], db_cases = [], db_findings = [], db_validators = []\<rparr>"

theorem migration_recovers_witness:
  "\<exists>half db'. fold_res perform (take 17 (pending 0)) empty_db = Inr half \<and> half \<noteq> empty_db
     \<and> migrate half = Inr db' \<and> migrate empty_db = Inr db' \<and> db_version db' = 2"
proof -
  have "case fold_res perform (take 17 (pending (db_version empty_db))) empty_db of
      Inl _ \<Rightarrow> False | Inr half \<Rightarrow> db_columns half \<noteq> []"
    by code_simp
  then obtain half where half: "fold_res perform (take 17 (pending (db_version empty_db))) empty_db = Inr half"
    "db_columns half \<noteq> []" by (auto split: sum.splits)
  have v: "db_version empty_db = 0" by (simp add: empty_db_def)
  from migration_recovers [OF half(1)] v obtain db' where
    "migrate half = Inr db'" "migrate empty_db = Inr db'" "db_version db' = 2"
    by (auto simp: SCHEMA_VERSION_def)
  moreover have "half \<noteq> empty_db" using half(2) by (auto simp: empty_db_def)
  ultimately show ?thesis using half(1) v by auto
qed

section \<open>The rows of a saved run\<close>

lemma case_line_simps [simp]:
  "cl_id (case_line_of key k c) = key" "cl_run_id (case_line_of key k c) = k"
  "cl_case_id (case_line_of key k c) = result_id c"
  by (simp_all add: case_line_of_def Let_def result_id_def)

lemma run_line_simps [simp]:
  "rl_id (run_line_of run) = rn_run_id run" "rl_run_json (run_line_of run) = dump_run run"
  "rl_completed_at (run_line_of run) = rn_completed_at run"
  by (simp_all add: run_line_of_def)

text \<open>Every row refers to a row that is there, and no id is used twice.\<close>

definition repository_ok :: "arena_db \<Rightarrow> bool" where
  "repository_ok db \<longleftrightarrow>
     distinct (map rl_id (db_runs db)) \<and> distinct (map cl_id (db_cases db))
     \<and> distinct (map fl_id (db_findings db)) \<and> distinct (map vl_id (db_validators db))
     \<and> set (map cl_run_id (db_cases db)) \<subseteq> set (map rl_id (db_runs db))
     \<and> set (map fl_case_result_id (db_findings db)) \<subseteq> set (map cl_id (db_cases db))
     \<and> set (map vl_case_result_id (db_validators db)) \<subseteq> set (map cl_id (db_cases db))"

definition unused_from :: "nat \<Rightarrow> (nat \<Rightarrow> string) \<Rightarrow> arena_db \<Rightarrow> bool" where
  "unused_from n fresh db \<longleftrightarrow>
     inj fresh
     \<and> (\<forall>i \<ge> n. fresh i \<notin> set (map cl_id (db_cases db)) \<and> fresh i \<notin> set (map fl_id (db_findings db))
          \<and> fresh i \<notin> set (map vl_id (db_validators db)))"

text \<open>A row without the ids drawn for it.\<close>

definition case_content :: "case_line \<Rightarrow> case_line" where
  "case_content l = l\<lparr>cl_id := []\<rparr>"

definition finding_content :: "finding_line \<Rightarrow> finding_line" where
  "finding_content f = f\<lparr>fl_id := [], fl_case_result_id := []\<rparr>"

definition validator_content :: "validator_line \<Rightarrow> validator_line" where
  "validator_content v = v\<lparr>vl_id := [], vl_case_result_id := []\<rparr>"

lemma contents [simp]:
  "case_content (case_line_of key k c) = case_line_of [] k c"
  "finding_content (finding_line_of case_key key item) = finding_line_of [] [] item"
  "validator_content (validator_line_of case_key key v) = validator_line_of [] [] v"
  by (simp_all add: case_content_def finding_content_def validator_content_def case_line_of_def finding_line_of_def
      validator_line_of_def Let_def)

lemma line_ids [simp]:
  "fl_id (finding_line_of case_key key item) = key" "fl_case_result_id (finding_line_of case_key key item) = case_key"
  "vl_id (validator_line_of case_key key v) = key" "vl_case_result_id (validator_line_of case_key key v) = case_key"
  by (simp_all add: finding_line_of_def validator_line_of_def Let_def)

text \<open>The rows that saving cases adds, with ids drawn from the \<open>n\<close>-th on.\<close>

definition new_rows ::
  "(nat \<Rightarrow> string) \<Rightarrow> string \<Rightarrow> nat \<Rightarrow> case_result list \<Rightarrow> case_line list \<Rightarrow> finding_line list \<Rightarrow> validator_line list \<Rightarrow> bool"
  where
  "new_rows fresh k n cs ls fs vs \<longleftrightarrow>
     map case_content ls = map (case_line_of [] k) cs
     \<and> map finding_content fs
         = concat (map (\<lambda>c. map (finding_line_of [] []) (cr_scored_findings (res_review c))) cs)
     \<and> map validator_content vs
         = concat (map (\<lambda>c. map (validator_line_of [] []) (ce_validator_results (res_evidence c))) cs)
     \<and> (\<forall>f \<in> set fs. \<exists>i \<ge> n. fl_case_result_id f = fresh i)
     \<and> (\<forall>v \<in> set vs. \<exists>i \<ge> n. vl_case_result_id v = fresh i)"

lemma map_numbered: "map (\<lambda>p. g (fst p)) (zip [0..<length xs] xs) = map g [0..<length xs]"
  using map_map [of g fst "zip [0..<length xs] xs"] by (simp add: comp_def)

lemma image_shifted: "(\<lambda>i. g (a + i)) ` {0..<k} = g ` {a..<a + k}" for a k :: nat
  using image_image [of g "\<lambda>i. a + i" "{0..<k}"] by (simp add: image_add_atLeastLessThan add.commute)

lemma insert_case_step:
  assumes "insert_case fresh k c (n, db) = (m, db')"
  obtains ls fs vs where "n < m" "db_runs db' = db_runs db" "db_cases db' = db_cases db @ ls"
    "db_findings db' = db_findings db @ fs" "db_validators db' = db_validators db @ vs" "new_rows fresh k n [c] ls fs vs"
    "map cl_id ls = [fresh n]" "map cl_run_id ls = [k]"
    "map fl_case_result_id fs = replicate (length fs) (fresh n)"
    "map vl_case_result_id vs = replicate (length vs) (fresh n)"
    "map fl_id fs = map (\<lambda>i. fresh (n + 1 + i)) [0..<length fs]"
    "map vl_id vs = map (\<lambda>i. fresh (n + 1 + length fs + i)) [0..<length vs]" "m = n + 1 + length fs + length vs"
  by (rule that [of "[case_line_of (fresh n) k c]"
        "map (\<lambda>(i, item). finding_line_of (fresh n) (fresh (n + 1 + i)) item) (enum_list (cr_scored_findings (res_review c)))"
        "map (\<lambda>(i, r). validator_line_of (fresh n)
          (fresh (n + 1 + length (cr_scored_findings (res_review c)) + i)) r) (enum_list (ce_validator_results (res_evidence c)))"])
    (use assms in \<open>auto simp: insert_case_def Let_def new_rows_def enum_list_def comp_def case_prod_unfold
      map_replicate_const map_numbered
      map_numbered [of "\<lambda>i. fresh (Suc (n + i))"]
      map_numbered [of "\<lambda>i. fresh (Suc (n + length (cr_scored_findings (res_review c)) + i))"]
      simp flip: map_map [unfolded comp_def]\<close>)

lemma insert_case_ok:
  assumes "insert_case fresh k c (n, db) = (m, db')" "repository_ok db" "unused_from n fresh db"
    "k \<in> set (map rl_id (db_runs db))"
  shows "repository_ok db' \<and> unused_from m fresh db'"
proof -
  obtain ls fs vs where s: "n < m" "db_runs db' = db_runs db" "db_cases db' = db_cases db @ ls"
    "db_findings db' = db_findings db @ fs" "db_validators db' = db_validators db @ vs"
    and ids: "map cl_id ls = [fresh n]" "map cl_run_id ls = [k]"
      "map fl_case_result_id fs = replicate (length fs) (fresh n)"
      "map vl_case_result_id vs = replicate (length vs) (fresh n)"
      "map fl_id fs = map (\<lambda>i. fresh (n + 1 + i)) [0..<length fs]"
      "map vl_id vs = map (\<lambda>i. fresh (n + 1 + length fs + i)) [0..<length vs]"
    and m: "m = n + 1 + length fs + length vs"
    using insert_case_step [OF assms(1)] by metis
  have fresh: "inj fresh" "\<And>i. i \<ge> n \<Longrightarrow> fresh i \<notin> set (map cl_id (db_cases db))"
    "\<And>i. i \<ge> n \<Longrightarrow> fresh i \<notin> set (map fl_id (db_findings db))"
    "\<And>i. i \<ge> n \<Longrightarrow> fresh i \<notin> set (map vl_id (db_validators db))"
    using assms(3) by (auto simp: unused_from_def)
  have news: "set (map fl_id fs) = fresh ` {n + 1..<n + 1 + length fs}"
    "set (map vl_id vs) = fresh ` {n + 1 + length fs..<m}" "set (map cl_id ls) = {fresh n}"
    unfolding ids m set_map set_upt image_shifted by simp_all
  have distinct: "distinct (map fl_id fs)" "distinct (map vl_id vs)" "distinct (map cl_id ls)"
    unfolding ids by (simp_all add: distinct_map inj_on_def inj_eq [OF fresh(1)])
  have "repository_ok db'"
    using assms(2,4) distinct fresh(2-4) news ids(2-4)
    unfolding repository_ok_def s map_append distinct_append set_append by (auto simp del: set_map)
  moreover have "fresh i \<notin> fresh ` {a..<b}" if "b \<le> i" for i a b
    using that fresh(1) by (auto simp: inj_eq)
  then have "unused_from m fresh db'"
    using fresh m inj_eq [OF fresh(1)] unfolding unused_from_def s map_append set_append news
    by (auto simp del: set_map)
  ultimately show ?thesis ..
qed

lemma new_rows_append:
  "new_rows fresh k n [c] ls fs vs \<Longrightarrow> new_rows fresh k m cs ls' fs' vs' \<Longrightarrow> n \<le> m
   \<Longrightarrow> new_rows fresh k n (c # cs) (ls @ ls') (fs @ fs') (vs @ vs')"
  by (auto simp: new_rows_def) (meson order_trans)+

lemma insert_cases_ok:
  assumes "fold (insert_case fresh k) cs (n, db) = (m, db')" "repository_ok db" "unused_from n fresh db"
    "k \<in> set (map rl_id (db_runs db))"
  shows "repository_ok db' \<and> db_runs db' = db_runs db
    \<and> (\<exists>ls fs vs. db_cases db' = db_cases db @ ls \<and> db_findings db' = db_findings db @ fs
         \<and> db_validators db' = db_validators db @ vs \<and> new_rows fresh k n cs ls fs vs)"
  using assms
proof (induction cs arbitrary: n db)
  case Nil
  then show ?case by (auto simp: new_rows_def)
next
  case (Cons c cs)
  obtain j d where d: "insert_case fresh k c (n, db) = (j, d)" by (metis prod.exhaust)
  note ok = insert_case_ok [OF d Cons.prems(2-4)]
  obtain ls fs vs where step: "n < j" "db_runs d = db_runs db" "db_cases d = db_cases db @ ls"
    "db_findings d = db_findings db @ fs" "db_validators d = db_validators db @ vs" "new_rows fresh k n [c] ls fs vs"
    using insert_case_step [OF d] by metis
  have "fold (insert_case fresh k) cs (j, d) = (m, db')" using Cons.prems(1) d by simp
  from Cons.IH [OF this] ok Cons.prems(4) step(2) obtain ls' fs' vs' where
    "repository_ok db'" "db_runs db' = db_runs d" "db_cases db' = db_cases d @ ls'"
    "db_findings db' = db_findings d @ fs'" "db_validators db' = db_validators d @ vs'" "new_rows fresh k j cs ls' fs' vs'"
    by auto
  with new_rows_append [OF step(6) this(6) less_imp_le [OF step(1)]] step show ?case by auto
qed

text \<open>The case rows of the other runs.\<close>

definition kept_ids :: "string \<Rightarrow> arena_db \<Rightarrow> string set" where
  "kept_ids run_id db = cl_id ` {l \<in> set (db_cases db). cl_run_id l \<noteq> run_id}"

definition replaced_run :: "run_result \<Rightarrow> arena_db \<Rightarrow> arena_db" where
  "replaced_run run db = delete_cases (rn_run_id run)
     (db\<lparr>db_runs := filter (\<lambda>l. rl_id l \<noteq> rn_run_id run) (db_runs db) @ [run_line_of run]\<rparr>)"

lemma replaced_run_rows:
  assumes "repository_ok db"
  shows "db_runs (replaced_run run db) = filter (\<lambda>l. rl_id l \<noteq> rn_run_id run) (db_runs db) @ [run_line_of run]"
    "db_cases (replaced_run run db) = filter (\<lambda>c. cl_run_id c \<noteq> rn_run_id run) (db_cases db)"
    "db_findings (replaced_run run db) = filter (\<lambda>f. fl_case_result_id f \<in> kept_ids (rn_run_id run) db) (db_findings db)"
    "db_validators (replaced_run run db)
       = filter (\<lambda>v. vl_case_result_id v \<in> kept_ids (rn_run_id run) db) (db_validators db)"
proof -
  let ?gone = "map cl_id (filter (\<lambda>c. cl_run_id c = rn_run_id run) (db_cases db))"
  have "inj_on cl_id (set (db_cases db))" using assms by (simp add: repository_ok_def distinct_map)
  then have kept: "i \<notin> set ?gone \<longleftrightarrow> i \<in> kept_ids (rn_run_id run) db" if "i \<in> set (map cl_id (db_cases db))" for i
    using that by (auto simp: kept_ids_def inj_on_def)
  show "db_runs (replaced_run run db) = filter (\<lambda>l. rl_id l \<noteq> rn_run_id run) (db_runs db) @ [run_line_of run]"
    "db_cases (replaced_run run db) = filter (\<lambda>c. cl_run_id c \<noteq> rn_run_id run) (db_cases db)"
    by (simp_all add: replaced_run_def delete_cases_def Let_def)
  have "db_findings (replaced_run run db) = filter (\<lambda>f. fl_case_result_id f \<notin> set ?gone) (db_findings db)"
    "db_validators (replaced_run run db) = filter (\<lambda>v. vl_case_result_id v \<notin> set ?gone) (db_validators db)"
    by (simp_all add: replaced_run_def delete_cases_def Let_def)
  moreover have "fl_case_result_id f \<in> set (map cl_id (db_cases db))" if "f \<in> set (db_findings db)" for f
    using assms that unfolding repository_ok_def by (metis image_eqI in_mono list.set_map)
  moreover have "vl_case_result_id v \<in> set (map cl_id (db_cases db))" if "v \<in> set (db_validators db)" for v
    using assms that unfolding repository_ok_def by (metis image_eqI in_mono list.set_map)
  ultimately show "db_findings (replaced_run run db)
      = filter (\<lambda>f. fl_case_result_id f \<in> kept_ids (rn_run_id run) db) (db_findings db)"
    "db_validators (replaced_run run db)
      = filter (\<lambda>v. vl_case_result_id v \<in> kept_ids (rn_run_id run) db) (db_validators db)"
    using kept by (auto intro!: filter_cong simp del: set_map)
qed

lemma replaced_run_ok:
  assumes "repository_ok db"
  shows "repository_ok (replaced_run run db)"
proof -
  note r = replaced_run_rows [OF assms, of run]
  have parts: "distinct (map rl_id (db_runs db))" "distinct (map cl_id (db_cases db))"
    "distinct (map fl_id (db_findings db))" "distinct (map vl_id (db_validators db))"
    "set (map cl_run_id (db_cases db)) \<subseteq> set (map rl_id (db_runs db))"
    using assms by (simp_all add: repository_ok_def)
  then show ?thesis unfolding repository_ok_def r by (auto simp: distinct_map_filter kept_ids_def)
qed

lemma save_run_ok:
  assumes ok: "repository_ok db" and unused: "unused_from 0 fresh db"
  shows "repository_ok (save_run fresh run db)"
    "db_runs (save_run fresh run db) = filter (\<lambda>l. rl_id l \<noteq> rn_run_id run) (db_runs db) @ [run_line_of run]"
    "\<exists>ls fs vs. new_rows fresh (rn_run_id run) 0 (rn_case_results run) ls fs vs
       \<and> db_cases (save_run fresh run db) = filter (\<lambda>c. cl_run_id c \<noteq> rn_run_id run) (db_cases db) @ ls
       \<and> db_findings (save_run fresh run db)
           = filter (\<lambda>f. fl_case_result_id f \<in> kept_ids (rn_run_id run) db) (db_findings db) @ fs
       \<and> db_validators (save_run fresh run db)
           = filter (\<lambda>v. vl_case_result_id v \<in> kept_ids (rn_run_id run) db) (db_validators db) @ vs"
proof -
  let ?db = "replaced_run run db"
  obtain m db' where f: "fold (insert_case fresh (rn_run_id run)) (rn_case_results run) (0, ?db) = (m, db')"
    by (metis prod.exhaust)
  then have saved: "save_run fresh run db = db'" by (simp add: save_run_def replaced_run_def Let_def)
  note r = replaced_run_rows [OF ok, of run]
  have "unused_from 0 fresh ?db" using unused by (auto simp: unused_from_def r)
  from insert_cases_ok [OF f replaced_run_ok [OF ok] this]
  show "repository_ok (save_run fresh run db)"
    "db_runs (save_run fresh run db) = filter (\<lambda>l. rl_id l \<noteq> rn_run_id run) (db_runs db) @ [run_line_of run]"
    "\<exists>ls fs vs. new_rows fresh (rn_run_id run) 0 (rn_case_results run) ls fs vs
       \<and> db_cases (save_run fresh run db) = filter (\<lambda>c. cl_run_id c \<noteq> rn_run_id run) (db_cases db) @ ls
       \<and> db_findings (save_run fresh run db)
           = filter (\<lambda>f. fl_case_result_id f \<in> kept_ids (rn_run_id run) db) (db_findings db) @ fs
       \<and> db_validators (save_run fresh run db)
           = filter (\<lambda>v. vl_case_result_id v \<in> kept_ids (rn_run_id run) db) (db_validators db) @ vs"
    unfolding saved by (auto simp: r)
qed

lemma loaded_dump [simp]: "loaded_run (dump_run run) = run"
  by (simp add: loaded_run_def dump_run_def absent_def Let_def)

lemma load_dump: "validate_run_result run = None \<Longrightarrow> load_document (dump_run run) = Inr run"
  by (simp add: load_document_def) (simp add: dump_run_def absent_def)

lemma find_append: "find P (xs @ ys) = (case find P xs of None \<Rightarrow> find P ys | Some x \<Rightarrow> Some x)"
  by (induction xs) auto

lemma find_filter_same: "(\<And>x. P x \<Longrightarrow> Q x) \<Longrightarrow> find P (filter Q xs) = find P xs"
  by (induction xs) auto

text \<open>
  C31: saving a run keeps the repository sound (each row refers to a row that is there, no id occurs twice in its table), makes
  the run readable under its id exactly as it was, and touches the rows of no other run: the run rows and case rows of the others, and the
  finding and validator rows of those case rows, are the same rows in the same order. The rows of an
  earlier run of that id are gone, and the rows of this one are those of its cases, their findings and
  their validator results, in order, up to the ids drawn for them.
\<close>

theorem save_run_sound:
  assumes "repository_ok db" "unused_from 0 fresh db" "validate_run_result run = None"
  shows "let id = rn_run_id run; saved = save_run fresh run db; kept = kept_ids id db in
     repository_ok saved
     \<and> get_run id saved = Inr (Some run) \<and> (\<forall>k. k \<noteq> id \<longrightarrow> get_run k saved = get_run k db)
     \<and> filter (\<lambda>l. rl_id l \<noteq> id) (db_runs saved) = filter (\<lambda>l. rl_id l \<noteq> id) (db_runs db)
     \<and> filter (\<lambda>l. cl_run_id l \<noteq> id) (db_cases saved) = filter (\<lambda>l. cl_run_id l \<noteq> id) (db_cases db)
     \<and> filter (\<lambda>f. fl_case_result_id f \<in> kept) (db_findings saved)
         = filter (\<lambda>f. fl_case_result_id f \<in> kept) (db_findings db)
     \<and> filter (\<lambda>v. vl_case_result_id v \<in> kept) (db_validators saved)
         = filter (\<lambda>v. vl_case_result_id v \<in> kept) (db_validators db)
     \<and> map case_content (filter (\<lambda>l. cl_run_id l = id) (db_cases saved))
         = map (case_line_of [] id) (rn_case_results run)
     \<and> map finding_content (filter (\<lambda>f. fl_case_result_id f \<notin> kept) (db_findings saved))
         = concat (map (\<lambda>c. map (finding_line_of [] []) (cr_scored_findings (res_review c))) (rn_case_results run))
     \<and> map validator_content (filter (\<lambda>v. vl_case_result_id v \<notin> kept) (db_validators saved))
         = concat (map (\<lambda>c. map (validator_line_of [] []) (ce_validator_results (res_evidence c)))
             (rn_case_results run))"
proof -
  let ?saved = "save_run fresh run db" and ?kept = "kept_ids (rn_run_id run) db"
  note s = save_run_ok [OF assms(1,2), of run]
  have none: "find (\<lambda>l. rl_id l = rn_run_id run) (filter (\<lambda>l. rl_id l \<noteq> rn_run_id run) (db_runs db)) = None"
    by (simp add: find_None_iff)
  have read: "get_run (rn_run_id run) ?saved = Inr (Some run)"
    unfolding get_run_def s(2) find_append none by (simp add: load_dump [OF assms(3)])
  have others: "get_run k ?saved = get_run k db" if "k \<noteq> rn_run_id run" for k
  proof -
    have "find (\<lambda>l. rl_id l = k) (filter (\<lambda>l. rl_id l \<noteq> rn_run_id run) (db_runs db)) = find (\<lambda>l. rl_id l = k) (db_runs db)"
      using that by (intro find_filter_same) auto
    then show ?thesis unfolding get_run_def s(2) find_append using that by (simp split: option.split)
  qed
  obtain ls fs vs where new: "new_rows fresh (rn_run_id run) 0 (rn_case_results run) ls fs vs"
    and rows: "db_cases ?saved = filter (\<lambda>c. cl_run_id c \<noteq> rn_run_id run) (db_cases db) @ ls"
      "db_findings ?saved = filter (\<lambda>f. fl_case_result_id f \<in> ?kept) (db_findings db) @ fs"
      "db_validators ?saved = filter (\<lambda>v. vl_case_result_id v \<in> ?kept) (db_validators db) @ vs"
    using s(3) by blast
  have "fresh i \<notin> ?kept" for i using assms(2) by (auto simp: unused_from_def kept_ids_def)
  then have apart: "\<forall>f \<in> set fs. fl_case_result_id f \<notin> ?kept" "\<forall>v \<in> set vs. vl_case_result_id v \<notin> ?kept"
    using new unfolding new_rows_def by metis+
  have of_run: "\<forall>l \<in> set ls. cl_run_id l = rn_run_id run"
  proof
    fix l assume "l \<in> set ls"
    then have "case_content l \<in> set (map (case_line_of [] (rn_run_id run)) (rn_case_results run))"
      using new unfolding new_rows_def by (metis image_eqI list.set_map)
    then show "cl_run_id l = rn_run_id run" by (auto simp: case_content_def case_line_of_def Let_def dest: arg_cong [of _ _ cl_run_id])
  qed
  have split: "filter P (filter P xs @ ys) = filter P xs" "filter (\<lambda>x. \<not> P x) (filter P xs @ ys) = ys"
    if "\<forall>y \<in> set ys. \<not> P y" for P and xs ys :: "'x list"
    using that by (simp_all add: filter_empty_conv)
  have "filter (\<lambda>l. rl_id l \<noteq> rn_run_id run) (db_runs ?saved) = filter (\<lambda>l. rl_id l \<noteq> rn_run_id run) (db_runs db)"
    by (simp add: s(2))
  then show ?thesis
    using s(1) read others new of_run
    unfolding Let_def rows new_rows_def split(1) [OF apart(1)] split(1) [OF apart(2)] split(2) [OF apart(1)]
      split(2) [OF apart(2)]
    by (auto simp: filter_empty_conv)
qed

section \<open>One policy, one ranking\<close>

lemma document_policy:
  "absent ''metadata'' doc \<Longrightarrow> \<not> document_eligible False doc"
  "\<not> absent ''metadata'' doc \<Longrightarrow> document_eligible u doc = leaderboard_eligible u (loaded_run doc)"
  by (auto simp: document_eligible_def leaderboard_eligible_def loaded_run_def Let_def eligibility_from_fields_def)

lemma dump_run_inject [simp]: "dump_run a = dump_run b \<longleftrightarrow> a = b"
  by (auto simp: dump_run_def)

lemma dumped_document [simp]:
  "document_eligible u (dump_run run) = leaderboard_eligible u run" "document_key (dump_run run) = run_key run"
  "doc_run (dump_run run) = run"
  by (simp_all add: document_eligible_def leaderboard_eligible_def document_key_def document_model_def
      document_mode_def run_key_def dump_run_def absent_def Let_def)

definition doc_completed :: "run_document \<Rightarrow> int" where
  "doc_completed doc = rn_completed_at (doc_run doc)"

definition documents :: "run_document list \<Rightarrow> run_document list" where
  "documents docs = sort_key (\<lambda>d. - doc_completed d) docs"

abbreviation latest_documents :: "bool \<Rightarrow> run_document list \<Rightarrow> (rank_key \<times> run_document) list" where
  "latest_documents u docs \<equiv> fst (standings_of u (documents docs))"

lemma tally_latest:
  assumes d: "latest_of (document_eligible u) document_key doc_completed docs latest"
    and oldest: "\<forall>d \<in> set docs. doc_completed doc \<le> doc_completed d"
  shows "latest_of (document_eligible u) document_key doc_completed (docs @ [doc]) (fst (tally u doc (latest, history)))"
proof (cases "document_eligible u doc \<and> map_of latest (document_key doc) = None")
  case True
  then have "\<not> (\<exists>r \<in> set docs. document_eligible u r \<and> document_key r = document_key doc)"
    using latest_of_none [OF d] by blast
  then have "latest_of (document_eligible u) document_key doc_completed (docs @ [doc])
      (alist_put (document_key doc) doc latest)"
    using True by (intro latest_of_put [OF d]) auto
  then show ?thesis using True by (simp add: tally_def Let_def)
next
  case False
  have "\<exists>previous. map_of latest (document_key doc) = Some previous \<and> doc_completed doc \<le> doc_completed previous"
    if "document_eligible u doc"
  proof -
    obtain previous where p: "map_of latest (document_key doc) = Some previous" using False \<open>document_eligible u doc\<close> by auto
    then have "previous \<in> set docs" using d unfolding latest_of_def by blast
    then show ?thesis using p oldest by blast
  qed
  then have "latest_of (document_eligible u) document_key doc_completed (docs @ [doc]) latest"
    by (rule latest_of_skip [OF d])
  then show ?thesis using False by (auto simp: tally_def Let_def)
qed

lemma standings_latest:
  "latest_of (document_eligible u) document_key doc_completed docs (fst st) \<Longrightarrow>
   sorted (map (\<lambda>d. - doc_completed d) (docs @ rest)) \<Longrightarrow>
   latest_of (document_eligible u) document_key doc_completed (docs @ rest) (fst (fold (tally u) rest st))"
proof (induction rest arbitrary: docs st)
  case (Cons doc rest)
  have "\<forall>d \<in> set docs. doc_completed doc \<le> doc_completed d"
    using Cons.prems(2) by (auto simp: sorted_append)
  from tally_latest [OF Cons.prems(1) this, of "snd st"]
  have "latest_of (document_eligible u) document_key doc_completed (docs @ [doc]) (fst (tally u doc st))" by simp
  from Cons.IH [OF this] Cons.prems(2) show ?case by simp
qed simp

lemma latest_of_set: "set docs = set docs' \<Longrightarrow> latest_of e k c docs d \<longleftrightarrow> latest_of e k c docs' d"
  by (simp add: latest_of_def)

interpretation in_database: latest_table "document_eligible u" document_key doc_completed "latest_documents u" for u
proof (rule latest_table_of)
  fix docs
  have "latest_of (document_eligible u) document_key doc_completed (documents docs)
      (fst (fold (tally u) (documents docs) ([], [])))"
    using standings_latest [of u "[]" "([], [])" "documents docs"] by (simp add: latest_of_Nil documents_def)
  then show "latest_of (document_eligible u) document_key doc_completed docs (latest_documents u docs)"
    by (simp add: standings_of_def latest_of_set [of docs "documents docs"] documents_def)
qed

lemma map_insort_key:
  "\<forall>y \<in> set (x # ys). h y = g (f y) \<Longrightarrow> map f (insort_key h x ys) = insort_key g (f x) (map f ys)"
  by (induction ys) auto

lemma map_sort_key: "\<forall>x \<in> set xs. h x = g (f x) \<Longrightarrow> map f (sort_key h xs) = sort_key g (map f xs)"
proof (induction xs)
  case (Cons x xs)
  then show ?case using map_insort_key [of x "sort_key h xs" h g f] by simp
qed simp

lemma documents_of_rows:
  assumes "\<forall>l \<in> set ls. rl_completed_at l = doc_completed (rl_run_json l)"
  shows "map rl_run_json (newest_first ls) = documents (map rl_run_json ls)"
  using assms by (simp add: newest_first_def documents_def map_sort_key)

lemma tally_history:
  "map_of (snd (fold (tally u) docs st)) k =
     (let n = length (filter (\<lambda>d. document_eligible u d \<and> document_key d = k) docs) in
      if n = 0 then map_of (snd st) k
      else Some ((case map_of (snd st) k of None \<Rightarrow> 0 | Some m \<Rightarrow> m) + n))"
proof (induction docs arbitrary: st)
  case (Cons doc docs)
  have "map_of (snd (tally u doc st)) k =
      (if document_eligible u doc \<and> document_key doc = k
       then Some ((case map_of (snd st) k of None \<Rightarrow> 0 | Some m \<Rightarrow> m) + 1) else map_of (snd st) k)"
    by (cases st) (auto simp: tally_def Let_def)
  then show ?case by (auto simp: Cons.IH Let_def split: option.split)
qed simp

text \<open>The rows of a database that runs were saved into.\<close>

definition saved_rows :: "run_result list \<Rightarrow> arena_db \<Rightarrow> bool" where
  "saved_rows runs db \<longleftrightarrow> mset (db_runs db) = mset (map run_line_of runs)"

text \<open>
  C32: the leaderboard of the database and the one of the report files rank the same runs: when the database holds
  the runs of the files and no two of them completed together, every identity has the same run in both, and
  the database counts as its history all the eligible runs of that identity. And a document, also an older one
  that lacks fields, is eligible exactly when the run it loads as is.
\<close>

theorem leaderboards_agree:
  assumes "saved_rows runs db" "inj_on rn_completed_at (set runs)"
    "standings_of u (map rl_run_json (newest_first (db_runs db))) = (latest, history)"
  shows "map_option doc_run (map_of latest k) = map_of (latest_runs u runs) k
     \<and> map_of history k = (let n = length (filter (\<lambda>r. leaderboard_eligible u r \<and> run_key r = k) runs) in
          if n = 0 then None else Some n)
     \<and> (\<forall>doc run. load_document doc = Inr run \<longrightarrow> document_eligible u doc = leaderboard_eligible u run)"
proof -
  define docs where "docs = map rl_run_json (db_runs db)"
  have m: "mset (db_runs db) = mset (map run_line_of runs)" using assms(1) by (simp add: saved_rows_def)
  have rows: "mset docs = mset (map dump_run runs)" "set (db_runs db) = run_line_of ` set runs"
    using arg_cong [OF m, of "image_mset rl_run_json"] arg_cong [OF m, of set_mset]
    by (simp_all add: docs_def image_mset.compositionality comp_def)
  have set_docs: "set docs = dump_run ` set runs" using arg_cong [OF rows(1), of set_mset] by simp
  have sorted: "map rl_run_json (newest_first (db_runs db)) = documents docs"
    unfolding docs_def by (rule documents_of_rows) (auto simp: rows(2) doc_completed_def)
  have latest: "latest = latest_documents u docs"
    and history: "history = snd (fold (tally u) (documents docs) ([], []))"
    using assms(3) unfolding sorted standings_of_def by (metis fst_conv, metis snd_conv)
  have inj: "inj_on doc_completed (set docs)"
    using assms(2) by (auto simp: set_docs inj_on_def doc_completed_def)
  have same: "map_of latest k = Some (dump_run r) \<longleftrightarrow> map_of (latest_runs u runs) k = Some r" for r
    unfolding latest in_database.determined [OF inj] on_disk.determined [OF assms(2)] set_docs
    by (auto simp: doc_completed_def)
  have "map_option doc_run (map_of latest k) = map_of (latest_runs u runs) k"
  proof (cases "map_of latest k")
    case None
    then show ?thesis using same by (cases "map_of (latest_runs u runs) k") auto
  next
    case (Some d)
    then have "d \<in> set docs" unfolding latest using in_database.entry by blast
    then obtain r where "d = dump_run r" by (auto simp: set_docs)
    then show ?thesis using same [of r] Some by simp
  qed
  moreover have "map_of history k = (let n = length (filter (\<lambda>r. leaderboard_eligible u r \<and> run_key r = k) runs) in
      if n = 0 then None else Some n)"
  proof -
    have "mset (documents docs) = mset (map dump_run runs)" using rows(1) by (simp add: documents_def)
    from arg_cong [OF this, of "\<lambda>m. size (filter_mset (\<lambda>d. document_eligible u d \<and> document_key d = k) m)"]
    have "length (filter (\<lambda>d. document_eligible u d \<and> document_key d = k) (documents docs))
        = length (filter (\<lambda>r. leaderboard_eligible u r \<and> run_key r = k) runs)"
      by (simp only: mset_filter [symmetric] size_mset) (simp add: filter_map comp_def)
    then show ?thesis by (simp add: history tally_history Let_def)
  qed
  moreover have "document_eligible u doc = leaderboard_eligible u run" if "load_document doc = Inr run" for doc run
    using that document_policy(2) [of doc u] by (auto simp: load_document_def split: if_splits option.splits)
  ultimately show ?thesis by blast
qed

lemma docker_run_valid:
  assumes "docker_run = Inr run"
  shows "validate_run_result run = None" "map result_id (rn_case_results run) = [''race-001'']"
    "rn_completed_at run = 1"
proof -
  obtain run_id d where r: "run = run_record toy_snapshot (toy_request FullMode None [''other'']) run_id
      (snapshot_progress (\<lambda>_. docker_world) (\<lambda>_. ''error'') toy_snapshot [(docker_case, single_tree)]
        (toy_request FullMode None [''other'']) run_id) d"
    using assms unfolding docker_run_def run_on_snapshot_Inr by blast
  show "validate_run_result run = None" unfolding r by (rule run_record_consistent)
  show "rn_completed_at run = 1" unfolding r by (simp add: run_record_simps toy_request_def)
  have "rp_stopped (snapshot_progress (\<lambda>_. docker_world) (\<lambda>_. ''error'') toy_snapshot [(docker_case, single_tree)]
      (toy_request FullMode None [''other'']) run_id) = None"
    unfolding snapshot_progress_def Let_def by (rule run_cases_no_budget) (simp_all add: toy_request_def)
  then show "map result_id (rn_case_results run) = [''race-001'']"
    using snapshot_progress_ok [of "[(docker_case, single_tree)]" "\<lambda>_. docker_world" "\<lambda>_. ''error''" toy_snapshot
        "toy_request FullMode None [''other'']" run_id]
    unfolding r by (auto simp: run_record_simps progress_ok_def ids_of_def docker_case_def single_case_def sample_case_def)
qed

theorem save_run_sound_witness:
  "\<exists>run. docker_run = Inr run \<and> get_run (rn_run_id run) (save_run nat_str run empty_db) = Inr (Some run)
     \<and> map case_content (filter (\<lambda>l. cl_run_id l = rn_run_id run) (db_cases (save_run nat_str run empty_db)))
       = map (case_line_of [] (rn_run_id run)) (rn_case_results run)
     \<and> rn_case_results run \<noteq> []"
proof -
  obtain run where run: "docker_run = Inr run" by (rule docker_ranked)
  have "repository_ok empty_db" "unused_from 0 nat_str empty_db"
    by (simp_all add: repository_ok_def empty_db_def unused_from_def inj_def)
  note sound = save_run_sound [OF this docker_run_valid(1) [OF run], unfolded Let_def]
  have "rn_case_results run \<noteq> []" using docker_run_valid(2) [OF run] by auto
  with sound run show ?thesis by (intro exI [of _ run]) blast
qed

theorem leaderboards_agree_witness:
  "\<exists>run newer latest history. docker_run = Inr run \<and> newer = run\<lparr>rn_completed_at := 9\<rparr>
     \<and> standings_of False (map rl_run_json (newest_first (map run_line_of [run, newer]))) = (latest, history)
     \<and> map_option doc_run (map_of latest (run_key run)) = Some newer \<and> map_of history (run_key run) = Some 2"
proof -
  obtain run where run: "docker_run = Inr run" "leaderboard_eligible False run" by (rule docker_ranked)
  define newer where "newer = run\<lparr>rn_completed_at := 9\<rparr>"
  have n: "leaderboard_eligible False newer" "run_key newer = run_key run"
    using run(2) by (simp_all add: newer_def leaderboard_eligible_def run_key_def)
  obtain latest history where st: "standings_of False (map rl_run_json (newest_first (map run_line_of [run, newer])))
      = (latest, history)" by (metis prod.exhaust)
  let ?db = "empty_db\<lparr>db_runs := map run_line_of [run, newer]\<rparr>"
  have "saved_rows [run, newer] ?db" by (simp add: saved_rows_def)
  moreover have "inj_on rn_completed_at (set [run, newer])"
    using docker_run_valid(3) [OF run(1)] by (auto simp: inj_on_def newer_def)
  moreover have "standings_of False (map rl_run_json (newest_first (db_runs ?db))) = (latest, history)" using st by simp
  ultimately have "map_option doc_run (map_of latest (run_key run)) = map_of (latest_runs False [run, newer]) (run_key run)"
    "map_of history (run_key run) = Some 2"
    using leaderboards_agree [of "[run, newer]" ?db False latest history "run_key run"] run(2) n
    by (simp_all add: Let_def)
  moreover have "map_of (latest_runs False [run, newer]) (run_key run) = Some newer"
    using run(2) n docker_run_valid(3) [OF run(1)] by (simp add: latest_runs_def offer_def) (simp add: newer_def)
  ultimately show ?thesis using run(1) st newer_def by auto
qed

end
