(* ===== verification/Api.thy ===== *)
theory Api
  imports Job_Queue Storage
begin

text \<open>
  The HTTP server under \<open>arena/server\<close>: the body limit of \<open>middleware.py\<close>, the token check of \<open>auth.py\<close>, and
  the route that starts a run (\<open>routes/runs.py\<close>, \<open>schemas.py\<close>) with what it takes from \<open>core/config.py\<close> and
  \<open>core/registry.py\<close>. The web framework calls these; the environment and which directories exist are parameters.
\<close>

section \<open>The body limit\<close>

datatype asgi_message = HttpRequest string bool | HttpDisconnect | OtherMessage

text \<open>\<open>Waiting\<close>: the messages so far do not end the request.\<close>

datatype body_outcome = PassThrough | Forward string bool | TooLarge | Waiting

definition BODY_METHODS :: "string list" where
  "BODY_METHODS = [''POST'', ''PUT'', ''PATCH'']"

fun buffer_body :: "nat \<Rightarrow> string \<Rightarrow> asgi_message list \<Rightarrow> body_outcome" where
  "buffer_body max_bytes body [] = Waiting"
| "buffer_body max_bytes body (HttpDisconnect # ms) = Forward body True"
| "buffer_body max_bytes body (OtherMessage # ms) = buffer_body max_bytes body ms"
| "buffer_body max_bytes body (HttpRequest chunk more_body # ms) =
     (if chunk \<noteq> [] \<and> length body + length chunk > max_bytes then TooLarge
      else if more_body then buffer_body max_bytes (body @ chunk) ms
      else Forward (body @ chunk) False)"

definition limit_request :: "nat \<Rightarrow> bool \<Rightarrow> string \<Rightarrow> asgi_message list \<Rightarrow> body_outcome" where
  "limit_request max_bytes is_http request_method messages =
     (if \<not> is_http \<or> py_upper request_method \<notin> set BODY_METHODS then PassThrough
      else buffer_body max_bytes [] messages)"

text \<open>What the application receives, message by message.\<close>

definition replay :: "string \<Rightarrow> bool \<Rightarrow> nat \<Rightarrow> asgi_message" where
  "replay body disconnected i =
     (if i = 0 then HttpRequest body False
      else if disconnected then HttpDisconnect else HttpRequest [] False)"

section \<open>Tokens and opt-ins\<close>

datatype auth_outcome = Granted | Unauthorized | ComparisonFailed

definition server_local_execution_enabled :: "string option \<Rightarrow> bool" where
  "server_local_execution_enabled env \<longleftrightarrow>
     py_lower (case env of None \<Rightarrow> [] | Some v \<Rightarrow> v) \<in> {''1'', ''true'', ''yes''}"

text \<open>\<open>secrets.compare_digest\<close> raises on a text that is not ASCII.\<close>

definition compare_digest :: "string \<Rightarrow> string \<Rightarrow> bool option" where
  "compare_digest a b = (if list_all (\<lambda>c. of_char c < (128 :: nat)) (a @ b) then Some (a = b) else None)"

definition presented_token :: "string option \<Rightarrow> string option \<Rightarrow> string option" where
  "presented_token x_arena_token authorization =
     (case x_arena_token of
        Some t \<Rightarrow> Some t
      | None \<Rightarrow>
          (case authorization of
             None \<Rightarrow> None
           | Some a \<Rightarrow>
               if a \<noteq> [] \<and> starts_with (py_lower a) ''bearer '' then Some (drop 7 a) else None))"

definition require_api_token :: "string option \<Rightarrow> string option \<Rightarrow> string option \<Rightarrow> auth_outcome" where
  "require_api_token env x_arena_token authorization =
     (case env of
        None \<Rightarrow> Granted
      | Some expected \<Rightarrow>
          if expected = [] then Granted
          else case presented_token x_arena_token authorization of
            None \<Rightarrow> Unauthorized
          | Some provided \<Rightarrow>
              (case compare_digest provided expected of
                 None \<Rightarrow> ComparisonFailed
               | Some same \<Rightarrow> if same then Granted else Unauthorized))"

section \<open>Packs and reviewers by name\<close>

definition trusted_pack_hashes :: "string option \<Rightarrow> string list" where
  "trusted_pack_hashes env =
     (let raw = (case env of None \<Rightarrow> [] | Some v \<Rightarrow> v) in
      filter (\<lambda>t. t \<noteq> []) (map py_strip (split_ws (map (\<lambda>c. if c = CHR '','' then CHR '' '' else c) raw))))"

definition resolve_benchmark_set :: "(string \<Rightarrow> bool) \<Rightarrow> string \<Rightarrow> string option" where
  "resolve_benchmark_set is_pack name =
     (if name = [] \<or> CHR ''/'' \<in> set name \<or> CHR 0x5C \<in> set name \<or> contains_sub ''..'' name then None
      else if is_pack name then Some name else None)"

text \<open>\<open>PurePosixPath.parts\<close> has the root as its first part.\<close>

definition pure_parts :: "string \<Rightarrow> string list" where
  "pure_parts s =
     (if posix_absolute s
      then (if starts_with s ''//'' \<and> \<not> starts_with s ''///'' then ''//'' else ''/'') # posix_parts s
      else posix_parts s)"

definition normalize_benchmark_set :: "string \<Rightarrow> string \<Rightarrow> string" where
  "normalize_benchmark_set root_name value =
     (case pure_parts (map (\<lambda>c. if c = CHR 0x5C then CHR ''/'' else c) value) of
        [first, name] \<Rightarrow> if first = root_name then name else value
      | _ \<Rightarrow> value)"

datatype reviewer_kind =
    ReferencePatch | ShallowPatch | HttpEndpoint http_style string | Control string | CommandReviewer string

datatype reviewer_spec_error = NeedsUrl | NeedsCommand | UnknownReviewer string

text \<open>\<open>spec.partition(":")[2]\<close>: what follows the first colon.\<close>

definition after_colon :: "string \<Rightarrow> string" where
  "after_colon spec = drop 1 (dropWhile (\<lambda>c. c \<noteq> CHR '':'') spec)"

definition control_mode :: "string \<Rightarrow> string" where
  "control_mode spec =
     map (\<lambda>c. if c = CHR ''-'' then CHR ''_'' else c) (if after_colon spec = [] then ''perfect'' else after_colon spec)"

definition create_reviewer :: "string \<Rightarrow> string option \<Rightarrow> (reviewer_spec_error, reviewer_kind) res" where
  "create_reviewer spec command =
     (if spec \<in> {''reference-patch'', ''control:reference_patch''} then Inr ReferencePatch
      else if spec \<in> {''shallow-patch'', ''control:shallow_patch''} then Inr ShallowPatch
      else if starts_with spec ''openai:'' \<or> starts_with spec ''http:'' then
        (if after_colon spec = [] then Inl NeedsUrl
         else Inr (HttpEndpoint (if starts_with spec ''openai:'' then OpenAI else PlainJSON) (after_colon spec)))
      else if starts_with spec ''control'' \<or> starts_with spec ''mock'' then Inr (Control (control_mode spec))
      else if spec = ''custom-command'' then
        (if command = None \<or> command = Some [] then Inl NeedsCommand else Inr (CommandReviewer (the command)))
      else Inl (UnknownReviewer spec))"

section \<open>Starting a run\<close>

record create_request =
  cq_benchmark_set :: string
  cq_reviewer :: string
  cq_command :: "string option"
  cq_mode :: run_mode
  cq_beta :: "rat option"
  cq_allow_local_execution :: bool
  cq_max_wall_seconds :: "rat option"
  cq_max_cost :: "rat option"

text \<open>The bounds of the request schema; NaN and the infinities are no rationals.\<close>

definition valid_create_request :: "create_request \<Rightarrow> bool" where
  "valid_create_request q \<longleftrightarrow>
     1 \<le> length (cq_benchmark_set q) \<and> length (cq_benchmark_set q) \<le> BENCHMARK_SET_NAME_LEN
     \<and> 1 \<le> length (cq_reviewer q) \<and> length (cq_reviewer q) \<le> REVIEWER_ID_LEN
     \<and> (case cq_command q of None \<Rightarrow> True | Some c \<Rightarrow> length c \<le> COMMAND_LEN)
     \<and> (case cq_beta q of None \<Rightarrow> True | Some b \<Rightarrow> 0 < b \<and> b \<le> of_nat BETA_MAX)
     \<and> (case cq_max_wall_seconds q of None \<Rightarrow> True | Some s \<Rightarrow> 0 < s \<and> s \<le> of_nat API_WALL_SECONDS_MAX)
     \<and> (case cq_max_cost q of None \<Rightarrow> True | Some c \<Rightarrow> 0 \<le> c \<and> c \<le> of_nat API_COST_MAX)"

record api_world =
  aw_root_name :: string
  aw_is_pack :: "string \<Rightarrow> bool"
  aw_local_env :: "string option"
  aw_token_env :: "string option"

datatype create_error =
    TokenRejected auth_outcome | InvalidRequest | UnknownBenchmarkSet | LocalExecutionDisabled
  | BadReviewer reviewer_spec_error | QueueFull

text \<open>The status of each refusal; a comparison that raises is an internal error.\<close>

fun status_code :: "create_error \<Rightarrow> nat" where
  "status_code (TokenRejected ComparisonFailed) = 500"
| "status_code (TokenRejected _) = 401"
| "status_code InvalidRequest = 422"
| "status_code UnknownBenchmarkSet = 400"
| "status_code LocalExecutionDisabled = 403"
| "status_code (BadReviewer _) = 400"
| "status_code QueueFull = 429"

text \<open>
  \<open>create_run\<close>: the pack and the reviewer of the job and the table it was entered in. The limits of the queue, the time
  and the identifier of the job are arguments, as in \<open>admit\<close>.
\<close>

definition create_run ::
  "api_world \<Rightarrow> nat \<Rightarrow> nat \<Rightarrow> int \<Rightarrow> string \<Rightarrow> string option \<Rightarrow> string option \<Rightarrow> create_request \<Rightarrow> job_table
   \<Rightarrow> (create_error, string \<times> reviewer_kind \<times> job_table) res" where
  "create_run w max_pending max_finished now i x_arena_token authorization q jobs =
     (let auth = require_api_token (aw_token_env w) x_arena_token authorization in
      if auth \<noteq> Granted then Inl (TokenRejected auth)
      else if \<not> valid_create_request q then Inl InvalidRequest
      else case resolve_benchmark_set (aw_is_pack w) (normalize_benchmark_set (aw_root_name w) (cq_benchmark_set q)) of
        None \<Rightarrow> Inl UnknownBenchmarkSet
      | Some pack \<Rightarrow>
          if cq_allow_local_execution q \<and> \<not> server_local_execution_enabled (aw_local_env w)
          then Inl LocalExecutionDisabled
          else case create_reviewer (cq_reviewer q) (cq_command q) of
            Inl e \<Rightarrow> Inl (BadReviewer e)
          | Inr chosen \<Rightarrow>
              (case admit max_pending max_finished now i jobs of
                 None \<Rightarrow> Inl QueueFull
               | Some jobs' \<Rightarrow> Inr (pack, chosen, jobs')))"

definition job_status_route :: "string \<Rightarrow> job_table \<Rightarrow> (nat, job) res" where
  "job_status_route i jobs = (case get_job i jobs of None \<Rightarrow> Inl 404 | Some j \<Rightarrow> Inr j)"

definition run_detail :: "string \<Rightarrow> arena_db \<Rightarrow> (document_error + nat, run_result) res" where
  "run_detail run_id db =
     (case get_run run_id db of
        Inl e \<Rightarrow> Inl (Inl e)
      | Inr None \<Rightarrow> Inl (Inr 404)
      | Inr (Some run) \<Rightarrow> Inr run)"

section \<open>The body limit is exact\<close>

text \<open>The body a client sends, and whether it went away.\<close>

fun whole_body :: "asgi_message list \<Rightarrow> (string \<times> bool) option" where
  "whole_body [] = None"
| "whole_body (HttpDisconnect # ms) = Some ([], True)"
| "whole_body (OtherMessage # ms) = whole_body ms"
| "whole_body (HttpRequest chunk more_body # ms) =
     (if more_body then map_option (\<lambda>(b, d). (chunk @ b, d)) (whole_body ms) else Some (chunk, False))"

fun sent_so_far :: "asgi_message list \<Rightarrow> nat" where
  "sent_so_far [] = 0"
| "sent_so_far (HttpRequest chunk _ # ms) = length chunk + sent_so_far ms"
| "sent_so_far (_ # ms) = sent_so_far ms"

lemma buffer_body_spec:
  "length body \<le> max_bytes \<Longrightarrow>
   buffer_body max_bytes body ms =
     (case whole_body ms of
        Some (b, d) \<Rightarrow> if length (body @ b) \<le> max_bytes then Forward (body @ b) d else TooLarge
      | None \<Rightarrow> if length body + sent_so_far ms \<le> max_bytes then Waiting else TooLarge)"
proof (induction max_bytes body ms rule: buffer_body.induct)
  case (4 max_bytes body chunk more_body ms)
  show ?case
  proof (cases "length body + length chunk \<le> max_bytes")
    case True
    then show ?thesis using 4 by (auto split: option.split)
  next
    case False
    then have "chunk \<noteq> []" using 4(2) by auto
    then show ?thesis using False by (auto split: option.split)
  qed
qed (auto split: option.split)

text \<open>
  C29: the application never receives a body above the limit. A request with a body is forwarded exactly when its whole
  body, counted chunk by chunk whatever its headers say, is within the limit; then the application receives that body
  in one message and the end of the request, or the disconnect, after it. A longer body is refused, at the
  first chunk that exceeds the limit when the request has not ended yet.
\<close>

theorem body_limit_exact:
  "(py_upper m \<in> set BODY_METHODS \<longrightarrow>
      limit_request max_bytes True m ms =
        (case whole_body ms of
           Some (b, d) \<Rightarrow> if length b \<le> max_bytes then Forward b d else TooLarge
         | None \<Rightarrow> if sent_so_far ms \<le> max_bytes then Waiting else TooLarge))
   \<and> (py_upper m \<notin> set BODY_METHODS \<longrightarrow> limit_request max_bytes True m ms = PassThrough)
   \<and> (\<forall>b. whole_body [replay b False 0] = Some (b, False))"
  by (simp add: limit_request_def buffer_body_spec replay_def split: option.split prod.split)

theorem body_limit_exact_witness:
  "limit_request 4 True ''post'' [HttpRequest ''abc'' True, OtherMessage, HttpRequest ''d'' False] = Forward ''abcd'' False
   \<and> limit_request 4 True ''POST'' [HttpRequest ''abc'' True, HttpRequest ''de'' True] = TooLarge"
proof -
  have "py_upper ''post'' \<in> set BODY_METHODS" "py_upper ''POST'' \<in> set BODY_METHODS" by code_simp+
  then show ?thesis using body_limit_exact [of "''post''" 4] body_limit_exact [of "''POST''" 4] by simp
qed

section \<open>Who may start what\<close>

lemma granted_iff:
  "require_api_token env x a = Granted \<longleftrightarrow>
     env = None \<or> env = Some []
     \<or> (\<exists>t. env = Some t \<and> presented_token x a = Some t \<and> list_all (\<lambda>c. of_char c < (128 :: nat)) t)"
  by (auto simp: require_api_token_def compare_digest_def split: option.splits)

lemma comparison_failed_iff:
  "require_api_token env x a = ComparisonFailed \<longleftrightarrow>
     (\<exists>expected provided. env = Some expected \<and> expected \<noteq> [] \<and> presented_token x a = Some provided
        \<and> \<not> list_all (\<lambda>c. of_char c < (128 :: nat)) (provided @ expected))"
  by (auto simp: require_api_token_def compare_digest_def split: option.splits)

lemma create_run_refusal:
  "create_run w p f now i x a q jobs = Inl e \<Longrightarrow> status_code e =
     (if require_api_token (aw_token_env w) x a = ComparisonFailed then 500
      else if require_api_token (aw_token_env w) x a \<noteq> Granted then 401
      else if \<not> valid_create_request q then 422
      else if resolve_benchmark_set (aw_is_pack w) (normalize_benchmark_set (aw_root_name w) (cq_benchmark_set q)) = None
      then 400
      else if cq_allow_local_execution q \<and> \<not> server_local_execution_enabled (aw_local_env w) then 403
      else if \<forall>chosen. create_reviewer (cq_reviewer q) (cq_command q) \<noteq> Inr chosen then 400
      else 429)"
  by (cases "require_api_token (aw_token_env w) x a")
    (auto simp: create_run_def Let_def split: if_splits option.splits sum.splits)

text \<open>
  C28: a run is started over HTTP exactly when the configured token was presented, the request obeys the schema, its pack
  is an existing directory whose name has no separator and no \<open>..\<close> (directly below the benchmark root, or the root itself
  under the name \<open>.\<close>), host execution was not asked for unless the server opted in, the
  reviewer exists and the queue has room. A refusal has the status of the first of these that fails: 401 for the token
  (500 when comparing it raises), 422 for the schema, 400 for the pack, 403 for host execution, 400 for the
  reviewer, 429 for the queue. The reviewer itself is not covered by the
  opt-in: with it off, any command of a caller is still accepted as a reviewer.
\<close>

theorem create_run_admits:
  "(create_run w p f now i x a q jobs = Inr (pack, chosen, jobs') \<longleftrightarrow>
      (aw_token_env w \<in> {None, Some []}
         \<or> presented_token x a = aw_token_env w \<and> list_all (\<lambda>c. of_char c < (128 :: nat)) (the (aw_token_env w)))
      \<and> valid_create_request q
      \<and> pack = normalize_benchmark_set (aw_root_name w) (cq_benchmark_set q) \<and> aw_is_pack w pack
      \<and> pack \<noteq> [] \<and> CHR ''/'' \<notin> set pack \<and> CHR 0x5C \<notin> set pack \<and> \<not> contains_sub ''..'' pack
      \<and> (cq_allow_local_execution q \<longrightarrow> server_local_execution_enabled (aw_local_env w))
      \<and> create_reviewer (cq_reviewer q) (cq_command q) = Inr chosen
      \<and> pending_count jobs < p
      \<and> jobs' = alist_put i (new_job now) (evict_finished f jobs))
   \<and> (\<forall>e. create_run w p f now i x a q jobs = Inl e \<longrightarrow> status_code e =
        (let name = normalize_benchmark_set (aw_root_name w) (cq_benchmark_set q) in
         if \<exists>expected provided. aw_token_env w = Some expected \<and> expected \<noteq> [] \<and> presented_token x a = Some provided
              \<and> \<not> list_all (\<lambda>c. of_char c < (128 :: nat)) (provided @ expected)
         then 500
         else if aw_token_env w \<notin> {None, Some []} \<and> presented_token x a \<noteq> aw_token_env w then 401
         else if \<not> valid_create_request q then 422
         else if name = [] \<or> CHR ''/'' \<in> set name \<or> CHR 0x5C \<in> set name \<or> contains_sub ''..'' name
              \<or> \<not> aw_is_pack w name
         then 400
         else if cq_allow_local_execution q \<and> \<not> server_local_execution_enabled (aw_local_env w) then 403
         else if \<forall>r. create_reviewer (cq_reviewer q) (cq_command q) \<noteq> Inr r then 400
         else 429))
   \<and> (\<forall>command. command \<noteq> [] \<longrightarrow>
        create_reviewer ''custom-command'' (Some command) = Inr (CommandReviewer command))"
proof -
  have "create_reviewer ''custom-command'' (Some command) = Inr (CommandReviewer command)"
    if "command \<noteq> []" for command
    using that by (simp add: create_reviewer_def starts_with_def)
  moreover have "create_run w p f now i x a q jobs = Inr (pack, chosen, jobs') \<longleftrightarrow>
      require_api_token (aw_token_env w) x a = Granted \<and> valid_create_request q
      \<and> resolve_benchmark_set (aw_is_pack w) (normalize_benchmark_set (aw_root_name w) (cq_benchmark_set q)) = Some pack
      \<and> (cq_allow_local_execution q \<longrightarrow> server_local_execution_enabled (aw_local_env w))
      \<and> create_reviewer (cq_reviewer q) (cq_command q) = Inr chosen
      \<and> admit p f now i jobs = Some jobs'"
    by (auto simp: create_run_def Let_def split: option.split sum.split)
  moreover have denied: "require_api_token (aw_token_env w) x a \<noteq> Granted \<longleftrightarrow>
      aw_token_env w \<notin> {None, Some []} \<and> presented_token x a \<noteq> aw_token_env w"
    if "require_api_token (aw_token_env w) x a \<noteq> ComparisonFailed"
    using that unfolding comparison_failed_iff granted_iff by (auto split: option.splits)
  moreover have unknown: "resolve_benchmark_set is_pack name = None \<longleftrightarrow>
      name = [] \<or> CHR ''/'' \<in> set name \<or> CHR 0x5C \<in> set name \<or> contains_sub ''..'' name \<or> \<not> is_pack name"
    for is_pack name by (simp add: resolve_benchmark_set_def)
  have "status_code e =
      (let name = normalize_benchmark_set (aw_root_name w) (cq_benchmark_set q) in
       if \<exists>expected provided. aw_token_env w = Some expected \<and> expected \<noteq> [] \<and> presented_token x a = Some provided
            \<and> \<not> list_all (\<lambda>c. of_char c < (128 :: nat)) (provided @ expected)
       then 500
       else if aw_token_env w \<notin> {None, Some []} \<and> presented_token x a \<noteq> aw_token_env w then 401
       else if \<not> valid_create_request q then 422
       else if name = [] \<or> CHR ''/'' \<in> set name \<or> CHR 0x5C \<in> set name \<or> contains_sub ''..'' name
            \<or> \<not> aw_is_pack w name
       then 400
       else if cq_allow_local_execution q \<and> \<not> server_local_execution_enabled (aw_local_env w) then 403
       else if \<forall>r. create_reviewer (cq_reviewer q) (cq_command q) \<noteq> Inr r then 400
       else 429)"
    if "create_run w p f now i x a q jobs = Inl e" for e
    using create_run_refusal [OF that] denied
    unfolding comparison_failed_iff [symmetric] unknown Let_def by (auto split: if_splits)
  ultimately show ?thesis
    by (simp only: granted_iff) (auto simp: resolve_benchmark_set_def admit_def)
qed

definition toy_api :: api_world where
  "toy_api = \<lparr>aw_root_name = ''benchmark_sets'', aw_is_pack = (\<lambda>n. n = ''v1''), aw_local_env = None,
     aw_token_env = Some ''key''\<rparr>"

definition toy_create :: "bool \<Rightarrow> create_request" where
  "toy_create local = \<lparr>cq_benchmark_set = ''benchmark_sets/v1'', cq_reviewer = ''custom-command'',
     cq_command = Some ''touch x'', cq_mode = ReviewMode, cq_beta = None, cq_allow_local_execution = local,
     cq_max_wall_seconds = None, cq_max_cost = None\<rparr>"

theorem create_run_admits_witness:
  "create_run toy_api 4 100 0 ''j'' (Some ''key'') None (toy_create False) []
     = Inr (''v1'', CommandReviewer ''touch x'', [(''j'', new_job 0)])
   \<and> (\<forall>r. create_run toy_api 4 100 0 ''j'' (Some ''key'') None (toy_create True) [] \<noteq> Inr r)"
proof -
  have off: "\<not> server_local_execution_enabled (aw_local_env toy_api)" by code_simp
  have pack: "normalize_benchmark_set ''benchmark_sets'' ''benchmark_sets/v1'' = ''v1''" by code_simp
  have valid: "valid_create_request (toy_create False)" by code_simp
  have evict: "evict_finished 100 [] = []" by code_simp
  have name: "\<not> contains_sub ''..'' ''v1''" by code_simp
  have "create_reviewer ''custom-command'' (Some ''touch x'') = Inr (CommandReviewer ''touch x'')"
    using create_run_admits [of toy_api] by blast
  moreover have "\<not> cq_allow_local_execution (toy_create False)" "cq_allow_local_execution (toy_create True)"
    by (simp_all add: toy_create_def)
  ultimately show ?thesis
    using create_run_admits [of toy_api 4 100 0 "''j''" "Some ''key''" None "toy_create False" "[]" "''v1''"
        "CommandReviewer ''touch x''" "[(''j'', new_job 0)]"]
      create_run_admits [of toy_api 4 100 0 "''j''" "Some ''key''" None "toy_create True" "[]"] off valid pack evict name
    by (auto simp: toy_api_def toy_create_def presented_token_def pending_count_def)
qed

end
