(* ===== verification/Pack_Hash.thy ===== *)
theory Pack_Hash
  imports Runner "HOL-Library.Product_Lexorder" "HOL-Library.Multiset"
begin

text \<open>
  The two identities of a benchmark pack: the public checksum of \<open>benchmark/pack_hash.py\<close> over paths and bytes, and the
  digest of the snapshot manifest of \<open>benchmark/snapshot.py\<close> over every file and directory. Both hash a text in which
  fields end with a NUL; what that text determines is proved here. SHA-256 is a parameter.
\<close>

section \<open>The public checksum\<close>

definition PACK_CHECKSUM_FILENAME :: string where
  "PACK_CHECKSUM_FILENAME = ''pack.sha256''"

text \<open>The regular files of a pack: relative POSIX path and bytes. Paths compare by their components.\<close>

type_synonym pack_files = "(string \<times> string) list"

definition content_files :: "pack_files \<Rightarrow> pack_files" where
  "content_files files =
     filter (\<lambda>f. fst f \<noteq> PACK_CHECKSUM_FILENAME) (sort_key (\<lambda>f. split_on CHR ''/'' (fst f)) files)"

definition hash_file :: "string \<times> string \<Rightarrow> string \<Rightarrow> (input_error, string) res" where
  "hash_file f hashed =
     and_then (read_bytes_bounded (Some (File (snd f) False 1)) PACK_FILE_BYTES) (\<lambda>bytes.
       Inr (hashed @ utf8_encode (fst f) @ [NUL] @ bytes @ [NUL]))"

definition pack_checksum :: "(string \<Rightarrow> string) \<Rightarrow> pack_files \<Rightarrow> (input_error, string) res" where
  "pack_checksum sha256 files =
     and_then (fold_res hash_file (content_files files) []) (\<lambda>hashed. Inr (sha256 hashed))"

definition stored_checksum :: "text_codec \<Rightarrow> pack_files \<Rightarrow> (input_error, string option) res" where
  "stored_checksum tc files =
     (case map_of files PACK_CHECKSUM_FILENAME of
        None \<Rightarrow> Inr None
      | Some bytes \<Rightarrow>
          and_then (read_text_bounded tc (Some (File bytes False 1)) CHECKSUM_FILE_BYTES) (\<lambda>s.
            Inr (if py_strip s = [] then None else Some (py_strip s))))"

section \<open>The manifest\<close>

definition SNAPSHOT_MANIFEST_VERSION :: nat where "SNAPSHOT_MANIFEST_VERSION = 1"

record manifest_entry =
  me_kind :: string
  me_path :: string
  me_size :: nat
  me_sha256 :: string
  me_mode :: nat

definition entry_text :: "manifest_entry \<Rightarrow> string" where
  "entry_text e =
     me_kind e @ [NUL] @ me_path e @ [NUL] @ nat_str (me_size e) @ [NUL] @ me_sha256 e @ [NUL]
     @ nat_str (me_mode e) @ [NUL]"

definition sorted_entries :: "manifest_entry list \<Rightarrow> manifest_entry list" where
  "sorted_entries entries = sort_key (\<lambda>e. (me_path e, me_kind e)) entries"

definition manifest_text :: "manifest_entry list \<Rightarrow> string" where
  "manifest_text entries =
     utf8_encode (''v'' @ nat_str SNAPSHOT_MANIFEST_VERSION @ [NUL])
     @ concat (map (\<lambda>e. utf8_encode (entry_text e)) (sorted_entries entries))"

definition manifest_digest :: "(string \<Rightarrow> string) \<Rightarrow> manifest_entry list \<Rightarrow> string" where
  "manifest_digest sha256 entries = sha256 (manifest_text entries)"

section \<open>What the texts determine\<close>

lemma utf8_encode_inject [simp]: "utf8_encode s = utf8_encode t \<longleftrightarrow> s = t"
proof
  assume "utf8_encode s = utf8_encode t"
  then have "utf8_decode (utf8_encode s) = utf8_decode (utf8_encode t)" by (rule arg_cong)
  then show "s = t" by simp
qed simp

lemma utf8_encode_append: "utf8_encode (s @ t) = utf8_encode s @ utf8_encode t"
  by (induction s) (simp_all add: Let_def)

lemma utf8_encode_NUL_char [simp]: "utf8_encode (NUL # s) = NUL # utf8_encode s"
  by (simp add: NUL_def)

declare utf8_encode.simps(2) [simp del]

lemma terminate_z_inject:
  assumes "terminate_z xs = terminate_z ys" "list_all (\<lambda>p. NUL \<notin> set p) xs" "list_all (\<lambda>p. NUL \<notin> set p) ys"
  shows "xs = ys"
proof -
  have "split_z (terminate_z xs) = split_z (terminate_z ys)" by (simp only: assms(1))
  then show ?thesis by (simp only: split_z_terminate [OF assms(2)] split_z_terminate [OF assms(3)] sum.inject)
qed

lemma nat_str_digits: "c \<in> set (nat_str n) \<Longrightarrow> c \<noteq> NUL"
proof (induction n rule: nat_str.induct)
  case (1 n)
  have d: "char_of (48 + k) \<noteq> NUL" if "k < 10" for k :: nat
  proof
    assume "char_of (48 + k) = NUL"
    then have "of_char (char_of (48 + k) :: char) = (of_char NUL :: nat)" by simp
    then show False using that by (simp add: of_char_of NUL_def)
  qed
  show ?case
  proof (cases "n < 10")
    case True
    then show ?thesis using 1(2) d [of n] by (simp add: nat_str.simps [of n])
  next
    case False
    then show ?thesis using 1 d [of "n mod 10"] by (auto simp: nat_str.simps [of n])
  qed
qed

text \<open>The fields of a file and of an entry, and texts whose fields hold no NUL.\<close>

definition file_fields :: "string \<times> string \<Rightarrow> string list" where
  "file_fields f = [utf8_encode (fst f), snd f]"

definition entry_fields :: "manifest_entry \<Rightarrow> string list" where
  "entry_fields e = map utf8_encode [me_kind e, me_path e, nat_str (me_size e), me_sha256 e, nat_str (me_mode e)]"

definition plain_file :: "string \<times> string \<Rightarrow> bool" where
  "plain_file f \<longleftrightarrow> NUL \<notin> set (fst f) \<and> NUL \<notin> set (snd f)"

definition plain_entry :: "manifest_entry \<Rightarrow> bool" where
  "plain_entry e \<longleftrightarrow> NUL \<notin> set (me_kind e) \<and> NUL \<notin> set (me_path e) \<and> NUL \<notin> set (me_sha256 e)"

lemma records_inject:
  assumes "concat (map f xs) = concat (map f ys)" "\<And>x. length (f x) = Suc n" "inj f"
  shows "xs = ys"
proof -
  have "length (concat (map f zs)) = length zs * Suc n" for zs
    by (induction zs) (simp_all add: assms(2))
  then have "length xs = length ys" using assms(1) by (metis nat_mult_eq_cancel1 mult.commute zero_less_Suc)
  then have "map f xs = map f ys"
    by (intro concat_injective [OF assms(1)]) (auto simp: assms(2) set_zip)
  then show ?thesis using assms(3) by simp
qed

lemma hashed_files:
  "fold_res hash_file fs acc = Inr s \<longleftrightarrow>
     (\<forall>f \<in> set fs. length (snd f) \<le> PACK_FILE_BYTES) \<and> s = acc @ terminate_z (concat (map file_fields fs))"
proof (induction fs arbitrary: acc)
  case (Cons f fs)
  have "hash_file f acc =
      (if length (snd f) \<le> PACK_FILE_BYTES then Inr (acc @ terminate_z (file_fields f)) else Inl InputTooLarge)"
    by (auto simp: hash_file_def read_bytes_bounded_def file_fields_def terminate_z_def)
  then show ?case using Cons by (auto simp: terminate_z_def)
qed (auto simp: terminate_z_def)

lemma pack_checksum_Inr:
  "pack_checksum sha256 files = Inr h \<longleftrightarrow>
     (\<forall>f \<in> set (content_files files). length (snd f) \<le> PACK_FILE_BYTES)
     \<and> h = sha256 (terminate_z (concat (map file_fields (content_files files))))"
  by (auto simp: pack_checksum_def res_simps hashed_files)

lemma plain_files_fields:
  "list_all plain_file fs \<Longrightarrow> list_all (\<lambda>p. NUL \<notin> set p) (concat (map file_fields fs))"
  by (induction fs) (auto simp: file_fields_def plain_file_def utf8_encode_NUL)

lemma file_fields_inj: "inj file_fields"
  by (rule injI) (auto simp: file_fields_def prod_eq_iff)

lemma entry_fields_inj: "inj entry_fields"
  by (rule injI) (auto simp: entry_fields_def)

lemma manifest_text_fields:
  "manifest_text es =
     terminate_z ((''v'' @ nat_str SNAPSHOT_MANIFEST_VERSION) # concat (map entry_fields (sorted_entries es)))"
proof -
  have "concat (map (\<lambda>e. utf8_encode (entry_text e)) xs) = terminate_z (concat (map entry_fields xs))" for xs
    by (induction xs) (simp_all add: entry_text_def entry_fields_def terminate_z_def utf8_encode_append)
  moreover have "utf8_encode (''v'' @ nat_str SNAPSHOT_MANIFEST_VERSION @ [NUL]) = (''v'' @ nat_str SNAPSHOT_MANIFEST_VERSION) @ [NUL]"
    by code_simp
  ultimately show ?thesis by (simp add: manifest_text_def terminate_z_def)
qed

lemma plain_entries_fields:
  assumes "list_all plain_entry es"
  shows "list_all (\<lambda>p. NUL \<notin> set p) ((''v'' @ nat_str SNAPSHOT_MANIFEST_VERSION) # concat (map entry_fields (sorted_entries es)))"
proof -
  have "list_all plain_entry (sorted_entries es)" using assms by (simp add: sorted_entries_def list_all_iff)
  then have "list_all (\<lambda>p. NUL \<notin> set p) (concat (map entry_fields (sorted_entries es)))"
    by (induction "sorted_entries es") (auto simp: list_all_iff entry_fields_def plain_entry_def utf8_encode_NUL dest: nat_str_digits)
  then show ?thesis using nat_str_digits by (auto simp: NUL_def)
qed

lemma manifest_text_inject:
  assumes "manifest_text a = manifest_text b" "list_all plain_entry a" "list_all plain_entry b"
  shows "sorted_entries a = sorted_entries b"
proof -
  have "concat (map entry_fields (sorted_entries a)) = concat (map entry_fields (sorted_entries b))"
    using terminate_z_inject [OF assms(1) [unfolded manifest_text_fields] plain_entries_fields plain_entries_fields] assms(2,3)
    by simp
  then show ?thesis by (rule records_inject [of entry_fields _ _ 4]) (auto simp: entry_fields_def entry_fields_inj)
qed

lemma collision_freeD:
  "collision_free sha256 T \<Longrightarrow> sha256 s = sha256 t \<Longrightarrow> s \<in> T \<Longrightarrow> t \<in> T \<Longrightarrow> s = t"
  by (auto simp: collision_free_def inj_on_def)

section \<open>What a pinned digest pins\<close>

definition pack_text :: "pack_files \<Rightarrow> string" where
  "pack_text files = terminate_z (concat (map file_fields (content_files files)))"

definition one_file_pack :: pack_files where
  "one_file_pack = [(''a'', ''x'' @ [NUL] @ ''b'' @ [NUL] @ ''y'')]"

definition two_file_pack :: pack_files where
  "two_file_pack = [(''b'', ''y''), (''a'', ''x'')]"

lemma plain_content: "list_all plain_file files \<Longrightarrow> list_all plain_file (content_files files)"
  by (auto simp: content_files_def list_all_iff)

lemma ambiguous_packs:
  "content_files one_file_pack \<noteq> content_files two_file_pack"
  "pack_checksum sha256 one_file_pack = Inr (sha256 (pack_text one_file_pack))"
  "pack_checksum sha256 two_file_pack = Inr (sha256 (pack_text two_file_pack))"
  "pack_text one_file_pack = pack_text two_file_pack"
proof -
  show "content_files one_file_pack \<noteq> content_files two_file_pack"
    "pack_text one_file_pack = pack_text two_file_pack" by code_simp+
  have "content_files one_file_pack = one_file_pack" "content_files two_file_pack = rev two_file_pack" by code_simp+
  then have "\<forall>f \<in> set (content_files one_file_pack). length (snd f) \<le> PACK_FILE_BYTES"
    "\<forall>f \<in> set (content_files two_file_pack). length (snd f) \<le> PACK_FILE_BYTES"
    by (simp_all add: one_file_pack_def two_file_pack_def PACK_FILE_BYTES_def)
  then show "pack_checksum sha256 one_file_pack = Inr (sha256 (pack_text one_file_pack))"
    "pack_checksum sha256 two_file_pack = Inr (sha256 (pack_text two_file_pack))"
    by (simp_all add: pack_checksum_Inr pack_text_def)
qed

text \<open>
  Packs without NUL bytes that have the same public checksum are the same pack but for the root checksum file, when the
  hash does not collide on the two texts; the order in which the files are found plays no part. With NUL bytes the text is
  ambiguous: whatever the hash, a pack of one file has the checksum of a pack of two files.
\<close>

theorem pack_checksum_pins:
  assumes "pack_checksum sha256 a = Inr h" "pack_checksum sha256 b = Inr h"
    "list_all plain_file (a @ b)" "collision_free sha256 {pack_text a, pack_text b}"
  shows "content_files a = content_files b
     \<and> (\<forall>digest. pack_checksum digest one_file_pack = pack_checksum digest two_file_pack
          \<and> content_files one_file_pack \<noteq> content_files two_file_pack)"
proof -
  have "sha256 (pack_text a) = sha256 (pack_text b)"
    using assms(1,2) by (simp add: pack_checksum_Inr pack_text_def)
  then have "pack_text a = pack_text b" by (rule collision_freeD [OF assms(4)]) simp_all
  then have "concat (map file_fields (content_files a)) = concat (map file_fields (content_files b))"
    using terminate_z_inject plain_files_fields plain_content assms(3) by (simp add: pack_text_def)
  then have "content_files a = content_files b"
    by (rule records_inject [of file_fields _ _ 1]) (auto simp: file_fields_def file_fields_inj)
  then show ?thesis using ambiguous_packs by simp
qed

theorem pack_checksum_pins_witness:
  "content_files [(''x/b'', ''2''), (''pack.sha256'', ''old''), (''x/a'', ''1'')]
     = content_files [(''x/a'', ''1''), (''x/b'', ''2'')]"
proof -
  let ?a = "[(''x/b'', ''2''), (''pack.sha256'', ''old''), (''x/a'', ''1'')] :: pack_files"
  let ?b = "[(''x/a'', ''1''), (''x/b'', ''2'')] :: pack_files"
  have texts: "pack_text ?a = pack_text ?b" "list_all plain_file (?a @ ?b)" by code_simp+
  have "content_files ?a = ?b" "content_files ?b = ?b" by code_simp+
  then have "\<forall>f \<in> set (content_files ?a). length (snd f) \<le> PACK_FILE_BYTES"
    "\<forall>f \<in> set (content_files ?b). length (snd f) \<le> PACK_FILE_BYTES"
    by (simp_all add: PACK_FILE_BYTES_def)
  then have "pack_checksum (\<lambda>s. s) ?a = Inr (pack_text ?a)" "pack_checksum (\<lambda>s. s) ?b = Inr (pack_text ?a)"
    using texts by (simp_all add: pack_checksum_Inr flip: pack_text_def)
  from pack_checksum_pins [OF this texts(2)] show ?thesis by (simp add: collision_free_def)
qed

lemma same_entries_digest:
  assumes "distinct (map me_path a)" "mset a = mset b"
  shows "manifest_digest sha256 a = manifest_digest sha256 b"
proof -
  have "inj_on (\<lambda>e. (me_path e, me_kind e)) (set a)"
    using assms(1) by (auto simp: distinct_map intro: inj_onI dest: inj_onD)
  then have "sorted_entries a = sorted_entries b"
    unfolding sorted_entries_def by (intro sort_key_inj_key_eq) (simp_all add: assms(2))
  then show ?thesis by (simp only: manifest_digest_def manifest_text_def)
qed

text \<open>
  The manifest digest determines the manifest: two manifests with one entry for each path have the same digest exactly
  when they hold the same entries, in whatever order, so a change of any kind, path, size, content hash or mode,
  and any added or removed file or directory, changes the digest.
\<close>

theorem manifest_digest_exact:
  assumes "list_all plain_entry (a @ b)" "distinct (map me_path a)"
    "collision_free sha256 {manifest_text a, manifest_text b}"
  shows "manifest_digest sha256 a = manifest_digest sha256 b \<longleftrightarrow> mset a = mset b"
proof
  assume "manifest_digest sha256 a = manifest_digest sha256 b"
  then have "sha256 (manifest_text a) = sha256 (manifest_text b)" by (simp only: manifest_digest_def)
  then have "manifest_text a = manifest_text b" by (rule collision_freeD [OF assms(3)]) simp_all
  moreover have "list_all plain_entry a" "list_all plain_entry b" using assms(1) by simp_all
  ultimately have "sorted_entries a = sorted_entries b" by (rule manifest_text_inject)
  then have "mset (sorted_entries a) = mset (sorted_entries b)" by simp
  then show "mset a = mset b" by (simp add: sorted_entries_def)
next
  assume "mset a = mset b"
  then show "manifest_digest sha256 a = manifest_digest sha256 b" by (rule same_entries_digest [OF assms(2)])
qed

definition sample_entry :: "string \<Rightarrow> nat \<Rightarrow> manifest_entry" where
  "sample_entry path mode =
     \<lparr>me_kind = ''file'', me_path = path, me_size = 3, me_sha256 = ''ab'', me_mode = mode\<rparr>"

theorem manifest_digest_exact_witness:
  "manifest_digest (\<lambda>s. s) [sample_entry ''p'' 420, sample_entry ''q'' 420]
     = manifest_digest (\<lambda>s. s) [sample_entry ''q'' 420, sample_entry ''p'' 420]
   \<and> manifest_digest (\<lambda>s. s) [sample_entry ''p'' 420] \<noteq> manifest_digest (\<lambda>s. s) [sample_entry ''p'' 493]"
proof -
  have "list_all plain_entry ([sample_entry ''p'' 420, sample_entry ''q'' 420] @ [sample_entry ''q'' 420, sample_entry ''p'' 420])"
    "list_all plain_entry ([sample_entry ''p'' 420] @ [sample_entry ''p'' 493])"
    "distinct (map me_path [sample_entry ''p'' 420, sample_entry ''q'' 420])"
    "distinct (map me_path [sample_entry ''p'' 420])" by code_simp+
  then show ?thesis
    using manifest_digest_exact [of "[sample_entry ''p'' 420, sample_entry ''q'' 420]" _ "\<lambda>s. s"]
      manifest_digest_exact [of "[sample_entry ''p'' 420]" "[sample_entry ''p'' 493]" "\<lambda>s. s"]
    by (simp add: collision_free_def) (simp add: sample_entry_def)
qed

end
