(* ===== verification/Snapshot.thy ===== *)
theory Snapshot
  imports Pack_Hash
begin

text \<open>
  Snapshots of a pack, \<open>arena/benchmark/snapshot.py\<close>, on a platform with directory descriptors. The source can change at
  any time, so nothing is assumed to be the same twice: a walk is a function of what each system call returned to it (a
  \<open>seen\<close> entry: what the directory listed, what \<open>fstat\<close> of the opened descriptor and the reads gave). The private
  copy is what the file system reports back for it. SHA-256 and the normalised key of a path are parameters.
\<close>

section \<open>What the system calls return\<close>

datatype file_type = Regular | Directory | Symlink | Special_file

record stat_info =
  st_type :: file_type
  st_dev :: nat
  st_ino :: nat
  st_size :: nat
  st_mtime :: int
  st_nlink :: nat
  st_perm :: nat

type_synonym identity = "file_type \<times> nat \<times> nat \<times> nat \<times> int \<times> nat"

definition identity :: "stat_info \<Rightarrow> identity" where
  "identity i = (st_type i, st_dev i, st_ino i, st_size i, st_mtime i, st_nlink i)"

text \<open>An entry of a directory as it was found; its name, the \<open>stat\<close> of the listing, and what opening it gave.\<close>

datatype seen =
    Opened_dir (seen_name: string) (seen_info: stat_info) (opened_info: stat_info) (seen_children: "seen list")
  | Opened_file (seen_name: string) (seen_info: stat_info) (opened_info: stat_info) (seen_chunks: "string list")
      (seen_after: stat_info)
  | Not_opened (seen_name: string) (seen_info: stat_info)

text \<open>A read loop ends at the first empty chunk.\<close>

definition delivered :: "string list \<Rightarrow> string" where
  "delivered chunks = concat (takeWhile (\<lambda>c. c \<noteq> []) chunks)"

datatype snapshot_error =
    UnsupportedFilename | PathCollision string string | WriteFailed | TotalBytesExceeded
  | HardlinkFound string | UnsafeFileType | FileChanged string | DestinationWrong string | SymlinkFound
  | DirectoryCountExceeded | FileCountExceeded | EntryCountExceeded | PathTooDeep | TreeChanged
  | SnapshotChanged | SourceMissing | RootSymlink | SourceChangedBeforeWrite

text \<open>What escapes: a \<open>SnapshotError\<close>, an \<open>OSError\<close>, or an error of the bounded readers.\<close>

datatype failure = Snapshot_failure snapshot_error | OS_failure | Unreadable input_error

record stored_file =
  so_type :: file_type
  so_size :: nat
  so_mode :: nat
  so_chunks :: "string list"

text \<open>
  \<open>sw_write\<close> is what \<open>os.write\<close> accepts of a view; \<open>sw_stored\<close> what the destination reports for a path after
  bytes were written to it and a mode was set.
\<close>

record snapshot_world =
  sw_key :: "string \<Rightarrow> string"
  sw_encodable :: "string \<Rightarrow> bool"
  sw_sha256 :: "string \<Rightarrow> string"
  sw_write :: "string \<Rightarrow> nat"
  sw_stored :: "string \<Rightarrow> string \<Rightarrow> nat \<Rightarrow> stored_file"
  sw_dir_mode :: "string \<Rightarrow> nat"

section \<open>The walk\<close>

record walk_state =
  ws_entry_count :: nat
  ws_file_count :: nat
  ws_dir_count :: nat
  ws_total_bytes :: nat
  ws_normalized :: "(string \<times> string) list"

definition new_walk :: walk_state where
  "new_walk = \<lparr>ws_entry_count = 0, ws_file_count = 0, ws_dir_count = 0, ws_total_bytes = 0, ws_normalized = []\<rparr>"

abbreviation raise_snapshot :: "snapshot_error \<Rightarrow> (failure, 'a) res" where
  "raise_snapshot e \<equiv> Inl (Snapshot_failure e)"

definition register :: "snapshot_world \<Rightarrow> string \<Rightarrow> walk_state \<Rightarrow> (failure, walk_state) res" where
  "register w relative ws =
     (let key = sw_key w relative;
          ws' = ws\<lparr>ws_normalized := alist_put key relative (ws_normalized ws)\<rparr>
      in case map_of (ws_normalized ws) key of
           None \<Rightarrow> Inr ws'
         | Some existing \<Rightarrow>
             if existing \<noteq> relative then raise_snapshot (PathCollision existing relative) else Inr ws')"

definition classify_entry :: "snapshot_world \<Rightarrow> seen \<Rightarrow> walk_state \<Rightarrow> (failure, walk_state) res" where
  "classify_entry w e ws =
     (if \<not> sw_encodable w (seen_name e) then raise_snapshot UnsupportedFilename
      else case st_type (seen_info e) of
        Symlink \<Rightarrow> raise_snapshot SymlinkFound
      | Directory \<Rightarrow>
          let ws' = ws\<lparr>ws_dir_count := ws_dir_count ws + 1\<rparr> in
          if ws_dir_count ws' > SNAPSHOT_MAX_DIRS then raise_snapshot DirectoryCountExceeded else Inr ws'
      | Regular \<Rightarrow>
          let ws' = ws\<lparr>ws_file_count := ws_file_count ws + 1\<rparr> in
          if ws_file_count ws' > SNAPSHOT_MAX_FILES then raise_snapshot FileCountExceeded else Inr ws'
      | Special_file \<Rightarrow> raise_snapshot UnsafeFileType)"

definition enumerate_entry :: "snapshot_world \<Rightarrow> seen \<Rightarrow> walk_state \<Rightarrow> (failure, walk_state) res" where
  "enumerate_entry w e ws =
     (let ws' = ws\<lparr>ws_entry_count := ws_entry_count ws + 1\<rparr> in
      if ws_entry_count ws' > SNAPSHOT_MAX_ENTRIES then raise_snapshot EntryCountExceeded
      else classify_entry w e ws')"

definition enumerate_dir :: "snapshot_world \<Rightarrow> seen list \<Rightarrow> walk_state \<Rightarrow> (failure, seen list \<times> walk_state) res" where
  "enumerate_dir w es ws =
     and_then (fold_res (enumerate_entry w) es ws) (\<lambda>ws'. Inr (sort_key seen_name es, ws'))"

text \<open>What the two visitors of a walk do with a path, its entry and the state.\<close>

type_synonym 'v visitor = "string \<Rightarrow> seen \<Rightarrow> walk_state \<times> 'v \<Rightarrow> (failure, walk_state \<times> 'v) res"

definition same_directory :: "seen \<Rightarrow> bool" where
  "same_directory e \<longleftrightarrow>
     st_type (opened_info e) = Directory \<and> identity (opened_info e) = identity (seen_info e)"

function walk_fd ::
  "snapshot_world \<Rightarrow> 'v visitor \<Rightarrow> 'v visitor \<Rightarrow> nat \<Rightarrow> string \<Rightarrow> seen list \<Rightarrow> walk_state \<times> 'v
   \<Rightarrow> (failure, walk_state \<times> 'v) res" where
  "walk_fd w visit_file visit_dir depth path es st =
     (if depth > SNAPSHOT_MAX_DEPTH then raise_snapshot PathTooDeep
      else and_then (enumerate_dir w es (fst st)) (\<lambda>(children, ws).
        fold_res (\<lambda>e st.
          let relative = path @ seen_name e in
          and_then (register w relative (fst st)) (\<lambda>ws.
            if st_type (seen_info e) = Directory then
              and_then (visit_dir relative e (ws, snd st)) (\<lambda>st.
                case e of
                  Opened_dir _ _ _ sub \<Rightarrow>
                    if \<not> same_directory e then raise_snapshot TreeChanged
                    else walk_fd w visit_file visit_dir (depth + 1) (relative @ ''/'') sub st
                | _ \<Rightarrow> Inl OS_failure)
            else visit_file relative e (ws, snd st)))
          children (ws, snd st)))"
  by pat_completeness auto

termination
  by (relation "measure (\<lambda>(w, f, d, depth, path, es, st). Suc SNAPSHOT_MAX_DEPTH - depth)")
    (auto simp: SNAPSHOT_MAX_DEPTH_def)

declare walk_fd.simps [simp del]

text \<open>The root is opened like every directory below it.\<close>

record root_view =
  rv_opened :: "stat_info option"
  rv_entries :: "seen list"

definition secure_walk ::
  "snapshot_world \<Rightarrow> 'v visitor \<Rightarrow> 'v visitor \<Rightarrow> stat_info \<Rightarrow> root_view \<Rightarrow> walk_state \<times> 'v
   \<Rightarrow> (failure, walk_state \<times> 'v) res" where
  "secure_walk w visit_file visit_dir root_info rv st =
     (case rv_opened rv of
        None \<Rightarrow> Inl OS_failure
      | Some opened \<Rightarrow>
          if st_type opened \<noteq> Directory \<or> identity opened \<noteq> identity root_info then raise_snapshot TreeChanged
          else walk_fd w visit_file visit_dir 1 [] (rv_entries rv) st)"

section \<open>The source before and after\<close>

type_synonym identities = "(string \<times> identity) list"

definition note_identity :: "identities visitor" where
  "note_identity relative e st = Inr (fst st, alist_put relative (identity (seen_info e)) (snd st))"

definition source_identity :: "snapshot_world \<Rightarrow> stat_info \<Rightarrow> root_view \<Rightarrow> (failure, identities) res" where
  "source_identity w root_info rv =
     and_then (secure_walk w note_identity note_identity root_info rv (new_walk, [([], identity root_info)]))
       (\<lambda>st. Inr (snd st))"

text \<open>Two dictionaries are equal whatever the order of their keys.\<close>

definition same_identities :: "identities \<Rightarrow> identities \<Rightarrow> bool" where
  "same_identities a b \<longleftrightarrow> set a = set b"

definition assert_source_unchanged ::
  "snapshot_world \<Rightarrow> stat_info option \<Rightarrow> root_view \<Rightarrow> identities \<Rightarrow> (failure, unit) res" where
  "assert_source_unchanged w root_info rv before_copy =
     (case root_info of
        None \<Rightarrow> raise_snapshot TreeChanged
      | Some i \<Rightarrow>
          if st_type i \<noteq> Directory then raise_snapshot TreeChanged
          else and_then (source_identity w i rv) (\<lambda>after_copy.
            check (same_identities after_copy before_copy) (Snapshot_failure TreeChanged)))"

section \<open>Copying a file\<close>

function write_all :: "(string \<Rightarrow> nat) \<Rightarrow> string \<Rightarrow> (failure, string) res" where
  "write_all os_write view =
     (if view = [] then Inr []
      else if os_write view = 0 then raise_snapshot WriteFailed
      else and_then (write_all os_write (drop (os_write view) view)) (\<lambda>rest.
        Inr (take (os_write view) view @ rest)))"
  by pat_completeness auto

termination by (relation "measure (length \<circ> snd)") (auto simp: neq_Nil_conv)

declare write_all.simps [simp del]

record copying =
  cp_total :: nat
  cp_data :: string
  cp_written :: string

definition copy_chunk :: "snapshot_world \<Rightarrow> string \<Rightarrow> copying \<Rightarrow> (failure, copying) res" where
  "copy_chunk w chunk c =
     (if length (cp_data c) + length chunk > PACK_FILE_BYTES then raise_snapshot TotalBytesExceeded
      else if cp_total c + length chunk > SNAPSHOT_MAX_TOTAL_BYTES then raise_snapshot TotalBytesExceeded
      else and_then (write_all (sw_write w) chunk) (\<lambda>out.
        Inr \<lparr>cp_total = cp_total c + length chunk, cp_data = cp_data c @ chunk, cp_written = cp_written c @ out\<rparr>))"

definition hash_chunk :: "nat \<Rightarrow> string \<Rightarrow> string \<Rightarrow> (failure, string) res" where
  "hash_chunk limit chunk hashed =
     (if length hashed + length chunk > limit then raise_snapshot TotalBytesExceeded else Inr (hashed @ chunk))"

definition hash_fd :: "snapshot_world \<Rightarrow> nat \<Rightarrow> string list \<Rightarrow> (failure, nat \<times> string) res" where
  "hash_fd w limit chunks =
     and_then (fold_res (hash_chunk limit) (takeWhile (\<lambda>c. c \<noteq> []) chunks) []) (\<lambda>hashed.
       Inr (length hashed, sw_sha256 w hashed))"

text \<open>Permission bits: the owner may execute, or not.\<close>

definition mode_for :: "stat_info \<Rightarrow> nat" where
  "mode_for i = (if (st_perm i div 64) mod 2 = 1 then 493 else 420)"

definition verify_destination ::
  "snapshot_world \<Rightarrow> stored_file \<Rightarrow> nat \<Rightarrow> string \<Rightarrow> nat \<Rightarrow> string \<Rightarrow> (failure, unit) res" where
  "verify_destination w so wanted sha mode relative =
     (if so_type so \<noteq> Regular \<or> so_size so \<noteq> wanted \<or> so_mode so \<noteq> mode
      then raise_snapshot (DestinationWrong relative)
      else and_then (hash_fd w PACK_FILE_BYTES (so_chunks so)) (\<lambda>(read_size, read_sha).
        check (read_size = wanted \<and> read_sha = sha) (Snapshot_failure (DestinationWrong relative))))"

record copy_state =
  cs_inodes :: "(nat \<times> nat) list"
  cs_manifest :: "manifest_entry list"
  cs_files :: pack_files

definition file_key :: "stat_info \<Rightarrow> (nat \<times> nat) option" where
  "file_key i = (if st_dev i \<noteq> 0 \<and> st_ino i \<noteq> 0 then Some (st_dev i, st_ino i) else None)"

definition destination_taken :: "string \<Rightarrow> copy_state \<Rightarrow> bool" where
  "destination_taken relative cs \<longleftrightarrow> relative \<in> set (map me_path (cs_manifest cs))"

definition dir_entry :: "string \<Rightarrow> nat \<Rightarrow> manifest_entry" where
  "dir_entry relative mode = \<lparr>me_kind = ''dir'', me_path = relative, me_size = 0, me_sha256 = [], me_mode = mode\<rparr>"

definition file_entry :: "string \<Rightarrow> nat \<Rightarrow> string \<Rightarrow> nat \<Rightarrow> manifest_entry" where
  "file_entry relative n sha mode =
     \<lparr>me_kind = ''file'', me_path = relative, me_size = n, me_sha256 = sha, me_mode = mode\<rparr>"

text \<open>From the opened descriptor on; creating a file or directory that exists is refused by the system.\<close>

definition copy_opened :: "snapshot_world \<Rightarrow> string \<Rightarrow> seen \<Rightarrow> walk_state \<times> copy_state \<Rightarrow> (failure, walk_state \<times> copy_state) res" where
  "copy_opened w relative e = (\<lambda>(ws, cs).
     if st_type (opened_info e) \<noteq> Regular then raise_snapshot UnsafeFileType
     else if identity (opened_info e) \<noteq> identity (seen_info e) then raise_snapshot (FileChanged relative)
     else if destination_taken relative cs then Inl OS_failure
     else case e of
       Opened_file _ info opened chunks after_read \<Rightarrow>
         and_then (fold_res (copy_chunk w) (takeWhile (\<lambda>c. c \<noteq> []) chunks)
                     \<lparr>cp_total = ws_total_bytes ws, cp_data = [], cp_written = []\<rparr>) (\<lambda>c.
           let n = length (cp_data c); sha = sw_sha256 w (cp_data c); intended = mode_for opened;
               so = sw_stored w relative (cp_written c) intended
           in if identity opened \<noteq> identity after_read \<or> st_size opened \<noteq> n
              then raise_snapshot (FileChanged relative)
              else and_then (verify_destination w so n sha intended relative) (\<lambda>_.
                Inr (ws\<lparr>ws_total_bytes := cp_total c\<rparr>,
                     cs\<lparr>cs_manifest := cs_manifest cs @ [file_entry relative n sha (so_mode so)],
                        cs_files := cs_files cs @ [(relative, delivered (so_chunks so))]\<rparr>)))
     | _ \<Rightarrow> Inl OS_failure)"

definition copy_one_file :: "snapshot_world \<Rightarrow> copy_state visitor" where
  "copy_one_file w relative e = (\<lambda>(ws, cs).
     let found = file_key (seen_info e);
         cs' = (case found of None \<Rightarrow> cs | Some k \<Rightarrow> cs\<lparr>cs_inodes := k # cs_inodes cs\<rparr>)
     in if \<exists>k \<in> set (cs_inodes cs). found = Some k then raise_snapshot (HardlinkFound relative)
        else case e of
          Not_opened _ _ \<Rightarrow> Inl OS_failure
        | _ \<Rightarrow> copy_opened w relative e (ws, cs'))"

definition copy_dir :: "snapshot_world \<Rightarrow> copy_state visitor" where
  "copy_dir w relative e = (\<lambda>(ws, cs).
     if destination_taken relative cs then Inl OS_failure
     else Inr (ws, cs\<lparr>cs_manifest := cs_manifest cs @ [dir_entry relative (sw_dir_mode w relative)]\<rparr>))"

definition copy_source :: "snapshot_world \<Rightarrow> stat_info \<Rightarrow> root_view \<Rightarrow> (failure, walk_state \<times> copy_state) res" where
  "copy_source w root_info rv =
     secure_walk w (copy_one_file w) (copy_dir w) root_info rv
       (new_walk, \<lparr>cs_inodes = [], cs_manifest = [dir_entry [] 493], cs_files = []\<rparr>)"

section \<open>Sealing and verifying\<close>

record pack_snapshot =
  ps_checksum :: string
  ps_manifest_digest :: string
  ps_stored_checksum :: "string option"
  ps_manifest :: "manifest_entry list"
  ps_file_count :: nat
  ps_dir_count :: nat
  ps_total_bytes :: nat
  ps_files :: pack_files

definition scan_file :: "snapshot_world \<Rightarrow> manifest_entry list visitor" where
  "scan_file w relative e = (\<lambda>(ws, manifest).
     case e of
       Opened_file _ info _ chunks _ \<Rightarrow>
         and_then (hash_fd w PACK_FILE_BYTES chunks) (\<lambda>(n, sha).
           Inr (ws, manifest @ [file_entry relative n sha (st_perm info)]))
     | _ \<Rightarrow> Inl OS_failure)"

definition scan_dir :: "manifest_entry list visitor" where
  "scan_dir relative e = (\<lambda>(ws, manifest). Inr (ws, manifest @ [dir_entry relative (st_perm (seen_info e))]))"

definition scan_snapshot_manifest :: "snapshot_world \<Rightarrow> stat_info \<Rightarrow> root_view \<Rightarrow> (failure, manifest_entry list) res" where
  "scan_snapshot_manifest w root_info rv =
     and_then (secure_walk w (scan_file w) scan_dir root_info rv (new_walk, [dir_entry [] 493])) (\<lambda>st. Inr (snd st))"

definition read_error :: "(input_error, 'a) res \<Rightarrow> (failure, 'a) res" where
  "read_error r = (case r of Inl e \<Rightarrow> Inl (Unreadable e) | Inr x \<Rightarrow> Inr x)"

text \<open>The walk of the sealed tree and its files when they are read again.\<close>

definition verify_snapshot ::
  "snapshot_world \<Rightarrow> pack_snapshot \<Rightarrow> stat_info \<Rightarrow> root_view \<Rightarrow> pack_files \<Rightarrow> (failure, unit) res" where
  "verify_snapshot w ps root_info rv files =
     (case scan_snapshot_manifest w root_info rv of
        Inl (Snapshot_failure _) \<Rightarrow> raise_snapshot SnapshotChanged
      | Inl e \<Rightarrow> Inl e
      | Inr rebuilt \<Rightarrow>
          if manifest_digest (sw_sha256 w) rebuilt \<noteq> ps_manifest_digest ps then raise_snapshot SnapshotChanged
          else and_then (read_error (pack_checksum (sw_sha256 w) files)) (\<lambda>checksum.
            check (checksum = ps_checksum ps) (Snapshot_failure SnapshotChanged)))"

text \<open>The three walks of the source, and the two times its root is looked at.\<close>

record source_view =
  sv_root :: "stat_info option"
  sv_before :: root_view
  sv_copy :: root_view
  sv_root_after :: "stat_info option"
  sv_after :: root_view

definition seal :: "snapshot_world \<Rightarrow> text_codec \<Rightarrow> walk_state \<Rightarrow> copy_state \<Rightarrow> (failure, pack_snapshot) res" where
  "seal w tc ws cs =
     (if length (cs_manifest cs) > SNAPSHOT_MANIFEST_ENTRIES then raise_snapshot FileCountExceeded
      else and_then (read_error (pack_checksum (sw_sha256 w) (cs_files cs))) (\<lambda>checksum.
        and_then (read_error (stored_checksum tc (cs_files cs))) (\<lambda>stored.
          Inr \<lparr>ps_checksum = checksum, ps_manifest_digest = manifest_digest (sw_sha256 w) (cs_manifest cs),
               ps_stored_checksum = stored, ps_manifest = cs_manifest cs,
               ps_file_count = ws_file_count ws, ps_dir_count = ws_dir_count ws,
               ps_total_bytes = ws_total_bytes ws, ps_files = cs_files cs\<rparr>)))"

definition snapshot_pack :: "snapshot_world \<Rightarrow> text_codec \<Rightarrow> source_view \<Rightarrow> (failure, pack_snapshot) res" where
  "snapshot_pack w tc sv =
     (case sv_root sv of
        None \<Rightarrow> raise_snapshot SourceMissing
      | Some i \<Rightarrow>
          if st_type i = Symlink then raise_snapshot RootSymlink
          else if st_type i \<noteq> Directory then raise_snapshot UnsafeFileType
          else and_then (source_identity w i (sv_before sv)) (\<lambda>identity_before.
            and_then (copy_source w i (sv_copy sv)) (\<lambda>(ws, cs).
              and_then (assert_source_unchanged w (sv_root_after sv) (sv_after sv) identity_before) (\<lambda>_.
                seal w tc ws cs))))"

section \<open>A walk in one list\<close>

text \<open>The entries below a directory in the order of the walk, with their relative paths.\<close>

definition is_dir_entry :: "seen \<Rightarrow> bool" where
  "is_dir_entry e \<longleftrightarrow> st_type (seen_info e) = Directory"

definition is_file_entry :: "seen \<Rightarrow> bool" where
  "is_file_entry e \<longleftrightarrow> st_type (seen_info e) = Regular"

fun sub_entries :: "seen \<Rightarrow> seen list" where
  "sub_entries (Opened_dir n i opened sub) = sub"
| "sub_entries _ = []"

text \<open>The longest chain of directories from an entry down, and below a directory that counts itself.\<close>

fun chain :: "seen \<Rightarrow> nat" where
  "chain (Opened_dir _ i _ sub) = (if st_type i = Directory then Suc (foldr max (map chain sub) 0) else 0)"
| "chain _ = 0"

definition tree_depth :: "seen list \<Rightarrow> nat" where
  "tree_depth es = Suc (foldr max (map chain es) 0)"

lemma tree_depth_le: "tree_depth es \<le> Suc n \<longleftrightarrow> (\<forall>e \<in> set es. chain e \<le> n)"
  by (induction es) (auto simp: tree_depth_def)

lemma chain_le: "chain e \<le> (if is_dir_entry e then tree_depth (sub_entries e) else 0)"
  by (cases e) (auto simp: tree_depth_def is_dir_entry_def)

lemma fold_res_each:
  assumes "fold_res f xs s = Inr t" "x \<in> set xs"
  obtains a b where "f x a = Inr b"
  using assms by (induction xs arbitrary: s) (auto simp: res_simps)

lemma sub_entries_size [termination_simp]:
  "e \<in> set es \<Longrightarrow> size_list size (sub_entries e) < size_list size es"
proof (induction es)
  case (Cons x es)
  have "size_list size (sub_entries x) \<le> size x" by (cases x) auto
  then show ?case using Cons by auto
qed simp

function walked :: "string \<Rightarrow> seen list \<Rightarrow> (string \<times> seen) list" where
  "walked path es =
     concat (map (\<lambda>e. (path @ seen_name e, e)
       # (if is_dir_entry e then walked (path @ seen_name e @ ''/'') (sub_entries e) else []))
       (sort_key seen_name es))"
  by pat_completeness auto

termination
  by (relation "measure (\<lambda>(path, es). size_list size es)") (auto intro: sub_entries_size)

declare walked.simps [simp del]

definition walked_below :: "string \<Rightarrow> seen \<Rightarrow> (string \<times> seen) list" where
  "walked_below path e = (if is_dir_entry e then walked (path @ seen_name e @ ''/'') (sub_entries e) else [])"

lemma walked_unfold:
  "walked path es = concat (map (\<lambda>e. (path @ seen_name e, e) # walked_below path e) (sort_key seen_name es))"
  by (simp only: walked.simps [of path es] walked_below_def)

definition n_dirs :: "(string \<times> seen) list \<Rightarrow> nat" where
  "n_dirs xs = length (filter (\<lambda>(_, e). is_dir_entry e) xs)"

definition n_files :: "(string \<times> seen) list \<Rightarrow> nat" where
  "n_files xs = length (filter (\<lambda>(_, e). is_file_entry e) xs)"

lemma n_dirs_simps [simp]:
  "n_dirs [] = 0" "n_dirs (x # xs) = (if is_dir_entry (snd x) then 1 else 0) + n_dirs xs"
  "n_dirs (xs @ ys) = n_dirs xs + n_dirs ys"
  by (auto simp: n_dirs_def)

lemma n_files_simps [simp]:
  "n_files [] = 0" "n_files (x # xs) = (if is_file_entry (snd x) then 1 else 0) + n_files xs"
  "n_files (xs @ ys) = n_files xs + n_files ys"
  by (auto simp: n_files_def)

text \<open>A state with the counters of another one.\<close>

definition with_counts :: "walk_state \<Rightarrow> walk_state \<Rightarrow> walk_state" where
  "with_counts counted ws =
     ws\<lparr>ws_entry_count := ws_entry_count counted, ws_file_count := ws_file_count counted,
        ws_dir_count := ws_dir_count counted\<rparr>"

lemma with_counts_simps [simp]:
  "with_counts ws ws = ws" "with_counts a (with_counts b ws) = with_counts a ws"
  "ws_entry_count (with_counts a ws) = ws_entry_count a" "ws_file_count (with_counts a ws) = ws_file_count a"
  "ws_dir_count (with_counts a ws) = ws_dir_count a" "ws_total_bytes (with_counts a ws) = ws_total_bytes ws"
  "ws_normalized (with_counts a ws) = ws_normalized ws"
  "with_counts (with_counts a b) ws = with_counts a ws"
  "(with_counts a ws)\<lparr>ws_normalized := n\<rparr> = with_counts a (ws\<lparr>ws_normalized := n\<rparr>)"
  "(with_counts a ws)\<lparr>ws_total_bytes := b'\<rparr> = with_counts a (ws\<lparr>ws_total_bytes := b'\<rparr>)"
  by (simp_all add: with_counts_def)

definition counted :: "walk_state \<Rightarrow> nat \<Rightarrow> nat \<Rightarrow> walk_state \<Rightarrow> bool" where
  "counted ws f d ws' \<longleftrightarrow>
     ws_file_count ws' = ws_file_count ws + f \<and> ws_dir_count ws' = ws_dir_count ws + d
     \<and> (ws_file_count ws \<le> SNAPSHOT_MAX_FILES \<longrightarrow> ws_file_count ws' \<le> SNAPSHOT_MAX_FILES)
     \<and> (ws_dir_count ws \<le> SNAPSHOT_MAX_DIRS \<longrightarrow> ws_dir_count ws' \<le> SNAPSHOT_MAX_DIRS)"

lemma counted_trans: "counted a f d b \<Longrightarrow> counted b f' d' c \<Longrightarrow> counted a (f + f') (d + d') c"
  by (auto simp: counted_def)

definition listed_ok :: "snapshot_world \<Rightarrow> seen \<Rightarrow> bool" where
  "listed_ok w e \<longleftrightarrow> sw_encodable w (seen_name e) \<and> (is_dir_entry e \<or> is_file_entry e)"

lemma enumerate_entry_Inr:
  assumes "enumerate_entry w e ws = Inr ws'"
  shows "listed_ok w e \<and> with_counts ws ws' = ws
     \<and> counted ws (if is_file_entry e then 1 else 0) (if is_dir_entry e then 1 else 0) ws'"
  using assms
  by (cases "st_type (seen_info e)")
    (auto simp: enumerate_entry_def classify_entry_def Let_def listed_ok_def is_dir_entry_def is_file_entry_def
      counted_def with_counts_def split: if_splits)

lemma enumerate_entries_Inr:
  assumes "fold_res (enumerate_entry w) es ws = Inr ws'"
  shows "list_all (listed_ok w) es \<and> with_counts ws ws' = ws
     \<and> counted ws (length (filter is_file_entry es)) (length (filter is_dir_entry es)) ws'"
  using assms
proof (induction es arbitrary: ws)
  case (Cons e es)
  then obtain ws1 where one: "enumerate_entry w e ws = Inr ws1" and rest: "fold_res (enumerate_entry w) es ws1 = Inr ws'"
    by (auto simp: res_simps)
  note o = enumerate_entry_Inr [OF one] and r = Cons.IH [OF rest]
  have "with_counts ws ws' = with_counts ws (with_counts ws1 ws')" by simp
  then have "with_counts ws ws' = ws" using o r by (simp only:)
  moreover have "counted ws ((if is_file_entry e then 1 else 0) + length (filter is_file_entry es))
      ((if is_dir_entry e then 1 else 0) + length (filter is_dir_entry es)) ws'"
    using o r by (blast intro: counted_trans)
  then have "counted ws (length (filter is_file_entry (e # es))) (length (filter is_dir_entry (e # es))) ws'"
    by (simp split: if_split_asm)
  ultimately show ?case using conjunct1 [OF o] conjunct1 [OF r] by (simp only: list.pred_inject simp_thms)
qed (simp add: counted_def)

lemma length_filter_sort: "length (filter P (sort_key f xs)) = length (filter P xs)"
  by (metis mset_filter mset_sort size_mset)

lemma register_counts:
  "register w r (with_counts c ws) = (case register w r ws of Inl e \<Rightarrow> Inl e | Inr ws' \<Rightarrow> Inr (with_counts c ws'))"
  by (simp add: register_def Let_def split: option.split)

definition recount :: "walk_state \<Rightarrow> (failure, walk_state \<times> 'v) res \<Rightarrow> (failure, walk_state \<times> 'v) res" where
  "recount c r = (case r of Inl e \<Rightarrow> Inl e | Inr (ws, v) \<Rightarrow> Inr (with_counts c ws, v))"

lemma recount_simps [simp]: "recount c (Inl e) = Inl e" "recount c (Inr (ws, v)) = Inr (with_counts c ws, v)"
  by (simp_all add: recount_def)

definition visit_entry ::
  "snapshot_world \<Rightarrow> 'v visitor \<Rightarrow> 'v visitor \<Rightarrow> string \<times> seen \<Rightarrow> walk_state \<times> 'v \<Rightarrow> (failure, walk_state \<times> 'v) res" where
  "visit_entry w visit_file visit_dir = (\<lambda>(relative, e) (ws, v).
     and_then (register w relative ws) (\<lambda>ws.
       if is_dir_entry e then
         and_then (visit_dir relative e (ws, v)) (\<lambda>st.
           case e of
             Opened_dir _ _ _ sub \<Rightarrow> if \<not> same_directory e then raise_snapshot TreeChanged else Inr st
           | _ \<Rightarrow> Inl OS_failure)
       else visit_file relative e (ws, v)))"

section \<open>What every walk does\<close>

text \<open>
  A visitor leaves the counters of the walk alone: it does the same with any counters. The walk is then the counting of
  the entries and, apart from it, one pass of the visitors over the list of what was walked.
\<close>

locale pack_walk =
  fixes w :: snapshot_world and visit_file :: "'v visitor" and visit_dir :: "'v visitor"
  assumes file_counts: "visit_file r e (with_counts c ws, v) = recount c (visit_file r e (ws, v))"
    and dir_counts: "visit_dir r e (with_counts c ws, v) = recount c (visit_dir r e (ws, v))"
begin

abbreviation "visiting \<equiv> visit_entry w visit_file visit_dir"

lemma visiting_counts: "visiting x (with_counts c ws, v) = recount c (visiting x (ws, v))"
proof -
  obtain r e where x: "x = (r, e)" by (cases x)
  show ?thesis
  proof (cases "register w r ws")
    case (Inr ws')
    then show ?thesis
      by (cases "visit_dir r e (ws', v)"; cases e)
        (auto simp: x visit_entry_def register_counts file_counts dir_counts)
  qed (simp add: x visit_entry_def register_counts)
qed

lemma visited_counts: "visiting x (ws, v) = Inr (ws', v') \<Longrightarrow> with_counts ws ws' = ws'"
  using visiting_counts [of x ws ws v] by simp

lemma fold_visiting_counts:
  "fold_res visiting xs (with_counts c ws, v) = recount c (fold_res visiting xs (ws, v))"
proof (induction xs arbitrary: ws v)
  case (Cons x xs)
  then show ?case by (cases "visiting x (ws, v)") (auto simp: visiting_counts)
qed simp

definition walk_result :: "walk_state \<Rightarrow> 'v \<Rightarrow> (string \<times> seen) list \<Rightarrow> nat \<Rightarrow> nat \<Rightarrow> walk_state \<Rightarrow> 'v \<Rightarrow> bool" where
  "walk_result ws v xs f d ws' v' \<longleftrightarrow>
     fold_res visiting xs (ws, v) = Inr (with_counts ws ws', v') \<and> counted ws f d ws'"

lemma walk_result_append:
  assumes "walk_result ws v xs f d ws1 v1" "walk_result ws1 v1 ys f' d' ws2 v2"
  shows "walk_result ws v (xs @ ys) (f + f') (d + d') ws2 v2"
proof -
  have "fold_res visiting ys (with_counts ws ws1, v1) = Inr (with_counts ws ws2, v2)"
    using assms(2) by (simp add: walk_result_def fold_visiting_counts)
  then show ?thesis
    using assms by (auto simp: walk_result_def fold_res_append intro: counted_trans)
qed

lemma walk_result_counting:
  assumes "with_counts ws ws1 = ws" "counted ws f d ws1" "walk_result ws1 v xs f' d' ws2 v2"
  shows "walk_result ws v xs (f + f') (d + d') ws2 v2"
proof -
  have "fold_res visiting xs (with_counts ws ws1, v) = Inr (with_counts ws ws2, v2)"
    using assms(3) by (simp add: walk_result_def fold_visiting_counts)
  moreover have "counted ws (f + f') (d + d') ws2"
    using assms(2,3) by (auto simp: walk_result_def intro: counted_trans)
  ultimately show ?thesis using assms(1) by (simp add: walk_result_def)
qed

lemma walk_result_visit:
  assumes "visiting x (ws, v) = Inr (ws', v')"
  shows "walk_result ws v [x] 0 0 ws' v'"
proof -
  note c = visited_counts [OF assms]
  have "ws_file_count ws' = ws_file_count ws" "ws_dir_count ws' = ws_dir_count ws"
    using arg_cong [OF c, of ws_file_count] arg_cong [OF c, of ws_dir_count] by simp_all
  then show ?thesis using assms by (simp add: walk_result_def counted_def c)
qed

text \<open>One child: it is visited and then, when it is a directory, walked.\<close>

definition walk_child :: "nat \<Rightarrow> string \<Rightarrow> seen \<Rightarrow> walk_state \<times> 'v \<Rightarrow> (failure, walk_state \<times> 'v) res" where
  "walk_child depth path e st =
     (let relative = path @ seen_name e in
      and_then (register w relative (fst st)) (\<lambda>ws.
        if st_type (seen_info e) = Directory then
          and_then (visit_dir relative e (ws, snd st)) (\<lambda>st.
            case e of
              Opened_dir _ _ _ sub \<Rightarrow>
                if \<not> same_directory e then raise_snapshot TreeChanged
                else walk_fd w visit_file visit_dir (depth + 1) (relative @ ''/'') sub st
            | _ \<Rightarrow> Inl OS_failure)
        else visit_file relative e (ws, snd st)))"

lemma walk_child_Inr:
  assumes "walk_child depth path e (ws, v) = Inr (ws', v')"
  obtains (sub) ws1 v1 where "is_dir_entry e" "visiting (path @ seen_name e, e) (ws, v) = Inr (ws1, v1)"
      "walk_fd w visit_file visit_dir (Suc depth) (path @ seen_name e @ ''/'') (sub_entries e) (ws1, v1) = Inr (ws', v')"
    | (leaf) "\<not> is_dir_entry e" "visiting (path @ seen_name e, e) (ws, v) = Inr (ws', v')"
proof (cases "is_dir_entry e")
  case True
  then obtain ws1 v1 where "visiting (path @ seen_name e, e) (ws, v) = Inr (ws1, v1)"
      "walk_fd w visit_file visit_dir (Suc depth) (path @ seen_name e @ ''/'') (sub_entries e) (ws1, v1) = Inr (ws', v')"
    using assms by (cases e) (auto simp: walk_child_def visit_entry_def is_dir_entry_def Let_def res_simps)
  with True show thesis by (rule sub)
next
  case False
  then show thesis using assms by (intro leaf) (auto simp: walk_child_def visit_entry_def is_dir_entry_def Let_def)
qed

definition walk_ok :: "walk_state \<Rightarrow> 'v \<Rightarrow> (string \<times> seen) list \<Rightarrow> walk_state \<Rightarrow> 'v \<Rightarrow> bool" where
  "walk_ok ws v xs ws' v' \<longleftrightarrow> walk_result ws v xs (n_files xs) (n_dirs xs) ws' v' \<and> list_all (\<lambda>x. listed_ok w (snd x)) xs"

lemma walk_children_ok:
  assumes "fold_res (walk_child depth path) es (ws, v) = Inr (ws', v')"
    and sub: "\<And>e ws v ws' v'. walk_fd w visit_file visit_dir (Suc depth) (path @ seen_name e @ ''/'') (sub_entries e) (ws, v) = Inr (ws', v')
      \<Longrightarrow> walk_ok ws v (walked (path @ seen_name e @ ''/'') (sub_entries e)) ws' v'"
  shows "walk_result ws v (concat (map (\<lambda>e. (path @ seen_name e, e) # walked_below path e) es))
      (sum_list (map (\<lambda>e. n_files (walked_below path e)) es)) (sum_list (map (\<lambda>e. n_dirs (walked_below path e)) es)) ws' v'
    \<and> list_all (\<lambda>e. list_all (\<lambda>x. listed_ok w (snd x)) (walked_below path e)) es"
  using assms(1)
proof (induction es arbitrary: ws v)
  case (Cons e es)
  then obtain ws1 v1 where child: "walk_child depth path e (ws, v) = Inr (ws1, v1)"
    and rest: "fold_res (walk_child depth path) es (ws1, v1) = Inr (ws', v')" by (auto simp: res_simps)
  have "walk_result ws v ((path @ seen_name e, e) # walked_below path e)
        (n_files (walked_below path e)) (n_dirs (walked_below path e)) ws1 v1
      \<and> list_all (\<lambda>x. listed_ok w (snd x)) (walked_below path e)"
    using child
  proof (cases rule: walk_child_Inr)
    case (sub ws2 v2)
    then have "walk_ok ws2 v2 (walked_below path e) ws1 v1" using assms(2) by (simp add: walked_below_def)
    then show ?thesis using walk_result_append [OF walk_result_visit [OF sub(2)]] by (auto simp: walk_ok_def)
  next
    case leaf
    then show ?thesis using walk_result_visit [OF leaf(2)] by (simp add: walked_below_def)
  qed
  then show ?case using Cons.IH [OF rest] walk_result_append by fastforce
qed (simp add: walk_result_def counted_def)

lemma walked_counts:
  "n_files (concat (map (\<lambda>e. (path @ seen_name e, e) # walked_below path e) xs))
     = length (filter is_file_entry xs) + sum_list (map (\<lambda>e. n_files (walked_below path e)) xs)"
  "n_dirs (concat (map (\<lambda>e. (path @ seen_name e, e) # walked_below path e) xs))
     = length (filter is_dir_entry xs) + sum_list (map (\<lambda>e. n_dirs (walked_below path e)) xs)"
  by (induction xs) auto

lemma walk_fd_ok:
  assumes "walk_fd w visit_file visit_dir depth path es (ws, v) = Inr (ws', v')"
  shows "walk_ok ws v (walked path es) ws' v'"
  using assms
proof (induction "Suc SNAPSHOT_MAX_DEPTH - depth" arbitrary: depth path es ws v ws' v' rule: less_induct)
  case less
  let ?es = "sort_key seen_name es"
  obtain ws1 where depth: "depth \<le> SNAPSHOT_MAX_DEPTH" and listing: "fold_res (enumerate_entry w) es ws = Inr ws1"
    and children: "fold_res (walk_child depth path) ?es (ws1, v) = Inr (ws', v')"
    using less.prems
    by (subst (asm) walk_fd.simps) (auto simp: res_simps enumerate_dir_def walk_child_def [abs_def] split: if_split_asm)
  note l = enumerate_entries_Inr [OF listing]
  have "Suc SNAPSHOT_MAX_DEPTH - Suc depth < Suc SNAPSHOT_MAX_DEPTH - depth" using depth by simp
  note sub = less.hyps [OF this]
  have "walk_result ws1 v (walked path es) (sum_list (map (\<lambda>e. n_files (walked_below path e)) ?es))
      (sum_list (map (\<lambda>e. n_dirs (walked_below path e)) ?es)) ws' v'
    \<and> list_all (\<lambda>e. list_all (\<lambda>x. listed_ok w (snd x)) (walked_below path e)) ?es"
    using walk_children_ok [OF children sub] by (simp only: walked_unfold [of path es])
  moreover from this have "walk_result ws v (walked path es) (n_files (walked path es)) (n_dirs (walked path es)) ws' v'"
    using walk_result_counting [of ws ws1] l by (simp add: walked_unfold walked_counts length_filter_sort)
  ultimately show ?case using l by (auto simp: walk_ok_def walked_unfold list_all_iff)
qed

lemma walk_fd_depth:
  assumes "walk_fd w visit_file visit_dir depth path es (ws, v) = Inr (ws', v')"
  shows "depth + tree_depth es \<le> Suc SNAPSHOT_MAX_DEPTH"
  using assms
proof (induction "Suc SNAPSHOT_MAX_DEPTH - depth" arbitrary: depth path es ws v ws' v' rule: less_induct)
  case less
  obtain ws1 where depth: "depth \<le> SNAPSHOT_MAX_DEPTH"
    and children: "fold_res (walk_child depth path) (sort_key seen_name es) (ws1, v) = Inr (ws', v')"
    using less.prems
    by (subst (asm) walk_fd.simps) (auto simp: res_simps enumerate_dir_def walk_child_def [abs_def] split: if_split_asm)
  have "Suc SNAPSHOT_MAX_DEPTH - Suc depth < Suc SNAPSHOT_MAX_DEPTH - depth" using depth by simp
  note deeper = less.hyps [OF this]
  have "chain e \<le> SNAPSHOT_MAX_DEPTH - depth" if "e \<in> set es" for e
  proof -
    have "e \<in> set (sort_key seen_name es)" using that by simp
    then obtain s t where "walk_child depth path e s = Inr t" by (rule fold_res_each [OF children])
    then have "walk_child depth path e (fst s, snd s) = Inr (fst t, snd t)" by simp
    then have "(if is_dir_entry e then tree_depth (sub_entries e) else 0) \<le> SNAPSHOT_MAX_DEPTH - depth"
    proof (cases rule: walk_child_Inr)
      case (sub ws2 v2)
      then show ?thesis using deeper [OF sub(3)] by simp
    qed simp
    then show ?thesis using chain_le [of e] by (rule order_trans [rotated])
  qed
  then have "tree_depth es \<le> Suc (SNAPSHOT_MAX_DEPTH - depth)" by (simp add: tree_depth_le)
  then show ?case using depth by simp
qed

lemma secure_walk_ok:
  assumes "secure_walk w visit_file visit_dir i rv (ws, v) = Inr (ws', v')"
  shows "walk_ok ws v (walked [] (rv_entries rv)) ws' v'"
  using assms by (auto simp: secure_walk_def split: option.split_asm if_split_asm intro: walk_fd_ok)

lemma secure_walk_depth:
  assumes "secure_walk w visit_file visit_dir i rv (ws, v) = Inr (ws', v')"
  shows "tree_depth (rv_entries rv) \<le> SNAPSHOT_MAX_DEPTH"
  using assms by (auto simp: secure_walk_def split: option.split_asm if_split_asm dest!: walk_fd_depth)

end

section \<open>The three walks\<close>

lemma note_identity_counts: "note_identity r e (with_counts c ws, v) = recount c (note_identity r e (ws, v))"
  by (simp add: note_identity_def)

lemma copy_opened_counts: "copy_opened w r e (with_counts c ws, cs) = recount c (copy_opened w r e (ws, cs))"
proof (cases e)
  case (Opened_file n i opened chunks after_read)
  let ?start = "\<lparr>cp_total = ws_total_bytes ws, cp_data = [], cp_written = []\<rparr>"
  show ?thesis
    by (cases "fold_res (copy_chunk w) (takeWhile (\<lambda>c. c \<noteq> []) chunks) ?start")
      (auto simp: Opened_file copy_opened_def Let_def and_then_def split: sum.split)
qed (simp_all add: copy_opened_def)

lemma copy_one_file_counts: "copy_one_file w r e (with_counts c ws, cs) = recount c (copy_one_file w r e (ws, cs))"
  by (cases e) (simp_all add: copy_one_file_def Let_def copy_opened_counts)

lemma copy_dir_counts: "copy_dir w r e (with_counts c ws, cs) = recount c (copy_dir w r e (ws, cs))"
  by (simp add: copy_dir_def)

lemma scan_file_counts: "scan_file w r e (with_counts c ws, m) = recount c (scan_file w r e (ws, m))"
  by (cases e) (auto simp: scan_file_def and_then_def split: sum.split)

lemma scan_dir_counts: "scan_dir r e (with_counts c ws, m) = recount c (scan_dir r e (ws, m))"
  by (simp add: scan_dir_def)

interpretation identity_walk: pack_walk w note_identity note_identity for w
  by unfold_locales (rule note_identity_counts)+

interpretation copy_walk: pack_walk w "copy_one_file w" "copy_dir w" for w
  by unfold_locales (rule copy_one_file_counts, rule copy_dir_counts)

interpretation scan_walk: pack_walk w "scan_file w" scan_dir for w
  by unfold_locales (rule scan_file_counts, rule scan_dir_counts)

section \<open>What was copied\<close>

lemma write_all_Inr: "write_all os_write view = Inr out \<Longrightarrow> out = view"
proof (induction os_write view arbitrary: out rule: write_all.induct)
  case (1 os_write view)
  show ?case
  proof (cases "view = []")
    case False
    then obtain rest where "os_write view \<noteq> 0" "write_all os_write (drop (os_write view) view) = Inr rest"
      "out = take (os_write view) view @ rest"
      using 1(2) by (subst (asm) write_all.simps) (auto simp: res_simps)
    then show ?thesis using 1(1) False by fastforce
  qed (use 1(2) in \<open>simp add: write_all.simps\<close>)
qed

lemma copy_chunks_Inr:
  assumes "fold_res (copy_chunk w) chunks c = Inr c'"
  shows "c' = \<lparr>cp_total = cp_total c + length (concat chunks), cp_data = cp_data c @ concat chunks,
       cp_written = cp_written c @ concat chunks\<rparr>
     \<and> (length (cp_data c) \<le> PACK_FILE_BYTES \<longrightarrow> length (cp_data c') \<le> PACK_FILE_BYTES)
     \<and> (cp_total c \<le> SNAPSHOT_MAX_TOTAL_BYTES \<longrightarrow> cp_total c' \<le> SNAPSHOT_MAX_TOTAL_BYTES)"
  using assms
proof (induction chunks arbitrary: c)
  case (Cons x xs)
  then obtain c1 where one: "copy_chunk w x c = Inr c1" and rest: "fold_res (copy_chunk w) xs c1 = Inr c'"
    by (auto simp: res_simps)
  have "c1 = \<lparr>cp_total = cp_total c + length x, cp_data = cp_data c @ x, cp_written = cp_written c @ x\<rparr>
      \<and> length (cp_data c1) \<le> PACK_FILE_BYTES \<and> cp_total c1 \<le> SNAPSHOT_MAX_TOTAL_BYTES"
    using one by (auto simp: copy_chunk_def res_simps dest: write_all_Inr split: if_split_asm)
  then show ?case using Cons.IH [OF rest] by (auto simp: add.assoc)
qed simp

lemma hash_chunks:
  "fold_res (hash_chunk limit) chunks hashed = Inr h \<longleftrightarrow>
     h = hashed @ concat chunks \<and> (chunks \<noteq> [] \<longrightarrow> length h \<le> limit)"
proof (induction chunks arbitrary: hashed)
  case (Cons c cs)
  show ?case
  proof (cases "length hashed + length c \<le> limit")
    case True
    then have "hash_chunk limit c hashed = Inr (hashed @ c)" by (simp add: hash_chunk_def)
    then show ?thesis using True Cons [of "hashed @ c"] by (cases "cs = []") auto
  next
    case False
    then have "hash_chunk limit c hashed = raise_snapshot TotalBytesExceeded" by (simp add: hash_chunk_def)
    then show ?thesis using False by auto
  qed
qed auto

lemma hash_fd_Inr:
  "hash_fd w limit chunks = Inr (n, h) \<longleftrightarrow>
     length (delivered chunks) \<le> limit \<and> n = length (delivered chunks) \<and> h = sw_sha256 w (delivered chunks)"
  by (auto simp: hash_fd_def res_simps hash_chunks delivered_def)

definition seen_data :: "seen \<Rightarrow> string" where
  "seen_data e = (case e of Opened_file _ _ _ chunks _ \<Rightarrow> delivered chunks | _ \<Rightarrow> [])"

text \<open>An entry that was the same when it was listed, opened and, for a file, read to the end.\<close>

definition steady :: "seen \<Rightarrow> bool" where
  "steady e \<longleftrightarrow>
     (case e of
        Opened_dir _ info opened _ \<Rightarrow> st_type info = Directory \<and> identity opened = identity info
      | Opened_file _ info opened chunks after_read \<Rightarrow>
          st_type info = Regular \<and> identity opened = identity info \<and> identity after_read = identity info
          \<and> length (delivered chunks) = st_size info
      | Not_opened _ _ \<Rightarrow> False)"

definition copied_entry :: "snapshot_world \<Rightarrow> string \<times> seen \<Rightarrow> manifest_entry" where
  "copied_entry w = (\<lambda>(r, e).
     if is_dir_entry e then dir_entry r (sw_dir_mode w r)
     else file_entry r (length (seen_data e)) (sw_sha256 w (seen_data e)) (mode_for (opened_info e)))"

definition stored_data :: "snapshot_world \<Rightarrow> string \<times> seen \<Rightarrow> string" where
  "stored_data w = (\<lambda>(r, e). delivered (so_chunks (sw_stored w r (seen_data e) (mode_for (opened_info e)))))"

definition inode_of :: "seen \<Rightarrow> (nat \<times> nat) option" where
  "inode_of e = (if is_dir_entry e then None else file_key (seen_info e))"

definition copied_one ::
  "snapshot_world \<Rightarrow> string \<times> seen \<Rightarrow> walk_state \<times> copy_state \<Rightarrow> walk_state \<times> copy_state \<Rightarrow> bool" where
  "copied_one w = (\<lambda>(r, e) (ws, cs) (ws', cs').
     steady e \<and> length (seen_data e) \<le> PACK_FILE_BYTES
     \<and> \<not> destination_taken r cs \<and> cs_manifest cs' = cs_manifest cs @ [copied_entry w (r, e)]
     \<and> cs_files cs' = cs_files cs @ (if is_dir_entry e then [] else [(r, stored_data w (r, e))])
     \<and> (\<not> is_dir_entry e \<longrightarrow> sw_sha256 w (stored_data w (r, e)) = sw_sha256 w (seen_data e))
     \<and> cs_inodes cs' = (case inode_of e of None \<Rightarrow> [] | Some k \<Rightarrow> [k]) @ cs_inodes cs
     \<and> (\<forall>k. inode_of e = Some k \<longrightarrow> k \<notin> set (cs_inodes cs))
     \<and> ws_total_bytes ws' = ws_total_bytes ws + length (seen_data e)
     \<and> (ws_total_bytes ws \<le> SNAPSHOT_MAX_TOTAL_BYTES \<longrightarrow> ws_total_bytes ws' \<le> SNAPSHOT_MAX_TOTAL_BYTES)
     \<and> map_of (ws_normalized ws') = (map_of (ws_normalized ws))(sw_key w r \<mapsto> r)
     \<and> map_of (ws_normalized ws) (sw_key w r) \<in> {None, Some r})"

lemma register_Inr:
  "register w r ws = Inr ws' \<Longrightarrow>
     ws' = ws\<lparr>ws_normalized := ws_normalized ws'\<rparr>
     \<and> map_of (ws_normalized ws') = (map_of (ws_normalized ws))(sw_key w r \<mapsto> r)
     \<and> map_of (ws_normalized ws) (sw_key w r) \<in> {None, Some r}"
  by (auto simp: register_def Let_def split: option.split_asm if_split_asm)

lemma verify_destination_Inr:
  "verify_destination w so n sha mode r = Inr u \<Longrightarrow>
     so_mode so = mode \<and> length (delivered (so_chunks so)) = n \<and> sw_sha256 w (delivered (so_chunks so)) = sha"
  by (auto simp: verify_destination_def res_simps hash_fd_Inr split: if_split_asm)

lemma copy_file_Inr:
  assumes "copy_one_file w r e (ws, cs) = Inr (ws', cs')" "listed_ok w e" "\<not> is_dir_entry e"
  shows "steady e \<and> length (seen_data e) \<le> PACK_FILE_BYTES
     \<and> \<not> destination_taken r cs \<and> cs_manifest cs' = cs_manifest cs @ [copied_entry w (r, e)]
     \<and> cs_files cs' = cs_files cs @ [(r, stored_data w (r, e))]
     \<and> sw_sha256 w (stored_data w (r, e)) = sw_sha256 w (seen_data e)
     \<and> cs_inodes cs' = (case file_key (seen_info e) of None \<Rightarrow> [] | Some k \<Rightarrow> [k]) @ cs_inodes cs
     \<and> (\<forall>k. file_key (seen_info e) = Some k \<longrightarrow> k \<notin> set (cs_inodes cs))
     \<and> ws' = ws\<lparr>ws_total_bytes := ws_total_bytes ws + length (seen_data e)\<rparr>
     \<and> (ws_total_bytes ws \<le> SNAPSHOT_MAX_TOTAL_BYTES \<longrightarrow> ws_total_bytes ws' \<le> SNAPSHOT_MAX_TOTAL_BYTES)"
proof -
  let ?cs = "case file_key (seen_info e) of None \<Rightarrow> cs | Some k \<Rightarrow> cs\<lparr>cs_inodes := k # cs_inodes cs\<rparr>"
  have opened: "copy_opened w r e (ws, ?cs) = Inr (ws', cs')"
    and fresh: "\<forall>k. file_key (seen_info e) = Some k \<longrightarrow> k \<notin> set (cs_inodes cs)"
    using assms(1) by (auto simp: copy_one_file_def Let_def split: if_split_asm seen.split_asm)
  have same: "cs_manifest ?cs = cs_manifest cs" "cs_files ?cs = cs_files cs" "destination_taken r ?cs = destination_taken r cs"
    "cs_inodes ?cs = (case file_key (seen_info e) of None \<Rightarrow> [] | Some k \<Rightarrow> [k]) @ cs_inodes cs"
    by (auto simp: destination_taken_def split: option.split)
  obtain n i opened chunks after_read where e: "e = Opened_file n i opened chunks after_read"
    using opened by (cases e) (auto simp: copy_opened_def split: if_split_asm)
  let ?start = "\<lparr>cp_total = ws_total_bytes ws, cp_data = [], cp_written = []\<rparr>"
  obtain c where c: "fold_res (copy_chunk w) (takeWhile (\<lambda>c. c \<noteq> []) chunks) ?start = Inr c"
    using opened by (auto simp: e copy_opened_def res_simps Let_def split: if_split_asm)
  note data = copy_chunks_Inr [OF c, folded delivered_def]
  have st: "st_type i = Regular" using assms(2,3) by (simp add: e listed_ok_def is_dir_entry_def is_file_entry_def)
  show ?thesis
    using opened c data st same fresh
    by (auto simp: e copy_opened_def res_simps Let_def steady_def seen_data_def copied_entry_def stored_data_def
      is_dir_entry_def identity_def destination_taken_def dest!: verify_destination_Inr split: if_split_asm)
qed

lemma copied_step:
  assumes "visit_entry w (copy_one_file w) (copy_dir w) x (ws, cs) = Inr (ws', cs')" "listed_ok w (snd x)"
  shows "copied_one w x (ws, cs) (ws', cs')"
proof -
  obtain r e where x: "x = (r, e)" by (cases x)
  obtain ws1 where reg: "register w r ws = Inr ws1" using assms(1) by (auto simp: x visit_entry_def res_simps)
  note r = register_Inr [OF reg]
  have total: "ws_total_bytes ws1 = ws_total_bytes ws" using r by (metis walk_state.select_convs(4) walk_state.surjective walk_state.update_convs(5))
  show ?thesis
  proof (cases "is_dir_entry e")
    case True
    then show ?thesis using assms(1) r total
      by (cases e) (auto simp: x visit_entry_def reg copy_dir_def copied_one_def copied_entry_def steady_def same_directory_def
        seen_data_def inode_of_def is_dir_entry_def split: if_split_asm)
  next
    case False
    then have "copy_one_file w r e (ws1, cs) = Inr (ws', cs')" using assms(1) by (simp add: x visit_entry_def reg)
    from copy_file_Inr [OF this] show ?thesis using assms(2) False r total by (auto simp: x copied_one_def inode_of_def)
  qed
qed

section \<open>A sealed snapshot is what was read\<close>

text \<open>The whole copy: every step as above, and the copied entries in the order of the walk.\<close>

definition copied_all ::
  "snapshot_world \<Rightarrow> (string \<times> seen) list \<Rightarrow> walk_state \<times> copy_state \<Rightarrow> walk_state \<times> copy_state \<Rightarrow> bool" where
  "copied_all w xs = (\<lambda>(ws, cs) (ws', cs').
     list_all (\<lambda>x. steady (snd x) \<and> length (seen_data (snd x)) \<le> PACK_FILE_BYTES) xs
     \<and> cs_manifest cs' = cs_manifest cs @ map (copied_entry w) xs
     \<and> (distinct (map me_path (cs_manifest cs)) \<longrightarrow> distinct (map me_path (cs_manifest cs')))
     \<and> cs_files cs' = cs_files cs @ map (\<lambda>x. (fst x, stored_data w x)) (filter (\<lambda>x. \<not> is_dir_entry (snd x)) xs)
     \<and> list_all (\<lambda>x. \<not> is_dir_entry (snd x) \<longrightarrow> sw_sha256 w (stored_data w x) = sw_sha256 w (seen_data (snd x))) xs
     \<and> cs_inodes cs' = rev (List.map_filter (\<lambda>x. inode_of (snd x)) xs) @ cs_inodes cs
     \<and> (distinct (cs_inodes cs) \<longrightarrow> distinct (cs_inodes cs'))
     \<and> ws_total_bytes ws' = ws_total_bytes ws + sum_list (map (\<lambda>x. length (seen_data (snd x))) xs)
     \<and> (ws_total_bytes ws \<le> SNAPSHOT_MAX_TOTAL_BYTES \<longrightarrow> ws_total_bytes ws' \<le> SNAPSHOT_MAX_TOTAL_BYTES)
     \<and> (\<forall>k p. map_of (ws_normalized ws) k = Some p \<longrightarrow> map_of (ws_normalized ws') k = Some p)
     \<and> list_all (\<lambda>x. map_of (ws_normalized ws') (sw_key w (fst x)) = Some (fst x)) xs)"

lemma copied_entry_path [simp]: "me_path (copied_entry w x) = fst x"
  by (auto simp: copied_entry_def dir_entry_def file_entry_def split: prod.split)

lemma copied_all_Cons:
  assumes one: "copied_one w x (ws, cs) (ws1, cs1)" and rest: "copied_all w xs (ws1, cs1) (ws', cs')"
  shows "copied_all w (x # xs) (ws, cs) (ws', cs')"
proof -
  obtain r e where x: "x = (r, e)" by (cases x)
  note o = one [unfolded copied_one_def x prod.case] and r = rest [unfolded copied_all_def prod.case]
  have kept: "\<forall>k p. map_of (ws_normalized ws) k = Some p \<longrightarrow> map_of (ws_normalized ws') k = Some p"
  proof (intro allI impI)
    fix k p
    assume "map_of (ws_normalized ws) k = Some p"
    then have "map_of (ws_normalized ws1) k = Some p" using o by (cases "k = sw_key w r") simp_all
    then show "map_of (ws_normalized ws') k = Some p" using r by blast
  qed
  have "distinct (map me_path (cs_manifest cs)) \<longrightarrow> distinct (map me_path (cs_manifest cs1))"
    using o by (simp add: destination_taken_def)
  then have paths: "distinct (map me_path (cs_manifest cs)) \<longrightarrow> distinct (map me_path (cs_manifest cs'))" using r by blast
  have "distinct (cs_inodes cs) \<longrightarrow> distinct (cs_inodes cs1)"
    using o by (cases "inode_of e") simp_all
  then have inodes: "distinct (cs_inodes cs) \<longrightarrow> distinct (cs_inodes cs')" using r by blast
  have found: "cs_inodes cs' = rev (List.map_filter (\<lambda>x. inode_of (snd x)) (x # xs)) @ cs_inodes cs"
    using o r by (cases "inode_of e") (simp_all add: x map_filter_simps)
  have "map_of (ws_normalized ws1) (sw_key w r) = Some r" using o by simp
  then have key: "map_of (ws_normalized ws') (sw_key w r) = Some r" using r by blast
  have limit: "ws_total_bytes ws \<le> SNAPSHOT_MAX_TOTAL_BYTES \<longrightarrow> ws_total_bytes ws' \<le> SNAPSHOT_MAX_TOTAL_BYTES"
    using o r by blast
  show ?thesis
    unfolding copied_all_def x prod.case
  proof (intro conjI kept paths inodes limit found [unfolded x])
    show "list_all (\<lambda>x. map_of (ws_normalized ws') (sw_key w (fst x)) = Some (fst x)) ((r, e) # xs)"
      using key r by simp
  qed (use o r in simp_all)
qed

lemma copied_fold:
  assumes "fold_res (visit_entry w (copy_one_file w) (copy_dir w)) xs (ws, cs) = Inr (ws', cs')"
    "list_all (\<lambda>x. listed_ok w (snd x)) xs"
  shows "copied_all w xs (ws, cs) (ws', cs')"
  using assms
proof (induction xs arbitrary: ws cs)
  case Nil
  then show ?case by (simp add: copied_all_def map_filter_simps)
next
  case (Cons x xs)
  then obtain ws1 cs1 where one: "visit_entry w (copy_one_file w) (copy_dir w) x (ws, cs) = Inr (ws1, cs1)"
    and rest: "fold_res (visit_entry w (copy_one_file w) (copy_dir w)) xs (ws1, cs1) = Inr (ws', cs')"
    by (auto simp: res_simps)
  show ?case
    using copied_all_Cons [OF copied_step [OF one] Cons.IH [OF rest]] Cons.prems(2) by simp
qed

lemma snapshot_pack_Inr:
  assumes "snapshot_pack w tc sv = Inr ps"
  obtains i identity_before ws cs where "sv_root sv = Some i" "st_type i = Directory"
    "source_identity w i (sv_before sv) = Inr identity_before" "copy_source w i (sv_copy sv) = Inr (ws, cs)"
    "assert_source_unchanged w (sv_root_after sv) (sv_after sv) identity_before = Inr ()" "seal w tc ws cs = Inr ps"
  using assms by (auto simp: snapshot_pack_def res_simps split: option.split_asm if_split_asm)

lemma seal_Inr:
  "seal w tc ws cs = Inr ps \<Longrightarrow>
     length (cs_manifest cs) \<le> SNAPSHOT_MANIFEST_ENTRIES
     \<and> pack_checksum (sw_sha256 w) (cs_files cs) = Inr (ps_checksum ps)
     \<and> ps_manifest_digest ps = manifest_digest (sw_sha256 w) (cs_manifest cs) \<and> ps_manifest ps = cs_manifest cs
     \<and> ps_file_count ps = ws_file_count ws \<and> ps_dir_count ps = ws_dir_count ws
     \<and> ps_total_bytes ps = ws_total_bytes ws \<and> ps_files ps = cs_files cs"
  by (auto simp: seal_def res_simps read_error_def split: if_split_asm sum.split_asm)

definition copied_list :: "source_view \<Rightarrow> (string \<times> seen) list" where
  "copied_list sv = walked [] (rv_entries (sv_copy sv))"

lemma copy_source_all:
  assumes "copy_source w i rv = Inr (ws, cs)"
  shows "copied_all w (walked [] (rv_entries rv)) (new_walk, \<lparr>cs_inodes = [], cs_manifest = [dir_entry [] 493], cs_files = []\<rparr>)
       (with_counts new_walk ws, cs)
     \<and> counted new_walk (n_files (walked [] (rv_entries rv))) (n_dirs (walked [] (rv_entries rv))) ws"
proof -
  note ok = copy_walk.secure_walk_ok [OF assms [unfolded copy_source_def], unfolded copy_walk.walk_ok_def copy_walk.walk_result_def]
  show ?thesis using copied_fold [of w] ok by blast
qed

lemma snapshot_copied:
  assumes "snapshot_pack w tc sv = Inr ps"
  shows "list_all (\<lambda>x. steady (snd x) \<and> length (seen_data (snd x)) \<le> PACK_FILE_BYTES) (copied_list sv)
     \<and> ps_manifest ps = dir_entry [] 493 # map (copied_entry w) (copied_list sv)
     \<and> distinct (map me_path (ps_manifest ps))
     \<and> ps_files ps = map (\<lambda>x. (fst x, stored_data w x)) (filter (\<lambda>x. \<not> is_dir_entry (snd x)) (copied_list sv))
     \<and> list_all (\<lambda>x. \<not> is_dir_entry (snd x) \<longrightarrow> sw_sha256 w (stored_data w x) = sw_sha256 w (seen_data (snd x))) (copied_list sv)
     \<and> distinct (List.map_filter (\<lambda>x. inode_of (snd x)) (copied_list sv))
     \<and> inj_on (sw_key w) (fst ` set (copied_list sv))
     \<and> ps_file_count ps = n_files (copied_list sv) \<and> ps_file_count ps \<le> SNAPSHOT_MAX_FILES
     \<and> ps_dir_count ps = n_dirs (copied_list sv) \<and> ps_dir_count ps \<le> SNAPSHOT_MAX_DIRS
     \<and> Suc (length (copied_list sv)) \<le> SNAPSHOT_MANIFEST_ENTRIES
     \<and> ps_total_bytes ps = sum_list (map (\<lambda>x. length (seen_data (snd x))) (copied_list sv))
     \<and> ps_total_bytes ps \<le> SNAPSHOT_MAX_TOTAL_BYTES
     \<and> ps_manifest_digest ps = manifest_digest (sw_sha256 w) (ps_manifest ps)
     \<and> pack_checksum (sw_sha256 w) (ps_files ps) = Inr (ps_checksum ps)"
proof -
  obtain i ws cs where copy: "copy_source w i (sv_copy sv) = Inr (ws, cs)" and sealed: "seal w tc ws cs = Inr ps"
    using assms by (rule snapshot_pack_Inr)
  note c = copy_source_all [OF copy, folded copied_list_def, unfolded copied_all_def prod.case] and s = seal_Inr [OF sealed]
  have m: "cs_manifest cs = dir_entry [] 493 # map (copied_entry w) (copied_list sv)"
    and files: "cs_files cs = map (\<lambda>x. (fst x, stored_data w x)) (filter (\<lambda>x. \<not> is_dir_entry (snd x)) (copied_list sv))"
    using c by simp_all
  have keys: "list_all (\<lambda>x. map_of (ws_normalized ws) (sw_key w (fst x)) = Some (fst x)) (copied_list sv)" using c by simp
  have keys_inj: "inj_on (sw_key w) (fst ` set (copied_list sv))"
  proof (rule inj_onI)
    fix p q
    assume "p \<in> fst ` set (copied_list sv)" "q \<in> fst ` set (copied_list sv)" and same: "sw_key w p = sw_key w q"
    then have "map_of (ws_normalized ws) (sw_key w p) = Some p" "map_of (ws_normalized ws) (sw_key w q) = Some q"
      using keys by (auto simp: list_all_iff)
    then show "p = q" using same by (metis option.inject)
  qed
  have "cs_inodes cs = rev (List.map_filter (\<lambda>x. inode_of (snd x)) (copied_list sv))"
    using c by simp
  moreover have "distinct (cs_inodes \<lparr>cs_inodes = [], cs_manifest = [dir_entry [] 493], cs_files = []\<rparr>) \<longrightarrow> distinct (cs_inodes cs)"
    using c by blast
  ultimately have "distinct (List.map_filter (\<lambda>x. inode_of (snd x)) (copied_list sv))" by simp
  moreover have "distinct (map me_path (cs_manifest \<lparr>cs_inodes = [], cs_manifest = [dir_entry [] 493], cs_files = []\<rparr>))
      \<longrightarrow> distinct (map me_path (cs_manifest cs))" using c by blast
  then have "distinct (map me_path (cs_manifest cs))" by simp
  moreover have "ws_file_count ws = n_files (copied_list sv) \<and> ws_file_count ws \<le> SNAPSHOT_MAX_FILES
      \<and> ws_dir_count ws = n_dirs (copied_list sv) \<and> ws_dir_count ws \<le> SNAPSHOT_MAX_DIRS"
    using c by (simp add: counted_def new_walk_def)
  moreover have "ws_total_bytes ws = sum_list (map (\<lambda>x. length (seen_data (snd x))) (copied_list sv))
      \<and> ws_total_bytes ws \<le> SNAPSHOT_MAX_TOTAL_BYTES"
    using c by (simp add: new_walk_def)
  moreover have "Suc (length (copied_list sv)) \<le> SNAPSHOT_MANIFEST_ENTRIES" using s by (simp add: m)
  moreover have "ps_manifest ps = cs_manifest cs" "ps_files ps = cs_files cs" "ps_file_count ps = ws_file_count ws"
    "ps_dir_count ps = ws_dir_count ws" "ps_total_bytes ps = ws_total_bytes ws" using s by blast+
  moreover have "n_files (copied_list sv) \<le> SNAPSHOT_MAX_FILES \<and> n_dirs (copied_list sv) \<le> SNAPSHOT_MAX_DIRS
      \<and> sum_list (map (\<lambda>x. length (seen_data (snd x))) (copied_list sv)) \<le> SNAPSHOT_MAX_TOTAL_BYTES"
    using c by (simp add: counted_def new_walk_def)
  ultimately show ?thesis using c s keys_inj unfolding m files by (simp only: simp_thms)
qed

lemma snapshot_limits:
  assumes "snapshot_pack w tc sv = Inr ps"
  shows "tree_depth (rv_entries (sv_copy sv)) \<le> SNAPSHOT_MAX_DEPTH" "length (copied_list sv) < SNAPSHOT_MANIFEST_ENTRIES"
proof -
  obtain i ws cs where "copy_source w i (sv_copy sv) = Inr (ws, cs)" using assms by (rule snapshot_pack_Inr)
  then show "tree_depth (rv_entries (sv_copy sv)) \<le> SNAPSHOT_MAX_DEPTH"
    unfolding copy_source_def by (rule copy_walk.secure_walk_depth)
  show "length (copied_list sv) < SNAPSHOT_MANIFEST_ENTRIES"
    using snapshot_copied [OF assms] by (simp only: Suc_le_eq)
qed

text \<open>
  C33: a sealed snapshot is what was read, whatever the source did meanwhile. Every entry of the copied tree was
  a directory or a regular file with the same identity when it was listed, opened and, for a file, read to its end; the
  manifest lists exactly these entries and the root, with size, content hash and mode; the files of the snapshot hold
  exactly the bytes that were read when the hash does not collide on them; no two paths agree under the normalised key, no file
  is a hardlink alias of another, and every limit holds: the bytes of each file and of all of them, the numbers of files,
  of directories and of manifest entries, and the depth (no chain of nested directories, the root counted, is longer
  than the limit).
\<close>

theorem snapshot_sound:
  assumes "snapshot_pack w tc sv = Inr ps"
    "collision_free (sw_sha256 w) (\<Union>x \<in> set (copied_list sv). {seen_data (snd x), stored_data w x})"
  shows "list_all (\<lambda>x. steady (snd x) \<and> length (seen_data (snd x)) \<le> PACK_FILE_BYTES) (copied_list sv)
     \<and> ps_manifest ps = dir_entry [] 493 # map (copied_entry w) (copied_list sv)
     \<and> ps_files ps = map (\<lambda>x. (fst x, seen_data (snd x))) (filter (\<lambda>x. \<not> is_dir_entry (snd x)) (copied_list sv))
     \<and> distinct (map fst (copied_list sv)) \<and> inj_on (sw_key w) (fst ` set (copied_list sv))
     \<and> distinct (List.map_filter (\<lambda>x. inode_of (snd x)) (copied_list sv))
     \<and> ps_file_count ps = n_files (copied_list sv) \<and> ps_dir_count ps = n_dirs (copied_list sv)
     \<and> ps_file_count ps \<le> SNAPSHOT_MAX_FILES \<and> ps_dir_count ps \<le> SNAPSHOT_MAX_DIRS
     \<and> length (copied_list sv) < SNAPSHOT_MANIFEST_ENTRIES
     \<and> ps_total_bytes ps = sum_list (map (\<lambda>f. length (snd f)) (ps_files ps))
     \<and> ps_total_bytes ps \<le> SNAPSHOT_MAX_TOTAL_BYTES
     \<and> tree_depth (rv_entries (sv_copy sv)) \<le> SNAPSHOT_MAX_DEPTH"
proof -
  note c = snapshot_copied [OF assms(1)] and l = snapshot_limits [OF assms(1)]
  have hashes: "list_all (\<lambda>x. \<not> is_dir_entry (snd x) \<longrightarrow> sw_sha256 w (stored_data w x) = sw_sha256 w (seen_data (snd x))) (copied_list sv)"
    and steady: "list_all (\<lambda>x. steady (snd x) \<and> length (seen_data (snd x)) \<le> PACK_FILE_BYTES) (copied_list sv)"
    and stored: "ps_files ps = map (\<lambda>x. (fst x, stored_data w x)) (filter (\<lambda>x. \<not> is_dir_entry (snd x)) (copied_list sv))"
    and bytes: "ps_total_bytes ps = sum_list (map (\<lambda>x. length (seen_data (snd x))) (copied_list sv))"
    using c by blast+
  have "stored_data w x = seen_data (snd x)" if "x \<in> set (copied_list sv)" "\<not> is_dir_entry (snd x)" for x
  proof (rule collision_freeD [OF assms(2)])
    show "sw_sha256 w (stored_data w x) = sw_sha256 w (seen_data (snd x))"
      using hashes that unfolding list_all_iff by blast
  qed (use that(1) in blast)+
  then have same: "(fst x, stored_data w x) = (fst x, seen_data (snd x))"
    if "x \<in> set (filter (\<lambda>x. \<not> is_dir_entry (snd x)) (copied_list sv))" for x
    using that by simp
  have files: "ps_files ps = map (\<lambda>x. (fst x, seen_data (snd x))) (filter (\<lambda>x. \<not> is_dir_entry (snd x)) (copied_list sv))"
    unfolding stored by (rule map_cong [OF refl same])
  have "length (seen_data (snd x)) = 0" if "x \<in> set (copied_list sv)" "is_dir_entry (snd x)" for x
    using steady that by (cases "snd x") (auto simp: list_all_iff steady_def seen_data_def is_dir_entry_def)
  then have "sum_list (map (\<lambda>x. length (seen_data (snd x))) xs)
      = sum_list (map (\<lambda>x. length (seen_data (snd x))) (filter (\<lambda>x. \<not> is_dir_entry (snd x)) xs))"
    if "set xs \<subseteq> set (copied_list sv)" for xs
    using that by (induction xs) auto
  from this [OF subset_refl] have "ps_total_bytes ps = sum_list (map (\<lambda>f. length (snd f)) (ps_files ps))"
    by (simp only: bytes files map_map comp_def snd_conv)
  moreover have "distinct (map me_path (ps_manifest ps))" using c by blast
  then have "distinct (map me_path (dir_entry [] 493 # map (copied_entry w) (copied_list sv)))"
    using c by (metis (no_types))
  then have "distinct (map fst (copied_list sv))" by (simp add: comp_def)
  ultimately show ?thesis using c files l by (intro conjI) blast+
qed

section \<open>Drift after sealing\<close>

text \<open>
  C34: verifying a sealed snapshot detects every drift: it succeeds exactly when the tree rebuilt from the disk has the entries
  of the sealed manifest (no file or directory added, removed, retyped or given another mode, size or content hash) and
  the files read again have the sealed public checksum; and a tree the walk refuses is reported as changed.
\<close>

theorem verify_detects_drift:
  assumes "snapshot_pack w tc sv = Inr ps" "list_all plain_entry (ps_manifest ps @ m)"
    "collision_free (sw_sha256 w) {manifest_text (ps_manifest ps), manifest_text m}"
  shows "(scan_snapshot_manifest w i rv = Inr m \<longrightarrow>
        (verify_snapshot w ps i rv files = Inr () \<longleftrightarrow>
           mset m = mset (ps_manifest ps) \<and> pack_checksum (sw_sha256 w) files = Inr (ps_checksum ps)))
     \<and> (\<forall>e. scan_snapshot_manifest w i rv = raise_snapshot e \<longrightarrow>
          verify_snapshot w ps i rv files = raise_snapshot SnapshotChanged)"
proof -
  note c = snapshot_copied [OF assms(1)]
  have paths: "distinct (map me_path (ps_manifest ps))"
    and digest: "ps_manifest_digest ps = manifest_digest (sw_sha256 w) (ps_manifest ps)" using c by blast+
  have "manifest_digest (sw_sha256 w) (ps_manifest ps) = manifest_digest (sw_sha256 w) m
      \<longleftrightarrow> mset (ps_manifest ps) = mset m"
  proof
    assume "manifest_digest (sw_sha256 w) (ps_manifest ps) = manifest_digest (sw_sha256 w) m"
    then have "sw_sha256 w (manifest_text (ps_manifest ps)) = sw_sha256 w (manifest_text m)"
      by (simp only: manifest_digest_def)
    then have "manifest_text (ps_manifest ps) = manifest_text m" by (rule collision_freeD [OF assms(3)]) simp_all
    moreover have "list_all plain_entry (ps_manifest ps)" "list_all plain_entry m" using assms(2) by simp_all
    ultimately have "sorted_entries (ps_manifest ps) = sorted_entries m" by (rule manifest_text_inject)
    then show "mset (ps_manifest ps) = mset m" using mset_sort sorted_entries_def by metis
  next
    assume "mset (ps_manifest ps) = mset m"
    then show "manifest_digest (sw_sha256 w) (ps_manifest ps) = manifest_digest (sw_sha256 w) m"
      by (rule same_entries_digest [OF paths])
  qed
  then show ?thesis
    by (auto simp: verify_snapshot_def digest res_simps read_error_def split: sum.split)
qed

section \<open>Writing the checksum\<close>

text \<open>
  \<open>with snapshot_pack(...) as snapshot\<close>: the body, and the verification when it ends normally. What the verification reads
  of the private tree is the second half of the view.
\<close>

record pack_view =
  pv_source :: source_view
  pv_root :: stat_info
  pv_tree :: root_view
  pv_files :: pack_files

definition with_snapshot ::
  "snapshot_world \<Rightarrow> text_codec \<Rightarrow> pack_view \<Rightarrow> (pack_snapshot \<Rightarrow> (failure, 'a) res) \<Rightarrow> (failure, 'a) res" where
  "with_snapshot w tc pv body =
     and_then (snapshot_pack w tc (pv_source pv)) (\<lambda>ps.
       and_then (body ps) (\<lambda>r.
         and_then (verify_snapshot w ps (pv_root pv) (pv_tree pv) (pv_files pv)) (\<lambda>_. Inr r)))"

definition nonchecksum_manifest :: "pack_snapshot \<Rightarrow> manifest_entry list" where
  "nonchecksum_manifest ps =
     filter (\<lambda>e. \<not> (me_kind e = ''file'' \<and> me_path e = PACK_CHECKSUM_FILENAME)) (ps_manifest ps)"

definition checksum_line :: "string \<Rightarrow> string" where
  "checksum_line checksum = utf8_encode (checksum @ [CHR 0x0A])"

text \<open>
  \<open>write_checksum\<close>: the result and the bytes of the root artifact, if there is one. The two booleans say whether the
  operating system carries out the atomic write and the restoring one (or the removal).
\<close>

definition restore_artifact :: "bool \<Rightarrow> snapshot_error \<Rightarrow> string option \<Rightarrow> string \<Rightarrow> (failure, string) res \<times> string option" where
  "restore_artifact restores e prior written =
     (case prior of
        Some b \<Rightarrow> if restores then (raise_snapshot e, Some b) else (Inl OS_failure, Some written)
      | None \<Rightarrow> (raise_snapshot e, if restores then None else Some written))"

definition write_checksum ::
  "snapshot_world \<Rightarrow> text_codec \<Rightarrow> pack_view \<Rightarrow> pack_view \<Rightarrow> bool \<Rightarrow> bool \<Rightarrow> string option
   \<Rightarrow> (failure, string) res \<times> string option" where
  "write_checksum w tc before_write after_write writes restores artifact =
     (case with_snapshot w tc before_write (\<lambda>ps. Inr (ps_checksum ps, nonchecksum_manifest ps)) of
        Inl e \<Rightarrow> (Inl e, artifact)
      | Inr (intended, before_nonchecksum) \<Rightarrow>
          (case (case artifact of None \<Rightarrow> Inr None
                 | Some bytes \<Rightarrow> and_then (read_bytes_bounded (Some (File bytes False 1)) CHECKSUM_FILE_BYTES) (\<lambda>b. Inr (Some b))) of
             Inl e \<Rightarrow> (Inl (Unreadable e), artifact)
           | Inr prior \<Rightarrow>
               if \<not> writes then (Inl OS_failure, artifact)
               else
                 case with_snapshot w tc after_write (\<lambda>ps.
                   check (\<not> (ps_checksum ps \<noteq> intended
                            \<or> (case ps_stored_checksum ps of None \<Rightarrow> [] | Some s \<Rightarrow> s) \<noteq> intended
                            \<or> nonchecksum_manifest ps \<noteq> before_nonchecksum)) (Snapshot_failure SourceChangedBeforeWrite)) of
                   Inl (Snapshot_failure e) \<Rightarrow> restore_artifact restores e prior (checksum_line intended)
                 | Inl e \<Rightarrow> (Inl e, Some (checksum_line intended))
                 | Inr _ \<Rightarrow> (Inr intended, Some (checksum_line intended))))"

lemma with_snapshot_Inr:
  "with_snapshot w tc pv body = Inr r \<longleftrightarrow>
     (\<exists>ps. snapshot_pack w tc (pv_source pv) = Inr ps \<and> body ps = Inr r
        \<and> verify_snapshot w ps (pv_root pv) (pv_tree pv) (pv_files pv) = Inr ())"
  by (auto simp: with_snapshot_def res_simps)

lemma read_prior:
  "read_bytes_bounded (Some (File bytes x n)) limit = Inr b \<Longrightarrow> b = bytes"
  by (auto simp: read_bytes_bounded_def split: if_split_asm)

text \<open>
  C35: a checksum that is returned was verified: a second snapshot, taken with the artifact in place, has exactly
  this public checksum and stores it, and nothing else of the pack moved between the two. When the second snapshot disagrees
  or is refused, the artifact is again what it was before, absent or with its old bytes, if the system lets it be
  restored; only an error that is not a \<open>SnapshotError\<close> leaves the new one unverified.
\<close>

theorem write_checksum_verified:
  assumes "write_checksum w tc b a writes restores artifact = (r, artifact')"
  shows "(\<forall>checksum. r = Inr checksum \<longrightarrow>
        artifact' = Some (checksum_line checksum)
        \<and> (\<exists>ps ps'. snapshot_pack w tc (pv_source b) = Inr ps \<and> snapshot_pack w tc (pv_source a) = Inr ps'
             \<and> ps_checksum ps = checksum \<and> ps_checksum ps' = checksum
             \<and> (checksum \<noteq> [] \<longrightarrow> ps_stored_checksum ps' = Some checksum)
             \<and> nonchecksum_manifest ps' = nonchecksum_manifest ps))
     \<and> (\<forall>e. r = raise_snapshot e \<and> restores \<longrightarrow> artifact' = artifact)"
proof (cases "with_snapshot w tc b (\<lambda>ps. Inr (ps_checksum ps, nonchecksum_manifest ps))")
  case (Inl e)
  then show ?thesis using assms by (auto simp: write_checksum_def)
next
  case (Inr first)
  then obtain ps where ps: "snapshot_pack w tc (pv_source b) = Inr ps" "first = (ps_checksum ps, nonchecksum_manifest ps)"
    by (auto simp: with_snapshot_Inr)
  let ?check = "\<lambda>ps'. check (\<not> (ps_checksum ps' \<noteq> ps_checksum ps
      \<or> (case ps_stored_checksum ps' of None \<Rightarrow> [] | Some s \<Rightarrow> s) \<noteq> ps_checksum ps
      \<or> nonchecksum_manifest ps' \<noteq> nonchecksum_manifest ps)) (Snapshot_failure SourceChangedBeforeWrite)"
  show ?thesis
  proof (cases "with_snapshot w tc a ?check")
    case (Inl e)
    then show ?thesis using assms Inr ps
      by (cases e) (auto simp: write_checksum_def restore_artifact_def res_simps dest!: read_prior
          split: option.split_asm sum.split_asm if_split_asm)
  next
    case (Inr u)
    then obtain ps' where ps': "snapshot_pack w tc (pv_source a) = Inr ps'" "?check ps' = Inr u"
      by (auto simp: with_snapshot_Inr)
    then have same: "ps_checksum ps' = ps_checksum ps" "nonchecksum_manifest ps' = nonchecksum_manifest ps"
      "ps_checksum ps \<noteq> [] \<longrightarrow> ps_stored_checksum ps' = Some (ps_checksum ps)"
      by (auto simp: check_Inr split: option.split_asm)
    have first: "with_snapshot w tc b (\<lambda>ps. Inr (ps_checksum ps, nonchecksum_manifest ps))
        = Inr (ps_checksum ps, nonchecksum_manifest ps)"
      using \<open>_ = Inr first\<close> ps(2) by simp
    have "(\<exists>e. (r, artifact') = (Inl (Unreadable e), artifact)) \<or> (r, artifact') = (Inl OS_failure, artifact)
        \<or> (r, artifact') = (Inr (ps_checksum ps), Some (checksum_line (ps_checksum ps)))"
      unfolding assms [symmetric] write_checksum_def first sum.case prod.case Inr by (simp split: sum.split)
    then show ?thesis using ps(1) ps'(1) same by auto
  qed
qed

section \<open>A small pack\<close>

definition plain_world :: "(string \<Rightarrow> string) \<Rightarrow> snapshot_world" where
  "plain_world digest =
     \<lparr>sw_key = casefold, sw_encodable = (\<lambda>_. True), sw_sha256 = digest, sw_write = (\<lambda>view. min 2 (length view)),
      sw_stored = (\<lambda>r data mode. \<lparr>so_type = Regular, so_size = length data, so_mode = mode, so_chunks = [data]\<rparr>),
      sw_dir_mode = (\<lambda>_. 493)\<rparr>"

definition stat_of :: "file_type \<Rightarrow> nat \<Rightarrow> nat \<Rightarrow> nat \<Rightarrow> stat_info" where
  "stat_of t ino n perm =
     \<lparr>st_type = t, st_dev = 1, st_ino = ino, st_size = n, st_mtime = 0, st_nlink = 1, st_perm = perm\<rparr>"

definition still_file :: "string \<Rightarrow> nat \<Rightarrow> string list \<Rightarrow> seen" where
  "still_file name ino chunks =
     (let i = stat_of Regular ino (length (concat chunks)) 420 in Opened_file name i i chunks i)"

definition still_dir :: "string \<Rightarrow> nat \<Rightarrow> seen list \<Rightarrow> seen" where
  "still_dir name ino es = (let i = stat_of Directory ino 0 493 in Opened_dir name i i es)"

definition still_root :: "seen list \<Rightarrow> root_view" where
  "still_root es = \<lparr>rv_opened = Some (stat_of Directory 1 0 493), rv_entries = es\<rparr>"

definition still_source :: "seen list \<Rightarrow> source_view" where
  "still_source es =
     \<lparr>sv_root = Some (stat_of Directory 1 0 493), sv_before = still_root es, sv_copy = still_root es,
      sv_root_after = Some (stat_of Directory 1 0 493), sv_after = still_root es\<rparr>"

definition still_pack :: "seen list" where
  "still_pack = [still_file ''b'' 3 [''abc'', ''d''], still_dir ''a'' 2 [still_file ''x'' 4 [''1'']]]"

definition still_copy :: "(failure, pack_snapshot) res" where
  "still_copy = snapshot_pack (plain_world (\<lambda>s. s)) latin (still_source still_pack)"

lemma still_copied:
  obtains ps where "still_copy = Inr ps" "ps_files ps = [(''a/x'', ''1''), (''b'', ''abcd'')]"
    "list_all plain_entry (ps_manifest ps)"
proof -
  have "case still_copy of Inl _ \<Rightarrow> False
      | Inr ps \<Rightarrow> ps_files ps = [(''a/x'', ''1''), (''b'', ''abcd'')] \<and> list_all plain_entry (ps_manifest ps)"
    by code_simp
  then show thesis using that by (auto split: sum.split_asm)
qed

theorem snapshot_sound_witness:
  "\<exists>ps. still_copy = Inr ps \<and> ps_total_bytes ps = 5 \<and> length (copied_list (still_source still_pack)) < SNAPSHOT_MANIFEST_ENTRIES"
proof -
  obtain ps where ps: "still_copy = Inr ps" "ps_files ps = [(''a/x'', ''1''), (''b'', ''abcd'')]" by (rule still_copied)
  have "collision_free (sw_sha256 (plain_world (\<lambda>s. s))) T" for T by (simp add: plain_world_def collision_free_def)
  from snapshot_sound [OF ps(1) [unfolded still_copy_def] this]
  have "ps_total_bytes ps = sum_list (map (\<lambda>f. length (snd f)) (ps_files ps))
      \<and> length (copied_list (still_source still_pack)) < SNAPSHOT_MANIFEST_ENTRIES" by blast
  moreover have "sum_list (map (\<lambda>f. length (snd f)) (ps_files ps)) = 5" by (simp add: ps(2) eval_nat_numeral)
  ultimately show ?thesis using ps(1) by auto
qed

theorem verify_detects_drift_witness:
  "\<exists>ps. still_copy = Inr ps
     \<and> verify_snapshot (plain_world (\<lambda>s. s)) ps (stat_of Directory 1 0 493) (still_root still_pack) (ps_files ps) = Inr ()"
proof -
  obtain ps where ps: "still_copy = Inr ps" "list_all plain_entry (ps_manifest ps)" by (rule still_copied)
  have "case still_copy of Inl _ \<Rightarrow> False
      | Inr ps \<Rightarrow> (case scan_snapshot_manifest (plain_world (\<lambda>s. s)) (stat_of Directory 1 0 493) (still_root still_pack) of
          Inl _ \<Rightarrow> False | Inr m \<Rightarrow> m = ps_manifest ps)" by code_simp
  then have scan: "scan_snapshot_manifest (plain_world (\<lambda>s. s)) (stat_of Directory 1 0 493) (still_root still_pack)
      = Inr (ps_manifest ps)"
    by (auto simp: ps(1) split: sum.split_asm)
  have "collision_free (sw_sha256 (plain_world (\<lambda>s. s))) T" for T by (simp add: plain_world_def collision_free_def)
  moreover have "list_all plain_entry (ps_manifest ps @ ps_manifest ps)" using ps(2) by simp
  moreover have "pack_checksum (sw_sha256 (plain_world (\<lambda>s. s))) (ps_files ps) = Inr (ps_checksum ps)"
    using snapshot_copied [OF ps(1) [unfolded still_copy_def]] by blast
  ultimately show ?thesis
    using verify_detects_drift [OF ps(1) [unfolded still_copy_def], of "ps_manifest ps" "stat_of Directory 1 0 493"
      "still_root still_pack" "ps_files ps"] scan ps(1) by auto
qed

text \<open>The checksum of the small pack is written beside it; the digest is the length of the text.\<close>

definition short_world :: snapshot_world where
  "short_world = plain_world (\<lambda>s. nat_str (length s))"

definition still_view :: "seen list \<Rightarrow> pack_files \<Rightarrow> pack_view" where
  "still_view es files =
     \<lparr>pv_source = still_source es, pv_root = stat_of Directory 1 0 493, pv_tree = still_root es, pv_files = files\<rparr>"

definition still_files :: pack_files where
  "still_files = [(''a/x'', ''1''), (''b'', ''abcd'')]"

definition still_write :: "(failure, string) res \<times> string option" where
  "still_write =
     write_checksum short_world latin (still_view still_pack still_files)
       (still_view (still_pack @ [still_file ''pack.sha256'' 5 [checksum_line ''13'']])
         (still_files @ [(''pack.sha256'', checksum_line ''13'')])) True True None"

theorem write_checksum_verified_witness:
  "fst still_write = Inr ''13'' \<and> snd still_write = Some (checksum_line ''13'')"
proof -
  have r: "case fst still_write of Inl _ \<Rightarrow> False | Inr c \<Rightarrow> c = ''13''" by code_simp
  then have "fst still_write = Inr ''13''" by (auto split: sum.split_asm)
  then have "still_write = (Inr ''13'', snd still_write)" by (simp add: prod_eq_iff)
  from write_checksum_verified [OF this [unfolded still_write_def]] r
  show ?thesis by (auto simp: still_write_def split: sum.split_asm)
qed

end
