(* ===== verification/Certify.thy ===== *)
theory Certify
  imports Snapshot "HOL-Library.Sublist"
begin

text \<open>
  Certification of a case: \<open>benchmark/mutation.py\<close> (mutants of the corrected solution), \<open>benchmark/solution.py\<close> (the
  corrected solution) and \<open>benchmark/certify.py\<close> (the ladder of levels). The trees come from a snapshot or from an
  applied patch, which hold no links, so copying them is the overlay on an empty directory. Every execution may behave
  differently: the executor is a parameter of the number of executions before it. \<open>ast.parse\<close> and \<open>ast.unparse\<close> are
  parameters; the syntax tree keeps the operators that are mutated apart and everything else as labelled nodes.
\<close>

section \<open>Mutation sites\<close>

datatype compare_op = CmpEq | CmpNotEq | CmpLt | CmpGtE | CmpGt | CmpLtE | CmpIs | CmpIsNot | CmpIn | CmpNotIn

datatype arith_op = ArAdd | ArSub | ArMult | ArDiv | ArOther string

datatype py_tree =
    Compare "compare_op list" "py_tree list"
  | BoolOp bool "py_tree list"
  | BinOp arith_op "py_tree list"
  | BoolConst bool
  | Other_tree string "py_tree list"

fun COMPARE_SWAP :: "compare_op \<Rightarrow> compare_op" where
  "COMPARE_SWAP CmpEq = CmpNotEq"
| "COMPARE_SWAP CmpNotEq = CmpEq"
| "COMPARE_SWAP CmpLt = CmpGtE"
| "COMPARE_SWAP CmpGtE = CmpLt"
| "COMPARE_SWAP CmpGt = CmpLtE"
| "COMPARE_SWAP CmpLtE = CmpGt"
| "COMPARE_SWAP CmpIs = CmpIsNot"
| "COMPARE_SWAP CmpIsNot = CmpIs"
| "COMPARE_SWAP CmpIn = CmpNotIn"
| "COMPARE_SWAP CmpNotIn = CmpIn"

text \<open>In \<open>BoolOp\<close> the flag says whether the operator is \<open>and\<close>; \<open>_BOOLOP_SWAP\<close> negates it.\<close>

fun ARITH_SWAP :: "arith_op \<Rightarrow> arith_op option" where
  "ARITH_SWAP ArAdd = Some ArSub"
| "ARITH_SWAP ArSub = Some ArAdd"
| "ARITH_SWAP ArMult = Some ArDiv"
| "ARITH_SWAP ArDiv = Some ArMult"
| "ARITH_SWAP (ArOther _) = None"

fun sub_trees :: "py_tree \<Rightarrow> py_tree list" where
  "sub_trees (Compare _ ts) = ts"
| "sub_trees (BoolOp _ ts) = ts"
| "sub_trees (BinOp _ ts) = ts"
| "sub_trees (BoolConst _) = []"
| "sub_trees (Other_tree _ ts) = ts"

fun is_site :: "py_tree \<Rightarrow> bool" where
  "is_site (Compare ops _) \<longleftrightarrow> length ops = 1"
| "is_site (BoolOp _ _) \<longleftrightarrow> True"
| "is_site (BinOp op _) \<longleftrightarrow> ARITH_SWAP op \<noteq> None"
| "is_site (BoolConst _) \<longleftrightarrow> True"
| "is_site (Other_tree _ _) \<longleftrightarrow> False"

text \<open>\<open>_apply\<close>, on the node of a site.\<close>

fun flip_site :: "py_tree \<Rightarrow> py_tree" where
  "flip_site (Compare ops ts) = Compare (map COMPARE_SWAP ops) ts"
| "flip_site (BoolOp is_and ts) = BoolOp (\<not> is_and) ts"
| "flip_site (BinOp op ts) = BinOp (case ARITH_SWAP op of None \<Rightarrow> op | Some op' \<Rightarrow> op') ts"
| "flip_site (BoolConst b) = BoolConst (\<not> b)"
| "flip_site (Other_tree l ts) = Other_tree l ts"

text \<open>\<open>ast.walk\<close> with the place of each node: the indices of the children that lead to it.\<close>

type_synonym place = "nat list"

lemma sum_sub_trees: "sum_list (map (\<lambda>s. Suc (size s)) (sub_trees t)) < Suc (size t)"
  by (cases t) (auto simp: size_list_conv_sum_list sum_list_Suc)

lemma sum_placed: "sum_list (map (\<lambda>x. f (snd x)) (map (\<lambda>(i, s). (p @ [i], s)) xs)) = sum_list (map f (map snd xs))"
  by (induction xs) auto

function walk_places :: "(place \<times> py_tree) list \<Rightarrow> (place \<times> py_tree) list" where
  "walk_places [] = []"
| "walk_places ((p, t) # todo) =
     (p, t) # walk_places (todo @ map (\<lambda>(i, s). (p @ [i], s)) (enum_list (sub_trees t)))"
  by pat_completeness auto

termination
proof (relation "measure (\<lambda>todo. sum_list (map (\<lambda>x. Suc (size (snd x))) todo))")
  fix p and t :: py_tree and todo :: "(place \<times> py_tree) list"
  have "sum_list (map (\<lambda>x. Suc (size (snd x))) (map (\<lambda>(i, s). (p @ [i], s)) (enum_list (sub_trees t)))) < Suc (size t)"
    unfolding sum_placed [of "\<lambda>s. Suc (size s)"] map_snd_enum_list by (rule sum_sub_trees)
  then show "(todo @ map (\<lambda>(i, s). (p @ [i], s)) (enum_list (sub_trees t)), (p, t) # todo)
      \<in> measure (\<lambda>todo. sum_list (map (\<lambda>x. Suc (size (snd x))) todo))"
    by (simp del: map_map)
qed simp

declare walk_places.simps [simp del]

definition eligible_sites :: "py_tree \<Rightarrow> (place \<times> py_tree) list" where
  "eligible_sites tree = filter (\<lambda>x. is_site (snd x)) (walk_places [([], tree)])"

fun set_sub_trees :: "py_tree list \<Rightarrow> py_tree \<Rightarrow> py_tree" where
  "set_sub_trees ts (Compare ops _) = Compare ops ts"
| "set_sub_trees ts (BoolOp is_and _) = BoolOp is_and ts"
| "set_sub_trees ts (BinOp op _) = BinOp op ts"
| "set_sub_trees ts (BoolConst b) = BoolConst b"
| "set_sub_trees ts (Other_tree l _) = Other_tree l ts"

text \<open>The assignment to a field of the node that is found at a place of the copy.\<close>

fun edit_at :: "place \<Rightarrow> py_tree \<Rightarrow> py_tree" where
  "edit_at [] t = flip_site t"
| "edit_at (i # p) t =
     (if i < length (sub_trees t) then set_sub_trees ((sub_trees t)[i := edit_at p (sub_trees t ! i)]) t else t)"

fun compare_name :: "compare_op \<Rightarrow> string" where
  "compare_name CmpEq = ''Eq''"
| "compare_name CmpNotEq = ''NotEq''"
| "compare_name CmpLt = ''Lt''"
| "compare_name CmpGtE = ''GtE''"
| "compare_name CmpGt = ''Gt''"
| "compare_name CmpLtE = ''LtE''"
| "compare_name CmpIs = ''Is''"
| "compare_name CmpIsNot = ''IsNot''"
| "compare_name CmpIn = ''In''"
| "compare_name CmpNotIn = ''NotIn''"

fun arith_name :: "arith_op \<Rightarrow> string" where
  "arith_name ArAdd = ''Add''"
| "arith_name ArSub = ''Sub''"
| "arith_name ArMult = ''Mult''"
| "arith_name ArDiv = ''Div''"
| "arith_name (ArOther n) = n"

definition bool_op_name :: "bool \<Rightarrow> string" where
  "bool_op_name is_and = (if is_and then ''And'' else ''Or'')"

definition bool_name :: "bool \<Rightarrow> string" where
  "bool_name b = (if b then ''True'' else ''False'')"

text \<open>The description that \<open>_apply\<close> returns.\<close>

fun describe_flip :: "py_tree \<Rightarrow> string" where
  "describe_flip (Compare ops _) = ''compare '' @ compare_name (hd ops) @ '' -> '' @ compare_name (COMPARE_SWAP (hd ops))"
| "describe_flip (BoolOp is_and _) = ''boolop '' @ bool_op_name is_and @ '' -> '' @ bool_op_name (\<not> is_and)"
| "describe_flip (BinOp op _) = ''arith '' @ arith_name op @ '' -> ''
     @ (case ARITH_SWAP op of None \<Rightarrow> [] | Some op' \<Rightarrow> arith_name op')"
| "describe_flip (BoolConst b) = ''const bool -> '' @ bool_name (\<not> b)"
| "describe_flip (Other_tree _ _) = []"

text \<open>A mutant with the place that was edited, which the code leaves implicit.\<close>

record mutant =
  mu_place :: place
  mu_description :: string
  mu_source :: string

record mutation_tools =
  mt_parse :: "string \<Rightarrow> py_tree option"
  mt_unparse :: "py_tree \<Rightarrow> string option"

definition make_mutant :: "mutation_tools \<Rightarrow> string \<Rightarrow> py_tree \<Rightarrow> nat \<Rightarrow> mutant list" where
  "make_mutant mt source tree index =
     (let (place, node) = eligible_sites tree ! index in
      case mt_unparse mt (edit_at place tree) of
        None \<Rightarrow> []
      | Some mutated \<Rightarrow>
          if py_strip mutated \<noteq> [] \<and> mutated \<noteq> source
          then [\<lparr>mu_place = place, mu_description = describe_flip node, mu_source = mutated\<rparr>] else [])"

definition generate_mutants :: "mutation_tools \<Rightarrow> string \<Rightarrow> nat \<Rightarrow> mutant list" where
  "generate_mutants mt source limit =
     (case mt_parse mt source of
        None \<Rightarrow> []
      | Some tree \<Rightarrow>
          concat (map (make_mutant mt source tree) [0 ..< min (length (eligible_sites tree)) limit]))"

section \<open>A mutant is one edit\<close>

fun at_place :: "place \<Rightarrow> py_tree \<Rightarrow> py_tree option" where
  "at_place [] t = Some t"
| "at_place (i # p) t = (if i < length (sub_trees t) then at_place p (sub_trees t ! i) else None)"

lemma at_place_append: "at_place (p @ q) t = Option.bind (at_place p t) (at_place q)"
  by (induction p t rule: at_place.induct) auto

lemma swap_swap: "COMPARE_SWAP (COMPARE_SWAP op) = op" "COMPARE_SWAP op \<noteq> op"
  by (cases op; simp)+

lemma arith_swap_swap: "ARITH_SWAP op = Some op' \<Longrightarrow> ARITH_SWAP op' = Some op \<and> op' \<noteq> op"
  by (cases op) auto

lemma flip_flip: "flip_site (flip_site t) = t"
  by (cases t) (auto simp: swap_swap comp_def dest: arith_swap_swap split: option.split)

lemma flip_differs: "is_site t \<Longrightarrow> flip_site t \<noteq> t"
  by (cases t) (auto simp: length_Suc_conv swap_swap dest: arith_swap_swap)

lemma sub_trees_set:
  "length ts = length (sub_trees t) \<Longrightarrow> sub_trees (set_sub_trees ts t) = ts"
  "set_sub_trees us (set_sub_trees ts t) = set_sub_trees us t" "set_sub_trees (sub_trees t) t = t"
  by (cases t; simp)+

lemma edit_edit: "edit_at p (edit_at p t) = t"
  by (induction p t rule: edit_at.induct) (auto simp: flip_flip sub_trees_set)

lemma edit_differs: "at_place p t = Some n \<Longrightarrow> is_site n \<Longrightarrow> edit_at p t \<noteq> t"
proof (induction p t rule: edit_at.induct)
  case (2 i p t)
  show ?case
  proof
    assume same: "edit_at (i # p) t = t"
    have i: "i < length (sub_trees t)" using 2(2) by (simp split: if_split_asm)
    have "sub_trees (edit_at (i # p) t) ! i = edit_at p (sub_trees t ! i)" using i by (simp add: sub_trees_set)
    then show False using 2 same i by simp
  qed
qed (simp add: flip_differs)

text \<open>No place of the queue leads to another one.\<close>

definition apart :: "place list \<Rightarrow> bool" where
  "apart ps \<longleftrightarrow> sorted_wrt (\<lambda>p q. \<not> prefix p q \<and> \<not> prefix q p) ps"

lemma apart_children:
  assumes "apart (p # ps)"
  shows "apart (ps @ map (\<lambda>i. p @ [i]) [0 ..< n])"
proof -
  have "sorted_wrt (\<lambda>p q. \<not> prefix p q \<and> \<not> prefix q p) (map (\<lambda>i. p @ [i]) [0 ..< n])"
    by (auto simp: sorted_wrt_iff_nth_less)
  then show ?thesis using assms by (auto simp: apart_def sorted_wrt_append dest: append_prefixD)
qed

lemma map_fst_placed: "map fst (map (\<lambda>(i, s). (p @ [i], s)) xs) = map (\<lambda>i. p @ [i]) (map fst xs)"
  by (induction xs) auto

lemma walk_places_apart:
  "apart (map fst todo) \<Longrightarrow>
     distinct (map fst (walk_places todo))
     \<and> (\<forall>x \<in> set (walk_places todo). \<exists>y \<in> set todo. prefix (fst y) (fst x))"
proof (induction todo rule: walk_places.induct)
  case (2 p t todo)
  let ?children = "map (\<lambda>(i, s). (p @ [i], s)) (enum_list (sub_trees t))"
  have fst_children: "map fst ?children = map (\<lambda>i. p @ [i]) [0 ..< length (sub_trees t)]"
    unfolding map_fst_placed map_fst_enum_list ..
  have ap: "apart (map fst (todo @ ?children))"
    using apart_children [OF 2(2) [unfolded list.map fst_conv]] unfolding map_append fst_children .
  note ih = 2(1) [OF ap]
  have later: "\<exists>y \<in> set ((p, t) # todo). prefix (fst y) (fst x)" and new: "fst x \<noteq> p"
    if member: "x \<in> set (walk_places (todo @ ?children))" for x
  proof -
    obtain y where y: "y \<in> set (todo @ ?children)" "prefix (fst y) (fst x)"
      using bspec [OF conjunct2 [OF ih] member] by blast
    show "\<exists>y \<in> set ((p, t) # todo). prefix (fst y) (fst x)"
    proof (cases "y \<in> set todo")
      case False
      then obtain i where "fst y = p @ [i]" using y(1) by auto
      then show ?thesis using y(2) by (auto dest: append_prefixD)
    qed (use y(2) in auto)
    show "fst x \<noteq> p"
    proof (cases "y \<in> set todo")
      case True
      then have "\<not> prefix (fst y) p" using 2(2) by (simp add: apart_def)
      then show ?thesis using y(2) by blast
    next
      case False
      then obtain i where "fst y = p @ [i]" using y(1) by auto
      then show ?thesis using y(2) by auto
    qed
  qed
  show ?case using ih later new unfolding walk_places.simps by auto
qed (simp add: walk_places.simps)

lemma walk_places_at:
  "\<forall>x \<in> set todo. at_place (fst x) tree = Some (snd x) \<Longrightarrow>
     \<forall>x \<in> set (walk_places todo). at_place (fst x) tree = Some (snd x)"
proof (induction todo rule: walk_places.induct)
  case (2 p t todo)
  have "\<forall>x \<in> set (todo @ map (\<lambda>(i, s). (p @ [i], s)) (enum_list (sub_trees t))). at_place (fst x) tree = Some (snd x)"
    using 2(2) by (auto simp: at_place_append set_enum_list)
  then show ?case using 2 unfolding walk_places.simps by auto
qed (simp add: walk_places.simps)

lemma eligible_sites_at:
  assumes "x \<in> set (eligible_sites tree)"
  shows "at_place (fst x) tree = Some (snd x) \<and> is_site (snd x)"
  using assms walk_places_at [of "[([], tree)]" tree] by (auto simp: eligible_sites_def)

lemma distinct_eligible_sites: "distinct (map fst (eligible_sites tree))"
  using walk_places_apart [of "[([], tree)]"]
  by (auto simp: eligible_sites_def apart_def distinct_map intro: inj_on_subset)

lemma make_mutant_cases:
  "make_mutant mt source tree i = [] \<or>
     (\<exists>m. make_mutant mt source tree i = [m] \<and> mu_place m = fst (eligible_sites tree ! i)
        \<and> mt_unparse mt (edit_at (mu_place m) tree) = Some (mu_source m)
        \<and> py_strip (mu_source m) \<noteq> [] \<and> mu_source m \<noteq> source)"
  by (auto simp: make_mutant_def split: option.split prod.split)

lemma mutant_places:
  assumes "xs \<subseteq> {..< length (eligible_sites tree)}" "distinct is" "set is = xs"
  shows "distinct (map mu_place (concat (map (make_mutant mt source tree) is)))"
  using assms
proof (induction "is" arbitrary: xs)
  case (Cons i js)
  have other: "fst (eligible_sites tree ! i) \<noteq> fst (eligible_sites tree ! j)" if "j \<in> set js" for j
  proof -
    have "i < length (eligible_sites tree)" "j < length (eligible_sites tree)" "i \<noteq> j" using Cons.prems that by auto
    then show ?thesis using nth_eq_iff_index_eq [OF distinct_eligible_sites [of tree], of i j] by simp
  qed
  have placed: "mu_place m \<in> (\<lambda>j. fst (eligible_sites tree ! j)) ` set js"
    if member: "m \<in> set (concat (map (make_mutant mt source tree) js))" for m
  proof -
    obtain j where "j \<in> set js" "m \<in> set (make_mutant mt source tree j)" using member by auto
    then show ?thesis using make_mutant_cases [of mt source tree j] by auto
  qed
  have distinct_rest: "distinct (map mu_place (concat (map (make_mutant mt source tree) js)))"
    by (rule Cons.IH [OF _ _ refl]) (use Cons.prems in auto)
  have new: "fst (eligible_sites tree ! i) \<notin> set (map mu_place (concat (map (make_mutant mt source tree) js)))"
  proof
    assume "fst (eligible_sites tree ! i) \<in> set (map mu_place (concat (map (make_mutant mt source tree) js)))"
    then obtain m where m: "m \<in> set (concat (map (make_mutant mt source tree) js))"
      "fst (eligible_sites tree ! i) = mu_place m" unfolding set_map by blast
    then obtain j where "j \<in> set js" "fst (eligible_sites tree ! i) = fst (eligible_sites tree ! j)"
      using placed [OF m(1)] m(2) by auto
    then show False using other by blast
  qed
  show ?case
  proof (cases "make_mutant mt source tree i")
    case (Cons m ms)
    then have "ms = []" "mu_place m = fst (eligible_sites tree ! i)" using make_mutant_cases [of mt source tree i] by auto
    then show ?thesis using new distinct_rest Cons by simp
  qed (use distinct_rest in simp)
qed simp

text \<open>
  C40: every mutant is one wrong operator away from the solution: it is the printed tree with exactly one site flipped, which
  is another tree, and flipping the site again gives the solution back; different mutants flip different sites; there are
  at most as many as the limit allows.
\<close>

theorem mutants_are_single_edits:
  assumes "mt_parse mt source = Some tree"
  shows "(\<forall>m \<in> set (generate_mutants mt source limit).
        \<exists>site. at_place (mu_place m) tree = Some site \<and> is_site site
          \<and> mt_unparse mt (edit_at (mu_place m) tree) = Some (mu_source m) \<and> mu_source m \<noteq> source
          \<and> edit_at (mu_place m) tree \<noteq> tree \<and> edit_at (mu_place m) (edit_at (mu_place m) tree) = tree)
     \<and> distinct (map mu_place (generate_mutants mt source limit))
     \<and> length (generate_mutants mt source limit) \<le> min limit (length (eligible_sites tree))"
proof -
  let ?is = "[0 ..< min (length (eligible_sites tree)) limit]"
  have g: "generate_mutants mt source limit = concat (map (make_mutant mt source tree) ?is)"
    by (simp add: generate_mutants_def assms)
  have "\<exists>site. at_place (mu_place m) tree = Some site \<and> is_site site
      \<and> mt_unparse mt (edit_at (mu_place m) tree) = Some (mu_source m) \<and> mu_source m \<noteq> source"
    if "m \<in> set (generate_mutants mt source limit)" for m
  proof -
    obtain i where i: "i < length (eligible_sites tree)" "m \<in> set (make_mutant mt source tree i)"
      using \<open>m \<in> set (generate_mutants mt source limit)\<close> by (auto simp: g)
    show ?thesis
      using i make_mutant_cases [of mt source tree i] eligible_sites_at [OF nth_mem [OF i(1)]] by auto
  qed
  moreover have "distinct (map mu_place (generate_mutants mt source limit))"
    unfolding g by (rule mutant_places [OF _ _ refl]) auto
  moreover have "length (concat (map (make_mutant mt source tree) is)) \<le> length is" for "is"
  proof (induction "is")
    case (Cons i js)
    have "length (make_mutant mt source tree i) \<le> 1" using make_mutant_cases [of mt source tree i] by auto
    then show ?case using Cons by simp
  qed simp
  then have "length (generate_mutants mt source limit) \<le> min limit (length (eligible_sites tree))"
    unfolding g by (metis diff_zero length_upt min.commute)
  ultimately show ?thesis using edit_edit edit_differs by blast
qed

text \<open>A concrete solution: one comparison, one constant, and the \<open>\<le>\<close> of a chain that is no site.\<close>

definition toy_syntax :: py_tree where
  "toy_syntax = BoolOp True [Compare [CmpLt] [Other_tree ''a'' [], BoolConst True],
     Compare [CmpLt, CmpLtE] [Other_tree ''a'' [], Other_tree ''b'' [], Other_tree ''c'' []]]"

fun toy_print :: "py_tree \<Rightarrow> string" where
  "toy_print (Compare ops ts) = ''('' @ concat (map compare_name ops) @ concat (map toy_print ts) @ '')''"
| "toy_print (BoolOp is_and ts) = ''('' @ bool_op_name is_and @ concat (map toy_print ts) @ '')''"
| "toy_print (BinOp op ts) = ''('' @ arith_name op @ concat (map toy_print ts) @ '')''"
| "toy_print (BoolConst b) = bool_name b"
| "toy_print (Other_tree l ts) = l @ concat (map toy_print ts)"

definition toy_tools :: mutation_tools where
  "toy_tools = \<lparr>mt_parse = (\<lambda>s. if s = ''y'' then Some toy_syntax else None), mt_unparse = (\<lambda>t. Some (toy_print t))\<rparr>"

lemma toy_mutants:
  "map mu_place (generate_mutants toy_tools ''y'' 25) = [[], [0], [0, 1]]"
  "map mu_description (generate_mutants toy_tools ''y'' 25)
     = [''boolop And -> Or'', ''compare Lt -> GtE'', ''const bool -> False'']"
  by code_simp+

theorem mutants_are_single_edits_witness:
  "\<exists>m \<in> set (generate_mutants toy_tools ''y'' 25). mu_place m = [0, 1]
     \<and> at_place [0, 1] toy_syntax = Some (BoolConst True)
     \<and> edit_at (mu_place m) toy_syntax \<noteq> toy_syntax
     \<and> edit_at (mu_place m) (edit_at (mu_place m) toy_syntax) = toy_syntax"
proof -
  have "mt_parse toy_tools ''y'' = Some toy_syntax" by (simp add: toy_tools_def)
  note single = conjunct1 [OF mutants_are_single_edits [OF this, of 25]]
  have "[0, 1] \<in> set (map mu_place (generate_mutants toy_tools ''y'' 25))" unfolding toy_mutants by simp
  then obtain m where m: "m \<in> set (generate_mutants toy_tools ''y'' 25)" "mu_place m = [0, 1]" by auto
  moreover have "at_place [0, 1] toy_syntax = Some (BoolConst True)" by (simp add: toy_syntax_def)
  ultimately show ?thesis using bspec [OF single m(1)] by blast
qed

section \<open>The corrected solution\<close>

record certify_world =
  ce_executor :: "nat \<Rightarrow> executor_env"
  ce_git :: git_context
  ce_sha256 :: "string \<Rightarrow> string"
  ce_codec :: text_codec
  ce_tools :: mutation_tools
  ce_workspace :: "nat \<Rightarrow> string"

datatype certify_error =
    Run_failed case_error | Patch_unreadable input_error | Patch_raised tx_error
  | Solution_unreadable input_error | No_after_dir

definition after_dir_of :: "benchmark_case \<Rightarrow> node \<Rightarrow> node option" where
  "after_dir_of c tree = node_path (in_after_dir (case_input_of c)) tree"

definition fixed_solution :: "certify_world \<Rightarrow> benchmark_case \<Rightarrow> node \<Rightarrow> (certify_error, node option) res" where
  "fixed_solution w c tree =
     (case after_dir_of c tree of
        None \<Rightarrow> Inl No_after_dir
      | Some after \<Rightarrow>
          let reference = node_path REFERENCE_PATCH_FILENAME tree in
          if \<not> is_regular_at reference then Inr (Some after)
          else and_then (raise_as Patch_unreadable (load_reference_patch (ce_codec w) reference)) (\<lambda>patch.
            case apply_patch (ce_git w) (ce_sha256 w) after patch (protected_of c) None (of_nat GIT_TIMEOUT_SECONDS) of
              (Inl e, _) \<Rightarrow> Inl (Patch_raised e)
            | (Inr result, destination) \<Rightarrow> Inr (if gp_applied result then destination else None)))"

section \<open>Running the tests of a case\<close>

definition certify_request :: "certify_world \<Rightarrow> nat \<Rightarrow> benchmark_case \<Rightarrow> test_command \<Rightarrow> bool \<Rightarrow> test_request" where
  "certify_request w n c command allow_local =
     \<lparr>tq_case_id = case_id c, tq_workspace_path = ce_workspace w n, tq_test_command = command,
      tq_timeout_seconds = ex_timeout_seconds (case_execution c),
      tq_docker_image = ex_docker_image (case_execution c), tq_allow_local_execution = allow_local,
      tq_readonly_paths = []\<rparr>"

definition execute_in ::
  "certify_world \<Rightarrow> nat \<Rightarrow> benchmark_case \<Rightarrow> node \<Rightarrow> node \<Rightarrow> test_command \<Rightarrow> bool
   \<Rightarrow> (certify_error, test_execution_result) res" where
  "execute_in w n c tree workspace command allow_local =
     and_then (raise_as Run_failed (place_tests c tree (Some workspace))) (\<lambda>ready.
       case execute (ce_executor w n) (certify_request w n c command allow_local) ready of
         (Inl e, _) \<Rightarrow> Inl (Run_failed (CommandNotRun e))
       | (Inr result, _) \<Rightarrow> Inr result)"

definition copied_into :: "node \<Rightarrow> node \<Rightarrow> (certify_error, node) res" where
  "copied_into source workspace = raise_as (\<lambda>e. Run_failed (CopyFailed e)) (overlay source (Some workspace))"

text \<open>\<open>_run_tests_in\<close>, as the execution that comes after \<open>n\<close> others.\<close>

definition run_tests_in ::
  "certify_world \<Rightarrow> nat \<Rightarrow> benchmark_case \<Rightarrow> node \<Rightarrow> node option \<Rightarrow> bool
   \<Rightarrow> (certify_error, test_execution_result option) res" where
  "run_tests_in w n c tree source allow_local =
     (case source of
        None \<Rightarrow> Inr None
      | Some s \<Rightarrow>
          if \<not> is_dir_like s \<or> \<not> command_given (ex_test_command (case_execution c)) then Inr None
          else and_then (copied_into s (Dir [])) (\<lambda>workspace.
            and_then (execute_in w n c tree workspace (the (ex_test_command (case_execution c))) allow_local)
              (\<lambda>result. Inr (Some result))))"

section \<open>The mutation gate\<close>

record mutation_result =
  mr_total :: nat
  mr_killed :: nat
  mr_survivors :: "string list"

definition kill_rate :: "mutation_result \<Rightarrow> rat option" where
  "kill_rate mr = (if mr_total mr = 0 then None else Some (of_nat (mr_killed mr) / of_nat (mr_total mr)))"

text \<open>Writing to a file that is there keeps its mode and links.\<close>

fun put_bytes :: "string list \<Rightarrow> string \<Rightarrow> node \<Rightarrow> node" where
  "put_bytes [] bytes (File _ executable links) = File bytes executable links"
| "put_bytes (c # cs) bytes (Dir es) =
     Dir (map (\<lambda>(name, n). (name, if name = c then put_bytes cs bytes n else n)) es)"
| "put_bytes _ _ n = n"

definition mutation_command :: "benchmark_case \<Rightarrow> test_command" where
  "mutation_command c =
     (if command_given (ex_test_command (case_execution c)) then the (ex_test_command (case_execution c))
      else CommandString ''pytest -q'')"

definition count_mutant :: "mutant \<Rightarrow> test_execution_result \<Rightarrow> mutation_result \<Rightarrow> mutation_result" where
  "count_mutant m result mr =
     (if \<not> te_ran result then mr
      else if \<not> te_passed result then mr\<lparr>mr_total := mr_total mr + 1, mr_killed := mr_killed mr + 1\<rparr>
      else mr\<lparr>mr_total := mr_total mr + 1, mr_survivors := mr_survivors mr @ [mu_description m]\<rparr>)"

definition mutation_step ::
  "certify_world \<Rightarrow> benchmark_case \<Rightarrow> node \<Rightarrow> node \<Rightarrow> string \<Rightarrow> bool \<Rightarrow> mutant \<Rightarrow> nat \<times> mutation_result
   \<Rightarrow> (certify_error, nat \<times> mutation_result) res" where
  "mutation_step w c tree fixed bug_path allow_local m = (\<lambda>(n, mr).
     and_then (copied_into fixed (Dir [])) (\<lambda>copy.
       and_then (execute_in w n c tree (put_bytes (split_on CHR ''/'' bug_path) (utf8_encode (mu_source m)) copy)
                   (mutation_command c) allow_local) (\<lambda>result.
         Inr (n + 1, count_mutant m result mr))))"

definition run_mutation_test ::
  "certify_world \<Rightarrow> nat \<Rightarrow> benchmark_case \<Rightarrow> node \<Rightarrow> bool \<Rightarrow> nat \<Rightarrow> (certify_error, nat \<times> mutation_result) res" where
  "run_mutation_test w n c tree allow_local limit =
     (let bug_path = gf_path (hd (bug_files (primary_bug (case_ground_truth c))));
          nothing = \<lparr>mr_total = 0, mr_killed = 0, mr_survivors = []\<rparr> in
      and_then (fixed_solution w c tree) (\<lambda>fixed.
        case fixed of
          None \<Rightarrow> Inr (n, nothing)
        | Some solution \<Rightarrow>
            if \<not> is_regular_at (node_path bug_path solution) then Inr (n, nothing)
            else and_then (raise_as Solution_unreadable
                     (read_text_bounded (ce_codec w) (node_path bug_path solution) PACK_FILE_BYTES)) (\<lambda>source.
              fold_res (mutation_step w c tree solution bug_path allow_local)
                (generate_mutants (ce_tools w) source limit) (n, nothing))))"

section \<open>The ladder\<close>

datatype level = Draft | Development | Certified | Verified

fun level_index :: "level \<Rightarrow> nat" where
  "level_index Draft = 0"
| "level_index Development = 1"
| "level_index Certified = 2"
| "level_index Verified = 3"

instantiation level :: linorder
begin

definition less_eq_level :: "level \<Rightarrow> level \<Rightarrow> bool" where
  "less_eq_level a b \<longleftrightarrow> level_index a \<le> level_index b"

definition less_level :: "level \<Rightarrow> level \<Rightarrow> bool" where
  "less_level a b \<longleftrightarrow> level_index a < level_index b"

instance
proof
  fix a b :: level
  show "a \<le> b \<Longrightarrow> b \<le> a \<Longrightarrow> a = b"
    by (cases a; cases b) (simp_all add: less_eq_level_def)
qed (auto simp: less_eq_level_def less_level_def)

end

record case_certification =
  cc_case_id :: string
  cc_executable :: bool
  cc_executed :: bool
  cc_baseline_fails :: "bool option"
  cc_reference_passes :: "bool option"
  cc_mutant_total :: nat
  cc_mutant_kill_rate :: "rat option"
  cc_determinism_runs :: nat
  cc_deterministic :: "bool option"

definition CERTIFIED_KILL_RATE :: rat where "CERTIFIED_KILL_RATE = 1 / 2"

definition mutation_adequate :: "case_certification \<Rightarrow> bool" where
  "mutation_adequate cc \<longleftrightarrow>
     (if cc_mutant_total cc = 0 then True
      else case cc_mutant_kill_rate cc of None \<Rightarrow> False | Some r \<Rightarrow> r \<ge> CERTIFIED_KILL_RATE)"

definition is_certified :: "case_certification \<Rightarrow> bool" where
  "is_certified cc \<longleftrightarrow>
     cc_executable cc \<and> cc_baseline_fails cc = Some True \<and> cc_reference_passes cc = Some True \<and> mutation_adequate cc"

definition cc_level :: "case_certification \<Rightarrow> level" where
  "cc_level cc =
     (if \<not> cc_executable cc then Draft
      else if \<not> is_certified cc then Development
      else if cc_deterministic cc = Some True then Verified else Certified)"

definition pack_level :: "case_certification list \<Rightarrow> level" where
  "pack_level cases =
     (let executable = filter cc_executable cases in
      if executable = [] then Draft else Min (cc_level ` set executable))"

text \<open>\<open>_is_pytest_command\<close>; \<open>index\<close> finds the first \<open>-m\<close>.\<close>

definition runs_pytest :: "string list \<Rightarrow> bool" where
  "runs_pytest argv \<longleftrightarrow>
     argv \<noteq> []
     \<and> (posix_name (hd argv) = ''pytest''
        \<or> posix_name (hd argv) \<in> {''python'', ''python3''}
          \<and> (case dropWhile (\<lambda>a. a \<noteq> ''-m'') argv of _ # follower # _ \<Rightarrow> follower = ''pytest'' | _ \<Rightarrow> False))"

definition is_pytest_command :: "test_command option \<Rightarrow> bool" where
  "is_pytest_command command =
     (case command of
        None \<Rightarrow> False
      | Some _ \<Rightarrow>
          (case parse_test_commands command of
             Inl _ \<Rightarrow> False
           | Inr commands \<Rightarrow> list_ex runs_pytest commands))"

definition PYTEST_GENUINE_FAILURE :: int where "PYTEST_GENUINE_FAILURE = 1"

definition baseline_fails :: "bool \<Rightarrow> test_execution_result option \<Rightarrow> bool" where
  "baseline_fails pytest_command r =
     (case r of
        None \<Rightarrow> False
      | Some result \<Rightarrow>
          if \<not> (te_ran result \<and> \<not> te_timed_out result \<and> \<not> te_passed result) then False
          else if pytest_command then te_exit_code result = Some PYTEST_GENUINE_FAILURE else True)"

definition reference_passes :: "test_execution_result option \<Rightarrow> bool" where
  "reference_passes r = (case r of None \<Rightarrow> False | Some result \<Rightarrow> te_ran result \<and> te_passed result)"

text \<open>An execution is counted when there was something to execute.\<close>

definition executions :: "test_execution_result option \<Rightarrow> nat" where
  "executions r = (case r of None \<Rightarrow> 0 | Some _ \<Rightarrow> 1)"

text \<open>The loops of \<open>_check_determinism\<close>: the first run whose verdict differs ends them.\<close>

fun holds_each_run ::
  "(nat \<Rightarrow> (certify_error, test_execution_result option) res) \<Rightarrow> (test_execution_result option \<Rightarrow> bool)
   \<Rightarrow> nat \<Rightarrow> nat \<Rightarrow> (certify_error, nat \<times> bool) res" where
  "holds_each_run run holds 0 n = Inr (n, True)"
| "holds_each_run run holds (Suc runs) n =
     and_then (run n) (\<lambda>r.
       if \<not> holds r then Inr (n + executions r, False)
       else holds_each_run run holds runs (n + executions r))"

definition check_determinism ::
  "certify_world \<Rightarrow> nat \<Rightarrow> benchmark_case \<Rightarrow> node \<Rightarrow> bool \<Rightarrow> nat \<Rightarrow> (certify_error, nat \<times> bool) res" where
  "check_determinism w n c tree allow_local runs =
     and_then (holds_each_run (\<lambda>n. run_tests_in w n c tree (after_dir_of c tree) allow_local)
                 (baseline_fails (is_pytest_command (ex_test_command (case_execution c)))) runs n) (\<lambda>(n, ok).
       if \<not> ok then Inr (n, False)
       else and_then (fixed_solution w c tree) (\<lambda>fixed.
         holds_each_run (\<lambda>n. run_tests_in w n c tree fixed allow_local) reference_passes runs n))"

definition unexecutable :: "benchmark_case \<Rightarrow> case_certification" where
  "unexecutable c =
     \<lparr>cc_case_id = case_id c, cc_executable = False, cc_executed = True, cc_baseline_fails = None,
      cc_reference_passes = None, cc_mutant_total = 0, cc_mutant_kill_rate = None, cc_determinism_runs = 0,
      cc_deterministic = None\<rparr>"

definition graded ::
  "benchmark_case \<Rightarrow> test_execution_result option \<Rightarrow> test_execution_result option \<Rightarrow> mutation_result \<Rightarrow> case_certification" where
  "graded c baseline reference mr =
     (unexecutable c)
       \<lparr>cc_executable := True,
        cc_baseline_fails := Some (baseline_fails (is_pytest_command (ex_test_command (case_execution c))) baseline),
        cc_reference_passes := Some (reference_passes reference),
        cc_mutant_total := mr_total mr, cc_mutant_kill_rate := kill_rate mr\<rparr>"

definition certify_case ::
  "certify_world \<Rightarrow> nat \<Rightarrow> benchmark_case \<Rightarrow> node \<Rightarrow> bool \<Rightarrow> nat \<Rightarrow> nat
   \<Rightarrow> (certify_error, nat \<times> case_certification) res" where
  "certify_case w n c tree allow_local mutation_limit determinism_runs =
     (let e = case_execution c in
      if \<not> ex_run_tests e \<or> \<not> command_given (ex_test_command e) then Inr (n, unexecutable c)
      else and_then (run_tests_in w n c tree (after_dir_of c tree) allow_local) (\<lambda>baseline.
        if baseline = None \<or> \<not> te_ran (the baseline)
        then Inr (n + executions baseline, (unexecutable c)\<lparr>cc_executable := True, cc_executed := False\<rparr>)
        else and_then (fixed_solution w c tree) (\<lambda>fixed.
          and_then (run_tests_in w (n + 1) c tree fixed allow_local) (\<lambda>reference.
            and_then (run_mutation_test w (n + 1 + executions reference) c tree allow_local mutation_limit) (\<lambda>(n, mr).
              let cc = graded c baseline reference mr in if is_certified cc \<and> determinism_runs \<ge> 2
                 then and_then (check_determinism w n c tree allow_local determinism_runs) (\<lambda>(n, ok).
                   Inr (n, cc\<lparr>cc_determinism_runs := determinism_runs, cc_deterministic := Some ok\<rparr>))
                 else Inr (n, cc))))))"

definition certify_cases ::
  "certify_world \<Rightarrow> (benchmark_case \<times> node) list \<Rightarrow> bool \<Rightarrow> nat \<Rightarrow> nat
   \<Rightarrow> (certify_error, nat \<times> case_certification list) res" where
  "certify_cases w cases allow_local mutation_limit determinism_runs =
     fold_res (\<lambda>(c, tree) (n, reports).
       and_then (certify_case w n c tree allow_local mutation_limit determinism_runs) (\<lambda>(n, cc). Inr (n, reports @ [cc])))
       cases (0, [])"

section \<open>What a level means\<close>

lemma verdict_executed:
  "baseline_fails p r \<Longrightarrow> executions r = 1" "reference_passes r \<Longrightarrow> executions r = 1"
  by (auto simp: baseline_fails_def reference_passes_def executions_def split: option.split_asm)

lemma holds_each_run_True:
  assumes "\<And>r. holds r \<Longrightarrow> executions r = 1"
  shows "holds_each_run run holds runs n = Inr (m, True) \<longleftrightarrow>
     m = n + runs \<and> (\<forall>k < runs. \<exists>r. run (n + k) = Inr r \<and> holds r)"
proof (induction runs arbitrary: n)
  case (Suc runs)
  show ?case
  proof (cases "run n")
    case (Inr r)
    have all: "(\<forall>k < Suc runs. \<exists>r. run (n + k) = Inr r \<and> holds r) \<longleftrightarrow>
        holds r \<and> (\<forall>k < runs. \<exists>r. run (Suc n + k) = Inr r \<and> holds r)"
      by (auto simp: All_less_Suc2 Inr)
    show ?thesis using assms [of r] Suc [of "Suc n"] unfolding all by (auto simp: Inr)
  next
    case (Inl e)
    then show ?thesis by (auto intro: exI [of _ 0])
  qed
qed auto

definition mutation_counts :: "mutation_result \<Rightarrow> bool" where
  "mutation_counts mr \<longleftrightarrow> mr_total mr = mr_killed mr + length (mr_survivors mr)"

lemma count_mutant_counts: "mutation_counts mr \<Longrightarrow> mutation_counts (count_mutant m r mr)"
  by (auto simp: mutation_counts_def count_mutant_def)

lemma run_mutation_counts:
  assumes "run_mutation_test w n c tree allow_local limit = Inr (n', mr)"
  shows "mutation_counts mr"
proof -
  have "mutation_counts (snd s')"
    if "fold_res (mutation_step w c tree sol p allow_local) ms (n, \<lparr>mr_total = 0, mr_killed = 0, mr_survivors = []\<rparr>) = Inr s'"
    for sol p ms s'
    using that
  proof (rule fold_res_invariant [where P = "\<lambda>s. mutation_counts (snd s)"])
    show "mutation_counts (snd s')" if "mutation_counts (snd s)" "mutation_step w c tree sol p allow_local m s = Inr s'" for m s s'
      using that by (cases s) (auto simp: mutation_step_def res_simps count_mutant_counts)
  qed (simp add: mutation_counts_def)
  then show ?thesis
    using assms by (force simp: run_mutation_test_def Let_def res_simps mutation_counts_def split: option.split_asm if_split_asm)
qed

lemma adequate_iff:
  assumes "cc_mutant_total cc = mr_total mr" "cc_mutant_kill_rate cc = kill_rate mr"
  shows "mutation_adequate cc \<longleftrightarrow> mr_total mr \<le> 2 * mr_killed mr"
proof (cases "mr_total mr = 0")
  case False
  have "1 / 2 \<le> (of_nat (mr_killed mr) / of_nat (mr_total mr) :: rat) \<longleftrightarrow>
      (of_nat (mr_total mr) :: rat) \<le> of_nat (2 * mr_killed mr)"
    using False by (simp add: field_simps)
  then show ?thesis
    using False by (simp add: assms mutation_adequate_def kill_rate_def CERTIFIED_KILL_RATE_def del: of_nat_mult)
qed (simp add: assms mutation_adequate_def)

text \<open>What has to happen for a case to be certified, from execution \<open>n\<close> on; the mutants end before \<open>m\<close>.\<close>

definition certified_by ::
  "certify_world \<Rightarrow> nat \<Rightarrow> benchmark_case \<Rightarrow> node \<Rightarrow> bool \<Rightarrow> nat \<Rightarrow> node \<Rightarrow> nat \<Rightarrow> bool" where
  "certified_by w n c tree allow_local limit solution m \<longleftrightarrow>
     ex_run_tests (case_execution c) \<and> command_given (ex_test_command (case_execution c))
     \<and> (\<exists>r. run_tests_in w n c tree (after_dir_of c tree) allow_local = Inr r
           \<and> baseline_fails (is_pytest_command (ex_test_command (case_execution c))) r)
     \<and> fixed_solution w c tree = Inr (Some solution)
     \<and> (\<exists>r. run_tests_in w (n + 1) c tree (Some solution) allow_local = Inr r \<and> reference_passes r)
     \<and> (\<exists>mr. run_mutation_test w (n + 2) c tree allow_local limit = Inr (m, mr) \<and> mr_total mr \<le> 2 * mr_killed mr)"

lemma level_bounds [simp]: "Certified \<le> l \<longleftrightarrow> l = Certified \<or> l = Verified"
  by (cases l) (simp_all add: less_eq_level_def)

lemma certify_unexecuted:
  assumes "certify_case w n c tree allow_local limit runs = Inr (n', cc)"
    "\<not> (ex_run_tests (case_execution c) \<and> command_given (ex_test_command (case_execution c)))
     \<or> (\<exists>r. run_tests_in w n c tree (after_dir_of c tree) allow_local = Inr r \<and> (r = None \<or> \<not> te_ran (the r)))"
  shows "\<not> is_certified cc \<and> (\<forall>solution m. \<not> certified_by w n c tree allow_local limit solution m)"
  using assms
  by (auto simp: certify_case_def Let_def unexecutable_def is_certified_def certified_by_def res_simps baseline_fails_def
      split: if_split_asm option.split_asm)

lemma graded_fields [simp]:
  "cc_executable (graded c baseline reference mr)" "cc_deterministic (graded c baseline reference mr) = None"
  "cc_baseline_fails (graded c baseline reference mr) =
     Some (baseline_fails (is_pytest_command (ex_test_command (case_execution c))) baseline)"
  "cc_reference_passes (graded c baseline reference mr) = Some (reference_passes reference)"
  "cc_mutant_total (graded c baseline reference mr) = mr_total mr"
  "cc_mutant_kill_rate (graded c baseline reference mr) = kill_rate mr"
  by (simp_all add: graded_def unexecutable_def)

lemma is_certified_graded:
  "is_certified (graded c baseline reference mr) \<longleftrightarrow>
     baseline_fails (is_pytest_command (ex_test_command (case_execution c))) baseline \<and> reference_passes reference
     \<and> mr_total mr \<le> 2 * mr_killed mr"
  by (simp add: is_certified_def adequate_iff [of "graded c baseline reference mr" mr])

lemma is_certified_determinism [simp]:
  "is_certified (x\<lparr>cc_determinism_runs := k, cc_deterministic := d\<rparr>) = is_certified x"
  by (simp add: is_certified_def mutation_adequate_def)

lemma certify_graded:
  assumes "certify_case w n c tree allow_local limit runs = Inr (n', cc)"
    "ex_run_tests (case_execution c)" "command_given (ex_test_command (case_execution c))"
    "run_tests_in w n c tree (after_dir_of c tree) allow_local = Inr (Some base)" "te_ran base"
  obtains fixed reference m mr where "fixed_solution w c tree = Inr fixed"
    "run_tests_in w (n + 1) c tree fixed allow_local = Inr reference"
    "run_mutation_test w (n + 1 + executions reference) c tree allow_local limit = Inr (m, mr)"
    "if is_certified (graded c (Some base) reference mr) \<and> runs \<ge> 2
     then \<exists>ok. check_determinism w m c tree allow_local runs = Inr (n', ok)
       \<and> cc = (graded c (Some base) reference mr)\<lparr>cc_determinism_runs := runs, cc_deterministic := Some ok\<rparr>
     else cc = graded c (Some base) reference mr"
proof -
  obtain fixed reference m mr where steps: "fixed_solution w c tree = Inr fixed"
    "run_tests_in w (n + 1) c tree fixed allow_local = Inr reference"
    "run_mutation_test w (n + 1 + executions reference) c tree allow_local limit = Inr (m, mr)"
    using assms by (auto simp: certify_case_def Let_def res_simps split: if_split_asm)
  have "(if is_certified (graded c (Some base) reference mr) \<and> runs \<ge> 2
      then and_then (check_determinism w m c tree allow_local runs) (\<lambda>(n, ok).
        Inr (n, (graded c (Some base) reference mr)\<lparr>cc_determinism_runs := runs, cc_deterministic := Some ok\<rparr>))
      else Inr (m, graded c (Some base) reference mr)) = Inr (n', cc)"
    using assms(1) unfolding certify_case_def Let_def
    by (simp add: assms(2-5) steps [simplified] split del: if_split)
  then have "if is_certified (graded c (Some base) reference mr) \<and> runs \<ge> 2
     then \<exists>ok. check_determinism w m c tree allow_local runs = Inr (n', ok)
       \<and> cc = (graded c (Some base) reference mr)\<lparr>cc_determinism_runs := runs, cc_deterministic := Some ok\<rparr>
     else cc = graded c (Some base) reference mr"
    by (auto simp: res_simps split: if_split_asm)
  then show thesis using steps that by blast
qed

lemma cc_level_cases:
  "Certified \<le> cc_level cc \<longleftrightarrow> is_certified cc"
  "cc_level cc = Verified \<longleftrightarrow> is_certified cc \<and> cc_deterministic cc = Some True"
  "cc_level cc = Draft \<longleftrightarrow> \<not> cc_executable cc"
  by (auto simp: cc_level_def is_certified_def)

lemma certify_executable:
  "certify_case w n c tree allow_local limit runs = Inr (n', cc) \<Longrightarrow>
     cc_executable cc \<longleftrightarrow> ex_run_tests (case_execution c) \<and> command_given (ex_test_command (case_execution c))"
  by (auto simp: certify_case_def Let_def res_simps unexecutable_def split: if_split_asm)

text \<open>The verdicts that the determinism gate asks for, from execution \<open>m\<close> on.\<close>

definition repeats_hold ::
  "certify_world \<Rightarrow> nat \<Rightarrow> benchmark_case \<Rightarrow> node \<Rightarrow> bool \<Rightarrow> node \<Rightarrow> nat \<Rightarrow> bool" where
  "repeats_hold w m c tree allow_local solution runs \<longleftrightarrow>
     (\<forall>k < runs. \<exists>r. run_tests_in w (m + k) c tree (after_dir_of c tree) allow_local = Inr r
        \<and> baseline_fails (is_pytest_command (ex_test_command (case_execution c))) r)
     \<and> (\<forall>k < runs. \<exists>r. run_tests_in w (m + runs + k) c tree (Some solution) allow_local = Inr r \<and> reference_passes r)"

lemma check_determinism_iff:
  assumes "check_determinism w m c tree allow_local runs = Inr (n', ok)" "fixed_solution w c tree = Inr (Some solution)"
  shows "ok \<longleftrightarrow> repeats_hold w m c tree allow_local solution runs"
proof -
  let ?run = "\<lambda>n. run_tests_in w n c tree (after_dir_of c tree) allow_local"
  let ?fixed = "\<lambda>n. run_tests_in w n c tree (Some solution) allow_local"
  let ?fails = "baseline_fails (is_pytest_command (ex_test_command (case_execution c)))"
  note base = holds_each_run_True [where holds = ?fails and run = ?run and runs = runs and n = m, OF verdict_executed(1)]
  note ref = holds_each_run_True [where holds = reference_passes and run = ?fixed and runs = runs and n = "m + runs",
      OF verdict_executed(2)]
  obtain k base_ok where first: "holds_each_run ?run ?fails runs m = Inr (k, base_ok)"
    using assms(1) by (auto simp: check_determinism_def res_simps)
  show ?thesis
  proof (cases base_ok)
    case True
    then have "k = m + runs" "\<forall>k < runs. \<exists>r. ?run (m + k) = Inr r \<and> ?fails r" using first base [where m = k] by auto
    moreover have "holds_each_run ?fixed reference_passes runs (m + runs) = Inr (n', ok)"
      using assms first True \<open>k = m + runs\<close> by (simp add: check_determinism_def)
    ultimately show ?thesis using ref [where m = n'] ref [where m = "m + runs + runs"] by (cases ok) (auto simp: repeats_hold_def)
  next
    case False
    then have "\<not> ok" using assms(1) first by (simp add: check_determinism_def)
    moreover have "\<not> (\<forall>k < runs. \<exists>r. ?run (m + k) = Inr r \<and> ?fails r)" using first base [where m = "m + runs"] False by auto
    ultimately show ?thesis by (simp add: repeats_hold_def)
  qed
qed

lemma certified_by_iff:
  assumes "ex_run_tests (case_execution c)" "command_given (ex_test_command (case_execution c))"
    "run_tests_in w n c tree (after_dir_of c tree) allow_local = Inr (Some base)"
    "fixed_solution w c tree = Inr fixed" "run_tests_in w (n + 1) c tree fixed allow_local = Inr reference"
    "run_mutation_test w (n + 1 + executions reference) c tree allow_local limit = Inr (m, mr)"
  shows "certified_by w n c tree allow_local limit solution m' \<longleftrightarrow>
     is_certified (graded c (Some base) reference mr) \<and> fixed = Some solution \<and> m' = m"
proof (cases "fixed = Some solution \<and> reference_passes reference")
  case True
  then have "executions reference = 1" by (simp add: verdict_executed)
  then have "run_mutation_test w (n + 2) c tree allow_local limit = Inr (m, mr)" using assms(6) by simp
  then show ?thesis using True assms(1-5) by (auto simp: certified_by_def is_certified_graded)
next
  case False
  then show ?thesis using assms(3-5) by (auto simp: certified_by_def is_certified_graded)
qed

lemma certified_has_solution:
  assumes "is_certified (graded c (Some base) reference mr)" "run_tests_in w k c tree fixed allow_local = Inr reference"
  obtains solution where "fixed = Some solution"
  using assms by (cases fixed) (auto simp: is_certified_graded run_tests_in_def reference_passes_def)

text \<open>
  C38: what a level says. A case is certified, or above, exactly when it has tests to run, the buggy tree fails them (for a
  pytest command with the exit code of a failed test, never by a timeout or an unfinished run), the corrected solution
  passes them, and at least half of the mutants that ran are killed; it is verified exactly when, besides, at least two
  repetitions were asked for and every repetition of the buggy tree failed and of the solution passed, each of which may
  behave differently; it is a draft exactly when it has no tests to run.
\<close>

theorem level_earned:
  assumes "certify_case w n c tree allow_local limit runs = Inr (n', cc)"
  shows "(Certified \<le> cc_level cc \<longleftrightarrow> (\<exists>solution m. certified_by w n c tree allow_local limit solution m))
    \<and> (cc_level cc = Verified \<longleftrightarrow>
         2 \<le> runs \<and> (\<exists>solution m. certified_by w n c tree allow_local limit solution m
                        \<and> repeats_hold w m c tree allow_local solution runs))
    \<and> (cc_level cc = Draft \<longleftrightarrow>
         \<not> (ex_run_tests (case_execution c) \<and> command_given (ex_test_command (case_execution c))))"
proof (cases "\<exists>base. ex_run_tests (case_execution c) \<and> command_given (ex_test_command (case_execution c))
    \<and> run_tests_in w n c tree (after_dir_of c tree) allow_local = Inr (Some base) \<and> te_ran base")
  case True
  then obtain base where base: "ex_run_tests (case_execution c)" "command_given (ex_test_command (case_execution c))"
    "run_tests_in w n c tree (after_dir_of c tree) allow_local = Inr (Some base)" "te_ran base" by blast
  obtain fixed reference m mr where steps: "fixed_solution w c tree = Inr fixed"
    "run_tests_in w (n + 1) c tree fixed allow_local = Inr reference"
    "run_mutation_test w (n + 1 + executions reference) c tree allow_local limit = Inr (m, mr)"
    and ladder: "if is_certified (graded c (Some base) reference mr) \<and> runs \<ge> 2
     then \<exists>ok. check_determinism w m c tree allow_local runs = Inr (n', ok)
       \<and> cc = (graded c (Some base) reference mr)\<lparr>cc_determinism_runs := runs, cc_deterministic := Some ok\<rparr>
     else cc = graded c (Some base) reference mr"
    using certify_graded [OF assms base] by metis
  note iff = certified_by_iff [OF base(1-3) steps]
  show ?thesis
  proof (cases "is_certified (graded c (Some base) reference mr)")
    case True
    obtain solution where solution: "fixed = Some solution" using certified_has_solution [OF True steps(2)] .
    have "cc_deterministic cc = Some True \<longleftrightarrow> 2 \<le> runs \<and> repeats_hold w m c tree allow_local solution runs"
      using ladder True check_determinism_iff steps(1) solution by (auto split: if_split_asm)
    moreover have "is_certified cc" using ladder True by (auto split: if_split_asm)
    ultimately show ?thesis
      unfolding cc_level_cases certify_executable [OF assms] iff using True solution base by auto
  next
    case False
    then have "\<not> is_certified cc" using ladder by simp
    then show ?thesis unfolding cc_level_cases certify_executable [OF assms] iff using False base by simp
  qed
next
  case False
  then have "\<not> is_certified cc \<and> (\<forall>solution m. \<not> certified_by w n c tree allow_local limit solution m)"
  proof (intro certify_unexecuted [OF assms])
    show "\<not> (ex_run_tests (case_execution c) \<and> command_given (ex_test_command (case_execution c)))
     \<or> (\<exists>r. run_tests_in w n c tree (after_dir_of c tree) allow_local = Inr r \<and> (r = None \<or> \<not> te_ran (the r)))"
      using False assms by (cases "run_tests_in w n c tree (after_dir_of c tree) allow_local")
        (auto simp: certify_case_def Let_def split: if_split_asm)
  qed
  then show ?thesis unfolding cc_level_cases certify_executable [OF assms] by blast
qed

section \<open>A case that is verified\<close>

text \<open>The tests of the sample case pass exactly when the file holds \<open>y\<close>, as it does once the reference patch is applied.\<close>

definition graded_executor :: executor_env where
  "graded_executor = (local_executor id)\<lparr>xe_run := (\<lambda>args env timeout n.
     Some (child_ok\<lparr>sv_returncode := Some (if node_path ''a.py'' n = Some (File ''y'' False 1) then 0 else 1)\<rparr>, 5, n))\<rparr>"

definition graded_world :: certify_world where
  "graded_world = \<lparr>ce_executor = (\<lambda>_. graded_executor), ce_git = toy_context, ce_sha256 = (\<lambda>s. s), ce_codec = latin,
     ce_tools = toy_tools, ce_workspace = (\<lambda>_. ''m'')\<rparr>"

definition graded_tree :: node where
  "graded_tree = Dir ((REFERENCE_PATCH_FILENAME, File ''p'' False 1) # entries_of single_tree)"

definition level_of_run :: "nat \<Rightarrow> (certify_error, nat \<times> level \<times> nat) res" where
  "level_of_run runs =
     and_then (certify_case graded_world 0 single_case graded_tree True 25 runs)
       (\<lambda>(n, cc). Inr (n, cc_level cc, cc_mutant_total cc))"

lemma level_of_run: "level_of_run 2 = Inr (9, Verified, 3)"
  by code_simp

theorem level_earned_witness:
  "\<exists>solution m. certified_by graded_world 0 single_case graded_tree True 25 solution m
     \<and> repeats_hold graded_world m single_case graded_tree True solution 2"
proof -
  obtain n cc where run: "certify_case graded_world 0 single_case graded_tree True 25 2 = Inr (n, cc)"
    "cc_level cc = Verified"
    using level_of_run by (auto simp: level_of_run_def res_simps)
  then show ?thesis using level_earned [OF run(1)] by blast
qed

end
