(* ===== verification/Source_Repo.thy ===== *)
theory Source_Repo
  imports Git_Transaction Case_Loader
begin

text \<open>
  The reading half of the historical-fix importer: \<open>importer/git_objects.py\<close> (committed objects of a repository),
  \<open>importer/provenance.py\<close> and the selection of \<open>importer/historical_fix.py\<close> (selectors, the shared budget, changes).

  Git only reads committed objects here, so it is a function of its arguments; the environment and configuration that
  isolate it are fixed. An error carries its stable reason.
\<close>

section \<open>Errors and Git\<close>

datatype import_error =
    ImportFix string | Stage_raised | Apply_raised tx_error | Checksum_raised | Diff_unparsed key_error
  | Pack_unloaded load_error | Scan_raised input_error | Model_invalid

record source_repo =
  so_git :: "string list \<Rightarrow> git_outcome"
  so_text :: "string \<Rightarrow> string"

text \<open>\<open>_run_git\<close>: \<open>None\<close> where it raises.\<close>

definition source_git :: "source_repo \<Rightarrow> string list \<Rightarrow> (int \<times> string \<times> string) option" where
  "source_git repo args =
     (case so_git repo args of
        GitExit rc out err \<Rightarrow>
          if GIT_OUTPUT_BYTES < length out \<or> GIT_OUTPUT_BYTES < length err \<or> GIT_OUTPUT_BYTES < length out + length err
          then None else Some (rc, out, err)
      | _ \<Rightarrow> None)"

definition git_out :: "source_repo \<Rightarrow> string list \<Rightarrow> string \<Rightarrow> (import_error, string) res" where
  "git_out repo args reason =
     (case source_git repo args of
        None \<Rightarrow> Inl (ImportFix reason)
      | Some (rc, out, _) \<Rightarrow> if rc \<noteq> 0 then Inl (ImportFix reason) else Inr out)"

definition source_text :: "source_repo \<Rightarrow> string \<Rightarrow> string" where
  "source_text repo data = py_strip (so_text repo data)"

definition git_line :: "source_repo \<Rightarrow> string list \<Rightarrow> string \<Rightarrow> (import_error, string) res" where
  "git_line repo args reason = and_then (git_out repo args reason) (\<lambda>out. Inr (source_text repo out))"

text \<open>A run whose exit status is asked for; what it raises leaves \<open>open_repo\<close> as \<open>git_failed\<close>.\<close>

definition git_status :: "source_repo \<Rightarrow> string list \<Rightarrow> (import_error, int \<times> string) res" where
  "git_status repo args =
     (case source_git repo args of None \<Rightarrow> Inl (ImportFix ''git_failed'') | Some (rc, out, _) \<Rightarrow> Inr (rc, out))"

definition FULL_OID :: "string \<Rightarrow> string \<Rightarrow> bool" where
  "FULL_OID object_format oid = is_hex_sha oid (sha_len object_format)"

section \<open>Opening a repository\<close>

text \<open>\<open>grafts\<close> is the text of the grafts file, when the path names a regular file.\<close>

definition open_repo :: "bool \<Rightarrow> (string \<Rightarrow> string option) \<Rightarrow> source_repo \<Rightarrow> (import_error, string) res" where
  "open_repo repo_exists grafts repo =
     (if \<not> repo_exists then Inl (ImportFix ''repository_missing'')
      else and_then (git_status repo [''rev-parse'', ''--git-dir'']) (\<lambda>(rc, _).
        if rc \<noteq> 0 then Inl (ImportFix ''not_a_git_repository'')
        else and_then (git_line repo [''rev-parse'', ''--show-object-format''] ''git_failed'') (\<lambda>object_format.
          if object_format \<notin> {''sha1'', ''sha256''} then Inl (ImportFix ''unsupported_object_format'')
          else and_then (git_line repo [''rev-parse'', ''--is-shallow-repository''] ''git_failed'') (\<lambda>shallow.
            if shallow = ''true'' then Inl (ImportFix ''shallow_repository'')
            else and_then (git_line repo [''rev-parse'', ''--git-path'', ''info/grafts''] ''git_failed'') (\<lambda>place.
              case grafts place of
                None \<Rightarrow> Inr object_format
              | Some s \<Rightarrow> if py_strip s \<noteq> [] then Inl (ImportFix ''repository_history_override'') else Inr object_format)))))"

definition resolve_commit :: "source_repo \<Rightarrow> string \<Rightarrow> string \<Rightarrow> (import_error, string) res" where
  "resolve_commit repo object_format oid =
     (if \<not> FULL_OID object_format oid then Inl (ImportFix ''abbreviated_commit_id'')
      else and_then (git_line repo [''cat-file'', ''-t'', oid] ''invalid_commit_object'') (\<lambda>kind.
        if kind \<noteq> ''commit'' then Inl (ImportFix ''invalid_commit_object'')
        else and_then (git_line repo [''rev-parse'', ''--verify'', oid @ ''^{commit}''] ''invalid_commit_object'') (\<lambda>verified.
          if verified \<noteq> oid then Inl (ImportFix ''invalid_commit_object'') else Inr oid)))"

definition is_ancestor :: "source_repo \<Rightarrow> string \<Rightarrow> string \<Rightarrow> (import_error, bool) res" where
  "is_ancestor repo ancestor descendant =
     and_then (git_status repo [''merge-base'', ''--is-ancestor'', ancestor, descendant]) (\<lambda>(rc, _). Inr (rc = 0))"

definition merge_base :: "source_repo \<Rightarrow> string \<Rightarrow> string \<Rightarrow> (import_error, string option) res" where
  "merge_base repo a b =
     and_then (git_status repo [''merge-base'', a, b]) (\<lambda>(rc, out).
       Inr (if rc = 0 \<and> source_text repo out \<noteq> [] then Some (source_text repo out) else None))"

section \<open>Trees\<close>

type_synonym tree_index = "(string \<times> string \<times> string) list"

definition tree_record :: "string \<Rightarrow> string \<Rightarrow> tree_index \<Rightarrow> (import_error, tree_index) res" where
  "tree_record object_format record entries =
     (if CHR 0x09 \<notin> set record then Inl (ImportFix ''git_output_invalid'')
      else let meta = takeWhile (\<lambda>c. c \<noteq> CHR 0x09) record; raw_path = drop (length meta + 1) record in
        if \<not> is_ascii meta then Inl (ImportFix ''git_output_invalid'')
        else case split_on CHR '' '' meta of
          [mode, kind, oid] \<Rightarrow>
            (case utf8_decode raw_path of
               None \<Rightarrow> Inl (ImportFix ''git_output_invalid'')
             | Some path \<Rightarrow>
                 if kind \<noteq> ''blob'' \<or> mode \<notin> set ALLOWED_MODES then Inl (ImportFix ''unsupported_tree_mode'')
                 else if \<not> FULL_OID object_format oid then Inl (ImportFix ''git_output_invalid'')
                 else if relative_path_error (PyStr path) \<noteq> None then Inl (ImportFix ''unsafe_tree_path'')
                 else Inr (alist_put path (mode, oid) entries))
        | _ \<Rightarrow> Inl (ImportFix ''git_output_invalid''))"

definition read_tree :: "source_repo \<Rightarrow> string \<Rightarrow> string \<Rightarrow> string list \<Rightarrow> (import_error, tree_index) res" where
  "read_tree repo object_format commit selectors =
     and_then (git_out repo ([''ls-tree'', ''-rz'', ''--full-tree'', commit, ''--''] @ selectors) ''git_failed'') (\<lambda>out.
       fold_res (tree_record object_format) (filter (\<lambda>record. record \<noteq> []) (split_on NUL out)) [])"

datatype path_kind = File_path | Dir_path | Missing_path | Other_path

definition classify_tree_path :: "source_repo \<Rightarrow> string \<Rightarrow> string \<Rightarrow> (import_error, path_kind) res" where
  "classify_tree_path repo commit path =
     and_then (git_status repo [''cat-file'', ''-t'', commit @ '':'' @ path]) (\<lambda>(rc, out). Inr
       (if rc \<noteq> 0 then Missing_path
        else if source_text repo out = ''blob'' then File_path
        else if source_text repo out = ''tree'' then Dir_path else Other_path))"

definition cat_blob :: "source_repo \<Rightarrow> string \<Rightarrow> (import_error, string) res" where
  "cat_blob repo oid = git_out repo [''cat-file'', ''blob'', oid] ''file_too_large''"

definition changed_tree_paths :: "source_repo \<Rightarrow> string \<Rightarrow> string \<Rightarrow> (import_error, string list) res" where
  "changed_tree_paths repo old new =
     and_then (git_out repo [''diff-tree'', ''--raw'', ''-z'', ''--no-renames'', ''-r'', old, new] ''git_failed'') (\<lambda>out.
       and_then (raise_as (\<lambda>_. ImportFix ''git_output_invalid'') (parse_raw_z out)) (\<lambda>changes.
         Inr (sorted_set (concat (map changed_paths changes)))))"

section \<open>Selection\<close>

definition under :: "string \<Rightarrow> string \<Rightarrow> bool" where
  "under path parent \<longleftrightarrow> path = parent \<or> starts_with path (parent @ ''/'')"

text \<open>Every failing pair or selector has the same reason, so their order does not show.\<close>

definition validate_source_selectors :: "string list \<Rightarrow> string list \<Rightarrow> (import_error, unit) res" where
  "validate_source_selectors raw present =
     (if \<not> distinct raw then Inl (ImportFix ''duplicate_selector'')
      else if list_ex (\<lambda>a. list_ex (\<lambda>b. a \<noteq> b \<and> (under a b \<or> under b a)) raw) raw
      then Inl (ImportFix ''overlapping_selector'')
      else if \<not> list_all (\<lambda>selector. list_ex (\<lambda>p. p = selector \<or> under p selector) present) raw
      then Inl (ImportFix ''selected_path_missing'')
      else Inr ())"

text \<open>A dot-prefixed selector has to be one regular file.\<close>

definition check_hidden_selector :: "source_repo \<Rightarrow> string \<Rightarrow> string \<Rightarrow> string \<Rightarrow> (import_error, unit) res" where
  "check_hidden_selector repo buggy fixed selector =
     (if \<not> starts_with (last_component selector) ''.'' then Inr ()
      else and_then (classify_tree_path repo buggy selector) (\<lambda>in_buggy.
        and_then (classify_tree_path repo fixed selector) (\<lambda>in_fixed.
          if Dir_path \<in> {in_buggy, in_fixed} then Inl (ImportFix ''hidden_directory_selector'')
          else if Other_path \<in> {in_buggy, in_fixed} then Inl (ImportFix ''unsupported_selector'')
          else if {in_buggy, in_fixed} = {Missing_path} then Inl (ImportFix ''selected_path_missing'')
          else Inr ())))"

type_synonym selected_tree = "(string \<times> string \<times> string) list"

record import_budget =
  bd_cache :: "(string \<times> string) list"
  bd_retained :: nat

definition load_blob :: "source_repo \<Rightarrow> string \<Rightarrow> import_budget \<Rightarrow> (import_error, string \<times> import_budget) res" where
  "load_blob repo oid b =
     (case map_of (bd_cache b) oid of
        Some data \<Rightarrow> Inr (data, b)
      | None \<Rightarrow>
          and_then (cat_blob repo oid) (\<lambda>data.
            if IMPORT_MAX_FILE_BYTES < length data then Inl (ImportFix ''import_limit_exceeded'')
            else if IMPORT_MAX_TOTAL_BYTES < bd_retained b + length data then Inl (ImportFix ''import_limit_exceeded'')
            else Inr (data, b\<lparr>bd_cache := alist_put oid data (bd_cache b), bd_retained := bd_retained b + length data\<rparr>)))"

definition load_entry ::
  "source_repo \<Rightarrow> string \<times> string \<times> string \<Rightarrow> selected_tree \<times> import_budget \<Rightarrow> (import_error, selected_tree \<times> import_budget) res" where
  "load_entry repo = (\<lambda>(path, mode, oid) (out, b).
     and_then (load_blob repo oid b) (\<lambda>(data, b'). Inr (alist_put path (mode, data) out, b')))"

definition load_tree ::
  "source_repo \<Rightarrow> tree_index \<Rightarrow> selected_tree list \<times> import_budget \<Rightarrow> (import_error, selected_tree list \<times> import_budget) res" where
  "load_tree repo tree = (\<lambda>(loaded, b).
     and_then (fold_res (load_entry repo) (sort_key fst tree) ([], b)) (\<lambda>(out, b'). Inr (loaded @ [out], b')))"

definition load_selected :: "source_repo \<Rightarrow> tree_index list \<Rightarrow> (import_error, selected_tree list) res" where
  "load_selected repo trees =
     (if IMPORT_MAX_FILES < sum_list (map length trees) then Inl (ImportFix ''import_limit_exceeded'')
      else and_then (fold_res (load_tree repo) trees ([], \<lparr>bd_cache = [], bd_retained = 0\<rparr>)) (\<lambda>(loaded, _). Inr loaded))"

definition source_changes :: "selected_tree \<Rightarrow> selected_tree \<Rightarrow> string list" where
  "source_changes buggy fixed =
     filter (\<lambda>path. map_of buggy path \<noteq> map_of fixed path) (sorted_set (map fst buggy @ map fst fixed))"

definition require_text :: "text_codec \<Rightarrow> selected_tree \<Rightarrow> string list \<Rightarrow> (import_error, unit) res" where
  "require_text tc files changed =
     (if list_all (\<lambda>path. case map_of files path of
            None \<Rightarrow> True | Some (_, data) \<Rightarrow> NUL \<notin> set data \<and> tc_decode tc data \<noteq> None) changed
      then Inr () else Inl (ImportFix ''binary_change''))"

section \<open>Source labels\<close>

definition label_component :: "string \<Rightarrow> bool" where
  "label_component s \<longleftrightarrow>
     s \<noteq> [] \<and> is_ascii_alnum (hd s) \<and> list_all (\<lambda>c. is_ascii_alnum c \<or> c \<in> set ''._-'') s"

definition check_source_label :: "string \<Rightarrow> (import_error, string) res" where
  "check_source_label s =
     (if s = [] \<or> IMPORT_SOURCE_LABEL_LEN < length s
         \<or> list_ex (\<lambda>c. (of_char c :: nat) < 32 \<or> is_space c) s
         \<or> CHR '':'' \<in> set s \<or> BACKSLASH \<in> set s \<or> starts_with s ''/''
         \<or> length (split_on CHR ''/'' s) > 3
         \<or> list_ex (\<lambda>c. c \<in> {''.'', ''..''} \<or> \<not> label_component c) (split_on CHR ''/'' s)
      then Inl (ImportFix ''invalid_source_label'') else Inr s)"

section \<open>What a tree that was read holds\<close>

definition tree_entry_ok :: "string \<Rightarrow> string \<times> string \<times> string \<Rightarrow> bool" where
  "tree_entry_ok object_format = (\<lambda>(path, mode, oid).
     file_safe path \<and> mode \<in> set ALLOWED_MODES \<and> FULL_OID object_format oid)"

lemma tree_record_ok:
  "tree_record object_format record entries = Inr entries' \<Longrightarrow>
     \<exists>path mode oid. entries' = alist_put path (mode, oid) entries \<and> tree_entry_ok object_format (path, mode, oid)"
  by (auto simp: tree_record_def tree_entry_ok_def file_safe_def Let_def split: if_split_asm list.split_asm option.split_asm)

lemma read_tree_ok:
  assumes "read_tree repo object_format commit selectors = Inr entries"
  shows "distinct (map fst entries) \<and> list_all (tree_entry_ok object_format) entries"
proof -
  obtain out where "fold_res (tree_record object_format) (filter (\<lambda>record. record \<noteq> []) (split_on NUL out)) [] = Inr entries"
    using assms by (auto simp: read_tree_def res_simps)
  then show ?thesis
  proof (rule fold_res_invariant [where P = "\<lambda>e. distinct (map fst e) \<and> list_all (tree_entry_ok object_format) e"])
    fix r e e'
    assume e: "distinct (map fst e) \<and> list_all (tree_entry_ok object_format) e" "tree_record object_format r e = Inr e'"
    then obtain path mode oid where "e' = alist_put path (mode, oid) e" "tree_entry_ok object_format (path, mode, oid)"
      using tree_record_ok by blast
    then show "distinct (map fst e') \<and> list_all (tree_entry_ok object_format) e'"
      using e alist_put_props(1) [of path "(mode, oid)" e] by (auto simp: distinct_alist_put list_all_iff)
  qed simp
qed

section \<open>Selectors\<close>

lemma under_prefix: "under p a \<longleftrightarrow> prefix (a @ ''/'') (p @ ''/'')"
proof
  assume "prefix (a @ ''/'') (p @ ''/'')"
  then obtain t where t: "p @ ''/'' = a @ ''/'' @ t" by (auto simp: prefix_def)
  then show "under p a" by (cases t rule: rev_cases) (auto simp: under_def starts_with_iff)
qed (auto simp: under_def starts_with_iff prefix_def)

lemma under_comparable: "under p a \<Longrightarrow> under p b \<Longrightarrow> under a b \<or> under b a"
  unfolding under_prefix by (rule prefix_same_cases)

lemma selectors_iff:
  "validate_source_selectors raw present = Inr () \<longleftrightarrow>
     distinct raw \<and> (\<forall>a \<in> set raw. \<forall>b \<in> set raw. under a b \<longrightarrow> a = b)
     \<and> (\<forall>a \<in> set raw. \<exists>p \<in> set present. under p a)"
proof -
  have self: "(p = a \<or> under p a) = under p a" for p a by (auto simp: under_def)
  have sym: "(\<exists>a \<in> set raw. \<exists>b \<in> set raw. a \<noteq> b \<and> (under a b \<or> under b a))
      \<longleftrightarrow> (\<exists>a \<in> set raw. \<exists>b \<in> set raw. a \<noteq> b \<and> under a b)" by metis
  have "validate_source_selectors raw present = Inr () \<longleftrightarrow> distinct raw
      \<and> \<not> (\<exists>a \<in> set raw. \<exists>b \<in> set raw. a \<noteq> b \<and> under a b) \<and> (\<forall>a \<in> set raw. \<exists>p \<in> set present. under p a)"
    unfolding validate_source_selectors_def list_ex_iff list_all_iff self sym by (simp add: if_Inl_Inr)
  moreover have "\<not> (\<exists>a \<in> set raw. \<exists>b \<in> set raw. a \<noteq> b \<and> under a b) \<longleftrightarrow> (\<forall>a \<in> set raw. \<forall>b \<in> set raw. under a b \<longrightarrow> a = b)"
    by auto
  ultimately show ?thesis by argo
qed

lemma one_selector:
  assumes "validate_source_selectors raw present = Inr ()" "a \<in> set raw" "b \<in> set raw" "under p a" "under p b"
  shows "a = b"
proof (rule ccontr)
  assume "a \<noteq> b"
  then have "\<not> under a b" "\<not> under b a" using assms(1-3) by (auto simp: selectors_iff)
  then show False using under_comparable [OF assms(4,5)] by simp
qed

section \<open>The budget\<close>

definition content :: "source_repo \<Rightarrow> string \<Rightarrow> string" where
  "content repo oid = (case cat_blob repo oid of Inl _ \<Rightarrow> [] | Inr data \<Rightarrow> data)"

text \<open>The cache holds exactly the objects \<open>oids\<close>, with their bytes.\<close>

definition budget_ok :: "source_repo \<Rightarrow> string set \<Rightarrow> import_budget \<Rightarrow> bool" where
  "budget_ok repo oids b \<longleftrightarrow>
     map_of (bd_cache b) = (\<lambda>oid. if oid \<in> oids then Some (content repo oid) else None)
     \<and> finite oids \<and> (\<forall>oid \<in> oids. cat_blob repo oid = Inr (content repo oid) \<and> length (content repo oid) \<le> IMPORT_MAX_FILE_BYTES)
     \<and> bd_retained b = (\<Sum>oid \<in> oids. length (content repo oid)) \<and> bd_retained b \<le> IMPORT_MAX_TOTAL_BYTES"

lemma load_blob_ok:
  assumes "budget_ok repo oids b" "load_blob repo oid b = Inr (data, b')"
  shows "data = content repo oid \<and> budget_ok repo (insert oid oids) b'"
proof (cases "oid \<in> oids")
  case True
  then have "insert oid oids = oids" by blast
  then show ?thesis using assms True by (auto simp: load_blob_def budget_ok_def)
next
  case False
  then have data: "cat_blob repo oid = Inr data" "length data \<le> IMPORT_MAX_FILE_BYTES"
    "bd_retained b + length data \<le> IMPORT_MAX_TOTAL_BYTES"
    and b': "b' = b\<lparr>bd_cache := alist_put oid data (bd_cache b), bd_retained := bd_retained b + length data\<rparr>"
    using assms by (auto simp: load_blob_def budget_ok_def res_simps split: if_split_asm)
  have c: "content repo oid = data" by (simp add: content_def data(1))
  have "(\<Sum>x \<in> insert oid oids. length (content repo x)) = bd_retained b + length data"
    using assms(1) False c by (simp add: budget_ok_def)
  then show ?thesis using assms(1) data c unfolding budget_ok_def b' by (auto simp: fun_eq_iff)
qed

definition loaded_from :: "source_repo \<Rightarrow> tree_index \<Rightarrow> selected_tree" where
  "loaded_from repo tree = map (\<lambda>(path, mode, oid). (path, mode, content repo oid)) tree"

definition tree_oids :: "tree_index \<Rightarrow> string set" where
  "tree_oids tree = (\<lambda>(path, mode, oid). oid) ` set tree"

lemma load_entries_ok:
  assumes "fold_res (load_entry repo) tree (out, b) = Inr (out', b')" "budget_ok repo oids b"
    "distinct (map fst out @ map fst tree)"
  shows "out' = out @ loaded_from repo tree \<and> budget_ok repo (oids \<union> tree_oids tree) b'"
  using assms
proof (induction tree arbitrary: out b oids)
  case (Cons e tree)
  obtain path mode oid where e: "e = (path, mode, oid)" by (cases e)
  obtain data b'' where data: "load_blob repo oid b = Inr (data, b'')"
    "fold_res (load_entry repo) tree (alist_put path (mode, data) out, b'') = Inr (out', b')"
    using Cons.prems(1) by (auto simp: e load_entry_def res_simps)
  have put: "alist_put path (mode, data) out = out @ [(path, mode, data)]"
    by (rule alist_put_fresh) (use Cons.prems(3) in \<open>auto simp: e\<close>)
  note blob = load_blob_ok [OF Cons.prems(2) data(1)]
  have "out' = (out @ [(path, mode, data)]) @ loaded_from repo tree
      \<and> budget_ok repo (insert oid oids \<union> tree_oids tree) b'"
    using Cons.IH [OF data(2) [unfolded put] conjunct2 [OF blob]] Cons.prems(3) by (auto simp: e)
  moreover have "insert oid oids \<union> tree_oids tree = oids \<union> tree_oids (e # tree)" by (auto simp: tree_oids_def e)
  ultimately show ?case using blob by (simp add: loaded_from_def e)
qed (simp add: loaded_from_def tree_oids_def)

lemma load_trees_ok:
  assumes "fold_res (load_tree repo) trees (done_trees, b) = Inr (loaded, b')" "budget_ok repo oids b"
    "\<forall>tree \<in> set trees. distinct (map fst tree)"
  shows "loaded = done_trees @ map (\<lambda>tree. loaded_from repo (sort_key fst tree)) trees
     \<and> budget_ok repo (oids \<union> (\<Union>tree \<in> set trees. tree_oids tree)) b'"
  using assms
proof (induction trees arbitrary: done_trees b oids)
  case (Cons tree trees)
  obtain out b'' where out: "fold_res (load_entry repo) (sort_key fst tree) ([], b) = Inr (out, b'')"
    "fold_res (load_tree repo) trees (done_trees @ [out], b'') = Inr (loaded, b')"
    using Cons.prems(1) unfolding fold_res.simps load_tree_def [of repo tree] prod.case by (auto simp: res_simps)
  have "distinct (map fst (sort_key fst tree))"
    using Cons.prems(3) by (simp add: distinct_map)
  then have o: "out = loaded_from repo (sort_key fst tree)" "budget_ok repo (oids \<union> tree_oids tree) b''"
    using load_entries_ok [OF out(1) Cons.prems(2)] by (auto simp: tree_oids_def)
  show ?case using Cons.IH [OF out(2) o(2)] Cons.prems(3) by (simp add: o(1) Un_assoc)
qed simp

lemma load_selected_ok:
  assumes "load_selected repo trees = Inr loaded" "\<forall>tree \<in> set trees. distinct (map fst tree)"
  shows "loaded = map (\<lambda>tree. loaded_from repo (sort_key fst tree)) trees
     \<and> (\<exists>b. budget_ok repo (\<Union>tree \<in> set trees. tree_oids tree) b)"
proof -
  obtain b where b: "fold_res (load_tree repo) trees ([], \<lparr>bd_cache = [], bd_retained = 0\<rparr>) = Inr (loaded, b)"
    using assms(1) by (auto simp: load_selected_def res_simps)
  have "budget_ok repo {} \<lparr>bd_cache = [], bd_retained = 0\<rparr>" by (simp add: budget_ok_def fun_eq_iff)
  from load_trees_ok [OF b this assms(2)] show ?thesis by auto
qed

text \<open>
  What the importer loads is what it asked for, within its limits: the selected trees hold exactly the bytes of the objects their
  entries name, in the order of the paths; there are at most as many files as allowed, no file is larger than a file may
  be, and the objects, each counted once however often it is used, are together within the byte limit.
\<close>

theorem selection_within_budget:
  assumes "load_selected repo trees = Inr loaded" "\<forall>tree \<in> set trees. distinct (map fst tree)"
  shows "loaded = map (\<lambda>tree. loaded_from repo (sort_key fst tree)) trees
     \<and> sum_list (map length trees) \<le> IMPORT_MAX_FILES
     \<and> (\<forall>oid \<in> (\<Union>tree \<in> set trees. tree_oids tree).
          cat_blob repo oid = Inr (content repo oid) \<and> length (content repo oid) \<le> IMPORT_MAX_FILE_BYTES)
     \<and> (\<Sum>oid \<in> (\<Union>tree \<in> set trees. tree_oids tree). length (content repo oid)) \<le> IMPORT_MAX_TOTAL_BYTES"
proof -
  obtain b where "budget_ok repo (\<Union>tree \<in> set trees. tree_oids tree) b"
    and loaded: "loaded = map (\<lambda>tree. loaded_from repo (sort_key fst tree)) trees"
    using load_selected_ok [OF assms] by blast
  moreover have "sum_list (map length trees) \<le> IMPORT_MAX_FILES"
    using assms(1) by (simp add: load_selected_def split: if_split_asm)
  ultimately show ?thesis by (simp add: budget_ok_def)
qed

text \<open>Two trees that share an object.\<close>

definition shared_repo :: source_repo where
  "shared_repo = \<lparr>so_git = (\<lambda>args. GitExit 0 (''bytes of '' @ last args) []), so_text = (\<lambda>s. s)\<rparr>"

definition shared_trees :: "tree_index list" where
  "shared_trees = [[(''b.py'', ''100644'', ''o1''), (''a.py'', ''100755'', ''o2'')], [(''a.py'', ''100644'', ''o2'')]]"

lemma shared_loads: "load_selected shared_repo shared_trees = Inr
    [[(''a.py'', ''100755'', ''bytes of o2''), (''b.py'', ''100644'', ''bytes of o1'')], [(''a.py'', ''100644'', ''bytes of o2'')]]"
  by code_simp

theorem selection_within_budget_witness:
  "(\<Sum>oid \<in> (\<Union>tree \<in> set shared_trees. tree_oids tree). length (content shared_repo oid)) \<le> IMPORT_MAX_TOTAL_BYTES
   \<and> sum_list (map length shared_trees) = 3"
proof -
  have "\<forall>tree \<in> set shared_trees. distinct (map fst tree)" by (simp add: shared_trees_def)
  from selection_within_budget [OF shared_loads this]
  have "(\<Sum>oid \<in> (\<Union>tree \<in> set shared_trees. tree_oids tree). length (content shared_repo oid)) \<le> IMPORT_MAX_TOTAL_BYTES" by blast
  then show ?thesis by (simp add: shared_trees_def)
qed

end
