(* ===== verification/Contamination.thy ===== *)
theory Contamination
  imports Validators
begin

text \<open>
  The leak check of a case, \<open>benchmark/contamination.py\<close>, with the comment extraction of
  \<open>validators/source_text.py\<close>: which phrases of the ground truth a reviewer could read off the diff, the comments of the
  reviewed tree or the names of the tests. The comments that \<open>tokenize\<close> finds are a parameter (\<open>None\<close> if it raises).
\<close>

section \<open>Comments\<close>

text \<open>\<open>_JS_COMMENT.findall\<close> and \<open>_SQL_COMMENT.findall\<close>; the line comments start with \<open>m\<close> doubled.\<close>

fun marked_comments :: "char \<Rightarrow> string \<Rightarrow> string list" where
  "marked_comments m (c # d # s) =
     (if c = m \<and> d = m
      then (m # m # takeWhile (\<lambda>x. x \<noteq> CHR 0x0A) s) # marked_comments m (dropWhile (\<lambda>x. x \<noteq> CHR 0x0A) s)
      else if c = CHR ''/'' \<and> d = CHR ''*'' then
        (case after_close s of
           Some r \<Rightarrow> (c # d # take (length s - length r) s) # marked_comments m r
         | None \<Rightarrow> marked_comments m (d # s))
      else marked_comments m (d # s))"
| "marked_comments m s = []"

lemma length_dropWhile_Suc [termination_simp]: "length (dropWhile P s) < Suc (length s)"
  by (simp add: le_imp_less_Suc length_dropWhile_le)

lemma length_dropWhile_drop: "length (dropWhile P (drop k s)) \<le> length s"
  by (metis diff_le_self le_trans length_drop length_dropWhile_le)

text \<open>\<open>_PY_COMMENT_FALLBACK.findall\<close>.\<close>

fun hash_comments :: "string \<Rightarrow> string list" where
  "hash_comments [] = []"
| "hash_comments (c # s) =
     (if c = CHR ''#''
      then (c # takeWhile (\<lambda>x. x \<noteq> CHR 0x0A) s) # hash_comments (dropWhile (\<lambda>x. x \<noteq> CHR 0x0A) s)
      else hash_comments s)"

type_synonym py_comments = "string \<Rightarrow> string list option"

definition extract_comments :: "py_comments \<Rightarrow> string \<Rightarrow> string \<Rightarrow> string list" where
  "extract_comments pc path s =
     (if ends_with path ''.py'' then (case pc s of Some cs \<Rightarrow> cs | None \<Rightarrow> hash_comments s)
      else if list_ex (ends_with path) JS_LIKE_SUFFIXES then marked_comments (CHR ''/'') s
      else if ends_with path ''.sql'' then marked_comments (CHR ''-'') s
      else [])"

section \<open>Phrases\<close>

definition TEXT_SUFFIXES :: "string list" where
  "TEXT_SUFFIXES = [''.py'', ''.ts'', ''.tsx'', ''.js'', ''.jsx'', ''.java'', ''.sql'']"

definition MIN_PHRASE_LENGTH :: nat where "MIN_PHRASE_LENGTH = 3"

definition bug_phrases :: "gt_bug \<Rightarrow> string list" where
  "bug_phrases b =
     filter (\<lambda>p. MIN_PHRASE_LENGTH \<le> length p)
       (map py_strip (bug_must_mention b @ bug_concepts b @ bug_fix_keywords b))"

definition leak_phrases :: "benchmark_case \<Rightarrow> string list" where
  "leak_phrases c = sorted_set (concat (map bug_phrases (gt_bugs (case_ground_truth c))))"

text \<open>The pattern \<open>(?i)\bphrase\b\<close> of an escaped phrase.\<close>

fun any_case :: "string \<Rightarrow> pattern" where
  "any_case [] = Empty"
| "any_case (c # s) = Then (Class (\<lambda>x. lower_char x = lower_char c)) (any_case s)"

definition phrase_in :: "string \<Rightarrow> string \<Rightarrow> bool" where
  "phrase_in phrase s =
     (if CHR '' '' \<in> set phrase then contains_sub (casefold phrase) (casefold s)
      else search_pattern (Then WordBoundary (Then (any_case phrase) WordBoundary)) s)"

section \<open>The scan\<close>

datatype surface = Diff_added_line | Diff_removed_line | After_comment | Test_name

record leak_warning =
  lw_case_id :: string
  lw_surface :: surface
  lw_phrase :: string
  lw_location :: string

text \<open>\<open>_added_lines\<close> and \<open>_removed_lines\<close>, for the character a content line starts with.\<close>

definition content_lines :: "char \<Rightarrow> string \<Rightarrow> (nat \<times> string) list" where
  "content_lines m diff =
     map (\<lambda>(i, line). (i + 1, tl line))
       (filter (\<lambda>(i, line). starts_with line [m] \<and> \<not> starts_with line [m, m, m]) (enum_list (splitlines diff)))"

definition added_lines :: "string \<Rightarrow> (nat \<times> string) list" where
  "added_lines = content_lines (CHR ''+'')"

definition removed_lines :: "string \<Rightarrow> (nat \<times> string) list" where
  "removed_lines = content_lines (CHR ''-'')"

definition warnings_for ::
  "benchmark_case \<Rightarrow> surface \<Rightarrow> string \<Rightarrow> string list \<Rightarrow> leak_warning list" where
  "warnings_for c surface location shown =
     map (\<lambda>phrase. \<lparr>lw_case_id = case_id c, lw_surface = surface, lw_phrase = phrase, lw_location = location\<rparr>)
       (filter (\<lambda>phrase. list_ex (phrase_in phrase) shown) (leak_phrases c))"

definition diff_location :: "benchmark_case \<Rightarrow> nat \<Rightarrow> string" where
  "diff_location c n = in_diff (case_input_of c) @ '':'' @ nat_str n"

text \<open>The files below a directory in the order of their paths, which are compared by components.\<close>

definition tree_files :: "node \<Rightarrow> string list list" where
  "tree_files n =
     sort (concat (map (\<lambda>(lead, _, files).
       map (\<lambda>e. lead @ [fst e]) (filter (\<lambda>e. is_regular (snd e)) files)) (walk [] n)))"

definition files_under :: "string \<Rightarrow> node \<Rightarrow> string list list" where
  "files_under dir tree =
     (case node_path dir tree of None \<Rightarrow> [] | Some n \<Rightarrow> map (\<lambda>p. split_on CHR ''/'' dir @ p) (tree_files n))"

definition comment_warnings ::
  "text_codec \<Rightarrow> py_comments \<Rightarrow> benchmark_case \<Rightarrow> node \<Rightarrow> string list \<Rightarrow> (input_error, leak_warning list) res" where
  "comment_warnings tc pc c tree path =
     (if \<not> list_ex (ends_with (last path)) TEXT_SUFFIXES then Inr []
      else and_then (read_text_capped tc (node_at path tree) PACK_FILE_BYTES) (\<lambda>(source, _).
        Inr (concat (map (\<lambda>comment. warnings_for c After_comment (posix_join path) [comment])
          (extract_comments pc (last path) source)))))"

text \<open>\<open>re.findall(r"def\s+(test_\w+)", source)\<close>: nothing of it is ambiguous.\<close>

function test_names :: "string \<Rightarrow> string list" where
  "test_names [] = []"
| "test_names (c # s) =
     (let gap = drop 3 (c # s); word = dropWhile is_space gap; trail = drop 5 word in
      if starts_with (c # s) ''def'' \<and> gap \<noteq> word \<and> starts_with word ''test_'' \<and> takeWhile is_word trail \<noteq> []
      then (''test_'' @ takeWhile is_word trail) # test_names (dropWhile is_word trail)
      else test_names s)"
  by pat_completeness auto

termination
  by (relation "measure length")
    (auto simp: less_Suc_eq_le intro!: order_trans [OF length_dropWhile_drop] order_trans [OF length_dropWhile_drop [of _ 2]])

declare test_names.simps [simp del]

text \<open>\<open>path.suffix == ".py"\<close>: a name that is nothing but the suffix has none.\<close>

definition has_py_suffix :: "string \<Rightarrow> bool" where
  "has_py_suffix name \<longleftrightarrow> ends_with name ''.py'' \<and> name \<noteq> ''.py''"

definition spaced :: "string \<Rightarrow> string" where
  "spaced s = map (\<lambda>x. if x = CHR ''_'' then CHR '' '' else x) s"

definition test_warnings ::
  "text_codec \<Rightarrow> benchmark_case \<Rightarrow> node \<Rightarrow> string list \<Rightarrow> (input_error, leak_warning list) res" where
  "test_warnings tc c tree path =
     and_then (if has_py_suffix (last path)
               then and_then (read_text_capped tc (node_at path tree) PACK_FILE_BYTES) (\<lambda>(source, _). Inr (test_names source))
               else Inr []) (\<lambda>found.
       Inr (concat (map (\<lambda>name. warnings_for c Test_name (posix_join path @ ''::'' @ name) [spaced name, name])
         (last path # found))))"

definition each_file ::
  "(string list \<Rightarrow> (input_error, leak_warning list) res) \<Rightarrow> string list list \<Rightarrow> (input_error, leak_warning list) res" where
  "each_file scan paths =
     fold_res (\<lambda>path warnings. and_then (scan path) (\<lambda>new. Inr (warnings @ new))) paths []"

definition tests_under :: "benchmark_case \<Rightarrow> node \<Rightarrow> string list list" where
  "tests_under c tree =
     (case in_tests_dir (case_input_of c) of None \<Rightarrow> [] | Some dir \<Rightarrow> files_under dir tree)"

definition scan_case ::
  "text_codec \<Rightarrow> py_comments \<Rightarrow> benchmark_case \<Rightarrow> node \<Rightarrow> (input_error, leak_warning list) res" where
  "scan_case tc pc c tree =
     and_then (load_diff tc (node_path (in_diff (case_input_of c)) tree)) (\<lambda>diff.
     and_then (each_file (comment_warnings tc pc c tree) (files_under (in_after_dir (case_input_of c)) tree)) (\<lambda>comments.
     and_then (each_file (test_warnings tc c tree)
         (tests_under c tree)) (\<lambda>tests.
       Inr (concat (map (\<lambda>(n, line). warnings_for c Diff_added_line (diff_location c n) [line]) (added_lines diff))
         @ concat (map (\<lambda>(n, line). warnings_for c Diff_removed_line (diff_location c n) [line]) (removed_lines diff))
         @ comments @ tests))))"

definition scan_cases ::
  "text_codec \<Rightarrow> py_comments \<Rightarrow> (benchmark_case \<times> node) list \<Rightarrow> (input_error, leak_warning list) res" where
  "scan_cases tc pc cases =
     fold_res (\<lambda>(c, tree) warnings. and_then (scan_case tc pc c tree) (\<lambda>new. Inr (warnings @ new))) cases []"

section \<open>What a phrase in a text is\<close>

definition word_occurs :: "string \<Rightarrow> string \<Rightarrow> bool" where
  "word_occurs phrase s \<longleftrightarrow>
     (\<exists>a m b. s = a @ m @ b \<and> map lower_char m = map lower_char phrase
        \<and> boundary_at (rev a, m @ b) \<and> boundary_at (rev (a @ m), b))"

definition says :: "string \<Rightarrow> string \<Rightarrow> bool" where
  "says phrase s \<longleftrightarrow>
     (if CHR '' '' \<in> set phrase then \<exists>a b. casefold s = a @ casefold phrase @ b else word_occurs phrase s)"

lemma matches_any_case:
  "matches (any_case phrase) p q \<longleftrightarrow>
     (\<exists>m. map lower_char m = map lower_char phrase \<and> snd p = m @ snd q \<and> fst q = rev m @ fst p)"
proof (induction phrase arbitrary: p)
  case (Cons c phrase)
  have "matches (any_case (c # phrase)) p q \<longleftrightarrow>
      (\<exists>x m. lower_char x = lower_char c \<and> map lower_char m = map lower_char phrase
         \<and> snd p = x # m @ snd q \<and> fst q = rev m @ x # fst p)"
    by (fastforce simp: relcompp_apply Cons.IH)
  also have "\<dots> \<longleftrightarrow> (\<exists>m. map lower_char m = map lower_char (c # phrase) \<and> snd p = m @ snd q \<and> fst q = rev m @ fst p)"
    by (simp add: map_eq_Cons_conv) force
  finally show ?case .
qed (auto simp: prod_eq_iff)

lemma phrase_in_iff: "phrase_in phrase s \<longleftrightarrow> says phrase s"
proof (cases "CHR '' '' \<in> set phrase")
  case False
  have "search_pattern (Then WordBoundary (Then (any_case phrase) WordBoundary)) s \<longleftrightarrow> word_occurs phrase s"
    unfolding search_pattern_correct word_occurs_def
    by (simp add: relcompp_apply matches_any_case) (metis append.assoc)
  then show ?thesis using False by (simp add: phrase_in_def says_def)
qed (simp add: phrase_in_def says_def contains_sub_iff)

lemma set_leak_phrases:
  "phrase \<in> set (leak_phrases c) \<longleftrightarrow> 3 \<le> length phrase
     \<and> (\<exists>b \<in> set (gt_bugs (case_ground_truth c)). \<exists>q \<in> set (bug_must_mention b @ bug_concepts b @ bug_fix_keywords b).
          phrase = py_strip q)"
  by (auto simp: leak_phrases_def bug_phrases_def MIN_PHRASE_LENGTH_def)

section \<open>What a case shows\<close>

text \<open>The texts of each surface, with the location a warning gives.\<close>

inductive shown ::
  "text_codec \<Rightarrow> py_comments \<Rightarrow> benchmark_case \<Rightarrow> node \<Rightarrow> surface \<Rightarrow> string \<Rightarrow> string \<Rightarrow> bool"
  for tc pc c tree where
  added: "load_diff tc (node_path (in_diff (case_input_of c)) tree) = Inr diff \<Longrightarrow> i < length (splitlines diff)
    \<Longrightarrow> splitlines diff ! i = CHR ''+'' # content \<Longrightarrow> \<not> starts_with content ''++''
    \<Longrightarrow> shown tc pc c tree Diff_added_line (diff_location c (i + 1)) content"
| removed: "load_diff tc (node_path (in_diff (case_input_of c)) tree) = Inr diff \<Longrightarrow> i < length (splitlines diff)
    \<Longrightarrow> splitlines diff ! i = CHR ''-'' # content \<Longrightarrow> \<not> starts_with content ''--''
    \<Longrightarrow> shown tc pc c tree Diff_removed_line (diff_location c (i + 1)) content"
| comment: "path \<in> set (files_under (in_after_dir (case_input_of c)) tree)
    \<Longrightarrow> list_ex (ends_with (last path)) TEXT_SUFFIXES
    \<Longrightarrow> read_text_capped tc (node_at path tree) PACK_FILE_BYTES = Inr (source, more_left)
    \<Longrightarrow> text \<in> set (extract_comments pc (last path) source)
    \<Longrightarrow> shown tc pc c tree After_comment (posix_join path) text"
| test_file: "in_tests_dir (case_input_of c) = Some dir \<Longrightarrow> path \<in> set (files_under dir tree) \<Longrightarrow> name = last path
    \<Longrightarrow> text \<in> {spaced name, name} \<Longrightarrow> shown tc pc c tree Test_name (posix_join path @ ''::'' @ name) text"
| test_function: "in_tests_dir (case_input_of c) = Some dir \<Longrightarrow> path \<in> set (files_under dir tree)
    \<Longrightarrow> has_py_suffix (last path) \<Longrightarrow> read_text_capped tc (node_at path tree) PACK_FILE_BYTES = Inr (source, more_left)
    \<Longrightarrow> name \<in> set (test_names source) \<Longrightarrow> text \<in> {spaced name, name}
    \<Longrightarrow> shown tc pc c tree Test_name (posix_join path @ ''::'' @ name) text"

text \<open>A warning is about a phrase of the case and a text at its location.\<close>

definition leaks :: "benchmark_case \<Rightarrow> (surface \<Rightarrow> string \<Rightarrow> string \<Rightarrow> bool) \<Rightarrow> leak_warning \<Rightarrow> bool" where
  "leaks c texts w \<longleftrightarrow> lw_case_id w = case_id c \<and> lw_phrase w \<in> set (leak_phrases c)
     \<and> (\<exists>s. texts (lw_surface w) (lw_location w) s \<and> says (lw_phrase w) s)"

lemma set_warnings_for:
  "w \<in> set (warnings_for c surface location texts) \<longleftrightarrow>
     leaks c (\<lambda>f l s. f = surface \<and> l = location \<and> s \<in> set texts) w"
  by (cases w) (auto simp: warnings_for_def leaks_def list_ex_iff phrase_in_iff)

lemma leaks_mono: "leaks c texts w \<Longrightarrow> (\<And>f l s. texts f l s \<Longrightarrow> texts' f l s) \<Longrightarrow> leaks c texts' w"
  unfolding leaks_def by blast

lemma leaks_Ex: "leaks c (\<lambda>f l s. \<exists>x. texts x f l s) w \<longleftrightarrow> (\<exists>x. leaks c (texts x) w)"
  unfolding leaks_def by blast

lemma leaks_disj:
  "leaks c (\<lambda>f l s. texts f l s \<or> texts' f l s) w \<longleftrightarrow> leaks c texts w \<or> leaks c texts' w"
  unfolding leaks_def by blast

lemma each_file_set:
  assumes "each_file scan paths = Inr ws"
  shows "w \<in> set ws \<longleftrightarrow> (\<exists>path \<in> set paths. \<exists>new. scan path = Inr new \<and> w \<in> set new)"
proof -
  have "w \<in> set ws \<longleftrightarrow> w \<in> set start \<or> (\<exists>path \<in> set paths. \<exists>new. scan path = Inr new \<and> w \<in> set new)"
    if "fold_res (\<lambda>path warnings. and_then (scan path) (\<lambda>new. Inr (warnings @ new))) paths start = Inr ws" for start
    using that
  proof (induction paths arbitrary: start)
    case (Cons p paths)
    then obtain new where "scan p = Inr new"
      "fold_res (\<lambda>path warnings. and_then (scan path) (\<lambda>new. Inr (warnings @ new))) paths (start @ new) = Inr ws"
      by (auto simp: res_simps)
    then show ?case using Cons.IH by auto
  qed simp
  from this [of "[]"] show ?thesis using assms by (simp add: each_file_def)
qed

lemma each_file_Inr:
  assumes "each_file scan paths = Inr ws" "path \<in> set paths"
  shows "\<exists>new. scan path = Inr new"
proof -
  have "\<exists>new. scan path = Inr new"
    if "fold_res (\<lambda>path warnings. and_then (scan path) (\<lambda>new. Inr (warnings @ new))) paths start = Inr ws" for start
    using that assms(2) by (induction paths arbitrary: start) (auto simp: res_simps)
  then show ?thesis using assms(1) by (auto simp: each_file_def)
qed

lemma set_content_lines:
  "(n, s) \<in> set (content_lines m diff) \<longleftrightarrow>
     (\<exists>i < length (splitlines diff). n = i + 1 \<and> splitlines diff ! i = m # s \<and> \<not> starts_with s [m, m])"
proof -
  have line: "starts_with line [m] \<and> \<not> starts_with line [m, m, m] \<longleftrightarrow> (\<exists>s. line = m # s \<and> \<not> starts_with s [m, m])" for line
    by (cases line) auto
  show ?thesis unfolding content_lines_def by (auto simp: set_enum_list line image_iff)
qed

lemma diff_warnings:
  "w \<in> set (concat (map (\<lambda>(n, line). warnings_for c surface (diff_location c n) [line]) (content_lines m diff))) \<longleftrightarrow>
     leaks c (\<lambda>f l s. \<exists>i < length (splitlines diff). f = surface \<and> l = diff_location c (i + 1)
        \<and> splitlines diff ! i = m # s \<and> \<not> starts_with s [m, m]) w"
proof -
  have "w \<in> set (concat (map (\<lambda>(n, line). warnings_for c surface (diff_location c n) [line]) (content_lines m diff))) \<longleftrightarrow>
      (\<exists>n line. (n, line) \<in> set (content_lines m diff)
         \<and> leaks c (\<lambda>f l s. f = surface \<and> l = diff_location c n \<and> s = line) w)"
    by (auto simp: set_warnings_for)
  then show ?thesis unfolding set_content_lines leaks_def by blast
qed

lemma comment_warnings_leaks:
  assumes "comment_warnings tc pc c tree path = Inr new"
  shows "w \<in> set new \<longleftrightarrow>
     leaks c (\<lambda>f l s. f = After_comment \<and> l = posix_join path \<and> list_ex (ends_with (last path)) TEXT_SUFFIXES
        \<and> (\<exists>source more_left. read_text_capped tc (node_at path tree) PACK_FILE_BYTES = Inr (source, more_left)
             \<and> s \<in> set (extract_comments pc (last path) source))) w"
proof (cases "list_ex (ends_with (last path)) TEXT_SUFFIXES")
  case True
  then obtain source more_left where read: "read_text_capped tc (node_at path tree) PACK_FILE_BYTES = Inr (source, more_left)"
    and new: "new = concat (map (\<lambda>comment. warnings_for c After_comment (posix_join path) [comment])
      (extract_comments pc (last path) source))"
    using assms by (auto simp: comment_warnings_def res_simps)
  have "w \<in> set new \<longleftrightarrow> (\<exists>text \<in> set (extract_comments pc (last path) source).
      leaks c (\<lambda>f l s. f = After_comment \<and> l = posix_join path \<and> s = text) w)"
    by (simp add: new set_warnings_for)
  then show ?thesis unfolding leaks_def using True read by auto
qed (use assms in \<open>simp add: comment_warnings_def leaks_def\<close>)

lemma test_warnings_leaks:
  assumes "test_warnings tc c tree path = Inr new"
  shows "w \<in> set new \<longleftrightarrow>
     leaks c (\<lambda>f l s. f = Test_name \<and> (\<exists>name. l = posix_join path @ ''::'' @ name \<and> s \<in> {spaced name, name}
        \<and> (name = last path \<or> has_py_suffix (last path)
             \<and> (\<exists>source more_left. read_text_capped tc (node_at path tree) PACK_FILE_BYTES = Inr (source, more_left)
                  \<and> name \<in> set (test_names source))))) w"
proof -
  obtain found where found: "new = concat (map (\<lambda>name. warnings_for c Test_name (posix_join path @ ''::'' @ name)
      [spaced name, name]) (last path # found))"
    and names: "\<And>name. name \<in> set found \<longleftrightarrow> has_py_suffix (last path)
      \<and> (\<exists>source more_left. read_text_capped tc (node_at path tree) PACK_FILE_BYTES = Inr (source, more_left)
           \<and> name \<in> set (test_names source))"
  proof (cases "has_py_suffix (last path)")
    case True
    then obtain source more_left where read:
      "read_text_capped tc (node_at path tree) PACK_FILE_BYTES = Inr (source, more_left)"
      using assms by (auto simp: test_warnings_def res_simps)
    then show thesis using assms True by (intro that [of "test_names source"]) (auto simp: test_warnings_def)
  next
    case False
    then show thesis using assms by (intro that [of "[]"]) (auto simp: test_warnings_def)
  qed
  have "w \<in> set new \<longleftrightarrow> (\<exists>name \<in> set (last path # found).
      leaks c (\<lambda>f l s. f = Test_name \<and> l = posix_join path @ ''::'' @ name \<and> s \<in> {spaced name, name}) w)"
    by (auto simp: found set_warnings_for)
  then show ?thesis unfolding set_simps names [symmetric] leaks_def by blast
qed

lemma warned_shown:
  assumes diff: "load_diff tc (node_path (in_diff (case_input_of c)) tree) = Inr diff"
    and comments: "each_file (comment_warnings tc pc c tree) (files_under (in_after_dir (case_input_of c)) tree) = Inr comments"
    and tests: "each_file (test_warnings tc c tree) (tests_under c tree) = Inr tests"
    and warned: "w \<in> set (concat (map (\<lambda>(n, line). warnings_for c Diff_added_line (diff_location c n) [line]) (added_lines diff))
         @ concat (map (\<lambda>(n, line). warnings_for c Diff_removed_line (diff_location c n) [line]) (removed_lines diff))
         @ comments @ tests)"
  shows "leaks c (shown tc pc c tree) w"
proof -
  from warned consider
      (add) "w \<in> set (concat (map (\<lambda>(n, line). warnings_for c Diff_added_line (diff_location c n) [line])
        (content_lines (CHR ''+'') diff)))"
    | (remove) "w \<in> set (concat (map (\<lambda>(n, line). warnings_for c Diff_removed_line (diff_location c n) [line])
        (content_lines (CHR ''-'') diff)))"
    | (comment) "w \<in> set comments" | (test) "w \<in> set tests"
    unfolding added_lines_def removed_lines_def set_append Un_iff by blast
  then show "leaks c (shown tc pc c tree) w"
  proof cases
    case add
    then show ?thesis unfolding diff_warnings by (rule leaks_mono) (auto intro: shown.added [OF diff, simplified])
  next
    case remove
    then show ?thesis unfolding diff_warnings by (rule leaks_mono) (auto intro: shown.removed [OF diff, simplified])
  next
    case comment
    then obtain path new where path: "path \<in> set (files_under (in_after_dir (case_input_of c)) tree)" "comment_warnings tc pc c tree path = Inr new" "w \<in> set new"
      unfolding each_file_set [OF comments] by blast
    from path(3) show ?thesis
      unfolding comment_warnings_leaks [OF path(2)] by (rule leaks_mono) (auto intro: shown.comment [OF path(1)])
  next
    case test
    then obtain path new where path: "path \<in> set (tests_under c tree)" "test_warnings tc c tree path = Inr new" "w \<in> set new"
      unfolding each_file_set [OF tests] by blast
    obtain dir where dir: "in_tests_dir (case_input_of c) = Some dir" "path \<in> set (files_under dir tree)"
      using path(1) unfolding tests_under_def by (cases "in_tests_dir (case_input_of c)") auto
    from path(3) show ?thesis
      unfolding test_warnings_leaks [OF path(2)]
      by (rule leaks_mono) (blast intro: shown.test_file [OF dir refl] shown.test_function [OF dir])
  qed
qed

lemma shown_warned:
  assumes diff: "load_diff tc (node_path (in_diff (case_input_of c)) tree) = Inr diff"
    and comments: "each_file (comment_warnings tc pc c tree) (files_under (in_after_dir (case_input_of c)) tree) = Inr comments"
    and tests: "each_file (test_warnings tc c tree) (tests_under c tree) = Inr tests"
    and leaking: "leaks c (shown tc pc c tree) w"
  shows "w \<in> set (concat (map (\<lambda>(n, line). warnings_for c Diff_added_line (diff_location c n) [line]) (added_lines diff))
         @ concat (map (\<lambda>(n, line). warnings_for c Diff_removed_line (diff_location c n) [line]) (removed_lines diff))
         @ comments @ tests)"
proof -
  obtain s where s: "shown tc pc c tree (lw_surface w) (lw_location w) s"
    and w: "lw_case_id w = case_id c" "lw_phrase w \<in> set (leak_phrases c)" "says (lw_phrase w) s"
    using leaking by (auto simp: leaks_def)
  from s show ?thesis
  proof cases
    case (added diff' i)
    then have "w \<in> set (concat (map (\<lambda>(n, line). warnings_for c Diff_added_line (diff_location c n) [line])
        (content_lines (CHR ''+'') diff)))"
      using w diff unfolding diff_warnings leaks_def by auto
    then show ?thesis by (simp add: added_lines_def)
  next
    case (removed diff' i)
    then have "w \<in> set (concat (map (\<lambda>(n, line). warnings_for c Diff_removed_line (diff_location c n) [line])
        (content_lines (CHR ''-'') diff)))"
      using w diff unfolding diff_warnings leaks_def by auto
    then show ?thesis by (simp add: removed_lines_def)
  next
    case (comment path source more_left)
    then obtain new where "comment_warnings tc pc c tree path = Inr new" using comments each_file_Inr by blast
    moreover have "w \<in> set new" unfolding comment_warnings_leaks [OF calculation] leaks_def using w comment by blast
    ultimately show ?thesis using comment each_file_set [OF comments] by auto
  next
    case (test_file dir path name)
    then obtain new where "test_warnings tc c tree path = Inr new" using tests each_file_Inr by (fastforce simp: tests_under_def)
    moreover have "w \<in> set new" unfolding test_warnings_leaks [OF calculation] leaks_def using w test_file by blast
    ultimately show ?thesis using test_file each_file_set [OF tests] by (auto simp: tests_under_def)
  next
    case (test_function dir path source more_left name)
    then obtain new where "test_warnings tc c tree path = Inr new" using tests each_file_Inr by (fastforce simp: tests_under_def)
    moreover have "w \<in> set new" unfolding test_warnings_leaks [OF calculation] leaks_def using w test_function by blast
    ultimately show ?thesis using test_function each_file_set [OF tests] by (auto simp: tests_under_def)
  qed
qed

text \<open>
  C39: the leak check reports exactly what leaks. When the scan of a case ends, there is a warning for a phrase, a surface and
  a location exactly when the phrase is one of the curated phrases of at least three characters and some text
  that the surface shows at that location says it: an added or removed line, a comment of the reviewed tree, or the name of a
  test file or test function, as it is or with its underscores as spaces. A phrase of one word is said where it stands
  between word boundaries up to case, a phrase with a space anywhere up to case folding.
\<close>

theorem scan_case_exact:
  assumes "scan_case tc pc c tree = Inr ws"
  shows "w \<in> set ws \<longleftrightarrow>
     lw_case_id w = case_id c
     \<and> 3 \<le> length (lw_phrase w)
     \<and> (\<exists>b \<in> set (gt_bugs (case_ground_truth c)). \<exists>q \<in> set (bug_must_mention b @ bug_concepts b @ bug_fix_keywords b).
          lw_phrase w = py_strip q)
     \<and> (\<exists>s. shown tc pc c tree (lw_surface w) (lw_location w) s \<and> says (lw_phrase w) s)"
proof -
  obtain diff comments tests where parts: "load_diff tc (node_path (in_diff (case_input_of c)) tree) = Inr diff"
    "each_file (comment_warnings tc pc c tree) (files_under (in_after_dir (case_input_of c)) tree) = Inr comments"
    "each_file (test_warnings tc c tree) (tests_under c tree) = Inr tests"
    and ws: "ws = concat (map (\<lambda>(n, line). warnings_for c Diff_added_line (diff_location c n) [line]) (added_lines diff))
         @ concat (map (\<lambda>(n, line). warnings_for c Diff_removed_line (diff_location c n) [line]) (removed_lines diff))
         @ comments @ tests"
    using assms by (auto simp: scan_case_def tests_under_def res_simps)
  have "w \<in> set ws \<longleftrightarrow> leaks c (shown tc pc c tree) w"
    unfolding ws using warned_shown [OF parts] shown_warned [OF parts] by blast
  then show ?thesis by (simp only: leaks_def set_leak_phrases) blast
qed

section \<open>A case that leaks\<close>

definition leaky_case :: benchmark_case where
  "leaky_case = small_case\<lparr>case_input_of := (case_input_of small_case)\<lparr>in_tests_dir := Some ''tests''\<rparr>\<rparr>"

definition leaky_tree :: node where
  "leaky_tree = Dir
     [(''pr.diff'', File (join_with [CHR 0x0A] [''--- auth'', ''-x = Auth(1)'', ''+authority'']) False 1),
      (''after'', Dir [(''q.sql'', File ''select 1 -- no auth'' False 1)]),
      (''tests'', Dir [(''t.py'', File ''def  test_auth_ok():'' False 1)])]"

lemma leaky_scan:
  "map_sum id (map (\<lambda>w. (lw_surface w, lw_phrase w, lw_location w))) (scan_case latin (\<lambda>_. None) leaky_case leaky_tree)
     = Inr [(Diff_removed_line, ''auth'', ''pr.diff:2''), (After_comment, ''auth'', ''after/q.sql''),
            (Test_name, ''auth'', ''tests/t.py::test_auth_ok'')]"
  by code_simp

theorem scan_case_exact_witness:
  "\<exists>s. shown latin (\<lambda>_. None) leaky_case leaky_tree Diff_removed_line ''pr.diff:2'' s \<and> says ''auth'' s"
proof -
  obtain ws where ws: "scan_case latin (\<lambda>_. None) leaky_case leaky_tree = Inr ws"
    and listed: "(Diff_removed_line, ''auth'', ''pr.diff:2'') \<in> set (map (\<lambda>w. (lw_surface w, lw_phrase w, lw_location w)) ws)"
    using leaky_scan by (cases "scan_case latin (\<lambda>_. None) leaky_case leaky_tree") auto
  then obtain w where "w \<in> set ws" "lw_surface w = Diff_removed_line" "lw_phrase w = ''auth''" "lw_location w = ''pr.diff:2''"
    by auto
  then show ?thesis using scan_case_exact [OF ws, of w] by auto
qed

end
