(* ===== verification/Importer.thy ===== *)
theory Importer
  imports Source_Repo Contamination Snapshot Case_Run
begin

text \<open>
  The historical-fix importer: \<open>importer/import_spec.py\<close>, \<open>importer/diff_repo.py\<close> and the generating half of
  \<open>importer/historical_fix.py\<close>. From a buggy and a fixed commit it makes a one-case pack whose diffs it proves to reproduce
  the trees they connect.

  Parameters are what is not this program: Git in the source repository and in the private ones, the YAML and JSON texts
  (written and read back), what the operating system lets be written, and what lies at the output path. The checksum, the validation of the pack and
  the leak check are the modelled ones.
\<close>

section \<open>The specification of a case\<close>

record import_spec =
  sp_version :: string
  sp_name :: string
  sp_case :: benchmark_case
  sp_source_paths :: "string list"
  sp_tests_root :: "string option"

text \<open>
  \<open>ImportSpec\<close>; \<open>sp_case\<close> holds the fields of its case, ground truth and configurations. \<open>to_case\<close> adds the inputs.
\<close>

definition import_input :: "import_spec \<Rightarrow> case_input" where
  "import_input spec =
     \<lparr>in_diff = ''pr.diff'', in_before_dir = ''before'', in_after_dir = ''after'',
      in_tests_dir = (if given (sp_tests_root spec) then Some ''tests'' else None)\<rparr>"

definition to_case :: "import_spec \<Rightarrow> benchmark_case" where
  "to_case spec = (sp_case spec)\<lparr>case_input_of := import_input spec\<rparr>"

definition valid_import_case :: "benchmark_case \<Rightarrow> bool" where
  "valid_import_case c \<longleftrightarrow>
     safe_case_id (case_id c) \<and> len_ok 1 TITLE_LEN (case_title c) \<and> len_ok 1 CATEGORY_LEN (case_category c)
     \<and> len_ok 1 STACK_ENTRIES (case_stack c) \<and> list_all (len_ok 1 IDENTIFIER_LEN) (case_stack c)
     \<and> len_ok 0 DESCRIPTION_LEN (case_description c) \<and> valid_scoring_config (case_scoring c)
     \<and> valid_execution_config (case_execution c) \<and> valid_validation_config (case_validation c)
     \<and> valid_beta (case_beta c)"

definition load_import_spec :: "(string, import_spec) res \<Rightarrow> (import_error, import_spec) res" where
  "load_import_spec document =
     (case document of
        Inl _ \<Rightarrow> Inl Model_invalid
      | Inr spec \<Rightarrow>
          if \<not> (len_ok 1 IDENTIFIER_LEN (sp_version spec) \<and> len_ok 1 TITLE_LEN (sp_name spec)
               \<and> len_ok 1 IMPORT_SOURCE_PATHS (sp_source_paths spec)
               \<and> list_all file_safe (sp_source_paths spec)
               \<and> (case sp_tests_root spec of None \<Rightarrow> True | Some d \<Rightarrow> dir_path_error (PyStr d) = None))
          then Inl (ImportFix ''invalid_spec'')
          else if \<not> valid_import_case (sp_case spec) then Inl (ImportFix ''invalid_spec'')
          else (case validate_ground_truth (case_ground_truth (sp_case spec)) of
              Inl _ \<Rightarrow> Inl (ImportFix ''invalid_spec'')
            | Inr g \<Rightarrow> Inr (spec\<lparr>sp_case := (sp_case spec)\<lparr>case_ground_truth := g\<rparr>\<rparr>)))"

section \<open>Diffs in a private repository\<close>

definition DIFF_FLAGS :: "string list" where
  "DIFF_FLAGS = [''--text'', ''--no-color'', ''--no-ext-diff'', ''--no-textconv'', ''--no-renames'', ''--default-prefix'',
     ''--full-index'', ''--unified=3'', ''--diff-algorithm=myers'', ''--no-indent-heuristic'']"

definition diff_run :: "git_context \<Rightarrow> string list \<Rightarrow> string \<Rightarrow> string tx" where
  "diff_run ctx args stdin =
     bind_tx (run_git ctx args stdin) (\<lambda>(rc, out, _). if rc \<noteq> 0 then raise_git ''diff_repo_failed'' [] else ret out)"

definition diff_line :: "git_context \<Rightarrow> string list \<Rightarrow> string \<Rightarrow> string tx" where
  "diff_line ctx args stdin = bind_tx (diff_run ctx args stdin) (\<lambda>out. ret (git_text ctx out))"

fun stage_files :: "git_context \<Rightarrow> selected_tree \<Rightarrow> unit tx" where
  "stage_files ctx [] = ret ()"
| "stage_files ctx ((path, mode, data) # files) =
     bind_tx (diff_line ctx [''hash-object'', ''-w'', ''--no-filters'', ''--stdin''] data) (\<lambda>oid.
     bind_tx (diff_run ctx [''update-index'', ''--add'', ''--cacheinfo'', mode @ '','' @ oid @ '','' @ path] []) (\<lambda>_.
     bind_tx (diff_run ctx [''cat-file'', ''blob'', oid] []) (\<lambda>staged.
       if staged \<noteq> data then raise_git ''diff_repo_failed'' ''staged blob does not equal the source bytes''
       else stage_files ctx files)))"

definition stage_tree :: "git_context \<Rightarrow> string \<Rightarrow> selected_tree \<Rightarrow> string tx" where
  "stage_tree base_ctx index_path files =
     (let ctx = base_ctx\<lparr>cx_env := cx_env base_ctx @ [(''GIT_INDEX_FILE'', index_path)]\<rparr> in
      bind_tx (stage_files ctx (sort_key fst files)) (\<lambda>_. diff_line ctx [''write-tree''] []))"

definition empty_attributes :: "unit tx" where
  "empty_attributes =
     bind_tx get_destination (\<lambda>repo.
       case overlay (Dir [(''.git'', Dir [(''info'', Dir [(''attributes'', File [] False 1)])])]) (Some repo) of
         Inl _ \<Rightarrow> raise OsError
       | Inr repo' \<Rightarrow> set_destination (Some repo'))"

definition patches_between ::
  "git_context \<Rightarrow> string \<Rightarrow> string \<Rightarrow> string \<Rightarrow> selected_tree \<Rightarrow> selected_tree \<Rightarrow> (string \<times> string) tx" where
  "patches_between ctx index_b index_f object_format buggy_tree fixed_tree =
     bind_tx (diff_run ctx [''init'', ''-q'', ''--object-format='' @ object_format] []) (\<lambda>_.
     bind_tx empty_attributes (\<lambda>_.
     bind_tx (stage_tree ctx index_b buggy_tree) (\<lambda>tree_b.
     bind_tx (stage_tree ctx index_f fixed_tree) (\<lambda>tree_f.
     bind_tx (diff_run ctx (''diff'' # DIFF_FLAGS @ [tree_b, tree_f]) []) (\<lambda>reference.
     bind_tx (diff_run ctx (''diff'' # DIFF_FLAGS @ [tree_f, tree_b]) []) (\<lambda>pr_diff.
       ret (reference, pr_diff)))))))"

definition decode_diff :: "text_codec \<Rightarrow> string \<Rightarrow> (import_error, string) res" where
  "decode_diff tc raw = (case tc_decode tc raw of None \<Rightarrow> Inl (ImportFix ''invalid_diff_encoding'') | Some s \<Rightarrow> Inr s)"

definition generate_patches ::
  "git_context \<Rightarrow> string \<Rightarrow> string \<Rightarrow> text_codec \<Rightarrow> string \<Rightarrow> selected_tree \<Rightarrow> selected_tree
   \<Rightarrow> (import_error, string \<times> string) res" where
  "generate_patches ctx index_b index_f tc object_format buggy_tree fixed_tree =
     (case fst (patches_between ctx index_b index_f object_format buggy_tree fixed_tree
                  \<lparr>tx_destination = Some (Dir []), tx_version = None, tx_format = None\<rparr>) of
        Inl (GitFailed _) \<Rightarrow> Inl (ImportFix ''diff_repo_failed'')
      | Inl _ \<Rightarrow> Inl Stage_raised
      | Inr (reference, pr_diff) \<Rightarrow>
          and_then (decode_diff tc reference) (\<lambda>r. and_then (decode_diff tc pr_diff) (\<lambda>d. Inr (r, d))))"

section \<open>The world of an import\<close>

datatype place_kind = Nothing_there | Link_there | Dir_there | Other_there | Unreadable_place

record provenance =
  pv_source_label :: "string option"
  pv_object_format :: string
  pv_buggy_commit :: string
  pv_fixed_commit :: string
  pv_merge_base :: string
  pv_source_paths :: "string list"
  pv_tests_root :: "string option"
  pv_buggy_source_files :: "string list"
  pv_fixed_source_files :: "string list"
  pv_fixed_test_files :: "string list"
  pv_changed_source_paths :: "string list"
  pv_changed_test_paths :: "string list"
  pv_pr_diff_sha256 :: string
  pv_reference_patch_sha256 :: string

record import_world =
  iw_repo :: source_repo
  iw_repo_exists :: bool
  iw_grafts :: "string \<Rightarrow> string option"
  iw_diff :: git_context
  iw_index_b :: string
  iw_index_f :: string
  iw_apply :: git_context
  iw_sha256 :: "string \<Rightarrow> string"
  iw_codec :: text_codec
  iw_comments :: py_comments
  iw_spec :: "(string, import_spec) res"
  iw_case_yaml :: "benchmark_case \<Rightarrow> bool \<Rightarrow> string"
  iw_manifest_yaml :: "string \<Rightarrow> string \<Rightarrow> string \<Rightarrow> string"
  iw_json :: "provenance \<Rightarrow> string"
  iw_posix :: bool
  iw_writes :: "string list \<Rightarrow> bool"
  iw_snapshots :: snapshot_world
  iw_views :: "node \<Rightarrow> pack_view \<times> pack_view"
  iw_pack :: "node \<Rightarrow> pack_source"
  iw_output_exists :: bool
  iw_parent :: place_kind
  iw_staging_made :: bool
  iw_parent_late :: place_kind
  iw_output_late :: bool
  iw_claimed :: bool
  iw_moved :: bool

record import_request =
  iq_buggy_commit :: string
  iq_fixed_commit :: string
  iq_source_label :: "string option"

section \<open>Reading the repository\<close>

record import_plan =
  pl_object_format :: string
  pl_merge_base :: string
  pl_after :: selected_tree
  pl_before :: selected_tree
  pl_tests :: selected_tree
  pl_present :: "string list"
  pl_repair :: "string list"
  pl_changed :: "string list"
  pl_test_changed :: "string list"
  pl_reference :: string
  pl_pr_diff :: string

definition tests_inside :: "string \<Rightarrow> tree_index \<Rightarrow> tree_index" where
  "tests_inside test_dir tree =
     fold (\<lambda>(path, mode_oid). alist_put
       (if starts_with path (test_dir @ ''/'') then drop (length test_dir + 1) path else path) mode_oid) tree []"

definition read_tests :: "source_repo \<Rightarrow> string \<Rightarrow> string \<Rightarrow> string option \<Rightarrow> (import_error, tree_index) res" where
  "read_tests repo object_format fixed test_dir =
     (case test_dir of
        None \<Rightarrow> Inr []
      | Some d \<Rightarrow>
          and_then (if d = [] then Inr [] else read_tree repo object_format fixed [d]) (\<lambda>tree.
            if d \<in> set (map fst tree) \<and> length tree = 1 then Inl (ImportFix ''tests_root_not_directory'')
            else if tree = [] then Inl (ImportFix ''tests_root_empty'')
            else Inr (tests_inside d tree)))"

definition in_selected :: "string list \<Rightarrow> string \<Rightarrow> bool" where
  "in_selected selectors path \<longleftrightarrow> list_ex (under path) selectors"

definition in_tests :: "string option \<Rightarrow> string \<Rightarrow> bool" where
  "in_tests test_dir path \<longleftrightarrow> (case test_dir of None \<Rightarrow> False | Some d \<Rightarrow> under path d)"

definition classify_change :: "import_spec \<Rightarrow> string \<Rightarrow> (import_error, unit) res" where
  "classify_change spec path =
     (let source = in_selected (sp_source_paths spec) path; test = in_tests (sp_tests_root spec) path in
      if source \<and> test then Inl (ImportFix ''source_test_overlap'')
      else if \<not> source \<and> \<not> test then Inl (ImportFix ''changed_path_unclassified'')
      else Inr ())"

definition check_layout :: "import_spec \<Rightarrow> (import_error, unit) res" where
  "check_layout spec =
     (if (ex_run_tests (case_execution (sp_case spec)) \<or> va_tests_required (case_validation (sp_case spec)))
         \<and> \<not> given (sp_tests_root spec)
      then Inl (ImportFix ''tests_root_missing'')
      else case sp_tests_root spec of
        None \<Rightarrow> Inr ()
      | Some d \<Rightarrow>
          if list_ex (\<lambda>sp. under sp d \<or> under d sp) (sp_source_paths spec)
          then Inl (ImportFix ''source_test_overlap'') else Inr ())"

definition bug_paths :: "benchmark_case \<Rightarrow> string list" where
  "bug_paths c = concat (map (\<lambda>b. map gf_path (bug_files b)) (gt_bugs (case_ground_truth c)))"

definition admit_ground_truth :: "benchmark_case \<Rightarrow> selected_tree \<Rightarrow> string list \<Rightarrow> (import_error, unit) res" where
  "admit_ground_truth c after repair =
     and_then (check_all (\<lambda>path.
         if map_of after path = None then Inl (ImportFix ''ground_truth_file_missing'')
         else if path \<notin> set repair then Inl (ImportFix ''ground_truth_file_not_changed'')
         else Inr ()) (bug_paths c)) (\<lambda>_.
       if \<not> set repair \<subseteq> set (bug_paths c) then Inl (ImportFix ''semantic_change_uncovered'') else Inr ())"

definition plan_import :: "import_world \<Rightarrow> import_request \<Rightarrow> import_spec \<Rightarrow> (import_error, import_plan) res" where
  "plan_import w q spec =
     (let repo = iw_repo w; buggy = iq_buggy_commit q; fixed = iq_fixed_commit q; tc = iw_codec w;
          source_paths = sorted_set (sp_source_paths spec) in
      and_then (open_repo (iw_repo_exists w) (iw_grafts w) repo) (\<lambda>object_format.
      and_then (resolve_commit repo object_format buggy) (\<lambda>_.
      and_then (resolve_commit repo object_format fixed) (\<lambda>_.
      and_then (merge_base repo buggy fixed) (\<lambda>base.
      if base = None then Inl (ImportFix ''commits_unrelated'')
      else
      and_then (is_ancestor repo buggy fixed) (\<lambda>descended.
      if \<not> descended then Inl (ImportFix ''fixed_not_descendant'')
      else
      and_then (check_all (check_hidden_selector repo buggy fixed) source_paths) (\<lambda>_.
      and_then (read_tree repo object_format buggy source_paths) (\<lambda>after_tree.
      and_then (read_tree repo object_format fixed source_paths) (\<lambda>before_tree.
      and_then (validate_source_selectors (sp_source_paths spec) (map fst after_tree @ map fst before_tree)) (\<lambda>_.
      and_then (read_tests repo object_format fixed (sp_tests_root spec)) (\<lambda>tests_tree.
      and_then (load_selected repo [after_tree, before_tree, tests_tree]) (\<lambda>loaded.
      let after = loaded ! 0; before = loaded ! 1; tests = loaded ! 2; repair = source_changes after before in
      and_then (require_text tc after repair) (\<lambda>_.
      and_then (require_text tc before repair) (\<lambda>_.
      and_then (changed_tree_paths repo buggy fixed) (\<lambda>changed.
      and_then (check_all (classify_change spec) changed) (\<lambda>_.
      and_then (generate_patches (iw_diff w) (iw_index_b w) (iw_index_f w) tc object_format after before)
        (\<lambda>(reference, pr_diff).
      and_then (admit_ground_truth (sp_case spec) after repair) (\<lambda>_.
        Inr \<lparr>pl_object_format = object_format, pl_merge_base = the base, pl_after = after, pl_before = before,
             pl_tests = tests, pl_present = sorted_set (map fst after_tree @ map fst before_tree), pl_repair = repair,
             pl_changed = changed, pl_test_changed = filter (in_tests (sp_tests_root spec)) changed,
             pl_reference = reference, pl_pr_diff = pr_diff\<rparr>))))))))))))))))))"

section \<open>The candidate pack\<close>

text \<open>A new file at a path: directories are made as needed, nothing that is there is replaced.\<close>

fun put_new :: "string list \<Rightarrow> node \<Rightarrow> node \<Rightarrow> node option" where
  "put_new [c] f (Dir es) = (if map_of es c = None then Some (Dir (es @ [(c, f)])) else None)"
| "put_new (c # d # cs) f (Dir es) =
     (case put_new (d # cs) f (case map_of es c of None \<Rightarrow> Dir [] | Some n \<Rightarrow> n) of
        None \<Rightarrow> None
      | Some n \<Rightarrow> Some (Dir (alist_put c n es)))"
| "put_new _ f _ = None"

text \<open>\<open>_write_exact\<close>; the operating system may refuse, stop short or not keep the mode.\<close>

definition write_exact :: "import_world \<Rightarrow> string list \<times> string \<times> bool \<Rightarrow> node \<Rightarrow> (import_error, node) res" where
  "write_exact w = (\<lambda>(path, data, executable) staging.
     (case (if iw_writes w path then put_new path (File data executable 1) staging else None) of
        None \<Rightarrow> Inl (ImportFix ''output_write_failure'')
      | Some staging' \<Rightarrow> Inr staging'))"

definition tree_writes :: "string list \<Rightarrow> selected_tree \<Rightarrow> (string list \<times> string \<times> bool) list" where
  "tree_writes dir files = map (\<lambda>(path, mode, data). (dir @ split_on CHR ''/'' path, data, mode = ''100755'')) files"

definition content_writes :: "string \<Rightarrow> import_plan \<Rightarrow> (string list \<times> string \<times> bool) list" where
  "content_writes i pl =
     tree_writes [i, ''after''] (pl_after pl) @ tree_writes [i, ''before''] (pl_before pl)
     @ tree_writes [i, ''tests''] (pl_tests pl)"

definition patch_writes :: "import_world \<Rightarrow> import_spec \<Rightarrow> import_plan \<Rightarrow> (string list \<times> string \<times> bool) list" where
  "patch_writes w spec pl =
     (let i = case_id (sp_case spec) in
      [([i, ''reference.patch''], utf8_encode (pl_reference pl), False),
       ([i, ''pr.diff''], utf8_encode (pl_pr_diff pl), False),
       ([''manifest.yaml''], utf8_encode (iw_manifest_yaml w (sp_version spec) (sp_name spec) i), False)])"

definition case_writes ::
  "import_world \<Rightarrow> import_spec \<Rightarrow> import_plan \<Rightarrow> provenance \<Rightarrow> (string list \<times> string \<times> bool) list" where
  "case_writes w spec pl prov =
     (let i = case_id (sp_case spec) in
      [([i, ''case.yaml''], utf8_encode (iw_case_yaml w (to_case spec) (pl_tests pl \<noteq> [])), False),
       ([i, ''provenance.json''], utf8_encode (iw_json w prov), False)])"

definition check_ranges :: "text_codec \<Rightarrow> node option \<Rightarrow> gt_file \<Rightarrow> (import_error, unit) res" where
  "check_ranges tc after f =
     (case Option.bind after (node_path (gf_path f)) of
        Some (File bytes _ _) \<Rightarrow>
          (case tc_decode tc bytes of
             None \<Rightarrow> Inl Stage_raised
           | Some s \<Rightarrow>
               if list_ex (\<lambda>r. lr_end r > int (length (splitlines s))) (gf_line_ranges f)
               then Inl (ImportFix ''invalid_ground_truth_range'') else Inr ())
      | _ \<Rightarrow> Inl Stage_raised)"

text \<open>\<open>to_case\<close> checks the case again, which adds that the stack has no duplicates.\<close>

definition stage_pack :: "import_world \<Rightarrow> import_spec \<Rightarrow> import_plan \<Rightarrow> provenance \<Rightarrow> (import_error, node) res" where
  "stage_pack w spec pl prov =
     (let i = case_id (sp_case spec) in
      and_then (fold_res (write_exact w) (content_writes i pl) (Dir [])) (\<lambda>staging.
      and_then (check_all (check_ranges (iw_codec w) (node_at [i, ''after''] staging))
          (concat (map bug_files (gt_bugs (case_ground_truth (sp_case spec)))))) (\<lambda>_.
      and_then (fold_res (write_exact w) (patch_writes w spec pl) staging) (\<lambda>staging.
      if \<not> distinct (case_stack (to_case spec)) then Inl Model_invalid
      else fold_res (write_exact w) (case_writes w spec pl prov) staging))))"

section \<open>The diffs reproduce the trees\<close>

definition tree_bytes :: "node \<Rightarrow> (string \<times> string) list" where
  "tree_bytes n =
     map (\<lambda>p. (posix_join p, case node_at p n of Some (File bytes _ _) \<Rightarrow> bytes | _ \<Rightarrow> [])) (tree_files n)"

definition change_mode :: "git_change \<Rightarrow> (string \<times> string) list \<Rightarrow> (string \<times> string) list" where
  "change_mode change modes =
     (if gc_status change = CHR ''D''
      then filter (\<lambda>e. fst e \<noteq> (case gc_old_path change of None \<Rightarrow> gc_new_path change | Some p \<Rightarrow> p)) modes
      else alist_put (gc_new_path change) (gc_new_mode change) modes)"

definition expected_bytes :: "selected_tree \<Rightarrow> (string \<times> string) set" where
  "expected_bytes files = (\<lambda>(path, mode, data). (path, data)) ` set files"

definition tree_modes :: "selected_tree \<Rightarrow> (string \<times> string) list" where
  "tree_modes files = map (\<lambda>(path, mode, data). (path, mode)) files"

definition executable_bits :: "node \<Rightarrow> selected_tree \<Rightarrow> bool" where
  "executable_bits d files \<longleftrightarrow>
     list_all (\<lambda>(path, mode, data). case node_path path d of
        Some (File _ executable _) \<Rightarrow> executable = (mode = ''100755'') | _ \<Rightarrow> False) files"

definition verify_reproduces ::
  "import_world \<Rightarrow> node option \<Rightarrow> selected_tree \<Rightarrow> string \<Rightarrow> selected_tree \<Rightarrow> string \<Rightarrow> (import_error, unit) res" where
  "verify_reproduces w source_dir source_tree patch_text expected reason =
     (case source_dir of
        None \<Rightarrow> Inl (Apply_raised OsError)
      | Some source \<Rightarrow>
          (case apply_patch (iw_apply w) (iw_sha256 w) source patch_text [] None (of_nat GIT_TIMEOUT_SECONDS) of
             (Inl e, _) \<Rightarrow> Inl (Apply_raised e)
           | (Inr result, destination) \<Rightarrow>
               if \<not> gp_applied result then Inl (ImportFix reason)
               else case destination of
                 None \<Rightarrow> Inl (ImportFix reason)
               | Some d \<Rightarrow>
                   if set (tree_bytes d) \<noteq> expected_bytes expected then Inl (ImportFix reason)
                   else if set (fold change_mode (gp_changes result) (tree_modes source_tree)) \<noteq> set (tree_modes expected)
                   then Inl (ImportFix reason)
                   else if iw_posix w \<and> \<not> executable_bits d expected then Inl (ImportFix reason)
                   else Inr ()))"

section \<open>Checks of the pack and publication\<close>

definition checksum_pack :: "import_world \<Rightarrow> node \<Rightarrow> (import_error, string \<times> node) res" where
  "checksum_pack w staging =
     (case write_checksum (iw_snapshots w) (iw_codec w) (fst (iw_views w staging)) (snd (iw_views w staging))
             (iw_writes w [PACK_CHECKSUM_FILENAME]) True None of
        (Inr checksum, Some line) \<Rightarrow>
          (case put_new [PACK_CHECKSUM_FILENAME] (File line False 1) staging of
             None \<Rightarrow> Inl Checksum_raised
           | Some staging' \<Rightarrow> Inr (checksum, staging'))
      | _ \<Rightarrow> Inl Checksum_raised)"

definition validate_pack :: "import_world \<Rightarrow> node \<Rightarrow> (import_error, unit) res" where
  "validate_pack w staging =
     and_then (raise_as Diff_unparsed (validate_dataset (iw_codec w) (iw_pack w staging))) (\<lambda>errors.
     if errors \<noteq> [] then Inl (ImportFix ''generated_pack_invalid'')
     else and_then (raise_as Pack_unloaded (load_cases (iw_pack w staging))) (\<lambda>cases.
     and_then (raise_as Scan_raised (scan_cases (iw_codec w) (iw_comments w) cases)) (\<lambda>warnings.
     if warnings \<noteq> [] then Inl (ImportFix ''contamination_detected'') else Inr ())))"

definition validate_output_parent :: "import_world \<Rightarrow> (import_error, unit) res" where
  "validate_output_parent w =
     (case iw_parent w of
        Nothing_there \<Rightarrow> Inl (ImportFix ''output_parent_missing'')
      | Dir_there \<Rightarrow> Inr ()
      | _ \<Rightarrow> Inl (ImportFix ''output_parent_invalid''))"

definition publish :: "import_world \<Rightarrow> (import_error, unit) res" where
  "publish w =
     (if iw_parent_late w \<noteq> Dir_there then Inl (ImportFix ''output_write_failure'')
      else if iw_output_late w \<or> \<not> iw_claimed w then Inl (ImportFix ''output_exists'')
      else if \<not> iw_moved w then Inl (ImportFix ''output_write_failure'')
      else Inr ())"

section \<open>An import\<close>

record import_result =
  ir_case_id :: string
  ir_buggy_commit :: string
  ir_fixed_commit :: string
  ir_merge_base :: string
  ir_object_format :: string
  ir_buggy_source_file_count :: nat
  ir_fixed_source_file_count :: nat
  ir_union_source_file_count :: nat
  ir_fixed_test_file_count :: nat
  ir_repair_changed_paths :: "string list"
  ir_test_changed_paths :: "string list"
  ir_pack_checksum :: string

definition provenance_of :: "import_world \<Rightarrow> import_request \<Rightarrow> import_spec \<Rightarrow> import_plan \<Rightarrow> provenance" where
  "provenance_of w q spec pl =
     \<lparr>pv_source_label = iq_source_label q, pv_object_format = pl_object_format pl,
      pv_buggy_commit = iq_buggy_commit q, pv_fixed_commit = iq_fixed_commit q, pv_merge_base = pl_merge_base pl,
      pv_source_paths = sorted_set (sp_source_paths spec), pv_tests_root = sp_tests_root spec,
      pv_buggy_source_files = sort (map fst (pl_after pl)), pv_fixed_source_files = sort (map fst (pl_before pl)),
      pv_fixed_test_files = sort (map fst (pl_tests pl)), pv_changed_source_paths = pl_repair pl,
      pv_changed_test_paths = pl_test_changed pl,
      pv_pr_diff_sha256 = iw_sha256 w (utf8_encode (pl_pr_diff pl)),
      pv_reference_patch_sha256 = iw_sha256 w (utf8_encode (pl_reference pl))\<rparr>"

text \<open>\<open>Provenance\<close>: what is not admitted before.\<close>

definition hex_id :: "string \<Rightarrow> bool" where "hex_id s \<longleftrightarrow> is_hex_sha s 40 \<or> is_hex_sha s 64"

definition valid_provenance :: "provenance \<Rightarrow> bool" where
  "valid_provenance p \<longleftrightarrow>
     hex_id (pv_buggy_commit p) \<and> hex_id (pv_fixed_commit p) \<and> hex_id (pv_merge_base p)
     \<and> list_all file_safe (pv_buggy_source_files p @ pv_fixed_source_files p @ pv_fixed_test_files p
          @ pv_changed_source_paths p @ pv_changed_test_paths p)"

definition result_of :: "import_request \<Rightarrow> import_spec \<Rightarrow> import_plan \<Rightarrow> string \<Rightarrow> import_result" where
  "result_of q spec pl checksum =
     \<lparr>ir_case_id = case_id (sp_case spec), ir_buggy_commit = iq_buggy_commit q, ir_fixed_commit = iq_fixed_commit q,
      ir_merge_base = pl_merge_base pl, ir_object_format = pl_object_format pl,
      ir_buggy_source_file_count = length (pl_after pl), ir_fixed_source_file_count = length (pl_before pl),
      ir_union_source_file_count = length (pl_present pl), ir_fixed_test_file_count = length (pl_tests pl),
      ir_repair_changed_paths = pl_repair pl, ir_test_changed_paths = pl_test_changed pl,
      ir_pack_checksum = checksum\<rparr>"

text \<open>The result with the pack that is published.\<close>

definition import_fix :: "import_world \<Rightarrow> import_request \<Rightarrow> (import_error, import_result \<times> node) res" where
  "import_fix w q =
     (if iw_output_exists w then Inl (ImportFix ''output_exists'')
      else
      and_then (case iq_source_label q of None \<Rightarrow> Inr [] | Some l \<Rightarrow> check_source_label l) (\<lambda>_.
      and_then (load_import_spec (iw_spec w)) (\<lambda>spec.
      and_then (check_layout spec) (\<lambda>_.
      and_then (plan_import w q spec) (\<lambda>pl.
      let prov = provenance_of w q spec pl; i = case_id (sp_case spec) in
      if \<not> valid_provenance prov then Inl Model_invalid
      else
      and_then (validate_output_parent w) (\<lambda>_.
      if \<not> iw_staging_made w then Inl (ImportFix ''staging_failed'')
      else
      and_then (stage_pack w spec pl prov) (\<lambda>staging.
      and_then (verify_reproduces w (node_at [i, ''after''] staging) (pl_after pl) (pl_reference pl) (pl_before pl)
                  ''reference_patch_verification_failed'') (\<lambda>_.
      and_then (verify_reproduces w (node_at [i, ''before''] staging) (pl_before pl) (pl_pr_diff pl) (pl_after pl)
                  ''pr_diff_verification_failed'') (\<lambda>_.
      and_then (checksum_pack w staging) (\<lambda>(checksum, pack).
      and_then (validate_pack w pack) (\<lambda>_.
      and_then (publish w) (\<lambda>_.
        Inr (result_of q spec pl checksum, pack)))))))))))))"

section \<open>What the candidate pack holds\<close>

definition file_set :: "node \<Rightarrow> (string list \<times> string \<times> bool) set" where
  "file_set n = {(p, bytes, x) | p bytes x. \<exists>k. node_at p n = Some (File bytes x k)}"

lemma node_at_of_file: "node_at p (File bytes x k) = Some m \<longleftrightarrow> p = [] \<and> m = File bytes x k"
  by (cases p) auto

lemma put_new_node:
  "put_new p (File bytes x 1) n = Some n' \<Longrightarrow>
     (node_at q n' = Some (File b y k)) = (q = p \<and> (b, y, k) = (bytes, x, 1) \<or> node_at q n = Some (File b y k))"
proof (induction p "File bytes x 1" n arbitrary: n' q rule: put_new.induct)
  case (1 c es)
  then show ?case
    by (cases q) (auto split: if_split_asm option.split simp: map_of_append map_add_Some_iff node_at_of_file)
next
  case (2 c d cs es)
  then obtain m where m: "put_new (d # cs) (File bytes x 1) (case map_of es c of None \<Rightarrow> Dir [] | Some n \<Rightarrow> n) = Some m"
    "n' = Dir (alist_put c m es)" by (auto split: option.split_asm)
  show ?case
  proof (cases q)
    case (Cons a q')
    then show ?thesis using 2(1) [OF m(1), of q'] m(2) by (cases q') (auto split: option.split)
  qed (use m in simp)
qed simp_all

lemma put_new_files: "put_new p (File bytes x 1) n = Some n' \<Longrightarrow> file_set n' = insert (p, bytes, x) (file_set n)"
  using put_new_node [of p bytes x n n'] by (auto simp: file_set_def)

lemma put_new_wf:
  "put_new p (File bytes x 1) n = Some n' \<Longrightarrow> wf_node n \<Longrightarrow> list_all (\<lambda>c. c \<noteq> [] \<and> CHR ''/'' \<notin> set c) p \<Longrightarrow> wf_node n'"
proof (induction p "File bytes x 1" n arbitrary: n' rule: put_new.induct)
  case (1 c es)
  then show ?case by (auto simp: wf_node.simps(1) map_of_eq_None_iff split: if_split_asm)
next
  case (2 c d cs es)
  let ?below = "case map_of es c of None \<Rightarrow> Dir [] | Some n \<Rightarrow> n"
  obtain m where m: "put_new (d # cs) (File bytes x 1) ?below = Some m" "n' = Dir (alist_put c m es)"
    using 2(2) by (auto split: option.split_asm)
  have "wf_node ?below"
    using 2(3) by (auto simp: wf_node.simps(1) list_all_iff split: option.split dest!: map_of_SomeD)
  then have "wf_node m" using 2(1) [OF m(1)] 2(4) by simp
  then show ?case
    using 2(3,4) alist_put_props(1) [of c m es]
    by (auto simp: m(2) wf_node.simps(1) list_all_iff distinct_alist_put)
qed simp_all

definition plain_path :: "string list \<Rightarrow> bool" where
  "plain_path p \<longleftrightarrow> list_all (\<lambda>c. c \<noteq> [] \<and> CHR ''/'' \<notin> set c) p"

lemma written:
  assumes "fold_res (write_exact w) writes n = Inr n'" "wf_node n" "list_all (\<lambda>(p, _). plain_path p) writes"
  shows "wf_node n' \<and> file_set n' = file_set n \<union> set writes"
  using assms
proof (induction writes arbitrary: n)
  case (Cons e writes)
  obtain p bytes x where e: "e = (p, bytes, x)" by (cases e)
  obtain m where m: "put_new p (File bytes x 1) n = Some m" "fold_res (write_exact w) writes m = Inr n'"
    using Cons.prems(1) by (auto simp: e write_exact_def split: if_split_asm option.split_asm)
  have "wf_node m" using put_new_wf [OF m(1)] Cons.prems(2,3) by (simp add: e plain_path_def)
  then show ?case using Cons.IH [OF m(2)] Cons.prems(3) put_new_files [OF m(1)] by (auto simp: e)
qed simp

lemma file_set_below:
  "node_at p n = Some m \<Longrightarrow> file_set m = {(q, bytes, x) | q bytes x. (p @ q, bytes, x) \<in> file_set n}"
  by (simp add: file_set_def node_at_append)

lemma in_tree_files:
  assumes "wf_node n"
  shows "p \<in> set (tree_files n) \<longleftrightarrow> p \<noteq> [] \<and> (\<exists>bytes x k. node_at p n = Some (File bytes x k))"
proof -
  let ?found = "\<lambda>(lead, _, files). map (\<lambda>e. lead @ [fst e]) (filter (\<lambda>e. is_regular (snd e)) files)"
  have at: "p \<in> set (?found (visit_at q es)) \<longleftrightarrow> (\<exists>name f. p = q @ [name] \<and> (name, f) \<in> set es \<and> is_regular f)" for q es
  proof -
    have "is_regular f \<Longrightarrow> \<not> is_dir_like f" for f by (cases f) simp_all
    then show ?thesis by (force simp: visit_at_def)
  qed
  have "p \<in> set (tree_files n) \<longleftrightarrow> (\<exists>v. v \<in> set (walk [] n) \<and> p \<in> set (?found v))"
    unfolding tree_files_def set_sort set_concat set_map by blast
  also have "\<dots> \<longleftrightarrow> (\<exists>q es. node_at q n = Some (Dir es) \<and> p \<in> set (?found (visit_at q es)))"
    unfolding walk_visit_at [OF assms] by metis
  finally have "p \<in> set (tree_files n) \<longleftrightarrow>
      (\<exists>q es name f. p = q @ [name] \<and> node_at q n = Some (Dir es) \<and> (name, f) \<in> set es \<and> is_regular f)"
    unfolding at by metis
  also have "\<dots> \<longleftrightarrow> p \<noteq> [] \<and> (\<exists>f. node_at p n = Some f \<and> is_regular f)"
    by (cases p rule: rev_cases) (auto simp: node_at_snoc [OF assms])
  also have "\<dots> \<longleftrightarrow> p \<noteq> [] \<and> (\<exists>bytes x k. node_at p n = Some (File bytes x k))"
    by (auto elim!: is_regular.elims)
  finally show ?thesis .
qed

lemma set_tree_bytes:
  assumes "wf_node n" "\<And>bytes x. ([], bytes, x) \<notin> file_set n"
  shows "set (tree_bytes n) = {(posix_join p, bytes) | p bytes x. (p, bytes, x) \<in> file_set n}"
proof -
  have root: "p \<noteq> []" if "node_at p n = Some (File bytes x k)" for p bytes x k 
    using that assms(2) [of bytes x] by (auto simp: file_set_def)
  have "set (tree_bytes n) = (\<lambda>p. (posix_join p, case node_at p n of Some (File bytes _ _) \<Rightarrow> bytes | _ \<Rightarrow> []))
      ` {p. \<exists>bytes x k. node_at p n = Some (File bytes x k)}"
    unfolding tree_bytes_def set_map using root by (intro image_cong) (auto simp: in_tree_files [OF assms(1)])
  also have "\<dots> = {(posix_join p, bytes) | p bytes x. (p, bytes, x) \<in> file_set n}"
    by (force simp: file_set_def)
  finally show ?thesis .
qed

section \<open>What a plan and an import that end well went through\<close>

lemma Inr_unit: "(r :: ('e, unit) res) = Inr u \<longleftrightarrow> r = Inr ()"
  by simp

lemma plan_facts:
  assumes "plan_import w q spec = Inr pl"
  obtains object_format x y after_tree before_tree tests_tree loaded where
    "open_repo (iw_repo_exists w) (iw_grafts w) (iw_repo w) = Inr object_format"
    "resolve_commit (iw_repo w) object_format (iq_buggy_commit q) = Inr x"
    "resolve_commit (iw_repo w) object_format (iq_fixed_commit q) = Inr y"
    "is_ancestor (iw_repo w) (iq_buggy_commit q) (iq_fixed_commit q) = Inr True"
    "read_tree (iw_repo w) object_format (iq_buggy_commit q) (sorted_set (sp_source_paths spec)) = Inr after_tree"
    "read_tree (iw_repo w) object_format (iq_fixed_commit q) (sorted_set (sp_source_paths spec)) = Inr before_tree"
    "validate_source_selectors (sp_source_paths spec) (map fst after_tree @ map fst before_tree) = Inr ()"
    "read_tests (iw_repo w) object_format (iq_fixed_commit q) (sp_tests_root spec) = Inr tests_tree"
    "load_selected (iw_repo w) [after_tree, before_tree, tests_tree] = Inr loaded"
    "pl_after pl = loaded ! 0" "pl_before pl = loaded ! 1" "pl_tests pl = loaded ! 2"
    "pl_repair pl = source_changes (pl_after pl) (pl_before pl)"
    "changed_tree_paths (iw_repo w) (iq_buggy_commit q) (iq_fixed_commit q) = Inr (pl_changed pl)"
    "check_all (classify_change spec) (pl_changed pl) = Inr ()"
    "admit_ground_truth (sp_case spec) (pl_after pl) (pl_repair pl) = Inr ()"
  using assms unfolding plan_import_def Let_def and_then_Inr if_Inl_Inr split_paired_Ex prod.case sum.inject
  by (elim exE conjE, hypsubst) (rule that; (assumption | simp))

lemma import_facts:
  assumes "import_fix w q = Inr (r, pack)"
  obtains spec pl staging checksum where
    "load_import_spec (iw_spec w) = Inr spec" "check_layout spec = Inr ()" "plan_import w q spec = Inr pl"
    "stage_pack w spec pl (provenance_of w q spec pl) = Inr staging"
    "verify_reproduces w (node_at [case_id (sp_case spec), ''after''] staging) (pl_after pl) (pl_reference pl) (pl_before pl)
       ''reference_patch_verification_failed'' = Inr ()"
    "verify_reproduces w (node_at [case_id (sp_case spec), ''before''] staging) (pl_before pl) (pl_pr_diff pl) (pl_after pl)
       ''pr_diff_verification_failed'' = Inr ()"
    "checksum_pack w staging = Inr (checksum, pack)" "validate_pack w pack = Inr ()"
    "r = result_of q spec pl checksum" "valid_provenance (provenance_of w q spec pl)"
  using assms unfolding import_fix_def Let_def and_then_Inr if_Inl_Inr split_paired_Ex prod.case sum.inject prod.inject
  by (elim exE conjE, hypsubst) (rule that; (assumption | simp))

lemma distinct_tests_inside: "distinct (map fst (tests_inside d tree))"
proof -
  have "distinct (map fst acc) \<Longrightarrow> distinct (map fst (fold (\<lambda>(path, mode_oid). alist_put (f path) mode_oid) tree acc))" for f acc
    by (induction tree arbitrary: acc) (auto simp: distinct_alist_put)
  from this [of "[]" "\<lambda>path. if starts_with path (d @ ''/'') then drop (length d + 1) path else path"]
  show ?thesis by (simp add: tests_inside_def)
qed

lemma plan_commits:
  assumes "plan_import w q spec = Inr pl"
  obtains object_format after_tree before_tree where
    "is_ancestor (iw_repo w) (iq_buggy_commit q) (iq_fixed_commit q) = Inr True"
    "read_tree (iw_repo w) object_format (iq_buggy_commit q) (sorted_set (sp_source_paths spec)) = Inr after_tree"
    "read_tree (iw_repo w) object_format (iq_fixed_commit q) (sorted_set (sp_source_paths spec)) = Inr before_tree"
    "distinct (map fst after_tree)" "distinct (map fst before_tree)"
    "pl_after pl = loaded_from (iw_repo w) (sort_key fst after_tree)"
    "pl_before pl = loaded_from (iw_repo w) (sort_key fst before_tree)"
    "validate_source_selectors (sp_source_paths spec) (map fst after_tree @ map fst before_tree) = Inr ()"
    "pl_repair pl = source_changes (pl_after pl) (pl_before pl)"
    "changed_tree_paths (iw_repo w) (iq_buggy_commit q) (iq_fixed_commit q) = Inr (pl_changed pl)"
    "check_all (classify_change spec) (pl_changed pl) = Inr ()"
    "admit_ground_truth (sp_case spec) (pl_after pl) (pl_repair pl) = Inr ()"
proof (rule plan_facts [OF assms])
  fix object_format after_tree before_tree tests_tree loaded
  assume reads:
    "read_tree (iw_repo w) object_format (iq_buggy_commit q) (sorted_set (sp_source_paths spec)) = Inr after_tree"
    "read_tree (iw_repo w) object_format (iq_fixed_commit q) (sorted_set (sp_source_paths spec)) = Inr before_tree"
    and tests: "read_tests (iw_repo w) object_format (iq_fixed_commit q) (sp_tests_root spec) = Inr tests_tree"
    and load: "load_selected (iw_repo w) [after_tree, before_tree, tests_tree] = Inr loaded"
    and parts: "pl_after pl = loaded ! 0" "pl_before pl = loaded ! 1"
    and facts: "is_ancestor (iw_repo w) (iq_buggy_commit q) (iq_fixed_commit q) = Inr True"
    "validate_source_selectors (sp_source_paths spec) (map fst after_tree @ map fst before_tree) = Inr ()"
    "pl_repair pl = source_changes (pl_after pl) (pl_before pl)"
    "changed_tree_paths (iw_repo w) (iq_buggy_commit q) (iq_fixed_commit q) = Inr (pl_changed pl)"
    "check_all (classify_change spec) (pl_changed pl) = Inr ()"
    "admit_ground_truth (sp_case spec) (pl_after pl) (pl_repair pl) = Inr ()"
  have d: "distinct (map fst after_tree)" "distinct (map fst before_tree)"
    using read_tree_ok [OF reads(1)] read_tree_ok [OF reads(2)] by simp_all
  have "distinct (map fst tests_tree)"
    using tests distinct_tests_inside by (auto simp: read_tests_def res_simps split: option.split_asm)
  then have "loaded = map (\<lambda>tree. loaded_from (iw_repo w) (sort_key fst tree)) [after_tree, before_tree, tests_tree]"
    using load_selected_ok [OF load] d by auto
  then show thesis using that [OF facts(1) reads d] parts facts(2-) by simp
qed

lemma split_safe: "file_safe path \<Longrightarrow> plain_path (split_on CHR ''/'' path)"
  using split_on_no_sep [of _ "CHR ''/''" path]
  by (auto simp: plain_path_def file_safe_def list_all_iff relative_path_error_None dest: portable_nonempty)

lemma plain_tree_writes:
  assumes "plain_path dir" "list_all file_safe (map fst files)"
  shows "list_all (\<lambda>(p, _). plain_path p) (tree_writes dir files)"
  using assms(2)
proof (induction files)
  case (Cons e files)
  then show ?case using assms(1) split_safe [of "fst e"] by (cases e) (auto simp: tree_writes_def plain_path_def)
qed (simp add: tree_writes_def)

lemma staged:
  assumes "stage_pack w spec pl prov = Inr staging" "safe_case_id (case_id (sp_case spec))"
    "list_all file_safe (map fst (pl_after pl @ pl_before pl @ pl_tests pl))"
  shows "wf_node staging
    \<and> file_set staging = set (content_writes (case_id (sp_case spec)) pl) \<union> set (patch_writes w spec pl) \<union> set (case_writes w spec pl prov)"
proof -
  let ?i = "case_id (sp_case spec)"
  obtain m k where steps: "fold_res (write_exact w) (content_writes ?i pl) (Dir []) = Inr m"
    "fold_res (write_exact w) (patch_writes w spec pl) m = Inr k"
    "fold_res (write_exact w) (case_writes w spec pl prov) k = Inr staging"
    using assms(1) unfolding stage_pack_def Let_def and_then_Inr if_Inl_Inr by blast
  have i: "plain_path [?i]" 
    using assms(2) check_case_id_component(2,4) [of ?i ?i] portable_nonempty split_on_no_sep [of ?i "CHR ''/''" ?i]
    by (auto simp: safe_case_id_def plain_path_def)
  have "list_all (\<lambda>(p, _). plain_path p) (content_writes ?i pl)"
    unfolding content_writes_def list_all_append
    by (intro conjI plain_tree_writes) (use i assms(3) in \<open>simp_all add: plain_path_def\<close>)
  moreover have "list_all (\<lambda>(p, _). plain_path p) (patch_writes w spec pl)" "list_all (\<lambda>(p, _). plain_path p) (case_writes w spec pl prov)"
    using i by (simp_all add: patch_writes_def case_writes_def Let_def plain_path_def)
  moreover have "wf_node (Dir [])" "file_set (Dir []) = {}"
    by (auto simp: wf_node.simps(1) file_set_def elim!: node_at.elims)
  ultimately show ?thesis using written [OF steps(1)] written [OF steps(2)] written [OF steps(3)] by auto
qed

lemma in_tree_writes:
  "(p, bytes, x) \<in> set (tree_writes dir files) \<longleftrightarrow> (\<exists>q. p = dir @ q \<and> (q, bytes, x) \<in> set (tree_writes [] files))"
  by (force simp: tree_writes_def)

lemma staged_part:
  assumes "stage_pack w spec pl prov = Inr staging" "safe_case_id (case_id (sp_case spec))"
    "list_all file_safe (map fst (pl_after pl @ pl_before pl @ pl_tests pl))"
    "node_at [case_id (sp_case spec), part] staging = Some m" "(part, files) \<in> {(''after'', pl_after pl), (''before'', pl_before pl)}"
  shows "wf_node m \<and> file_set m = set (tree_writes [] files)"
proof -
  have wf: "wf_node m" using node_at_wf(1) staged [OF assms(1-3)] assms(4) by blast
  let ?i = "case_id (sp_case spec)"
  have content: "(?i # part # p, bytes, x) \<in> set (tree_writes [?i, part'] files') \<longleftrightarrow>
      part = part' \<and> (p, bytes, x) \<in> set (tree_writes [] files')" for p bytes x part' files'
    unfolding in_tree_writes [of "?i # part # p"] by auto
  have "(p, bytes, x) \<in> file_set m \<longleftrightarrow> (p, bytes, x) \<in> set (tree_writes [] files)" for p bytes x
  proof -
    have "(p, bytes, x) \<in> file_set m \<longleftrightarrow> (?i # part # p, bytes, x) \<in> set (content_writes ?i pl)
        \<union> set (patch_writes w spec pl) \<union> set (case_writes w spec pl prov)"
      using file_set_below [OF assms(4)] staged [OF assms(1-3)] by simp
    moreover have "(?i # part # p, bytes, x) \<notin> set (patch_writes w spec pl) \<union> set (case_writes w spec pl prov)"
      using assms(5) by (auto simp: patch_writes_def case_writes_def Let_def)
    ultimately show ?thesis using assms(5) by (auto simp: content_writes_def content)
  qed
  then have "file_set m = set (tree_writes [] files)" by auto
  then show ?thesis using wf by blast
qed

lemma bytes_of_writes:
  assumes "wf_node m \<and> file_set m = set (tree_writes [] files)"
  shows "set (tree_bytes m) = expected_bytes files"
proof -
  have "set (tree_bytes m) = {(posix_join p, bytes) | p bytes x. (p, bytes, x) \<in> file_set m}"
  proof (rule set_tree_bytes)
    show "([], bytes, x) \<notin> file_set m" for bytes x
    proof
      assume "([], bytes, x) \<in> file_set m"
      then obtain path where "[] = split_on CHR ''/'' path" using assms by (auto simp: tree_writes_def)
      then show False using split_on_nonempty [of "CHR ''/''" path] by simp
    qed
  qed (use assms in simp)
  also have "\<dots> = (\<lambda>(p, bytes, x). (posix_join p, bytes)) ` set (tree_writes [] files)"
    unfolding conjunct2 [OF assms] by (rule set_eqI) (auto intro: rev_image_eqI)
  also have "\<dots> = expected_bytes files"
    by (simp add: tree_writes_def expected_bytes_def image_image case_prod_unfold posix_join_def join_split_on)
  finally show ?thesis .
qed

text \<open>The tree that a patch makes of a source has the bytes of the target and, on POSIX, its executable bits.\<close>

definition reproduces :: "import_world \<Rightarrow> node \<Rightarrow> string \<Rightarrow> node \<Rightarrow> bool" where
  "reproduces w source patch target \<longleftrightarrow>
     (\<exists>g d. apply_patch (iw_apply w) (iw_sha256 w) source patch [] None (of_nat GIT_TIMEOUT_SECONDS) = (Inr g, Some d)
        \<and> gp_applied g \<and> set (tree_bytes d) = set (tree_bytes target)
        \<and> (iw_posix w \<longrightarrow> (\<forall>path bytes x k. node_path path target = Some (File bytes x k)
             \<longrightarrow> (\<exists>bytes' k'. node_path path d = Some (File bytes' x k')))))"

lemma verified_reproduces:
  assumes "verify_reproduces w (Some source) tree patch files reason = Inr ()"
    "wf_node target \<and> file_set target = set (tree_writes [] files)"
  shows "reproduces w source patch target"
proof -
  obtain g d where d: "apply_patch (iw_apply w) (iw_sha256 w) source patch [] None (of_nat GIT_TIMEOUT_SECONDS) = (Inr g, Some d)"
    "gp_applied g" "set (tree_bytes d) = expected_bytes files" "iw_posix w \<longrightarrow> executable_bits d files"
    using assms(1) by (auto simp: verify_reproduces_def split: prod.split_asm sum.split_asm if_split_asm option.split_asm)
  have "\<exists>bytes' k'. node_path path d = Some (File bytes' x k')"
    if "iw_posix w" "node_path path target = Some (File bytes x k)" for path bytes x k
  proof -
    have "(split_on CHR ''/'' path, bytes, x) \<in> set (tree_writes [] files)"
      using that(2) assms(2) unfolding node_path_def file_set_def by blast
    then obtain path' mode where e: "(path', mode, bytes) \<in> set files" "split_on CHR ''/'' path' = split_on CHR ''/'' path"
      "x = (mode = ''100755'')" by (auto simp: tree_writes_def)
    have "path' = path" using e(2) join_split_on by metis
    then show ?thesis using d(4) that(1) e
      by (fastforce simp: executable_bits_def list_all_iff split: option.split_asm node.split_asm)
  qed
  then show ?thesis unfolding reproduces_def using d bytes_of_writes [OF assms(2)] by metis
qed

lemma checksum_keeps: "checksum_pack w staging = Inr (c, pack) \<Longrightarrow> node_at (a # p) staging = Some m \<Longrightarrow> node_at (a # p) pack = Some m"
  by (cases staging) (auto simp: checksum_pack_def map_of_append map_add_Some_iff
      split: prod.split_asm sum.split_asm option.split_asm if_split_asm)

lemma import_parts:
  assumes "import_fix w q = Inr (r, pack)"
  obtains spec pl staging checksum after before where
    "load_import_spec (iw_spec w) = Inr spec" "plan_import w q spec = Inr pl" "r = result_of q spec pl checksum"
    "stage_pack w spec pl (provenance_of w q spec pl) = Inr staging" "checksum_pack w staging = Inr (checksum, pack)"
    "safe_case_id (case_id (sp_case spec))"
    "list_all file_safe (map fst (pl_after pl @ pl_before pl @ pl_tests pl))"
    "node_at [case_id (sp_case spec), ''after''] staging = Some after"
    "node_at [case_id (sp_case spec), ''before''] staging = Some before"
    "wf_node after \<and> file_set after = set (tree_writes [] (pl_after pl))"
    "wf_node before \<and> file_set before = set (tree_writes [] (pl_before pl))"
    "verify_reproduces w (Some after) (pl_after pl) (pl_reference pl) (pl_before pl) ''reference_patch_verification_failed'' = Inr ()"
    "verify_reproduces w (Some before) (pl_before pl) (pl_pr_diff pl) (pl_after pl) ''pr_diff_verification_failed'' = Inr ()"
proof -
  obtain spec pl staging checksum where facts:
    "load_import_spec (iw_spec w) = Inr spec" "plan_import w q spec = Inr pl"
    "stage_pack w spec pl (provenance_of w q spec pl) = Inr staging"
    "verify_reproduces w (node_at [case_id (sp_case spec), ''after''] staging) (pl_after pl) (pl_reference pl) (pl_before pl)
       ''reference_patch_verification_failed'' = Inr ()"
    "verify_reproduces w (node_at [case_id (sp_case spec), ''before''] staging) (pl_before pl) (pl_pr_diff pl) (pl_after pl)
       ''pr_diff_verification_failed'' = Inr ()"
    "checksum_pack w staging = Inr (checksum, pack)" "r = result_of q spec pl checksum"
    "valid_provenance (provenance_of w q spec pl)"
    by (rule import_facts [OF assms])
  have i: "safe_case_id (case_id (sp_case spec))"
    using facts(1) by (auto simp: load_import_spec_def valid_import_case_def split: sum.split_asm if_split_asm)
  have safe: "list_all file_safe (map fst (pl_after pl @ pl_before pl @ pl_tests pl))"
    using facts(8) by (auto simp: valid_provenance_def provenance_of_def list_all_iff)
  obtain after where a: "node_at [case_id (sp_case spec), ''after''] staging = Some after"
    using facts(4) by (auto simp: verify_reproduces_def split: option.split_asm)
  obtain before where b: "node_at [case_id (sp_case spec), ''before''] staging = Some before"
    using facts(5) by (auto simp: verify_reproduces_def split: option.split_asm)
  note part = staged_part [OF facts(3) i safe]
  show thesis
    by (rule that [OF facts(1,2,7,3,6) i safe a b part [OF a] part [OF b]]) (use facts(4,5) a b in simp_all)
qed

text \<open>
  C36: what an import publishes reproduces itself. The case directory of the published pack holds the trees of the two commits and
  the two diffs; applied with the transaction that candidate patches go through, the reference patch turns the buggy tree into
  the fixed one and the reviewed diff turns the fixed tree into the buggy one, byte for byte, and on POSIX with the
  executable bits.
\<close>

theorem imported_case_round_trip:
  assumes "import_fix w q = Inr (r, pack)"
  shows "\<exists>after before reference pr_diff.
     node_at [ir_case_id r, ''after''] pack = Some after \<and> node_at [ir_case_id r, ''before''] pack = Some before
     \<and> ([ir_case_id r, ''reference.patch''], utf8_encode reference, False) \<in> file_set pack
     \<and> ([ir_case_id r, ''pr.diff''], utf8_encode pr_diff, False) \<in> file_set pack
     \<and> reproduces w after reference before \<and> reproduces w before pr_diff after"
proof (rule import_parts [OF assms])
  fix spec pl staging checksum after before
  assume r: "r = result_of q spec pl checksum" and stage: "stage_pack w spec pl (provenance_of w q spec pl) = Inr staging"
    and check: "checksum_pack w staging = Inr (checksum, pack)" and i: "safe_case_id (case_id (sp_case spec))"
    and safe: "list_all file_safe (map fst (pl_after pl @ pl_before pl @ pl_tests pl))"
    and after: "node_at [case_id (sp_case spec), ''after''] staging = Some after"
      "wf_node after \<and> file_set after = set (tree_writes [] (pl_after pl))"
    and before: "node_at [case_id (sp_case spec), ''before''] staging = Some before"
      "wf_node before \<and> file_set before = set (tree_writes [] (pl_before pl))"
    and verified:
      "verify_reproduces w (Some after) (pl_after pl) (pl_reference pl) (pl_before pl) ''reference_patch_verification_failed'' = Inr ()"
      "verify_reproduces w (Some before) (pl_before pl) (pl_pr_diff pl) (pl_after pl) ''pr_diff_verification_failed'' = Inr ()"
  have id: "ir_case_id r = case_id (sp_case spec)" by (simp add: r result_of_def)
  have kept: "(a # p, bytes, x) \<in> file_set staging \<Longrightarrow> (a # p, bytes, x) \<in> file_set pack" for a p bytes x
    using checksum_keeps [OF check, of a p] by (auto simp: file_set_def simp del: node_at.simps)
  have written_patches: "e \<in> set (patch_writes w spec pl) \<Longrightarrow> e \<in> file_set staging" for e
    using staged [OF stage i safe] by simp
  have patches: "([ir_case_id r, ''reference.patch''], utf8_encode (pl_reference pl), False) \<in> file_set pack"
    "([ir_case_id r, ''pr.diff''], utf8_encode (pl_pr_diff pl), False) \<in> file_set pack"
    unfolding id by (rule kept, rule written_patches, simp add: patch_writes_def Let_def)+
  have trees: "node_at [ir_case_id r, ''after''] pack = Some after" "node_at [ir_case_id r, ''before''] pack = Some before"
    unfolding id using checksum_keeps [OF check after(1)] checksum_keeps [OF check before(1)] by auto
  have "reproduces w after (pl_reference pl) before" "reproduces w before (pl_pr_diff pl) after"
    using verified_reproduces [OF verified(1) before(2)] verified_reproduces [OF verified(2) after(2)] .
  then show ?thesis using trees patches by metis
qed

lemma map_of_loaded: "map_of (loaded_from repo tree) path = map_option (\<lambda>(mode, oid). (mode, content repo oid)) (map_of tree path)"
  by (induction tree) (auto simp: loaded_from_def)

lemma classified:
  assumes "classify_change spec path = Inr ()"
  shows "in_selected (sp_source_paths spec) path \<noteq> in_tests (sp_tests_root spec) path"
  using assms by (auto simp: classify_change_def Let_def split: if_split_asm)

lemma ground_truth_is_repair:
  "admit_ground_truth c after repair = Inr () \<Longrightarrow> set (bug_paths c) = set repair"
  by (auto simp: admit_ground_truth_def res_simps split: if_split_asm)

lemma set_source_changes:
  "set (source_changes buggy fixed) = {path. map_of buggy path \<noteq> map_of fixed path}"
proof -
  have "map_of buggy path \<noteq> map_of fixed path \<Longrightarrow> path \<in> set (map fst buggy @ map fst fixed)" for path
    by (metis UnCI map_of_eq_None_iff set_append set_map)
  then show ?thesis by (auto simp: source_changes_def)
qed

text \<open>The mode and the bytes that a tree that was read gives a path.\<close>

definition committed :: "source_repo \<Rightarrow> tree_index \<Rightarrow> string \<Rightarrow> (string \<times> string) option" where
  "committed repo tree path = map_option (\<lambda>(mode, oid). (mode, content repo oid)) (map_of tree path)"

text \<open>
  C37: an import is about two commits and nothing else. The fixed commit descends from the buggy one; the buggy tree of the
  case holds exactly the selected files of the buggy commit, with their bytes and executable bits, and the fixed tree those
  of the fixed commit. Every path that differs between the commits belongs to the selected sources or to the tests, never to both or
  neither, and to at most one selector. The files the case declares as buggy are exactly the selected files whose mode or
  bytes the fix changes.
\<close>

theorem imported_case_is_the_fix:
  assumes "import_fix w q = Inr (r, pack)"
  shows "\<exists>spec object_format after_tree before_tree changed after before.
     load_import_spec (iw_spec w) = Inr spec \<and> ir_case_id r = case_id (sp_case spec)
     \<and> is_ancestor (iw_repo w) (iq_buggy_commit q) (iq_fixed_commit q) = Inr True
     \<and> read_tree (iw_repo w) object_format (iq_buggy_commit q) (sorted_set (sp_source_paths spec)) = Inr after_tree
     \<and> read_tree (iw_repo w) object_format (iq_fixed_commit q) (sorted_set (sp_source_paths spec)) = Inr before_tree
     \<and> node_at [ir_case_id r, ''after''] pack = Some after \<and> node_at [ir_case_id r, ''before''] pack = Some before
     \<and> file_set after = set (tree_writes [] (loaded_from (iw_repo w) after_tree))
     \<and> file_set before = set (tree_writes [] (loaded_from (iw_repo w) before_tree))
     \<and> changed_tree_paths (iw_repo w) (iq_buggy_commit q) (iq_fixed_commit q) = Inr changed
     \<and> (\<forall>path \<in> set changed. in_selected (sp_source_paths spec) path \<noteq> in_tests (sp_tests_root spec) path)
     \<and> (\<forall>path. \<forall>a \<in> set (sp_source_paths spec). \<forall>b \<in> set (sp_source_paths spec). under path a \<and> under path b \<longrightarrow> a = b)
     \<and> set (ir_repair_changed_paths r) = {path. committed (iw_repo w) after_tree path \<noteq> committed (iw_repo w) before_tree path}
     \<and> set (bug_paths (sp_case spec)) = set (ir_repair_changed_paths r)"
proof (rule import_parts [OF assms])
  fix spec pl staging checksum after before
  assume spec: "load_import_spec (iw_spec w) = Inr spec" and pl: "plan_import w q spec = Inr pl"
    and r: "r = result_of q spec pl checksum" and check: "checksum_pack w staging = Inr (checksum, pack)"
    and at: "node_at [case_id (sp_case spec), ''after''] staging = Some after"
      "node_at [case_id (sp_case spec), ''before''] staging = Some before"
    and files: "wf_node after \<and> file_set after = set (tree_writes [] (pl_after pl))"
      "wf_node before \<and> file_set before = set (tree_writes [] (pl_before pl))"
  obtain object_format after_tree before_tree where
    ancestor: "is_ancestor (iw_repo w) (iq_buggy_commit q) (iq_fixed_commit q) = Inr True"
    and reads: "read_tree (iw_repo w) object_format (iq_buggy_commit q) (sorted_set (sp_source_paths spec)) = Inr after_tree"
      "read_tree (iw_repo w) object_format (iq_fixed_commit q) (sorted_set (sp_source_paths spec)) = Inr before_tree"
    and d: "distinct (map fst after_tree)" "distinct (map fst before_tree)"
    and trees: "pl_after pl = loaded_from (iw_repo w) (sort_key fst after_tree)"
      "pl_before pl = loaded_from (iw_repo w) (sort_key fst before_tree)"
    and selectors: "validate_source_selectors (sp_source_paths spec) (map fst after_tree @ map fst before_tree) = Inr ()"
    and repair: "pl_repair pl = source_changes (pl_after pl) (pl_before pl)"
    and changed: "changed_tree_paths (iw_repo w) (iq_buggy_commit q) (iq_fixed_commit q) = Inr (pl_changed pl)"
      "check_all (classify_change spec) (pl_changed pl) = Inr ()"
    and truth: "admit_ground_truth (sp_case spec) (pl_after pl) (pl_repair pl) = Inr ()"
    by (rule plan_commits [OF pl])
  have id: "ir_case_id r = case_id (sp_case spec)" and repaired: "ir_repair_changed_paths r = pl_repair pl"
    by (simp_all add: r result_of_def)
  have writes: "file_set after = set (tree_writes [] (loaded_from (iw_repo w) after_tree))"
    "file_set before = set (tree_writes [] (loaded_from (iw_repo w) before_tree))"
    using files by (simp_all add: trees tree_writes_def loaded_from_def)
  have differ: "set (ir_repair_changed_paths r)
      = {path. committed (iw_repo w) after_tree path \<noteq> committed (iw_repo w) before_tree path}"
    unfolding repaired repair trees set_source_changes map_of_loaded committed_def map_of_sort_key ..
  have split: "\<forall>path \<in> set (pl_changed pl). in_selected (sp_source_paths spec) path \<noteq> in_tests (sp_tests_root spec) path"
    using changed(2) classified by (auto simp: res_simps)
  have one: "\<forall>path. \<forall>a \<in> set (sp_source_paths spec). \<forall>b \<in> set (sp_source_paths spec). under path a \<and> under path b \<longrightarrow> a = b"
    using one_selector [OF selectors] by blast
  have truth': "set (bug_paths (sp_case spec)) = set (ir_repair_changed_paths r)"
    unfolding repaired using ground_truth_is_repair [OF truth] .
  have at': "node_at [ir_case_id r, ''after''] pack = Some after" "node_at [ir_case_id r, ''before''] pack = Some before"
    unfolding id using checksum_keeps [OF check at(1)] checksum_keeps [OF check at(2)] .
  show ?thesis
    by (rule exI [of _ spec], rule exI [of _ object_format], rule exI [of _ after_tree], rule exI [of _ before_tree],
        rule exI [of _ "pl_changed pl"], rule exI [of _ after], rule exI [of _ before], intro conjI)
      (fact spec id ancestor reads at' writes changed(1) split one differ truth')+
qed

section \<open>A fix that is imported\<close>

text \<open>
  Two commits of one file: \<open>x\<close> and \<open>y\<close> on two lines before the fix, \<open>z\<close> after it. Git stands for three repositories: the source, the
  private one of the diffs, and the workspace of a patch, where every patch exchanges the two contents.
\<close>

definition old_text :: string where "old_text = join_with [CHR 0x0A] [''x'', ''y'', []]"

definition text_blob :: "string \<Rightarrow> string" where
  "text_blob bytes = replicate 40 (if bytes = old_text then CHR ''a'' else CHR ''b'')"

definition blob_text :: "string \<Rightarrow> string" where
  "blob_text oid = (if hd oid = CHR ''a'' then old_text else ''z'')"

definition old_commit :: string where "old_commit = replicate 40 CHR ''1''"
definition new_commit :: string where "new_commit = replicate 40 CHR ''2''"

definition change_record :: "string \<Rightarrow> string \<Rightarrow> string" where
  "change_record old new = '':100644 100644 '' @ text_blob old @ '' '' @ text_blob new @ '' M'' @ [NUL] @ ''a.py'' @ [NUL]"

definition history_git :: "string list \<Rightarrow> git_outcome" where
  "history_git args = GitExit 0
     (if args = [''rev-parse'', ''--show-object-format''] then ''sha1''
      else if take 2 args = [''cat-file'', ''-t''] then ''commit''
      else if take 2 args = [''rev-parse'', ''--verify''] then take 40 (last args)
      else if take 1 args = [''merge-base''] then old_commit
      else if take 1 args = [''ls-tree'']
      then ''100644 blob '' @ text_blob (if args ! 3 = old_commit then old_text else ''z'') @ [CHR 0x09] @ ''a.py'' @ [NUL]
      else if take 2 args = [''cat-file'', ''blob''] then blob_text (last args)
      else if take 1 args = [''diff-tree''] then change_record old_text ''z'' else []) []"

definition staging_git :: "string list \<Rightarrow> (string \<times> string) list \<Rightarrow> string \<Rightarrow> node \<Rightarrow> git_outcome \<times> node" where
  "staging_git args env stdin w = (GitExit 0
     (if take 1 args = [''hash-object''] then text_blob stdin
      else if take 1 args = [''cat-file''] then blob_text (last args)
      else if args = [''write-tree''] then the (map_of env ''GIT_INDEX_FILE'')
      else if take 1 args = [''diff'']
      then join_with [CHR 0x0A]
        (if last args = ''f'' then [''+++ b/a.py'', ''@@ -1,2 +1 @@'', ''-x'', ''-y'', ''+z'', []]
         else [''+++ b/a.py'', ''@@ -1 +1,2 @@'', ''-z'', ''+x'', ''+y'', []])
      else []) [], w)"

definition file_bytes :: "node \<Rightarrow> string" where
  "file_bytes w = (case node_path ''a.py'' w of Some (File bytes _ _) \<Rightarrow> bytes | _ \<Rightarrow> [])"

definition other_text :: "string \<Rightarrow> string" where
  "other_text bytes = (if bytes = old_text then ''z'' else old_text)"

definition workspace_git :: "string list \<Rightarrow> (string \<times> string) list \<Rightarrow> string \<Rightarrow> node \<Rightarrow> git_outcome \<times> node" where
  "workspace_git args env stdin w =
     (let bytes = file_bytes w; git = (\<lambda>b. Dir [(''.git'', Dir []), (''a.py'', File b False 1)]) in
      if args = [''init'', ''-q''] then (GitExit 0 [] [], git bytes)
      else if args = [''apply'', ''--index'', ''--whitespace=nowarn'', ''-''] then (GitExit 0 [] [], git (other_text bytes))
      else (GitExit 0
        (if args = [''rev-parse'', ''--show-object-format''] then ''sha1''
         else if take 1 args = [''hash-object''] then text_blob bytes
         else if take 1 args = [''ls-files''] then ''100644 '' @ text_blob bytes @ '' 0'' @ [CHR 0x09] @ ''a.py'' @ [NUL]
         else if args = [''write-tree''] then text_blob bytes
         else if take 1 args = [''diff''] then change_record (other_text bytes) bytes else []) [], w))"

definition git_for :: "(string list \<Rightarrow> (string \<times> string) list \<Rightarrow> string \<Rightarrow> node \<Rightarrow> git_outcome \<times> node) \<Rightarrow> git_context" where
  "git_for git = \<lparr>cx_git = git, cx_env = [], cx_config = [], cx_scrub = [], cx_decode_replace = (\<lambda>s. s),
     cx_beyond_link = (\<lambda>_. None)\<rparr>"

definition fix_world :: import_world where
  "fix_world = \<lparr>iw_repo = \<lparr>so_git = history_git, so_text = (\<lambda>s. s)\<rparr>, iw_repo_exists = True, iw_grafts = (\<lambda>_. None),
     iw_diff = git_for staging_git, iw_index_b = ''b'', iw_index_f = ''f'', iw_apply = git_for workspace_git,
     iw_sha256 = (\<lambda>s. s), iw_codec = latin, iw_comments = (\<lambda>_. Some []),
     iw_spec = Inr \<lparr>sp_version = ''v1'', sp_name = ''n'', sp_case = small_case, sp_source_paths = [''a.py''], sp_tests_root = None\<rparr>,
     iw_case_yaml = (\<lambda>_ _. ''y''), iw_manifest_yaml = (\<lambda>_ _ _. ''m''), iw_json = (\<lambda>_. ''j''), iw_posix = True,
     iw_writes = (\<lambda>_. True), iw_snapshots = short_world,
     iw_views = (\<lambda>_. (still_view still_pack still_files,
       still_view (still_pack @ [still_file ''pack.sha256'' 5 [checksum_line ''13'']])
         (still_files @ [(''pack.sha256'', checksum_line ''13'')]))),
     iw_pack = (\<lambda>n. small_pack\<lparr>pk_case := (\<lambda>name. \<lparr>cs_is_symlink = False, cs_yaml = Inr small_case,
       cs_tree = (case node_path name n of None \<Rightarrow> Dir [] | Some tree \<Rightarrow> tree)\<rparr>)\<rparr>),
     iw_output_exists = False, iw_parent = Dir_there, iw_staging_made = True, iw_parent_late = Dir_there,
     iw_output_late = False, iw_claimed = True, iw_moved = True\<rparr>"

definition fix_request :: import_request where
  "fix_request = \<lparr>iq_buggy_commit = old_commit, iq_fixed_commit = new_commit, iq_source_label = Some ''owner/project''\<rparr>"

lemma fix_imported:
  "map_sum id (\<lambda>(r, pack). (ir_case_id r, ir_repair_changed_paths r, ir_pack_checksum r)) (import_fix fix_world fix_request)
     = Inr (''case-1'', [''a.py''], ''13'')"
  by code_simp

lemma fix_run:
  obtains r pack where "import_fix fix_world fix_request = Inr (r, pack)" "ir_case_id r = ''case-1''"
    "ir_repair_changed_paths r = [''a.py'']"
  using fix_imported by (cases "import_fix fix_world fix_request") auto

theorem imported_case_round_trip_witness:
  "\<exists>r pack after before reference pr_diff. import_fix fix_world fix_request = Inr (r, pack)
     \<and> node_at [''case-1'', ''after''] pack = Some after \<and> node_at [''case-1'', ''before''] pack = Some before
     \<and> reproduces fix_world after reference before \<and> reproduces fix_world before pr_diff after"
proof -
  obtain r pack where run: "import_fix fix_world fix_request = Inr (r, pack)" "ir_case_id r = ''case-1''" by (rule fix_run)
  show ?thesis using imported_case_round_trip [OF run(1)] run unfolding run(2) by metis
qed

theorem imported_case_is_the_fix_witness:
  "\<exists>spec. load_import_spec (iw_spec fix_world) = Inr spec \<and> set (bug_paths (sp_case spec)) = {''a.py''}"
proof -
  obtain r pack where run: "import_fix fix_world fix_request = Inr (r, pack)" "ir_repair_changed_paths r = [''a.py'']"
    by (rule fix_run)
  obtain spec where "load_import_spec (iw_spec fix_world) = Inr spec"
    "set (bug_paths (sp_case spec)) = set (ir_repair_changed_paths r)"
    using imported_case_is_the_fix [OF run(1)] by metis
  then show ?thesis using run(2) by (intro exI [of _ spec]) simp
qed

end
