(* ===== verification/Spec2Isabelle.thy ===== *)
theory Spec2Isabelle
  imports Api Certify Importer
begin

text \<open>
  Code Review Arena, the harness under \<open>arena/\<close>: a benchmark for code-review agents that runs what a reviewer proposes.

  \<^bold>\<open>The program.\<close> A pack is a directory of cases. It is copied into a sealed snapshot (\<open>benchmark/snapshot.py\<close>), loaded and
  checked (\<open>case_loader.py\<close>, \<open>dataset_validator.py\<close>). For every case the runner (\<open>benchmark_runner.py\<close>) materialises the
  broken tree, gives the reviewer a blind payload (\<open>reviewers/\<close>), parses the answer (\<open>response_parser.py\<close>), scores the
  findings against the seeded bugs (\<open>scoring/\<close>), applies the proposed patch with Git in a private copy
  (\<open>git_pipeline.py\<close>), runs the hidden tests (\<open>execution/\<close>), checks that they were left alone (\<open>integrity.py\<close>), runs the
  structural validators (\<open>validators/\<close>) and derives the evidence of the case. The run record is aggregated, sealed in
  a bundle (\<open>reports/bundle.py\<close>), stored (\<open>storage/\<close>), ranked (\<open>reports/leaderboard.py\<close>) and served (\<open>server/\<close>).
  Cases are generated from historical fixes (\<open>importer/\<close>), scanned for leaks (\<open>contamination.py\<close>) and graded (\<open>certify.py\<close>).

  \<^bold>\<open>Conventions.\<close> A Python \<open>str\<close> or \<open>bytes\<close> is a \<^typ>\<open>string\<close> of code points 0 to 255, an integer an \<^typ>\<open>int\<close> or \<^typ>\<open>nat\<close>, a
  float an exact rational (rounding written out where the code rounds), an exception the \<open>Inl\<close> of a sum, a dictionary a
  map, or an association list where its order matters. Git, Docker, the child processes, the clock, HTTP, SHA-256, YAML,
  \<open>tokenize\<close>, \<open>ast\<close> and the wording of library errors are parameters, collected in records named \<open>.._world\<close>,
  \<open>.._context\<close> or \<open>.._env\<close>; what a theorem needs of them is one of its hypotheses.

  \<^bold>\<open>Theories and what their lemmas show.\<close>

  \<^item> \<open>Prelude\<close>: results, early-exit loops, strings and dictionaries; \<open>Numbers\<close>: rounding; \<open>Size_Limits\<close>: \<open>core/limits.py\<close>.
  \<^item> \<open>Safe_Paths\<close> (\<open>security/paths.py\<close>): the path policy as an equivalence, and containment of accepted paths.
  \<^item> \<open>Models\<close>, \<open>Results\<close> (\<open>core/models.py\<close>): every class, its constraints and validators.
  \<^item> \<open>Metrics\<close>, \<open>Text_Match\<close>, \<open>Matching\<close>, \<open>Scoring\<close>, \<open>Det_Scorer\<close> (\<open>scoring/\<close>): the Hungarian solver computes a
    maximum-weight matching, the scored assignment is the best one, every finding is accounted for, a deterministic
    pass is exactly the conjunction of its gates, and aggregated rates are rates.
  \<^item> \<open>Patch_Parser\<close>, \<open>Git_Output\<close>, \<open>Workspace\<close>, \<open>Manifest_Diff\<close>, \<open>Git_Transaction\<close> (\<open>patching/\<close>, \<open>execution/integrity.py\<close>): the
    result policy and the byte check of an index are exact, an applied patch stays contained, every ending of the
    transaction is described with its reason and what it leaves on the disk, and the manifest comparison reports exactly the
    changed tests of the trees its roots lead to.
  \<^item> \<open>Strict_JSON\<close>, \<open>Response_Parser\<close>, \<open>Reviewers\<close> (\<open>reviewers/\<close>): no accepted finding names a path that was not admitted,
    and external reviews depend on five fields of the context only.
  \<^item> \<open>Test_Executor\<close> (\<open>execution/\<close>): no silent fallback between back ends, and bounded output.
  \<^item> \<open>Case_Loader\<close> (\<open>benchmark/\<close>): an admitted pack is sound, and the context stays within its budget.
  \<^item> \<open>Pack_Hash\<close>, \<open>Snapshot\<close>: what the digests determine, a sealed snapshot is what was read, within every limit, and drift is detected.
  \<^item> \<open>Certify\<close> (\<open>mutation.py\<close>, \<open>solution.py\<close>, \<open>certify.py\<close>): a mutant is one flipped operator away from the solution, and a
    level is reached exactly when its gates hold in the executions that were made.
  \<^item> \<open>Contamination\<close> (\<open>contamination.py\<close>, \<open>source_text.py\<close>): the scan reports exactly the curated phrases that a diff line, a
    comment or a test name says.
  \<^item> \<open>Source_Repo\<close>, \<open>Importer\<close> (\<open>importer/\<close>): committed trees are read within one budget, the two diffs of an imported case
    turn each of its trees into the other, and the declared bugs are exactly what the historical fix changed.
  \<^item> \<open>Pattern\<close>, \<open>Validators\<close> (\<open>validators/\<close>): the pattern search agrees with the relation a pattern denotes; files
    that differ in comments only get the same reports, and a report has an error exactly when it is no verdict on the file.
  \<^item> \<open>Case_Run\<close>, \<open>Runner\<close>, \<open>Bundle\<close>: when a repair counts as complete, that tampering never validates, that without
    the opt-in a run does not depend on what commands do on the host, that a run always publishes a record which accounts for
    every case, and that a pinned bundle is the one that was sealed.
  \<^item> \<open>Leaderboard\<close>, \<open>Storage\<close>, \<open>Job_Queue\<close>, \<open>Api\<close>: only runs whose record can be trusted rank, both leaderboards agree, upgrades of the database
    can be interrupted, saving keeps it consistent, the job queue keeps its bound and drains, and who may start what.

  \<^bold>\<open>Interfaces.\<close> Where one component relies on another the contract is a locale, interpreted on the model:
  \<open>manifest_diff\<close> (what a comparison of test manifests promises), \<open>reviewer\<close> and \<open>blind_reviewer\<close> (what every reviewer returns,
  and what an external one must not see), \<open>latest_table\<close> (the latest run per identity, on report files and on stored documents),
  \<open>case_evaluator\<close> (what the runner needs of the evaluation of a case), \<open>pack_walk\<close> (what a walk needs of its visitors, for
  the three walks of a snapshot).

  \<^bold>\<open>Loops and fuel.\<close> The solver has fuel bounded by its columns, which its correctness theorem shows to suffice; reserving a run directory has
  as fuel one more than the number of existing directories; \<open>walk_fd\<close> ends because the depth limit
  is a measure; every other loop is a structural recursion or carries a termination proof.

  \<^bold>\<open>Not modelled.\<close> The command line, HTML, Markdown and JSON reports and the audit report (rendered texts of records that are modelled),
  the prepared answers of the calibration reviewers, the case listing of the server, pydantic's type coercion, Unicode above code point 255
  (normalisers are parameters), the walk for systems without directory descriptors, and the fixture code of the packs.
\<close>

end
